(* ===== verification/Prelude.thy ===== *)
theory Prelude
  imports Main "HOL-Library.Word"
begin

text \<open>
  The vocabulary shared by all components: C characters and C strings, null
  pointers, the return codes of \<^verbatim>\<open>include/neostats.h\<close>, buffer sizes and the
  generic lemmas on lists that the component proofs use.

  A C string is a HOL \<open>string\<close>: the characters before the terminating NUL.
  Reading through a pointer that has reached the end of the string gives NUL
  (\<open>deref\<close>), moving the pointer is \<open>tl\<close>. A pointer that the code tests against NULL
  is an \<open>option\<close>.
\<close>

unbundle bit_operations_syntax

named_theorems irc_simps \<open>evaluation rules for the IRC string routines\<close>
named_theorems list_ops \<open>abstract effect of the operations of list.c\<close>
named_theorems state_frame \<open>which parts of the network state an operation leaves alone\<close>

type_synonym uint = "32 word"
type_synonym ulong = "64 word"
type_synonym time_t = int

section \<open>Return codes and limits of include/neostats.h\<close>

definition NS_SUCCESS :: int where "NS_SUCCESS = 1"
definition NS_FAILURE :: int where "NS_FAILURE = -1"
definition NS_TRUE :: int where "NS_TRUE = 1"
definition NS_FALSE :: int where "NS_FALSE = 0"

lemmas ns_codes = NS_SUCCESS_def NS_FAILURE_def NS_TRUE_def NS_FALSE_def

definition BUFSIZE :: nat where "BUFSIZE = 512"
definition MAXHOST :: nat where "MAXHOST = 128 + 1"
definition MAXPASS :: nat where "MAXPASS = 32 + 1"
definition MAXNICK :: nat where "MAXNICK = 32 + 1"
definition MAXUSER :: nat where "MAXUSER = 15 + 1"
definition MAXREALNAME :: nat where "MAXREALNAME = 50 + 1"
definition MAXCHANLEN :: nat where "MAXCHANLEN = 50 + 1"
definition USERHOSTLEN :: nat where "USERHOSTLEN = MAXNICK + MAXHOST + MAXUSER + 5"
definition MODESIZE :: nat where "MODESIZE = 53"
definition PARAMSIZE :: nat where "PARAMSIZE = MAXNICK + MAXUSER + MAXHOST + 10"
definition B64SIZE :: nat where "B64SIZE = 16"
definition KEYLEN :: nat where "KEYLEN = 32 + 1"
definition MAXREASON :: nat where "MAXREASON = 128"
definition MAX_MOD_NAME :: nat where "MAX_MOD_NAME = 32"
definition HOSTIPLEN :: nat where "HOSTIPLEN = 15 + 1"
definition BASE64SERVERSIZE :: nat where "BASE64SERVERSIZE = 2"
definition BASE64NICKSIZE :: nat where "BASE64NICKSIZE = 5"

lemmas ns_sizes = BUFSIZE_def MAXHOST_def MAXPASS_def MAXNICK_def MAXUSER_def MAXREALNAME_def
  MAXCHANLEN_def USERHOSTLEN_def MODESIZE_def PARAMSIZE_def B64SIZE_def KEYLEN_def MAXREASON_def
  MAX_MOD_NAME_def HOSTIPLEN_def BASE64SERVERSIZE_def BASE64NICKSIZE_def

section \<open>C strings\<close>

abbreviation NUL :: char where "NUL \<equiv> CHR 0x00"

text \<open>A character as the unsigned byte a table is indexed with.\<close>

abbreviation byte_of :: "char \<Rightarrow> nat" where "byte_of c \<equiv> of_char c"

lemma byte_of_0_iff [simp]: "byte_of c = 0 \<longleftrightarrow> c = NUL"
  using of_char_eq_iff [where 'a = nat, of c NUL] by simp

text \<open>Reading \<^verbatim>\<open>*s\<close>.\<close>

definition deref :: "string \<Rightarrow> char" where
  "deref s = (case s of [] \<Rightarrow> NUL | c # _ \<Rightarrow> c)"

lemma deref_simps [simp]: "deref [] = NUL" "deref (c # cs) = c"
  by (simp_all add: deref_def)

text \<open>The characters a C routine can see: those before the first NUL.\<close>

definition c_str :: "string \<Rightarrow> string" where
  "c_str s = takeWhile (\<lambda>c. c \<noteq> NUL) s"

definition nul_free :: "string \<Rightarrow> bool" where
  "nul_free s \<longleftrightarrow> NUL \<notin> set s"

lemma c_str_simps [simp]:
  "c_str [] = []" "c_str (c # cs) = (if c = NUL then [] else c # c_str cs)"
  by (simp_all add: c_str_def)

lemma nul_free_simps [simp]:
  "nul_free []" "nul_free (c # cs) \<longleftrightarrow> c \<noteq> NUL \<and> nul_free cs"
  "nul_free (xs @ ys) \<longleftrightarrow> nul_free xs \<and> nul_free ys"
  by (auto simp: nul_free_def)

lemma c_str_nul_free [simp]: "nul_free s \<Longrightarrow> c_str s = s"
  by (induction s) auto

lemma nul_free_c_str [simp]: "nul_free (c_str s)"
  by (induction s) auto

lemma nul_free_take [simp]: "nul_free s \<Longrightarrow> nul_free (take n s)"
  by (auto simp: nul_free_def dest: in_set_takeD)

lemma nul_free_drop [simp]: "nul_free s \<Longrightarrow> nul_free (drop n s)"
  by (auto simp: nul_free_def dest: in_set_dropD)

lemma deref_tl_less [termination_simp]: "deref s \<noteq> NUL \<Longrightarrow> length s - Suc 0 < length s"
  by (cases s) auto

lemma deref_NUL_nul_free: "nul_free s \<Longrightarrow> deref s = NUL \<longleftrightarrow> s = []"
  by (cases s) auto

section \<open>Generic lemmas on lists\<close>

lemma list_all_upt_iff: "list_all P [0..<n] \<longleftrightarrow> (\<forall>i<n. P i)"
  by (auto simp: list_all_iff)

text \<open>
  Removing the first element that satisfies a predicate, as the searches of the code
  followed by a deletion do.
\<close>

fun remove_first :: "('a \<Rightarrow> bool) \<Rightarrow> 'a list \<Rightarrow> 'a list" where
  "remove_first P [] = []"
| "remove_first P (x # xs) = (if P x then xs else x # remove_first P xs)"

lemma remove_first_none [simp]: "\<not> (\<exists>x\<in>set xs. P x) \<Longrightarrow> remove_first P xs = xs"
  by (induction xs) auto

lemma set_remove_first_subset: "set (remove_first P xs) \<subseteq> set xs"
  by (induction xs) auto

lemma remove_first_keeps: "x \<in> set xs \<Longrightarrow> \<not> P x \<Longrightarrow> x \<in> set (remove_first P xs)"
  by (induction xs) auto

lemma length_remove_first:
  "\<exists>x\<in>set xs. P x \<Longrightarrow> Suc (length (remove_first P xs)) = length xs"
  by (induction xs) auto

lemma distinct_map_remove_first:
  "distinct (map f xs) \<Longrightarrow> distinct (map f (remove_first P xs))"
proof (induction xs)
  case (Cons x xs)
  then show ?case
    using set_remove_first_subset [of P xs] by auto
qed simp

text \<open>
  A table checked entry by entry, the index running along: the form in which the
  simplifier evaluates a statement about every entry of a literal table.
\<close>

fun indexed_all :: "(nat \<Rightarrow> 'a \<Rightarrow> bool) \<Rightarrow> nat \<Rightarrow> 'a list \<Rightarrow> bool" where
  "indexed_all P n [] = True"
| "indexed_all P n (x # xs) = (P n x \<and> indexed_all P (n + 1) xs)"

lemma indexed_all_nth:
  "indexed_all P n xs \<Longrightarrow> i < length xs \<Longrightarrow> P (n + i) (xs ! i)"
proof (induction xs arbitrary: n i)
  case (Cons x xs)
  then show ?case by (cases i) fastforce+
qed simp

lemmas indexed_all_0 = indexed_all_nth [where n = 0, simplified]

text \<open>Updating the first element that satisfies a predicate.\<close>

fun update_first :: "('a \<Rightarrow> bool) \<Rightarrow> ('a \<Rightarrow> 'a) \<Rightarrow> 'a list \<Rightarrow> 'a list" where
  "update_first P f [] = []"
| "update_first P f (x # xs) = (if P x then f x # xs else x # update_first P f xs)"

lemma length_update_first [simp]: "length (update_first P f xs) = length xs"
  by (induction xs) auto

lemma map_update_first:
  "(\<And>x. g (f x) = g x) \<Longrightarrow> map g (update_first P f xs) = map g xs"
  by (induction xs) auto

lemma takeWhile_all: "list_all P xs \<Longrightarrow> takeWhile P xs = xs"
  by (induction xs) auto

end
