(* ===== verification/IrcString.thy ===== *)
theory IrcString
  imports Prelude
begin

text \<open>
  \<^verbatim>\<open>src/ircstring.c\<close>: the case-insensitive string comparison the whole program
  keys its users, servers and channels by, and the \<^verbatim>\<open>snprintf\<close> replacement.
\<close>

section \<open>Case-insensitive comparison\<close>

definition irctolowertable :: "nat list" where
  "irctolowertable = [
    0x00, 0x01, 0x02, 0x03, 0x04, 0x05, 0x06, 0x07, 0x08, 0x09, 0x0a, 0x0b, 0x0c, 0x0d, 0x0e, 0x0f,
    0x10, 0x11, 0x12, 0x13, 0x14, 0x15, 0x16, 0x17, 0x18, 0x19, 0x1a, 0x1b, 0x1c, 0x1d, 0x1e, 0x1f,
    0x20, 0x21, 0x22, 0x23, 0x24, 0x25, 0x26, 0x27, 0x28, 0x29, 0x2a, 0x2b, 0x2c, 0x2d, 0x2e, 0x2f,
    0x30, 0x31, 0x32, 0x33, 0x34, 0x35, 0x36, 0x37, 0x38, 0x39, 0x3a, 0x3b, 0x3c, 0x3d, 0x3e, 0x3f,
    0x40, 0x61, 0x62, 0x63, 0x64, 0x65, 0x66, 0x67, 0x68, 0x69, 0x6a, 0x6b, 0x6c, 0x6d, 0x6e, 0x6f,
    0x70, 0x71, 0x72, 0x73, 0x74, 0x75, 0x76, 0x77, 0x78, 0x79, 0x7a, 0x7b, 0x7c, 0x7d, 0x5e, 0x5f,
    0x60, 0x61, 0x62, 0x63, 0x64, 0x65, 0x66, 0x67, 0x68, 0x69, 0x6a, 0x6b, 0x6c, 0x6d, 0x6e, 0x6f,
    0x70, 0x71, 0x72, 0x73, 0x74, 0x75, 0x76, 0x77, 0x78, 0x79, 0x7a, 0x7b, 0x7c, 0x7d, 0x7e, 0x7f,
    0x80, 0x81, 0x82, 0x83, 0x84, 0x85, 0x86, 0x87, 0x88, 0x89, 0x8a, 0x8b, 0x8c, 0x8d, 0x8e, 0x8f,
    0x90, 0x91, 0x92, 0x93, 0x94, 0x95, 0x96, 0x97, 0x98, 0x99, 0x9a, 0x9b, 0x9c, 0x9d, 0x9e, 0x9f,
    0xa0, 0xa1, 0xa2, 0xa3, 0xa4, 0xa5, 0xa6, 0xa7, 0xa8, 0xa9, 0xaa, 0xab, 0xac, 0xad, 0xae, 0xaf,
    0xb0, 0xb1, 0xb2, 0xb3, 0xb4, 0xb5, 0xb6, 0xb7, 0xb8, 0xb9, 0xba, 0xbb, 0xbc, 0xbd, 0xbe, 0xbf,
    0xc0, 0xc1, 0xc2, 0xc3, 0xc4, 0xc5, 0xc6, 0xc7, 0xc8, 0xc9, 0xca, 0xcb, 0xcc, 0xcd, 0xce, 0xcf,
    0xd0, 0xd1, 0xd2, 0xd3, 0xd4, 0xd5, 0xd6, 0xd7, 0xd8, 0xd9, 0xda, 0xdb, 0xdc, 0xdd, 0xde, 0xdf,
    0xe0, 0xe1, 0xe2, 0xe3, 0xe4, 0xe5, 0xe6, 0xe7, 0xe8, 0xe9, 0xea, 0xeb, 0xec, 0xed, 0xee, 0xef,
    0xf0, 0xf1, 0xf2, 0xf3, 0xf4, 0xf5, 0xf6, 0xf7, 0xf8, 0xf9, 0xfa, 0xfb, 0xfc, 0xfd, 0xfe, 0xff]"

definition IRCTOLOWER :: "char \<Rightarrow> nat" where
  "IRCTOLOWER c = irctolowertable ! byte_of c"

lemma irctolowertable_entries:
  "indexed_all (\<lambda>n v. v = (if 65 \<le> n \<and> n \<le> 93 then n + 32 else n)) 0 irctolowertable"
  by (simp add: irctolowertable_def)

lemma length_irctolowertable [simp]: "length irctolowertable = 256"
  by (simp add: irctolowertable_def)

lemma IRCTOLOWER_eq:
  "IRCTOLOWER c = (if 65 \<le> byte_of c \<and> byte_of c \<le> 93 then byte_of c + 32 else byte_of c)"
  using indexed_all_0 [OF irctolowertable_entries, of "byte_of c"]
  by (simp add: IRCTOLOWER_def)

lemma IRCTOLOWER_NUL [simp]: "IRCTOLOWER NUL = 0"
  by (simp add: IRCTOLOWER_eq)

lemma IRCTOLOWER_0_iff: "IRCTOLOWER c = 0 \<longleftrightarrow> c = NUL"
  by (auto simp: IRCTOLOWER_eq)

text \<open>\<open>ircstrcasecmp\<close>: the loop on two strings, and the null pointer test around it.\<close>

fun ircstrcasecmp_loop :: "string \<Rightarrow> string \<Rightarrow> int" where
  "ircstrcasecmp_loop s1 s2 =
     (if IRCTOLOWER (deref s1) = IRCTOLOWER (deref s2)
      then if deref s1 = NUL then 0 else ircstrcasecmp_loop (tl s1) (tl s2)
      else int (IRCTOLOWER (deref s1)) - int (IRCTOLOWER (deref s2)))"

declare ircstrcasecmp_loop.simps [simp del]

definition ircstrcasecmp :: "string option \<Rightarrow> string option \<Rightarrow> int" where
  "ircstrcasecmp s1 s2 =
     (case s1 of None \<Rightarrow> 0
      | Some a \<Rightarrow> (case s2 of None \<Rightarrow> 0 | Some b \<Rightarrow> ircstrcasecmp_loop a b))"

text \<open>\<open>ircstrncasecmp\<close>.\<close>

fun ircstrncasecmp_loop :: "string \<Rightarrow> string \<Rightarrow> nat \<Rightarrow> int" where
  "ircstrncasecmp_loop s1 s2 0 = 0"
| "ircstrncasecmp_loop s1 s2 (Suc sz) =
     (if IRCTOLOWER (deref s1) = IRCTOLOWER (deref s2)
      then if deref s1 = NUL then 0 else ircstrncasecmp_loop (tl s1) (tl s2) sz
      else int (IRCTOLOWER (deref s1)) - int (IRCTOLOWER (deref s2)))"

definition ircstrncasecmp :: "string option \<Rightarrow> string option \<Rightarrow> nat \<Rightarrow> int" where
  "ircstrncasecmp s1 s2 sz =
     (case s1 of None \<Rightarrow> 0
      | Some a \<Rightarrow> (case s2 of None \<Rightarrow> 0
                  | Some b \<Rightarrow> if sz = 0 then 0 else ircstrncasecmp_loop a b sz))"

text \<open>
  The comparison works on the folded string: the visible characters of \<open>s\<close>, each
  replaced by its table entry. Two strings compare equal exactly when they fold to the
  same list, and the sign is that of the first folded difference.
\<close>

definition irc_fold :: "string \<Rightarrow> nat list" where
  "irc_fold s = map IRCTOLOWER (c_str s)"

lemma irc_fold_simps [simp]:
  "irc_fold [] = []"
  "irc_fold (c # cs) = (if c = NUL then [] else IRCTOLOWER c # irc_fold cs)"
  by (simp_all add: irc_fold_def)

fun lex_cmp :: "nat list \<Rightarrow> nat list \<Rightarrow> int" where
  "lex_cmp [] [] = 0"
| "lex_cmp [] (y # ys) = - int y"
| "lex_cmp (x # xs) [] = int x"
| "lex_cmp (x # xs) (y # ys) = (if x = y then lex_cmp xs ys else int x - int y)"

lemma ircstrcasecmp_loop_lex: "ircstrcasecmp_loop s1 s2 = lex_cmp (irc_fold s1) (irc_fold s2)"
proof (induction s1 s2 rule: ircstrcasecmp_loop.induct)
  case (1 s1 s2)
  show ?case
  proof (cases s1; cases s2)
    fix a as b bs
    assume s: "s1 = a # as" "s2 = b # bs"
    with "1.IH" show ?thesis
      by (subst ircstrcasecmp_loop.simps) (auto simp: IRCTOLOWER_0_iff)
  qed (subst ircstrcasecmp_loop.simps, auto simp: IRCTOLOWER_0_iff)+
qed

lemma lex_cmp_refl [simp]: "lex_cmp xs xs = 0"
  by (induction xs) auto

lemma lex_cmp_sym: "lex_cmp ys xs = - lex_cmp xs ys"
  by (induction xs ys rule: lex_cmp.induct) auto

lemma lex_cmp_0: "0 \<notin> set xs \<Longrightarrow> 0 \<notin> set ys \<Longrightarrow> lex_cmp xs ys = 0 \<longleftrightarrow> xs = ys"
  by (induction xs ys rule: lex_cmp.induct) auto

lemma lex_cmp_trans:
  "0 \<notin> set xs \<Longrightarrow> 0 \<notin> set ys \<Longrightarrow> 0 \<notin> set zs \<Longrightarrow>
   lex_cmp xs ys \<le> 0 \<Longrightarrow> lex_cmp ys zs \<le> 0 \<Longrightarrow> lex_cmp xs zs \<le> 0"
proof (induction xs ys arbitrary: zs rule: lex_cmp.induct)
  case (2 y ys)
  then show ?case by (cases zs) (auto split: if_splits)
next
  case (4 x xs y ys)
  then show ?case by (cases zs) (auto split: if_splits)
qed auto

lemma irc_fold_no_0 [simp]: "0 \<notin> set (irc_fold s)"
  by (induction s) (auto simp: IRCTOLOWER_0_iff)

lemma ircstrcasecmp_0: "ircstrcasecmp (Some a) (Some b) = 0 \<longleftrightarrow> irc_fold a = irc_fold b"
  by (simp add: ircstrcasecmp_def ircstrcasecmp_loop_lex lex_cmp_0)

text \<open>
  The test the callers write, \<^verbatim>\<open>ircstrcasecmp( a, b ) == 0\<close> on two strings.
\<close>

definition irc_eq :: "string \<Rightarrow> string \<Rightarrow> bool" where
  "irc_eq a b \<longleftrightarrow> ircstrcasecmp (Some a) (Some b) = 0"

lemma irc_eq_iff: "irc_eq a b \<longleftrightarrow> irc_fold a = irc_fold b"
  by (simp add: irc_eq_def ircstrcasecmp_0)

lemma irc_eq_refl [simp]: "irc_eq a a"
  by (simp add: irc_eq_iff)

lemma irc_eq_sym: "irc_eq a b \<longleftrightarrow> irc_eq b a"
  by (auto simp: irc_eq_iff)

lemma irc_eq_trans [trans]: "irc_eq a b \<Longrightarrow> irc_eq b c \<Longrightarrow> irc_eq a c"
  by (simp add: irc_eq_iff)

text \<open>\<open>ircstrncasecmp\<close> compares the first \<open>sz\<close> folded characters.\<close>

lemma ircstrncasecmp_loop_lex:
  "ircstrncasecmp_loop s1 s2 n = lex_cmp (take n (irc_fold s1)) (take n (irc_fold s2))"
proof (induction s1 s2 n rule: ircstrncasecmp_loop.induct)
  case (2 s1 s2 n)
  then show ?case
    by (cases s1; cases s2) (auto simp: IRCTOLOWER_0_iff)
qed simp

section \<open>Names ordered without regard to case\<close>

text \<open>A name as the comparison sees it, so that the order of \<open>ircstrcasecmp\<close> is the order of a type.\<close>

datatype irc_name = Irc (irc_text: string)

instantiation irc_name :: preorder
begin

definition less_eq_irc_name :: "irc_name \<Rightarrow> irc_name \<Rightarrow> bool" where
  "a \<le> b \<longleftrightarrow> ircstrcasecmp (Some (irc_text a)) (Some (irc_text b)) \<le> 0"

definition less_irc_name :: "irc_name \<Rightarrow> irc_name \<Rightarrow> bool" where
  "a < b \<longleftrightarrow> ircstrcasecmp (Some (irc_text a)) (Some (irc_text b)) < 0"

instance
proof
  fix x y z :: irc_name
  have sym: "ircstrcasecmp (Some (irc_text y)) (Some (irc_text x)) = - ircstrcasecmp (Some (irc_text x)) (Some (irc_text y))"
    by (simp add: ircstrcasecmp_def ircstrcasecmp_loop_lex flip: lex_cmp_sym)
  show "x < y \<longleftrightarrow> x \<le> y \<and> \<not> y \<le> x" by (auto simp: less_eq_irc_name_def less_irc_name_def sym)
  show "x \<le> x" by (simp add: less_eq_irc_name_def ircstrcasecmp_def ircstrcasecmp_loop_lex)
  show "x \<le> y \<Longrightarrow> y \<le> z \<Longrightarrow> x \<le> z"
    by (simp add: less_eq_irc_name_def ircstrcasecmp_def ircstrcasecmp_loop_lex)
      (rule lex_cmp_trans; simp)
qed

end

lemma irc_name_eq: "Irc a \<le> Irc b \<and> Irc b \<le> Irc a \<longleftrightarrow> irc_eq a b"
proof -
  have "ircstrcasecmp (Some b) (Some a) = - ircstrcasecmp (Some a) (Some b)"
    by (simp add: ircstrcasecmp_def ircstrcasecmp_loop_lex flip: lex_cmp_sym)
  then show ?thesis by (auto simp: less_eq_irc_name_def irc_eq_def)
qed

section \<open>Properties\<close>

text \<open>\<open>ircstrcasecmp\<close> is a comparison: it is 0 exactly when the two strings fold to the same
  text, swapping the arguments negates it, and "not greater" is transitive.\<close>

theorem ircstrcasecmp_order:
  assumes "ircstrcasecmp (Some a) (Some b) \<le> 0" and "ircstrcasecmp (Some b) (Some c) \<le> 0"
  shows "ircstrcasecmp (Some a) (Some c) \<le> 0 \<and>
    ircstrcasecmp (Some b) (Some a) = - ircstrcasecmp (Some a) (Some b) \<and>
    (ircstrcasecmp (Some a) (Some c) = 0) = (irc_fold a = irc_fold c)"
proof -
  have "Irc a \<le> Irc b" "Irc b \<le> Irc c" using assms by (simp_all add: less_eq_irc_name_def)
  then have "Irc a \<le> Irc c" by (rule order_trans)
  then show ?thesis
    by (simp add: less_eq_irc_name_def ircstrcasecmp_0)
      (simp add: ircstrcasecmp_def ircstrcasecmp_loop_lex flip: lex_cmp_sym)
qed

theorem ircstrcasecmp_order_witness: "ircstrcasecmp (Some ''#[a'') (Some ''#{C'') \<le> 0"
proof -
  have "ircstrcasecmp (Some ''#[a'') (Some ''#{B'') \<le> 0" "ircstrcasecmp (Some ''#{B'') (Some ''#{C'') \<le> 0"
    by code_simp+
  from ircstrcasecmp_order [OF this] show ?thesis by (rule conjunct1)
qed

end
