(* ===== verification/IrcPrintf.thy ===== *)
theory IrcPrintf
  imports IrcString
begin

text \<open>
  The \<^verbatim>\<open>snprintf\<close> replacement of \<^verbatim>\<open>src/ircstring.c\<close>. The output buffer is the list
  of characters stored so far, \<open>len\<close> its length; the variadic arguments are a list of
  tagged values. A format the routine does not know is handed to the C library
  (parameter \<open>libc\<close>). An argument list that does not fit the format is undefined
  behaviour in C and gives \<open>None\<close>, as does a store outside the buffer.
\<close>

datatype vararg = VStr "string option" | VInt uint

datatype fmt_state = Formatted string | Delegated

type_synonym vsnprintf_fun = "nat \<Rightarrow> string \<Rightarrow> vararg list \<Rightarrow> (string \<times> nat) option"

definition nullstring :: string where "nullstring = ''(null)''"

definition SCRATCHPAD_SIZE :: nat where "SCRATCHPAD_SIZE = 10 + 1 + 1"

text \<open>\<^verbatim>\<open>while( *str != '\0' && len < size ) buf[len++] = *str++;\<close>\<close>

fun copy_str :: "nat \<Rightarrow> string \<Rightarrow> string \<Rightarrow> string" where
  "copy_str sz buf [] = buf"
| "copy_str sz buf (c # cs) =
     (if c \<noteq> NUL \<and> length buf < sz then copy_str sz (buf @ [c]) cs else buf)"

text \<open>The do-while loop that writes the digits backwards into the scratch pad.\<close>

fun digit_loop :: "nat \<Rightarrow> string \<Rightarrow> string" where
  "digit_loop i str =
     (let str' = char_of (48 + i mod 10) # str
      in if i div 10 \<noteq> 0 then digit_loop (i div 10) str' else str')"

declare digit_loop.simps [simp del]

text \<open>The body of the \<^verbatim>\<open>%d\<close> case: \<open>i\<close> is the argument as an unsigned int.\<close>

definition put_int :: "nat \<Rightarrow> string \<Rightarrow> uint \<Rightarrow> string" where
  "put_int sz buf i =
     (let neg = i AND 0x80000000 \<noteq> 0;
          buf1 = (if neg then buf @ ''-'' else buf);
          i1 = (if neg then 0x80000000 - (i AND NOT 0x80000000) else i)
      in copy_str sz buf1 (digit_loop (unat i1) []))"

fun fmt_loop :: "nat \<Rightarrow> string \<Rightarrow> string \<Rightarrow> vararg list \<Rightarrow> fmt_state option" where
  "fmt_loop sz buf [] args = Some (Formatted buf)"
| "fmt_loop sz buf (c # format) args =
     (if c = NUL \<or> \<not> length buf < sz then Some (Formatted buf)
      else if c = CHR ''%''
      then if deref format = CHR ''s'' then
             (case args of
                VStr p # rest \<Rightarrow>
                  fmt_loop sz (copy_str sz buf (case p of None \<Rightarrow> nullstring | Some s \<Rightarrow> s)) (tl format) rest
              | _ \<Rightarrow> None)
           else if deref format = CHR ''c'' then
             (case args of
                VInt i # rest \<Rightarrow> fmt_loop sz (buf @ [char_of (unat i)]) (tl format) rest
              | _ \<Rightarrow> None)
           else if deref format = CHR ''d'' then
             (case args of
                VInt i # rest \<Rightarrow> fmt_loop sz (put_int sz buf i) (tl format) rest
              | _ \<Rightarrow> None)
           else Some Delegated
      else fmt_loop sz (buf @ [c]) format args)"

text \<open>
  The result is the C string left in the buffer and the value returned. The final store
  goes to \<^verbatim>\<open>buf[len]\<close> when there is room and to \<^verbatim>\<open>buf[size - 1]\<close> otherwise, which is
  outside the buffer when \<^verbatim>\<open>size\<close> is 0.
\<close>

definition ircvsnprintf :: "vsnprintf_fun \<Rightarrow> nat \<Rightarrow> string \<Rightarrow> vararg list \<Rightarrow> (string \<times> nat) option" where
  "ircvsnprintf libc sz fmt args =
     (case fmt_loop sz [] fmt args of
        None \<Rightarrow> None
      | Some Delegated \<Rightarrow> libc sz fmt args
      | Some (Formatted buf) \<Rightarrow>
          if length buf < sz then Some (c_str buf, length buf)
          else if sz = 0 then None
          else Some (c_str (take (sz - 1) buf), length buf))"

definition ircvsprintf :: "vsnprintf_fun \<Rightarrow> string \<Rightarrow> vararg list \<Rightarrow> (string \<times> nat) option" where
  "ircvsprintf libc fmt args = ircvsnprintf libc 0xffffffff fmt args"

definition ircsprintf :: "vsnprintf_fun \<Rightarrow> string \<Rightarrow> vararg list \<Rightarrow> (string \<times> nat) option" where
  "ircsprintf libc fmt args = ircvsprintf libc fmt args"

definition ircsnprintf :: "vsnprintf_fun \<Rightarrow> nat \<Rightarrow> string \<Rightarrow> vararg list \<Rightarrow> (string \<times> nat) option" where
  "ircsnprintf libc sz fmt args = ircvsnprintf libc sz fmt args"

section \<open>The loops\<close>

lemma copy_str_eq:
  "copy_str sz buf s = buf @ take (sz - length buf) (c_str s)"
proof (induction sz buf s rule: copy_str.induct)
  case (2 sz buf c cs)
  show ?case
  proof (cases "length buf < sz")
    case True
    then obtain k where "sz - length buf = Suc k" "sz - Suc (length buf) = k"
      by (metis Suc_diff_Suc)
    with 2 True show ?thesis by auto
  qed simp
qed simp

text \<open>Decimal notation, most significant digit first.\<close>

fun dec_digits :: "nat \<Rightarrow> string" where
  "dec_digits n = (if n < 10 then [char_of (48 + n)] else dec_digits (n div 10) @ [char_of (48 + n mod 10)])"

declare dec_digits.simps [simp del]

lemma digit_loop_eq: "digit_loop n acc = dec_digits n @ acc"
proof (induction n acc rule: digit_loop.induct)
  case (1 i str)
  show ?case
  proof (cases "i div 10 \<noteq> 0")
    case True
    with 1 show ?thesis
      by (simp add: digit_loop.simps [of i] dec_digits.simps [of i] Let_def)
  next
    case False
    then show ?thesis
      by (simp add: digit_loop.simps [of i] dec_digits.simps [of i] Let_def)
  qed
qed

lemma byte_of_char_of_digit: "(n::nat) < 10 \<Longrightarrow> byte_of (char_of (48 + n)) = 48 + n"
  by (simp add: of_char_of)

lemma digit_not_NUL:
  assumes "(n::nat) < 10"
  shows "(char_of (48 + n) :: char) \<noteq> NUL"
proof
  assume nul: "(char_of (48 + n) :: char) = NUL"
  then have "byte_of NUL = 48 + n" using byte_of_char_of_digit [of n] assms by metis
  then show False by simp
qed

lemma nul_free_dec_digits [simp]: "nul_free (dec_digits n)"
proof (induction n rule: dec_digits.induct)
  case (1 n)
  then show ?case
    by (subst dec_digits.simps) (auto dest: digit_not_NUL simp: digit_not_NUL)
qed

lemma length_dec_digits: "n < 10 ^ Suc k \<Longrightarrow> length (dec_digits n) \<le> Suc k"
proof (induction k arbitrary: n)
  case 0
  then show ?case by (subst dec_digits.simps) simp
next
  case (Suc k)
  then have "n div 10 < 10 ^ Suc k" by (simp add: div_less_iff_less_mult)
  then have "length (dec_digits (n div 10)) \<le> Suc k" by (rule Suc.IH)
  then show ?case by (subst dec_digits.simps) simp
qed

text \<open>The scratch pad: ten digits and the terminator fit.\<close>

lemma scratchpad_fits: "length (digit_loop (unat (w :: uint)) []) < SCRATCHPAD_SIZE"
proof -
  have "unat w < 2 ^ 32" using unsigned_less [of w] by simp
  then have "unat w < 10 ^ Suc 9" by simp
  then have "length (dec_digits (unat w)) \<le> Suc 9" by (rule length_dec_digits)
  then show ?thesis by (simp add: digit_loop_eq SCRATCHPAD_SIZE_def)
qed

section \<open>Reference formatter\<close>

text \<open>
  What the format means, without a buffer: \<open>int_str\<close> is the signed decimal notation and
  \<open>render\<close> substitutes the arguments. \<open>None\<close>: a conversion other than \<^verbatim>\<open>%s\<close>,
  \<^verbatim>\<open>%c\<close>, \<^verbatim>\<open>%d\<close>, or arguments that do not fit.
\<close>

definition int_str :: "uint \<Rightarrow> string" where
  "int_str i = (if sint i < 0 then ''-'' else []) @ dec_digits (nat \<bar>sint i\<bar>)"

fun render :: "string \<Rightarrow> vararg list \<Rightarrow> string option" where
  "render [] args = Some []"
| "render (c # fs) args =
     (if c = NUL then Some []
      else if c \<noteq> CHR ''%'' then map_option ((#) c) (render fs args)
      else case (fs, args) of
        (d # fs', VStr p # rest) \<Rightarrow>
          if d = CHR ''s''
          then map_option ((@) (case p of None \<Rightarrow> nullstring | Some s \<Rightarrow> c_str s)) (render fs' rest)
          else None
      | (d # fs', VInt i # rest) \<Rightarrow>
          if d = CHR ''c'' then map_option ((#) (char_of (unat i))) (render fs' rest)
          else if d = CHR ''d'' then map_option ((@) (int_str i)) (render fs' rest)
          else None
      | _ \<Rightarrow> None)"

text \<open>The two's complement reading of a 32-bit word, by cases on its top half.\<close>

lemma unat_uint_less: "unat (w :: uint) < 4294967296"
  using unsigned_less [of w] by simp

lemma mod_top_bit: "2147483648 \<le> u \<Longrightarrow> u < 4294967296 \<Longrightarrow> (u::nat) mod 2147483648 = u - 2147483648"
  by (simp add: le_mod_geq)

lemma signed_wrap:
  assumes "u < 4294967296"
  shows "(int u + 2147483648) mod 4294967296 - 2147483648 =
    (if u < 2147483648 then int u else int u - 4294967296)"
proof (cases "u < 2147483648")
  case True
  then have "(int u + 2147483648) mod 4294967296 = int u + 2147483648"
    by (intro mod_pos_pos_trivial) auto
  with True show ?thesis by simp
next
  case False
  then have "(int u - 2147483648) mod 4294967296 = int u - 2147483648"
    using assms by (intro mod_pos_pos_trivial) auto
  moreover have "int u + 2147483648 = int u - 2147483648 + 4294967296" by simp
  then have "(int u + 2147483648) mod 4294967296 = (int u - 2147483648) mod 4294967296"
    by (simp only: mod_add_self2)
  ultimately show ?thesis using False by simp
qed

lemma sint_uint_cases:
  "sint (w :: uint) = (if unat w < 2147483648 then int (unat w) else int (unat w) - 4294967296)"
proof -
  have "sint w = (int (unat w) + 2147483648) mod 4294967296 - 2147483648"
    by (simp add: sint_uint signed_take_bit_eq_take_bit_shift take_bit_eq_mod)
  then show ?thesis by (simp only: signed_wrap [OF unat_uint_less])
qed

lemma sign_bit_iff: "(i :: uint) AND 0x80000000 \<noteq> 0 \<longleftrightarrow> sint i < 0"
proof -
  have "(0x80000000 :: uint) = 2 ^ 31" by simp
  then have "i AND 0x80000000 \<noteq> 0 \<longleftrightarrow> bit i 31"
    by (simp only: and_exp_eq_0_iff_not_bit) simp
  also have "\<dots> \<longleftrightarrow> odd (unat i div 2 ^ 31)"
    by (metis bit_iff_odd bit_unsigned_iff possible_bit_nat)
  also have "\<dots> \<longleftrightarrow> sint i < 0"
  proof -
    define u where "u = unat i"
    have "u < 4294967296" using unat_uint_less [of i] by (simp add: u_def)
    then have "u div 2 ^ 31 = (if u < 2147483648 then 0 else 1)"
      by (auto intro: div_nat_eqI)
    moreover have "int u - 4294967296 < 0" using \<open>u < 4294967296\<close> by simp
    ultimately show ?thesis by (simp add: sint_uint_cases flip: u_def)
  qed
  finally show ?thesis .
qed

lemma abs_int_word:
  assumes "sint (i :: uint) < 0"
  shows "unat (0x80000000 - (i AND NOT 0x80000000)) = nat \<bar>sint i\<bar>"
proof -
  have "i AND NOT 0x80000000 = take_bit 31 i"
  proof -
    have "NOT 0x80000000 = (mask 31 :: uint)" by (simp add: mask_eq_exp_minus_1)
    then show ?thesis by (simp only: take_bit_eq_mask)
  qed
  then have "unat (i AND NOT 0x80000000) = unat i mod 2147483648"
    by (simp add: unat_mod take_bit_eq_mod)
  moreover from this have "i AND NOT 0x80000000 \<le> 0x80000000"
    by (simp only: word_le_nat_alt) (simp add: unat_mod)
  ultimately have "unat (0x80000000 - (i AND NOT 0x80000000)) = 2147483648 - unat i mod 2147483648"
    by (simp only: unat_sub) simp
  moreover define u where "u = unat i"
  moreover have "u < 4294967296" "\<not> u < 2147483648"
    using assms unat_uint_less [of i] by (auto simp: sint_uint_cases u_def split: if_splits)
  moreover from this have "u mod 2147483648 = u - 2147483648"
    by (intro mod_top_bit) auto
  moreover have "nat \<bar>sint i\<bar> = nat \<bar>int u - 4294967296\<bar>"
    using assms by (simp add: sint_uint_cases u_def split: if_splits)
  moreover have "nat \<bar>int u - 4294967296\<bar> = 4294967296 - u"
    if "u < 4294967296" for u using that by arith
  ultimately show ?thesis by (simp only: u_def) simp
qed

lemma put_int_eq:
  assumes "length buf < sz"
  shows "put_int sz buf i = buf @ take (sz - length buf) (int_str i)"
proof (cases "sint i < 0")
  case True
  from assms obtain k where k: "sz - length buf = Suc k" "sz - Suc (length buf) = k"
    by (metis Suc_diff_Suc)
  have "unat (0x80000000 - (i AND NOT 0x80000000)) = nat \<bar>sint i\<bar>"
    using True by (rule abs_int_word)
  moreover have "i AND 0x80000000 \<noteq> 0" using True by (simp only: sign_bit_iff)
  ultimately show ?thesis
    using True by (simp only: put_int_def int_str_def Let_def if_True simp_thms digit_loop_eq copy_str_eq)
      (simp add: k)
next
  case False
  then have "unat i = nat \<bar>sint i\<bar>"
    using unat_uint_less [of i] by (auto simp: sint_uint_cases split: if_splits)
  with False show ?thesis
    by (simp add: put_int_def int_str_def sign_bit_iff digit_loop_eq copy_str_eq)
qed

section \<open>The routine against the reference formatter\<close>

lemma length_put_int: "length buf < sz \<Longrightarrow> length (put_int sz buf i) \<le> sz"
  by (simp add: put_int_eq)

lemma length_copy_str: "length buf \<le> sz \<Longrightarrow> length (copy_str sz buf s) \<le> sz"
  by (simp add: copy_str_eq)

text \<open>No store of the loop goes past the buffer: the output never exceeds \<open>sz\<close>.\<close>

lemma fmt_loop_bounded:
  "fmt_loop sz buf fmt args = Some (Formatted out) \<Longrightarrow> length buf \<le> sz \<Longrightarrow> length out \<le> sz"
proof (induction sz buf fmt args rule: fmt_loop.induct)
  case (2 sz buf c format args)
  show ?case
  proof (cases "c = NUL \<or> \<not> length buf < sz \<or> c \<noteq> CHR ''%''")
    case True
    with 2 show ?thesis by (auto split: if_splits)
  next
    case False
    with 2 show ?thesis
      by (auto split: if_splits list.splits vararg.splits simp: length_put_int length_copy_str)
  qed
qed simp

lemma render_Cons_percent:
  assumes "render (CHR ''%'' # fs) args = Some t"
  obtains d fs' a rest where "fs = d # fs'" "args = a # rest"
  using assms by (cases fs; cases args) (auto split: vararg.splits)

text \<open>
  When the reference formatter produces \<open>t\<close>, the loop stores the longest prefix of
  \<open>buf @ t\<close> that fits.
\<close>

lemma fmt_loop_render:
  "render fmt args = Some t \<Longrightarrow> length buf \<le> sz \<Longrightarrow>
   fmt_loop sz buf fmt args = Some (Formatted (buf @ take (sz - length buf) t))"
proof (induction sz buf fmt args arbitrary: t rule: fmt_loop.induct)
  case (2 sz buf c format args)
  consider "c = NUL \<or> \<not> length buf < sz" | "c \<noteq> NUL" "length buf < sz" "c \<noteq> CHR ''%''"
    | "c = CHR ''%''" "length buf < sz" by auto
  then show ?case
  proof cases
    case 1
    with 2 show ?thesis by auto
  next
    case 2
    with "2.prems" obtain t' where t': "render format args = Some t'" "t = c # t'" by auto
    have "take (sz - length buf) t = c # take (sz - length (buf @ [c])) t'"
      using 2 t' by (simp add: take_Cons' diff_diff_add)
    with 2 t' "2.IH"(4) [of t'] show ?thesis by simp
  next
    case 3
    with "2.prems" obtain d fs' a rest where fa: "format = d # fs'" "args = a # rest"
      using render_Cons_percent [of format args t] by metis
    show ?thesis
    proof (cases a)
      case (VStr p)
      define s where "s = (case p of None \<Rightarrow> nullstring | Some s \<Rightarrow> s)"
      have "(case p of None \<Rightarrow> nullstring | Some s \<Rightarrow> c_str s) = c_str s"
        by (simp add: s_def nullstring_def split: option.splits)
      with "2.prems" 3 fa VStr obtain z where z: "d = CHR ''s''" "render fs' rest = Some z" "t = c_str s @ z"
        by (auto split: if_splits)
      have "length (copy_str sz buf s) \<le> sz" using 3 by (simp add: length_copy_str)
      with 2 3 fa VStr z have "fmt_loop sz (copy_str sz buf s) fs' rest =
          Some (Formatted (copy_str sz buf s @ take (sz - length (copy_str sz buf s)) z))"
        by (simp add: s_def)
      with 3 fa VStr z show ?thesis by (simp add: copy_str_eq min_def flip: s_def)
    next
      case (VInt i)
      with "2.prems" 3 fa obtain xs z where z: "render fs' rest = Some z" "t = xs @ z"
        "d = CHR ''c'' \<and> xs = [char_of (unat i)] \<or> d = CHR ''d'' \<and> xs = int_str i"
        by (auto split: if_splits)
      define buf' where "buf' = buf @ take (sz - length buf) xs"
      have "buf' = (if d = CHR ''c'' then buf @ [char_of (unat i)] else put_int sz buf i)"
        using z 3 by (auto simp: buf'_def put_int_eq take_Cons')
      moreover have "length buf' \<le> sz" using 3 by (simp add: buf'_def)
      ultimately have "fmt_loop sz buf' fs' rest =
          Some (Formatted (buf' @ take (sz - length buf') z)) \<and>
          fmt_loop sz buf (c # format) args = fmt_loop sz buf' fs' rest"
        using 2 3 fa VInt z by auto
      then show ?thesis using 3 z by (simp add: buf'_def min_def)
    qed
  qed
qed simp

text \<open>
  The whole routine. With a supported format, matching arguments and a buffer of at least
  one byte it leaves the first \<open>sz - 1\<close> characters of the rendered text, terminated
  inside the buffer, and returns the number of characters it stored.
\<close>

lemma ircvsnprintf_render:
  assumes "render fmt args = Some t" and "0 < sz"
  shows "ircvsnprintf libc sz fmt args = Some (c_str (take (sz - 1) t), min sz (length t))"
proof -
  have "fmt_loop sz [] fmt args = Some (Formatted (take sz t))"
    using fmt_loop_render [OF assms(1), of "[]" sz] by simp
  then show ?thesis using assms(2) by (simp add: ircvsnprintf_def min_def)
qed

section \<open>Reading decimal notation back\<close>

text \<open>\<^verbatim>\<open>atoi\<close> of the C library on the strings the program passes to it: optional
  leading spaces, an optional sign, digits; everything after them is ignored.\<close>

fun dec_value :: "nat \<Rightarrow> string \<Rightarrow> nat" where
  "dec_value acc [] = acc"
| "dec_value acc (c # cs) =
     (if 48 \<le> byte_of c \<and> byte_of c \<le> 57 then dec_value (10 * acc + (byte_of c - 48)) cs else acc)"

definition c_isspace :: "char \<Rightarrow> bool" where
  "c_isspace c \<longleftrightarrow> byte_of c = 32 \<or> 9 \<le> byte_of c \<and> byte_of c \<le> 13"

definition atoi :: "string \<Rightarrow> int" where
  "atoi s =
     (let t = dropWhile c_isspace s
      in if deref t = CHR ''-'' then - int (dec_value 0 (tl t))
         else if deref t = CHR ''+'' then int (dec_value 0 (tl t))
         else int (dec_value 0 t))"

lemma dec_value_append_digit:
  "dec_value acc (dec_digits n @ xs) = dec_value (acc * 10 ^ length (dec_digits n) + n) xs"
proof (induction n arbitrary: acc xs rule: dec_digits.induct)
  case (1 n)
  show ?case
  proof (cases "n < 10")
    case True
    then show ?thesis
      by (simp add: dec_digits.simps [of n] byte_of_char_of_digit mult.commute)
  next
    case False
    define c where "c = (char_of (48 + n mod 10) :: char)"
    have c: "byte_of c = 48 + n mod 10" "n mod 10 \<le> 9"
      using byte_of_char_of_digit [of "n mod 10"] by (simp_all add: c_def less_Suc_eq_le flip: less_Suc_eq_le)
    have ds: "dec_digits n = dec_digits (n div 10) @ [c]"
      using False by (simp add: dec_digits.simps [of n] c_def)
    have "dec_value acc (dec_digits n @ xs) =
        dec_value (10 * (acc * 10 ^ length (dec_digits (n div 10)) + n div 10) + n mod 10) xs"
      using False 1 [of acc "c # xs"] c by (simp add: ds)
    then show ?thesis by (simp add: ds algebra_simps)
  qed
qed

lemma dec_value_dec_digits [simp]: "dec_value 0 (dec_digits n) = n"
  using dec_value_append_digit [of 0 n "[]"] by simp

lemma deref_dec_digits: "48 \<le> byte_of (deref (dec_digits n)) \<and> byte_of (deref (dec_digits n)) \<le> 57"
proof (induction n rule: dec_digits.induct)
  case (1 n)
  have app: "deref (xs @ ys) = deref xs" if "xs \<noteq> []" for xs ys using that by (cases xs) auto
  have ne: "dec_digits m \<noteq> []" for m by (subst dec_digits.simps) simp
  show ?case
  proof (cases "n < 10")
    case True
    then show ?thesis by (simp add: dec_digits.simps [of n] byte_of_char_of_digit)
  next
    case False
    with 1 show ?thesis by (simp add: dec_digits.simps [of n] app ne)
  qed
qed

text \<open>What \<^verbatim>\<open>%d\<close> prints, \<open>atoi\<close> reads back.\<close>

lemma atoi_int_str: "atoi (int_str i) = sint i"
proof (cases "sint i < 0")
  case True
  then show ?thesis by (simp add: atoi_def int_str_def c_isspace_def Let_def)
next
  case False
  let ?ds = "dec_digits (nat (sint i))"
  from deref_dec_digits [of "nat (sint i)"] obtain d ds where
    ds: "?ds = d # ds" "48 \<le> byte_of d" "byte_of d \<le> 57"
    by (cases ?ds) auto
  then have "dropWhile c_isspace ?ds = ?ds" "d \<noteq> CHR ''-''" "d \<noteq> CHR ''+''"
    by (auto simp: c_isspace_def)
  with False ds(1) show ?thesis
    using dec_value_dec_digits [of "nat (sint i)"] by (simp add: atoi_def int_str_def Let_def)
qed

lemma length_int_str: "length (int_str i) \<le> 11"
proof -
  have "- 4294967296 \<le> sint i" "sint i \<le> 4294967296"
    using sint_uint_cases [of i] unat_uint_less [of i] by presburger+
  then have "nat \<bar>sint i\<bar> < 10 ^ Suc 9" by simp
  then have "length (dec_digits (nat \<bar>sint i\<bar>)) \<le> 10" using length_dec_digits [of _ 9] by simp
  then show ?thesis by (auto simp: int_str_def)
qed

lemma nul_free_int_str: "nul_free (int_str i)"
  by (simp add: int_str_def)

section \<open>Properties\<close>

text \<open>C38. For a format of literal text, \<open>%s\<close>, \<open>%c\<close> and \<open>%d\<close> whose arguments match, and a buffer of at least one byte, \<open>ircvsnprintf\<close> leaves in the buffer
  the reference rendering cut to the size less one, never stores past the buffer, and returns the smaller of the size and the
  length of the rendering. For a rendering that does not fit this is the size, one more than the characters it wrote, which the comment of the
  function promises.\<close>

theorem ircvsnprintf_correct:
  assumes "render fmt args = Some t" and "0 < sz"
  shows "\<exists>buf. ircvsnprintf libc sz fmt args = Some (buf, min sz (length t)) \<and>
    buf = c_str (take (sz - 1) t) \<and> length buf < sz"
proof -
  have "length (c_str (take (sz - 1) t)) \<le> sz - 1"
    unfolding c_str_def by (rule order_trans [OF length_takeWhile_le]) simp
  then show ?thesis using ircvsnprintf_render [OF assms] assms(2) by auto
qed

theorem ircvsnprintf_correct_witness:
  "\<exists>buf. ircvsnprintf (\<lambda>_ _ _. None) 8 ''a%s-%d'' [VStr (Some ''bc''), VInt (- 7)] = Some (buf, 6) \<and> buf = ''abc--7'' \<and>
    length buf < 8"
proof -
  have "render ''a%s-%d'' [VStr (Some ''bc''), VInt (- 7)] = Some ''abc--7''"
    by (simp add: int_str_def dec_digits.simps char_of_def bit_0)
  from ircvsnprintf_correct [OF this, of 8 "\<lambda>_ _ _. None"] show ?thesis by simp
qed

text \<open>C39. The decimal notation \<open>ircvsnprintf\<close> writes for \<open>%d\<close> is read back by \<^verbatim>\<open>atoi\<close> as
  the same 32 bit integer, the most negative one included, whenever the buffer has 12 bytes or more.\<close>

theorem print_int_atoi:
  assumes "12 \<le> sz"
  shows "\<exists>buf n. ircvsnprintf libc sz ''%d'' [VInt i] = Some (buf, n) \<and> atoi buf = sint i"
proof -
  have r: "render ''%d'' [VInt i] = Some (int_str i)" by simp
  have len: "length (int_str i) \<le> 11" by (rule length_int_str)
  have "c_str (take (sz - 1) (int_str i)) = int_str i"
    using len assms nul_free_int_str [of i] by simp
  then show ?thesis using ircvsnprintf_render [OF r, of sz libc] assms atoi_int_str [of i] by simp
qed

theorem print_int_atoi_witness:
  "\<exists>buf n. ircvsnprintf (\<lambda>_ _ _. None) 12 ''%d'' [VInt 0x80000000] = Some (buf, n) \<and> atoi buf = - 2147483648"
  using print_int_atoi [of 12 "\<lambda>_ _ _. None" "0x80000000"] by simp

end
