(* ===== verification/Support.thy ===== *)
theory Support
  imports IrcPrintf "HOL-Library.Monad_Syntax"
begin

text \<open>
  \<^verbatim>\<open>src/support.c\<close>: the replacements for C library string functions, on arrays of
  characters. A read or a store outside the array is \<open>None\<close>; the string an array holds
  is \<open>c_str\<close> of it. \<open>strlcpy_str\<close> is what the rest of the program relies on: the
  string left in a buffer of the given size.
\<close>

section \<open>Character arrays\<close>

definition rd :: "string \<Rightarrow> nat \<Rightarrow> char option" where
  "rd a i = (if i < length a then Some (a ! i) else None)"

definition wr :: "string \<Rightarrow> nat \<Rightarrow> char \<Rightarrow> string option" where
  "wr a i c = (if i < length a then Some (a[i := c]) else None)"

section \<open>strnlen, strlcpy, strlcat, strndup, strdup\<close>

function strnlen_loop :: "string \<Rightarrow> nat \<Rightarrow> nat \<Rightarrow> nat option" where
  "strnlen_loop src count len =
     (if len < count
      then case rd src len of
             None \<Rightarrow> None
           | Some c \<Rightarrow> if c = NUL then Some len else strnlen_loop src count (len + 1)
      else Some count)"
  by pat_completeness auto
termination by (relation "measure (\<lambda>(src, count, len). count - len)") auto

declare strnlen_loop.simps [simp del]

definition strnlen :: "string \<Rightarrow> nat \<Rightarrow> nat option" where
  "strnlen src count = strnlen_loop src count 0"

function strlcpy_loop :: "string \<Rightarrow> string \<Rightarrow> nat \<Rightarrow> nat \<Rightarrow> (string \<times> nat) option" where
  "strlcpy_loop dst src sz copycount =
     (if copycount < sz - 1
      then do {
        c \<leftarrow> rd src copycount;
        if c \<noteq> NUL
        then do { dst' \<leftarrow> wr dst copycount c; strlcpy_loop dst' src sz (copycount + 1) }
        else Some (dst, copycount) }
      else Some (dst, copycount))"
  by pat_completeness auto
termination by (relation "measure (\<lambda>(dst, src, sz, n). sz - n)") auto

declare strlcpy_loop.simps [simp del]

text \<open>The destination and the value returned; a NULL pointer or size 0 changes nothing.\<close>

definition strlcpy :: "string option \<Rightarrow> string option \<Rightarrow> nat \<Rightarrow> (string option \<times> nat) option" where
  "strlcpy dst src sz =
     (if sz = 0 then Some (dst, 0)
      else case (dst, src) of
        (Some d, Some s) \<Rightarrow> do {
          (d', n) \<leftarrow> strlcpy_loop d s sz 0;
          d'' \<leftarrow> wr d' n NUL;
          Some (Some d'', n) }
      | _ \<Rightarrow> Some (dst, 0))"

text \<open>\<^verbatim>\<open>os_memcpy( dst + off, src, n )\<close>.\<close>

definition memcpy_at :: "string \<Rightarrow> nat \<Rightarrow> string \<Rightarrow> nat \<Rightarrow> string option" where
  "memcpy_at dst off src n =
     (if n \<le> length src \<and> off + n \<le> length dst
      then Some (take off dst @ take n src @ drop (off + n) dst) else None)"

definition strlcat :: "string option \<Rightarrow> string option \<Rightarrow> nat \<Rightarrow> (string option \<times> nat) option" where
  "strlcat dst src sz =
     (if sz = 0 then Some (dst, 0)
      else case (dst, src) of
        (Some d, Some s) \<Rightarrow> do {
          c \<leftarrow> rd s 0;
          lendst \<leftarrow> strnlen d sz;
          if c = NUL
          then do { d' \<leftarrow> wr d lendst NUL; Some (Some d', 0) }
          else do {
            n \<leftarrow> strnlen s sz;
            let copycount = (if lendst + n \<ge> sz then sz - lendst else n);
            if copycount > 0
            then do {
              d' \<leftarrow> memcpy_at d lendst s copycount;
              d'' \<leftarrow> wr d' (lendst + copycount) NUL;
              Some (Some d'', copycount) }
            else Some (Some d, copycount) } }
      | _ \<Rightarrow> Some (dst, 0))"

definition strndup :: "string option \<Rightarrow> nat \<Rightarrow> string option option" where
  "strndup src count =
     (case src of
        None \<Rightarrow> Some None
      | Some s \<Rightarrow>
          if count = 0 then Some None
          else do {
            d \<leftarrow> memcpy_at (replicate (count + 1) NUL) 0 s count;
            d' \<leftarrow> wr d count NUL;
            Some (Some d') })"

text \<open>\<^verbatim>\<open>strlen\<close> of an array: defined when the array holds a terminator.\<close>

definition c_strlen :: "string \<Rightarrow> nat option" where
  "c_strlen a = (if NUL \<in> set a then Some (length (c_str a)) else None)"

definition strdup :: "string option \<Rightarrow> string option option" where
  "strdup src =
     (case src of
        None \<Rightarrow> Some None
      | Some s \<Rightarrow> do {
          n \<leftarrow> c_strlen s;
          (d, _) \<leftarrow> strlcpy (Some (replicate (n + 1) NUL)) src (n + 1);
          Some d })"

section \<open>strcasestr and strsep\<close>

definition c_toupper :: "char \<Rightarrow> nat" where
  "c_toupper c = (if 97 \<le> byte_of c \<and> byte_of c \<le> 122 then byte_of c - 32 else byte_of c)"

definition c_tolower :: "char \<Rightarrow> char" where
  "c_tolower c = (if 65 \<le> byte_of c \<and> byte_of c \<le> 90 then char_of (byte_of c + 32) else c)"

fun prefix_nocase :: "string \<Rightarrow> string \<Rightarrow> bool" where
  "prefix_nocase [] s1 = True"
| "prefix_nocase (c # cs) s1 =
     (if c_toupper c \<noteq> c_toupper (deref s1) then False else prefix_nocase cs (tl s1))"

text \<open>The tail of \<open>s1\<close> that starts with \<open>s2\<close>, ignoring case.\<close>

fun strcasestr :: "string \<Rightarrow> string \<Rightarrow> string option" where
  "strcasestr [] s2 = None"
| "strcasestr (c # s1) s2 =
     (if prefix_nocase s2 (c # s1) then Some (c # s1) else strcasestr s1 s2)"

text \<open>
  \<open>strsep\<close> cuts at the first character of \<open>delim\<close>: the token, and what \<^verbatim>\<open>*stringp\<close>
  becomes. The single-delimiter path of the code looks at the first character before it
  calls \<^verbatim>\<open>strchr\<close> on the rest.
\<close>

fun cut_at :: "(char \<Rightarrow> bool) \<Rightarrow> string \<Rightarrow> string \<times> string option" where
  "cut_at P [] = ([], None)"
| "cut_at P (c # cs) =
     (if P c then ([], Some cs) else (let (t, r) = cut_at P cs in (c # t, r)))"

definition strsep :: "string option \<Rightarrow> string \<Rightarrow> string option \<times> string option" where
  "strsep stringp delim =
     (case stringp of
        None \<Rightarrow> (None, None)
      | Some s \<Rightarrow>
          (let (t, r) =
             (if length delim \<le> 1
              then (if deref delim = NUL then (s, None)
                    else if s = [] then (s, None)
                    else if hd s = deref delim then ([], Some (tl s))
                    else (let (t, r) = cut_at (\<lambda>c. c = deref delim) (tl s) in (hd s # t, r)))
              else cut_at (\<lambda>c. c \<in> set delim) s)
           in (Some t, r)))"

section \<open>inet_ntop\<close>

definition inet_ntop :: "bool \<Rightarrow> nat list \<Rightarrow> nat \<Rightarrow> string option" where
  "inet_ntop is_inet src sz =
     (if \<not> is_inet then None
      else (let tmp = dec_digits (src ! 0) @ ''.'' @ dec_digits (src ! 1) @ ''.'' @
                      dec_digits (src ! 2) @ ''.'' @ dec_digits (src ! 3)
            in if length tmp \<ge> sz then None else Some (take (sz - 1) tmp)))"

section \<open>What they compute\<close>

lemma strnlen_loop_eq:
  "NUL \<in> set (drop len src) \<Longrightarrow> len \<le> count \<Longrightarrow>
   strnlen_loop src count len = Some (min count (len + length (c_str (drop len src))))"
proof (induction src count len rule: strnlen_loop.induct)
  case (1 src count len)
  from 1(2) have lt: "len < length src" by (cases "len < length src") auto
  then have dr: "drop len src = src ! len # drop (len + 1) src"
    by (simp add: Cons_nth_drop_Suc)
  show ?case
  proof (cases "len < count \<and> src ! len \<noteq> NUL")
    case True
    with 1 lt dr show ?thesis
      by (subst strnlen_loop.simps) (auto simp: rd_def)
  next
    case False
    with 1 lt dr show ?thesis
      by (subst strnlen_loop.simps) (auto simp: rd_def)
  qed
qed

lemma strnlen_eq: "NUL \<in> set src \<Longrightarrow> strnlen src count = Some (min count (length (c_str src)))"
  using strnlen_loop_eq [of 0 src count] by (simp add: strnlen_def)

lemma c_str_take_write:
  "i < length a \<Longrightarrow> nul_free (take i a) \<Longrightarrow> c_str (a[i := NUL]) = take i a"
proof (induction a arbitrary: i)
  case (Cons x xs)
  then show ?case by (cases i) auto
qed simp

lemma strlcpy_loop_eq:
  "NUL \<in> set (drop k src) \<Longrightarrow> sz \<le> length dst \<Longrightarrow> 0 < sz \<Longrightarrow> k \<le> sz - 1 \<Longrightarrow>
   \<exists>dst' n. strlcpy_loop dst src sz k = Some (dst', n) \<and> length dst' = length dst \<and> n \<le> sz - 1 \<and>
     take n dst' = take k dst @ take (sz - 1 - k) (c_str (drop k src))"
proof (induction dst src sz k rule: strlcpy_loop.induct)
  case (1 dst src sz k)
  from 1(2) have lt: "k < length src" by (cases "k < length src") auto
  then have dr: "drop k src = src ! k # drop (k + 1) src"
    by (simp add: Cons_nth_drop_Suc)
  show ?case
  proof (cases "k < sz - 1 \<and> src ! k \<noteq> NUL")
    case True
    then have k: "k < length dst" "sz - 1 - k = Suc (sz - 1 - (k + 1))" using 1 by auto
    then have "take (k + 1) (dst[k := src ! k]) = take k dst @ [src ! k]"
      by (simp add: take_Suc_conv_app_nth)
    moreover obtain dst' n where
      "strlcpy_loop (dst[k := src ! k]) src sz (k + 1) = Some (dst', n)" "length dst' = length dst"
      "n \<le> sz - 1" "take n dst' = take (k + 1) (dst[k := src ! k]) @
        take (sz - 1 - (k + 1)) (c_str (drop (k + 1) src))"
      using 1 True lt k dr by (force simp: rd_def wr_def)
    ultimately show ?thesis
      using True lt k by (subst strlcpy_loop.simps) (auto simp: rd_def wr_def dr)
  next
    case False
    with 1 lt show ?thesis
      by (subst strlcpy_loop.simps) (auto simp: rd_def dr)
  qed
qed

definition strlcpy_str :: "nat \<Rightarrow> string \<Rightarrow> string" where
  "strlcpy_str sz s = take (sz - 1) (c_str s)"

lemma nul_free_strlcpy_str [simp]: "nul_free (strlcpy_str sz s)"
  by (simp add: strlcpy_str_def)

lemma length_strlcpy_str: "0 < sz \<Longrightarrow> length (strlcpy_str sz s) < sz"
  by (simp add: strlcpy_str_def)

text \<open>
  \<open>strlcpy\<close> into an array of at least \<open>sz\<close> bytes stays inside it and leaves the
  truncated string.
\<close>

lemma strlcpy_spec:
  assumes "NUL \<in> set src" and "0 < sz" and "sz \<le> length dst"
  obtains dst' where "strlcpy (Some dst) (Some src) sz = Some (Some dst', length (strlcpy_str sz src))"
    and "c_str dst' = strlcpy_str sz src" and "length dst' = length dst"
proof -
  obtain d n where d: "strlcpy_loop dst src sz 0 = Some (d, n)" "length d = length dst"
      "n \<le> sz - 1" "take n d = take (sz - 1) (c_str src)"
    using strlcpy_loop_eq [of 0 src sz dst] assms by auto
  from d(2,3) assms have n: "n < length d" by linarith
  with d have "n = length (strlcpy_str sz src)"
    by (metis length_take min.absorb2 nless_le strlcpy_str_def)
  moreover have "c_str (d[n := NUL]) = strlcpy_str sz src"
    using n d(4) by (simp add: c_str_take_write strlcpy_str_def)
  ultimately show ?thesis
    using that [of "d[n := NUL]"] assms d n by (simp add: strlcpy_def wr_def)
qed

lemma strdup_spec: "NUL \<in> set src \<Longrightarrow> \<exists>d. strdup (Some src) = Some (Some d) \<and> c_str d = c_str src"
proof -
  assume s: "NUL \<in> set src"
  let ?n = "length (c_str src)"
  obtain d' where "strlcpy (Some (replicate (?n + 1) NUL)) (Some src) (?n + 1) =
      Some (Some d', length (strlcpy_str (?n + 1) src))" "c_str d' = strlcpy_str (?n + 1) src"
    using strlcpy_spec [of src "?n + 1" "replicate (?n + 1) NUL"] s by auto
  then show ?thesis
    using s by (simp add: strdup_def c_strlen_def strlcpy_str_def)
qed

lemma cut_at_eq: "cut_at P s = (takeWhile (\<lambda>c. \<not> P c) s,
    if \<exists>c\<in>set s. P c then Some (tl (dropWhile (\<lambda>c. \<not> P c) s)) else None)"
  by (induction s) auto

text \<open>Both paths of \<open>strsep\<close> cut at the first delimiter.\<close>

lemma strsep_eq:
  assumes "nul_free delim" and "delim \<noteq> []"
  shows "strsep (Some s) delim = (let (t, r) = cut_at (\<lambda>c. c \<in> set delim) s in (Some t, r))"
proof (cases "length delim \<le> 1")
  case True
  with assms obtain d where "delim = [d]" "d \<noteq> NUL"
    by (cases delim) auto
  then show ?thesis by (cases s) (auto simp: strsep_def)
next
  case False
  then show ?thesis by (auto simp: strsep_def split: prod.splits)
qed

lemma prefix_nocase_iff:
  "prefix_nocase p s \<longleftrightarrow> (\<forall>i<length p. c_toupper (p ! i) = c_toupper (deref (drop i s)))"
proof (induction p s rule: prefix_nocase.induct)
  case (2 c cs s1)
  then show ?case
    by (auto simp: less_Suc_eq_0_disj drop_Suc)
qed simp

section \<open>Properties\<close>

text \<open>\<open>strlcpy\<close> into a destination of the given size stays inside it, leaves the source cut
  to the size less one, and returns the number of characters copied.\<close>

theorem strlcpy_correct:
  assumes "NUL \<in> set src" and "0 < sz" and "sz \<le> length dst"
  shows "\<exists>dst'. strlcpy (Some dst) (Some src) sz = Some (Some dst', length (c_str dst')) \<and>
    c_str dst' = take (sz - 1) (c_str src) \<and> length dst' = length dst"
  using strlcpy_spec [OF assms] by (metis strlcpy_str_def)

theorem strlcpy_correct_witness:
  "\<exists>dst'. strlcpy (Some ''zzzz'') (Some (''abcdef'' @ [NUL])) 4 = Some (Some dst', 3) \<and> c_str dst' = ''abc''"
  using strlcpy_correct [of "''abcdef'' @ [NUL]" 4 "''zzzz''"] by auto

lemma c_str_shorter: "NUL \<in> set s \<Longrightarrow> length (c_str s) < length s"
  by (induction s) auto

text \<open>When the text to append does not fit, \<open>strlcat\<close> stores its terminator one byte past the
  size it was given: on a destination of exactly that size the call leaves the array.\<close>

theorem strlcat_writes_past:
  assumes "NUL \<in> set dst" and "NUL \<in> set src" and "c_str src \<noteq> []"
    and "length dst \<le> length (c_str dst) + length (c_str src)"
  shows "strlcat (Some dst) (Some src) (length dst) = None"
proof -
  have len: "length (c_str dst) < length dst"
    using assms(1) by (rule c_str_shorter)
  have ne: "src \<noteq> []" "src ! 0 \<noteq> NUL" using assms(3) by (cases src; auto split: if_splits)+
  have "length dst \<noteq> 0" using assms(1) by (cases dst) auto
  moreover have "strnlen dst (length dst) = Some (length (c_str dst))"
    using strnlen_eq [OF assms(1)] len by (simp add: min_def)
  moreover have "strnlen src (length dst) = Some (min (length dst) (length (c_str src)))"
    by (rule strnlen_eq [OF assms(2)])
  moreover have "memcpy_at dst (length (c_str dst)) src (length dst - length (c_str dst)) = Some d \<Longrightarrow>
      wr d (length dst) NUL = None" for d
    using len by (auto simp: memcpy_at_def wr_def split: if_splits)
  ultimately show ?thesis
    using ne len assms(4)
    by (cases "memcpy_at dst (length (c_str dst)) src (length dst - length (c_str dst))")
      (auto simp: strlcat_def rd_def min_def Let_def split: if_splits)
qed

theorem strlcat_writes_past_witness: "strlcat (Some (''ab'' @ [NUL, NUL])) (Some (''cd'' @ [NUL])) 4 = None"
  using strlcat_writes_past [of "''ab'' @ [NUL, NUL]" "''cd'' @ [NUL]"] by (simp add: numeral_eq_Suc)

end
