(* ===== verification/CharTables.thy ===== *)
theory CharTables
  imports Prelude
begin

text \<open>
  The character tables of \<^verbatim>\<open>src/match.c\<close> (\<open>ToLowerTab\<close>, \<open>ToUpperTab\<close>,
  \<open>CharAttrs\<close>) and the classification macros of \<^verbatim>\<open>include/ircstring.h\<close>. The tables
  are indexed by the character read as an unsigned byte (\<open>of_char\<close>).
\<close>

definition ToLowerTab :: "nat list" where
  "ToLowerTab = [
    0x00, 0x01, 0x02, 0x03, 0x04, 0x05, 0x06, 0x07, 0x08, 0x09, 0x0a, 0x0b, 0x0c, 0x0d, 0x0e, 0x0f,
    0x10, 0x11, 0x12, 0x13, 0x14, 0x15, 0x16, 0x17, 0x18, 0x19, 0x1a, 0x1b, 0x1c, 0x1d, 0x1e, 0x1f,
    0x20, 0x21, 0x22, 0x23, 0x24, 0x25, 0x26, 0x27, 0x28, 0x29, 0x2a, 0x2b, 0x2c, 0x2d, 0x2e, 0x2f,
    0x30, 0x31, 0x32, 0x33, 0x34, 0x35, 0x36, 0x37, 0x38, 0x39, 0x3a, 0x3b, 0x3c, 0x3d, 0x3e, 0x3f,
    0x40, 0x61, 0x62, 0x63, 0x64, 0x65, 0x66, 0x67, 0x68, 0x69, 0x6a, 0x6b, 0x6c, 0x6d, 0x6e, 0x6f,
    0x70, 0x71, 0x72, 0x73, 0x74, 0x75, 0x76, 0x77, 0x78, 0x79, 0x7a, 0x7b, 0x7c, 0x7d, 0x7e, 0x5f,
    0x60, 0x61, 0x62, 0x63, 0x64, 0x65, 0x66, 0x67, 0x68, 0x69, 0x6a, 0x6b, 0x6c, 0x6d, 0x6e, 0x6f,
    0x70, 0x71, 0x72, 0x73, 0x74, 0x75, 0x76, 0x77, 0x78, 0x79, 0x7a, 0x7b, 0x7c, 0x7d, 0x7e, 0x7f,
    0x80, 0x81, 0x82, 0x83, 0x84, 0x85, 0x86, 0x87, 0x88, 0x89, 0x8a, 0x8b, 0x8c, 0x8d, 0x8e, 0x8f,
    0x90, 0x91, 0x92, 0x93, 0x94, 0x95, 0x96, 0x97, 0x98, 0x99, 0x9a, 0x9b, 0x9c, 0x9d, 0x9e, 0x9f,
    0xa0, 0xa1, 0xa2, 0xa3, 0xa4, 0xa5, 0xa6, 0xa7, 0xa8, 0xa9, 0xaa, 0xab, 0xac, 0xad, 0xae, 0xaf,
    0xb0, 0xb1, 0xb2, 0xb3, 0xb4, 0xb5, 0xb6, 0xb7, 0xb8, 0xb9, 0xba, 0xbb, 0xbc, 0xbd, 0xbe, 0xbf,
    0xc0, 0xc1, 0xc2, 0xc3, 0xc4, 0xc5, 0xc6, 0xc7, 0xc8, 0xc9, 0xca, 0xcb, 0xcc, 0xcd, 0xce, 0xcf,
    0xd0, 0xd1, 0xd2, 0xd3, 0xd4, 0xd5, 0xd6, 0xd7, 0xd8, 0xd9, 0xda, 0xdb, 0xdc, 0xdd, 0xde, 0xdf,
    0xe0, 0xe1, 0xe2, 0xe3, 0xe4, 0xe5, 0xe6, 0xe7, 0xe8, 0xe9, 0xea, 0xeb, 0xec, 0xed, 0xee, 0xef,
    0xf0, 0xf1, 0xf2, 0xf3, 0xf4, 0xf5, 0xf6, 0xf7, 0xf8, 0xf9, 0xfa, 0xfb, 0xfc, 0xfd, 0xfe, 0xff]"

definition ToUpperTab :: "nat list" where
  "ToUpperTab = [
    0x00, 0x01, 0x02, 0x03, 0x04, 0x05, 0x06, 0x07, 0x08, 0x09, 0x0a, 0x0b, 0x0c, 0x0d, 0x0e, 0x0f,
    0x10, 0x11, 0x12, 0x13, 0x14, 0x15, 0x16, 0x17, 0x18, 0x19, 0x1a, 0x1b, 0x1c, 0x1d, 0x1e, 0x1f,
    0x20, 0x21, 0x22, 0x23, 0x24, 0x25, 0x26, 0x27, 0x28, 0x29, 0x2a, 0x2b, 0x2c, 0x2d, 0x2e, 0x2f,
    0x30, 0x31, 0x32, 0x33, 0x34, 0x35, 0x36, 0x37, 0x38, 0x39, 0x3a, 0x3b, 0x3c, 0x3d, 0x3e, 0x3f,
    0x40, 0x41, 0x42, 0x43, 0x44, 0x45, 0x46, 0x47, 0x48, 0x49, 0x4a, 0x4b, 0x4c, 0x4d, 0x4e, 0x4f,
    0x50, 0x51, 0x52, 0x53, 0x54, 0x55, 0x56, 0x57, 0x58, 0x59, 0x5a, 0x5b, 0x5c, 0x5d, 0x5e, 0x5f,
    0x60, 0x41, 0x42, 0x43, 0x44, 0x45, 0x46, 0x47, 0x48, 0x49, 0x4a, 0x4b, 0x4c, 0x4d, 0x4e, 0x4f,
    0x50, 0x51, 0x52, 0x53, 0x54, 0x55, 0x56, 0x57, 0x58, 0x59, 0x5a, 0x5b, 0x5c, 0x5d, 0x5e, 0x7f,
    0x80, 0x81, 0x82, 0x83, 0x84, 0x85, 0x86, 0x87, 0x88, 0x89, 0x8a, 0x8b, 0x8c, 0x8d, 0x8e, 0x8f,
    0x90, 0x91, 0x92, 0x93, 0x94, 0x95, 0x96, 0x97, 0x98, 0x99, 0x9a, 0x9b, 0x9c, 0x9d, 0x9e, 0x9f,
    0xa0, 0xa1, 0xa2, 0xa3, 0xa4, 0xa5, 0xa6, 0xa7, 0xa8, 0xa9, 0xaa, 0xab, 0xac, 0xad, 0xae, 0xaf,
    0xb0, 0xb1, 0xb2, 0xb3, 0xb4, 0xb5, 0xb6, 0xb7, 0xb8, 0xb9, 0xba, 0xbb, 0xbc, 0xbd, 0xbe, 0xbf,
    0xc0, 0xc1, 0xc2, 0xc3, 0xc4, 0xc5, 0xc6, 0xc7, 0xc8, 0xc9, 0xca, 0xcb, 0xcc, 0xcd, 0xce, 0xcf,
    0xd0, 0xd1, 0xd2, 0xd3, 0xd4, 0xd5, 0xd6, 0xd7, 0xd8, 0xd9, 0xda, 0xdb, 0xdc, 0xdd, 0xde, 0xdf,
    0xe0, 0xe1, 0xe2, 0xe3, 0xe4, 0xe5, 0xe6, 0xe7, 0xe8, 0xe9, 0xea, 0xeb, 0xec, 0xed, 0xee, 0xef,
    0xf0, 0xf1, 0xf2, 0xf3, 0xf4, 0xf5, 0xf6, 0xf7, 0xf8, 0xf9, 0xfa, 0xfb, 0xfc, 0xfd, 0xfe, 0xff]"

definition ToLower :: "char \<Rightarrow> nat" where
  "ToLower c = ToLowerTab ! byte_of c"

definition ToUpper :: "char \<Rightarrow> nat" where
  "ToUpper c = ToUpperTab ! byte_of c"

definition PRINT_C :: uint where "PRINT_C = 0x001"
definition CNTRL_C :: uint where "CNTRL_C = 0x002"
definition ALPHA_C :: uint where "ALPHA_C = 0x004"
definition PUNCT_C :: uint where "PUNCT_C = 0x008"
definition DIGIT_C :: uint where "DIGIT_C = 0x010"
definition SPACE_C :: uint where "SPACE_C = 0x020"
definition NICK_C :: uint where "NICK_C = 0x040"
definition CHAN_C :: uint where "CHAN_C = 0x080"
definition KWILD_C :: uint where "KWILD_C = 0x100"
definition CHANPFX_C :: uint where "CHANPFX_C = 0x200"
definition USER_C :: uint where "USER_C = 0x400"
definition HOST_C :: uint where "HOST_C = 0x800"
definition NONEOS_C :: uint where "NONEOS_C = 0x1000"
definition SERV_C :: uint where "SERV_C = 0x2000"
definition EOL_C :: uint where "EOL_C = 0x4000"

lemmas char_flags = PRINT_C_def CNTRL_C_def ALPHA_C_def PUNCT_C_def DIGIT_C_def SPACE_C_def
  NICK_C_def CHAN_C_def KWILD_C_def CHANPFX_C_def USER_C_def HOST_C_def NONEOS_C_def
  SERV_C_def EOL_C_def

definition CharAttrs :: "uint list" where
  "CharAttrs = [
    CNTRL_C,
    CNTRL_C OR CHAN_C OR NONEOS_C,
    CNTRL_C OR CHAN_C OR NONEOS_C,
    CNTRL_C OR CHAN_C OR NONEOS_C,
    CNTRL_C OR CHAN_C OR NONEOS_C,
    CNTRL_C OR CHAN_C OR NONEOS_C,
    CNTRL_C OR CHAN_C OR NONEOS_C,
    CNTRL_C OR NONEOS_C,
    CNTRL_C OR CHAN_C OR NONEOS_C,
    CNTRL_C OR SPACE_C OR CHAN_C OR NONEOS_C,
    CNTRL_C OR SPACE_C OR CHAN_C OR NONEOS_C OR EOL_C,
    CNTRL_C OR SPACE_C OR CHAN_C OR NONEOS_C,
    CNTRL_C OR SPACE_C OR CHAN_C OR NONEOS_C,
    CNTRL_C OR SPACE_C OR CHAN_C OR NONEOS_C OR EOL_C,
    CNTRL_C OR CHAN_C OR NONEOS_C,
    CNTRL_C OR CHAN_C OR NONEOS_C,
    CNTRL_C OR CHAN_C OR NONEOS_C,
    CNTRL_C OR CHAN_C OR NONEOS_C,
    CNTRL_C OR CHAN_C OR NONEOS_C,
    CNTRL_C OR CHAN_C OR NONEOS_C,
    CNTRL_C OR CHAN_C OR NONEOS_C,
    CNTRL_C OR CHAN_C OR NONEOS_C,
    CNTRL_C OR CHAN_C OR NONEOS_C,
    CNTRL_C OR CHAN_C OR NONEOS_C,
    CNTRL_C OR CHAN_C OR NONEOS_C,
    CNTRL_C OR CHAN_C OR NONEOS_C,
    CNTRL_C OR CHAN_C OR NONEOS_C,
    CNTRL_C OR CHAN_C OR NONEOS_C,
    CNTRL_C OR CHAN_C OR NONEOS_C,
    CNTRL_C OR CHAN_C OR NONEOS_C,
    CNTRL_C OR CHAN_C OR NONEOS_C,
    CNTRL_C OR CHAN_C OR NONEOS_C,
    PRINT_C OR SPACE_C,
    PRINT_C OR KWILD_C OR CHAN_C OR NONEOS_C,
    PRINT_C OR CHAN_C OR NONEOS_C,
    PRINT_C OR CHANPFX_C OR CHAN_C OR NONEOS_C,
    PRINT_C OR CHAN_C OR NONEOS_C OR USER_C,
    PRINT_C OR CHAN_C OR NONEOS_C,
    PRINT_C OR CHANPFX_C OR CHAN_C OR NONEOS_C,
    PRINT_C OR CHAN_C OR NONEOS_C,
    PRINT_C OR CHAN_C OR NONEOS_C,
    PRINT_C OR CHAN_C OR NONEOS_C,
    PRINT_C OR KWILD_C OR CHAN_C OR NONEOS_C OR SERV_C,
    PRINT_C OR CHAN_C OR NONEOS_C,
    PRINT_C OR NONEOS_C,
    PRINT_C OR NICK_C OR CHAN_C OR NONEOS_C OR USER_C OR HOST_C,
    PRINT_C OR KWILD_C OR CHAN_C OR NONEOS_C OR USER_C OR HOST_C OR SERV_C,
    PRINT_C OR CHAN_C OR NONEOS_C,
    PRINT_C OR DIGIT_C OR NICK_C OR CHAN_C OR NONEOS_C OR USER_C OR HOST_C,
    PRINT_C OR DIGIT_C OR NICK_C OR CHAN_C OR NONEOS_C OR USER_C OR HOST_C,
    PRINT_C OR DIGIT_C OR NICK_C OR CHAN_C OR NONEOS_C OR USER_C OR HOST_C,
    PRINT_C OR DIGIT_C OR NICK_C OR CHAN_C OR NONEOS_C OR USER_C OR HOST_C,
    PRINT_C OR DIGIT_C OR NICK_C OR CHAN_C OR NONEOS_C OR USER_C OR HOST_C,
    PRINT_C OR DIGIT_C OR NICK_C OR CHAN_C OR NONEOS_C OR USER_C OR HOST_C,
    PRINT_C OR DIGIT_C OR NICK_C OR CHAN_C OR NONEOS_C OR USER_C OR HOST_C,
    PRINT_C OR DIGIT_C OR NICK_C OR CHAN_C OR NONEOS_C OR USER_C OR HOST_C,
    PRINT_C OR DIGIT_C OR NICK_C OR CHAN_C OR NONEOS_C OR USER_C OR HOST_C,
    PRINT_C OR DIGIT_C OR NICK_C OR CHAN_C OR NONEOS_C OR USER_C OR HOST_C,
    PRINT_C OR CHAN_C OR NONEOS_C OR HOST_C,
    PRINT_C OR CHAN_C OR NONEOS_C,
    PRINT_C OR CHAN_C OR NONEOS_C,
    PRINT_C OR CHAN_C OR NONEOS_C,
    PRINT_C OR CHAN_C OR NONEOS_C,
    PRINT_C OR KWILD_C OR CHAN_C OR NONEOS_C,
    PRINT_C OR KWILD_C OR CHAN_C OR NONEOS_C,
    PRINT_C OR ALPHA_C OR NICK_C OR CHAN_C OR NONEOS_C OR USER_C OR HOST_C,
    PRINT_C OR ALPHA_C OR NICK_C OR CHAN_C OR NONEOS_C OR USER_C OR HOST_C,
    PRINT_C OR ALPHA_C OR NICK_C OR CHAN_C OR NONEOS_C OR USER_C OR HOST_C,
    PRINT_C OR ALPHA_C OR NICK_C OR CHAN_C OR NONEOS_C OR USER_C OR HOST_C,
    PRINT_C OR ALPHA_C OR NICK_C OR CHAN_C OR NONEOS_C OR USER_C OR HOST_C,
    PRINT_C OR ALPHA_C OR NICK_C OR CHAN_C OR NONEOS_C OR USER_C OR HOST_C,
    PRINT_C OR ALPHA_C OR NICK_C OR CHAN_C OR NONEOS_C OR USER_C OR HOST_C,
    PRINT_C OR ALPHA_C OR NICK_C OR CHAN_C OR NONEOS_C OR USER_C OR HOST_C,
    PRINT_C OR ALPHA_C OR NICK_C OR CHAN_C OR NONEOS_C OR USER_C OR HOST_C,
    PRINT_C OR ALPHA_C OR NICK_C OR CHAN_C OR NONEOS_C OR USER_C OR HOST_C,
    PRINT_C OR ALPHA_C OR NICK_C OR CHAN_C OR NONEOS_C OR USER_C OR HOST_C,
    PRINT_C OR ALPHA_C OR NICK_C OR CHAN_C OR NONEOS_C OR USER_C OR HOST_C,
    PRINT_C OR ALPHA_C OR NICK_C OR CHAN_C OR NONEOS_C OR USER_C OR HOST_C,
    PRINT_C OR ALPHA_C OR NICK_C OR CHAN_C OR NONEOS_C OR USER_C OR HOST_C,
    PRINT_C OR ALPHA_C OR NICK_C OR CHAN_C OR NONEOS_C OR USER_C OR HOST_C,
    PRINT_C OR ALPHA_C OR NICK_C OR CHAN_C OR NONEOS_C OR USER_C OR HOST_C,
    PRINT_C OR ALPHA_C OR NICK_C OR CHAN_C OR NONEOS_C OR USER_C OR HOST_C,
    PRINT_C OR ALPHA_C OR NICK_C OR CHAN_C OR NONEOS_C OR USER_C OR HOST_C,
    PRINT_C OR ALPHA_C OR NICK_C OR CHAN_C OR NONEOS_C OR USER_C OR HOST_C,
    PRINT_C OR ALPHA_C OR NICK_C OR CHAN_C OR NONEOS_C OR USER_C OR HOST_C,
    PRINT_C OR ALPHA_C OR NICK_C OR CHAN_C OR NONEOS_C OR USER_C OR HOST_C,
    PRINT_C OR ALPHA_C OR NICK_C OR CHAN_C OR NONEOS_C OR USER_C OR HOST_C,
    PRINT_C OR ALPHA_C OR NICK_C OR CHAN_C OR NONEOS_C OR USER_C OR HOST_C,
    PRINT_C OR ALPHA_C OR NICK_C OR CHAN_C OR NONEOS_C OR USER_C OR HOST_C,
    PRINT_C OR ALPHA_C OR NICK_C OR CHAN_C OR NONEOS_C OR USER_C OR HOST_C,
    PRINT_C OR ALPHA_C OR NICK_C OR CHAN_C OR NONEOS_C OR USER_C OR HOST_C,
    PRINT_C OR ALPHA_C OR NICK_C OR CHAN_C OR NONEOS_C OR USER_C,
    PRINT_C OR ALPHA_C OR NICK_C OR CHAN_C OR NONEOS_C OR USER_C,
    PRINT_C OR ALPHA_C OR NICK_C OR CHAN_C OR NONEOS_C OR USER_C,
    PRINT_C OR ALPHA_C OR NICK_C OR CHAN_C OR NONEOS_C OR USER_C,
    PRINT_C OR NICK_C OR CHAN_C OR NONEOS_C OR USER_C,
    PRINT_C OR NICK_C OR CHAN_C OR NONEOS_C OR USER_C,
    PRINT_C OR ALPHA_C OR NICK_C OR CHAN_C OR NONEOS_C OR USER_C OR HOST_C,
    PRINT_C OR ALPHA_C OR NICK_C OR CHAN_C OR NONEOS_C OR USER_C OR HOST_C,
    PRINT_C OR ALPHA_C OR NICK_C OR CHAN_C OR NONEOS_C OR USER_C OR HOST_C,
    PRINT_C OR ALPHA_C OR NICK_C OR CHAN_C OR NONEOS_C OR USER_C OR HOST_C,
    PRINT_C OR ALPHA_C OR NICK_C OR CHAN_C OR NONEOS_C OR USER_C OR HOST_C,
    PRINT_C OR ALPHA_C OR NICK_C OR CHAN_C OR NONEOS_C OR USER_C OR HOST_C,
    PRINT_C OR ALPHA_C OR NICK_C OR CHAN_C OR NONEOS_C OR USER_C OR HOST_C,
    PRINT_C OR ALPHA_C OR NICK_C OR CHAN_C OR NONEOS_C OR USER_C OR HOST_C,
    PRINT_C OR ALPHA_C OR NICK_C OR CHAN_C OR NONEOS_C OR USER_C OR HOST_C,
    PRINT_C OR ALPHA_C OR NICK_C OR CHAN_C OR NONEOS_C OR USER_C OR HOST_C,
    PRINT_C OR ALPHA_C OR NICK_C OR CHAN_C OR NONEOS_C OR USER_C OR HOST_C,
    PRINT_C OR ALPHA_C OR NICK_C OR CHAN_C OR NONEOS_C OR USER_C OR HOST_C,
    PRINT_C OR ALPHA_C OR NICK_C OR CHAN_C OR NONEOS_C OR USER_C OR HOST_C,
    PRINT_C OR ALPHA_C OR NICK_C OR CHAN_C OR NONEOS_C OR USER_C OR HOST_C,
    PRINT_C OR ALPHA_C OR NICK_C OR CHAN_C OR NONEOS_C OR USER_C OR HOST_C,
    PRINT_C OR ALPHA_C OR NICK_C OR CHAN_C OR NONEOS_C OR USER_C OR HOST_C,
    PRINT_C OR ALPHA_C OR NICK_C OR CHAN_C OR NONEOS_C OR USER_C OR HOST_C,
    PRINT_C OR ALPHA_C OR NICK_C OR CHAN_C OR NONEOS_C OR USER_C OR HOST_C,
    PRINT_C OR ALPHA_C OR NICK_C OR CHAN_C OR NONEOS_C OR USER_C OR HOST_C,
    PRINT_C OR ALPHA_C OR NICK_C OR CHAN_C OR NONEOS_C OR USER_C OR HOST_C,
    PRINT_C OR ALPHA_C OR NICK_C OR CHAN_C OR NONEOS_C OR USER_C OR HOST_C,
    PRINT_C OR ALPHA_C OR NICK_C OR CHAN_C OR NONEOS_C OR USER_C OR HOST_C,
    PRINT_C OR ALPHA_C OR NICK_C OR CHAN_C OR NONEOS_C OR USER_C OR HOST_C,
    PRINT_C OR ALPHA_C OR NICK_C OR CHAN_C OR NONEOS_C OR USER_C OR HOST_C,
    PRINT_C OR ALPHA_C OR NICK_C OR CHAN_C OR NONEOS_C OR USER_C OR HOST_C,
    PRINT_C OR ALPHA_C OR NICK_C OR CHAN_C OR NONEOS_C OR USER_C OR HOST_C,
    PRINT_C OR ALPHA_C OR NICK_C OR CHAN_C OR NONEOS_C OR USER_C,
    PRINT_C OR ALPHA_C OR NICK_C OR CHAN_C OR NONEOS_C OR USER_C,
    PRINT_C OR ALPHA_C OR NICK_C OR CHAN_C OR NONEOS_C OR USER_C,
    PRINT_C OR ALPHA_C OR CHAN_C OR NONEOS_C OR USER_C,
    CHAN_C OR NONEOS_C,
    CHAN_C OR NONEOS_C,
    CHAN_C OR NONEOS_C,
    CHAN_C OR NONEOS_C,
    CHAN_C OR NONEOS_C,
    CHAN_C OR NONEOS_C,
    CHAN_C OR NONEOS_C,
    CHAN_C OR NONEOS_C,
    CHAN_C OR NONEOS_C,
    CHAN_C OR NONEOS_C,
    CHAN_C OR NONEOS_C,
    CHAN_C OR NONEOS_C,
    CHAN_C OR NONEOS_C,
    CHAN_C OR NONEOS_C,
    CHAN_C OR NONEOS_C,
    CHAN_C OR NONEOS_C,
    CHAN_C OR NONEOS_C,
    CHAN_C OR NONEOS_C,
    CHAN_C OR NONEOS_C,
    CHAN_C OR NONEOS_C,
    CHAN_C OR NONEOS_C,
    CHAN_C OR NONEOS_C,
    CHAN_C OR NONEOS_C,
    CHAN_C OR NONEOS_C,
    CHAN_C OR NONEOS_C,
    CHAN_C OR NONEOS_C,
    CHAN_C OR NONEOS_C,
    CHAN_C OR NONEOS_C,
    CHAN_C OR NONEOS_C,
    CHAN_C OR NONEOS_C,
    CHAN_C OR NONEOS_C,
    CHAN_C OR NONEOS_C,
    CHAN_C OR NONEOS_C,
    CHAN_C OR NONEOS_C,
    CHAN_C OR NONEOS_C,
    CHAN_C OR NONEOS_C,
    CHAN_C OR NONEOS_C,
    CHAN_C OR NONEOS_C,
    CHAN_C OR NONEOS_C,
    CHAN_C OR NONEOS_C,
    CHAN_C OR NONEOS_C,
    CHAN_C OR NONEOS_C,
    CHAN_C OR NONEOS_C,
    CHAN_C OR NONEOS_C,
    CHAN_C OR NONEOS_C,
    CHAN_C OR NONEOS_C,
    CHAN_C OR NONEOS_C,
    CHAN_C OR NONEOS_C,
    CHAN_C OR NONEOS_C,
    CHAN_C OR NONEOS_C,
    CHAN_C OR NONEOS_C,
    CHAN_C OR NONEOS_C,
    CHAN_C OR NONEOS_C,
    CHAN_C OR NONEOS_C,
    CHAN_C OR NONEOS_C,
    CHAN_C OR NONEOS_C,
    CHAN_C OR NONEOS_C,
    CHAN_C OR NONEOS_C,
    CHAN_C OR NONEOS_C,
    CHAN_C OR NONEOS_C,
    CHAN_C OR NONEOS_C,
    CHAN_C OR NONEOS_C,
    CHAN_C OR NONEOS_C,
    CHAN_C OR NONEOS_C,
    CHAN_C OR NONEOS_C,
    CHAN_C OR NONEOS_C,
    CHAN_C OR NONEOS_C,
    CHAN_C OR NONEOS_C,
    CHAN_C OR NONEOS_C,
    CHAN_C OR NONEOS_C,
    CHAN_C OR NONEOS_C,
    CHAN_C OR NONEOS_C,
    CHAN_C OR NONEOS_C,
    CHAN_C OR NONEOS_C,
    CHAN_C OR NONEOS_C,
    CHAN_C OR NONEOS_C,
    CHAN_C OR NONEOS_C,
    CHAN_C OR NONEOS_C,
    CHAN_C OR NONEOS_C,
    CHAN_C OR NONEOS_C,
    CHAN_C OR NONEOS_C,
    CHAN_C OR NONEOS_C,
    CHAN_C OR NONEOS_C,
    CHAN_C OR NONEOS_C,
    CHAN_C OR NONEOS_C,
    CHAN_C OR NONEOS_C,
    CHAN_C OR NONEOS_C,
    CHAN_C OR NONEOS_C,
    CHAN_C OR NONEOS_C,
    CHAN_C OR NONEOS_C,
    CHAN_C OR NONEOS_C,
    CHAN_C OR NONEOS_C,
    CHAN_C OR NONEOS_C,
    CHAN_C OR NONEOS_C,
    CHAN_C OR NONEOS_C,
    CHAN_C OR NONEOS_C,
    CHAN_C OR NONEOS_C,
    CHAN_C OR NONEOS_C,
    CHAN_C OR NONEOS_C,
    CHAN_C OR NONEOS_C,
    CHAN_C OR NONEOS_C,
    CHAN_C OR NONEOS_C,
    CHAN_C OR NONEOS_C,
    CHAN_C OR NONEOS_C,
    CHAN_C OR NONEOS_C,
    CHAN_C OR NONEOS_C,
    CHAN_C OR NONEOS_C,
    CHAN_C OR NONEOS_C,
    CHAN_C OR NONEOS_C,
    CHAN_C OR NONEOS_C,
    CHAN_C OR NONEOS_C,
    CHAN_C OR NONEOS_C,
    CHAN_C OR NONEOS_C,
    CHAN_C OR NONEOS_C,
    CHAN_C OR NONEOS_C,
    CHAN_C OR NONEOS_C,
    CHAN_C OR NONEOS_C,
    CHAN_C OR NONEOS_C,
    CHAN_C OR NONEOS_C,
    CHAN_C OR NONEOS_C,
    CHAN_C OR NONEOS_C,
    CHAN_C OR NONEOS_C,
    CHAN_C OR NONEOS_C,
    CHAN_C OR NONEOS_C,
    CHAN_C OR NONEOS_C,
    CHAN_C OR NONEOS_C,
    CHAN_C OR NONEOS_C,
    CHAN_C OR NONEOS_C,
    CHAN_C OR NONEOS_C]"

lemma length_tables [simp]:
  "length ToLowerTab = 256" "length ToUpperTab = 256" "length CharAttrs = 256"
  by (simp_all add: ToLowerTab_def ToUpperTab_def CharAttrs_def)

definition has_attr :: "uint \<Rightarrow> char \<Rightarrow> bool" where
  "has_attr f c \<longleftrightarrow> (CharAttrs ! byte_of c) AND f \<noteq> 0"

definition IsHostChar :: "char \<Rightarrow> bool" where "IsHostChar c = has_attr HOST_C c"
definition IsURLChar :: "char \<Rightarrow> bool" where
  "IsURLChar c \<longleftrightarrow> IsHostChar c \<or> c = CHR ''/'' \<or> c = CHR ''_''"
definition IsUserChar :: "char \<Rightarrow> bool" where "IsUserChar c = has_attr USER_C c"
definition IsChanPrefix :: "char \<Rightarrow> bool" where "IsChanPrefix c = has_attr CHANPFX_C c"
definition IsChanChar :: "char \<Rightarrow> bool" where "IsChanChar c = has_attr CHAN_C c"
definition IsNickChar :: "char \<Rightarrow> bool" where "IsNickChar c = has_attr NICK_C c"
definition IsAlNum :: "char \<Rightarrow> bool" where "IsAlNum c = has_attr (DIGIT_C OR ALPHA_C) c"
definition IsChanKeyChar :: "char \<Rightarrow> bool" where "IsChanKeyChar c = IsAlNum c"
definition IsWildChar :: "char \<Rightarrow> bool" where
  "IsWildChar c \<longleftrightarrow> c = CHR ''?'' \<or> c = CHR ''*''"

section \<open>What the tables say\<close>

text \<open>
  The entries, checked one by one: \<open>ToLowerTab\<close> folds the RFC 1459 pairs including
  \<open>^\<close>/\<open>~\<close>, and the attribute columns are the usual character classes.
\<close>

lemma ToLowerTab_entries:
  "indexed_all (\<lambda>n v. v = (if 65 \<le> n \<and> n \<le> 94 then n + 32 else n)) 0 ToLowerTab"
  by (simp add: ToLowerTab_def)

lemma ToUpperTab_entries:
  "indexed_all (\<lambda>n v. v = (if 97 \<le> n \<and> n \<le> 126 then n - 32 else n)) 0 ToUpperTab"
  by (simp add: ToUpperTab_def)

lemma ToLower_eq:
  "ToLower c = (if 65 \<le> byte_of c \<and> byte_of c \<le> 94 then byte_of c + 32 else byte_of c)"
  using indexed_all_0 [OF ToLowerTab_entries, of "byte_of c"] by (simp add: ToLower_def)

lemma ToUpper_eq:
  "ToUpper c = (if 97 \<le> byte_of c \<and> byte_of c \<le> 126 then byte_of c - 32 else byte_of c)"
  using indexed_all_0 [OF ToUpperTab_entries, of "byte_of c"] by (simp add: ToUpper_def)

lemma NICK_entries:
  "indexed_all (\<lambda>n a. (a AND NICK_C \<noteq> 0) =
     (n = 45 \<or> 48 \<le> n \<and> n \<le> 57 \<or> 65 \<le> n \<and> n \<le> 125)) 0 CharAttrs"
  by (simp add: CharAttrs_def char_flags)

lemma IsNickChar_iff:
  "IsNickChar c \<longleftrightarrow> byte_of c = 45 \<or> 48 \<le> byte_of c \<and> byte_of c \<le> 57
     \<or> 65 \<le> byte_of c \<and> byte_of c \<le> 125"
  using indexed_all_0 [OF NICK_entries, of "byte_of c"] by (simp add: IsNickChar_def has_attr_def)

lemma CHAN_entries:
  "indexed_all (\<lambda>n a. (a AND CHAN_C \<noteq> 0) = (n \<noteq> 0 \<and> n \<noteq> 7 \<and> n \<noteq> 32 \<and> n \<noteq> 44)) 0 CharAttrs"
  by (simp add: CharAttrs_def char_flags)

lemma IsChanChar_iff:
  "IsChanChar c \<longleftrightarrow> byte_of c \<notin> {0, 7, 32, 44}"
  using indexed_all_0 [OF CHAN_entries, of "byte_of c"] by (simp add: IsChanChar_def has_attr_def)

lemma HOST_entries:
  "indexed_all (\<lambda>n a. (a AND HOST_C \<noteq> 0) =
     (n = 45 \<or> n = 46 \<or> 48 \<le> n \<and> n \<le> 58 \<or> 65 \<le> n \<and> n \<le> 90 \<or> 97 \<le> n \<and> n \<le> 122)) 0 CharAttrs"
  by (simp add: CharAttrs_def char_flags)

lemma IsHostChar_iff:
  "IsHostChar c \<longleftrightarrow> byte_of c \<in> {45, 46} \<or> 48 \<le> byte_of c \<and> byte_of c \<le> 58
     \<or> 65 \<le> byte_of c \<and> byte_of c \<le> 90 \<or> 97 \<le> byte_of c \<and> byte_of c \<le> 122"
  using indexed_all_0 [OF HOST_entries, of "byte_of c"] by (simp add: IsHostChar_def has_attr_def)

end
