(* ===== verification/Misc.thy ===== *)
theory Misc
  imports Support CharTables
begin

text \<open>
  \<^verbatim>\<open>src/misc.c\<close>: string cleaning, the splitting of a line into arguments and the
  joining of arguments, growable argument lists, and the validators. In-place routines
  return the string left behind; those that can leave their buffer return an \<open>option\<close>.
\<close>

section \<open>hrand\<close>

text \<open>
  \<open>r\<close> is the value of \<^verbatim>\<open>rand()\<close>, which is not negative. The divisor is computed in
  unsigned arithmetic and then read as an \<^verbatim>\<open>int\<close>; division by zero is \<open>None\<close>.
\<close>

definition hrand :: "nat \<Rightarrow> uint \<Rightarrow> uint \<Rightarrow> uint option" where
  "hrand r upperbound lowerbound =
     (if upperbound < 1 then Some 0
      else (let m = sint ((upperbound - lowerbound) + 1)
            in if m = 0 then None
               else Some (word_of_int (int r mod \<bar>m\<bar> - sint (lowerbound - 1)))))"

section \<open>In-place filters\<close>

definition make_safe_filename :: "string option \<Rightarrow> string option" where
  "make_safe_filename name = map_option (map (\<lambda>c. if c = CHR ''/'' then CHR '':'' else c)) name"

text \<open>Cut at the first newline, then at the first carriage return of what is left.\<close>

definition strip :: "string option \<Rightarrow> string option" where
  "strip line =
     (case line of
        None \<Rightarrow> None
      | Some l \<Rightarrow>
          (let l1 = (if CHR 0x0A \<in> set l then takeWhile (\<lambda>c. c \<noteq> CHR 0x0A) l else l)
           in Some (if CHR 0x0D \<in> set l1 then takeWhile (\<lambda>c. c \<noteq> CHR 0x0D) l1 else l1)))"

definition sstrdup :: "string option \<Rightarrow> string option" where
  "sstrdup s = (case s of None \<Rightarrow> None | Some t \<Rightarrow> Some (strlcpy_str (length t + 1) t))"

definition ns_strlwr :: "string option \<Rightarrow> string option" where
  "ns_strlwr s = map_option (map c_tolower) s"

definition c_isdigit :: "char \<Rightarrow> bool" where
  "c_isdigit c \<longleftrightarrow> 48 \<le> byte_of c \<and> byte_of c \<le> 57"

text \<open>
  \<open>strip_mirc_codes\<close>. \<open>skip_colour\<close> is the pointer after a colour code whose first digit
  has been seen, \<open>skip_ansi\<close> the pointer after an escape sequence.
\<close>

definition skip_digit :: "string \<Rightarrow> string" where
  "skip_digit t = (if c_isdigit (deref t) then tl t else t)"

definition skip_colour :: "string \<Rightarrow> string" where
  "skip_colour text =
     (let t1 = drop 2 text;
          t2 = skip_digit t1
      in if deref t2 = CHR '',''
         then skip_digit (if c_isdigit (deref (tl t2)) then drop 2 t2 else t2)
         else t2)"

definition skip_ansi :: "string \<Rightarrow> string" where
  "skip_ansi text =
     (let t = tl text
      in if deref t = CHR ''[''
         then (let t' = dropWhile (\<lambda>c. c = CHR '';'' \<or> c_isdigit c) (tl t)
               in if t' \<noteq> [] then tl t' else t')
         else t)"

lemma length_skip_digit: "length (skip_digit t) \<le> length t"
  by (simp add: skip_digit_def)

lemma length_skip_colour: "length (skip_colour (c # cs)) \<le> length cs"
proof -
  define t2 where "t2 = skip_digit (drop 2 (c # cs))"
  have "length t2 \<le> length cs"
    using length_skip_digit [of "drop 2 (c # cs)"] by (simp add: t2_def)
  moreover have "length (skip_digit (drop 2 t2)) \<le> length t2" "length (skip_digit t2) \<le> length t2"
    using length_skip_digit [of "drop 2 t2"] length_skip_digit [of t2] by simp_all
  ultimately show ?thesis
    unfolding skip_colour_def Let_def t2_def [symmetric] by simp
qed

lemma length_skip_ansi: "length (skip_ansi (c # cs)) \<le> length cs"
proof -
  define t where "t = dropWhile (\<lambda>c. c = CHR '';'' \<or> c_isdigit c) (tl cs)"
  have "length t \<le> length cs"
    using length_dropWhile_le [of "\<lambda>c. c = CHR '';'' \<or> c_isdigit c" "tl cs"] by (simp add: t_def)
  then show ?thesis
    unfolding skip_ansi_def Let_def list.sel t_def [symmetric]
    by (auto intro: order_trans [OF diff_le_self])
qed

function strip_mirc_codes :: "string \<Rightarrow> string" where
  "strip_mirc_codes [] = []"
| "strip_mirc_codes (c # cs) =
     (if c = CHR 0x01 \<or> c = CHR 0x02 \<or> c = CHR 0x07 \<or> c = CHR 0x16 \<or> c = CHR 0x1F
      then strip_mirc_codes cs
      else if c = CHR 0x03 \<and> c_isdigit (deref cs)
      then strip_mirc_codes (skip_colour (c # cs))
      else if c = CHR 0x1B
      then strip_mirc_codes (skip_ansi (c # cs))
      else c # strip_mirc_codes cs)"
  by pat_completeness auto
termination
  by (relation "measure length")
    (auto simp: le_imp_less_Suc length_skip_colour length_skip_ansi)

text \<open>
  \<open>clean_string\<close> builds the escaped text in a heap block of \<open>len\<close> bytes: \<open>dd\<close> counts
  the bytes stored, \<open>i\<close> the characters read. A store past the block is \<open>None\<close>.
\<close>

definition push :: "nat \<Rightarrow> string \<Rightarrow> char \<Rightarrow> string option" where
  "push len out c = (if length out < len then Some (out @ [c]) else None)"

fun clean_loop :: "nat \<Rightarrow> nat \<Rightarrow> string \<Rightarrow> string \<Rightarrow> string option" where
  "clean_loop len i out [] = push len out NUL"
| "clean_loop len i out (c # cs) =
     (if c = CHR ''%''
      then if (i + 1) + 1 \<le> len
           then do { out1 \<leftarrow> push len out (CHR ''%'');
                     out2 \<leftarrow> push len out1 c;
                     clean_loop len (i + 1) out2 cs }
           else (case cs of
                   [] \<Rightarrow> None
                 | d # ds \<Rightarrow> do { out1 \<leftarrow> push len out d; clean_loop len (i + 1) out1 ds })
      else do { out1 \<leftarrow> push len out c; clean_loop len (i + 1) out1 cs })"

text \<open>\<^verbatim>\<open>strncpy( orig, start, len )\<close> copies back at most \<open>len\<close> bytes of the string.\<close>

definition clean_string :: "string \<Rightarrow> nat \<Rightarrow> string option" where
  "clean_string text len = map_option (\<lambda>out. c_str (take len out)) (clean_loop len 0 [] text)"

section \<open>Splitting a line into arguments\<close>

text \<open>
  Both splitters write NULs into the line and return pointers into it, here indices into
  the array \<open>m\<close>. \<open>next_word\<close> is the step of the loop bodies after the colon test: where
  the word at \<open>buf\<close> ends, the array with the separator overwritten, and where the next
  word starts.
\<close>

definition at :: "string \<Rightarrow> nat \<Rightarrow> char" where
  "at m i = (if i < length m then m ! i else NUL)"

function skip_space :: "string \<Rightarrow> nat \<Rightarrow> nat" where
  "skip_space m s = (if s < length m \<and> c_isspace (at m s) then skip_space m (s + 1) else s)"
  by pat_completeness auto
termination by (relation "measure (\<lambda>(m, s). length m - s)") auto

declare skip_space.simps [simp del]

text \<open>\<^verbatim>\<open>strpbrk( buf, " " )\<close>: the index of the first space before the terminator.\<close>

definition find_space :: "string \<Rightarrow> nat \<Rightarrow> nat option" where
  "find_space m buf =
     (let w = c_str (drop buf m)
      in if CHR '' '' \<in> set w then Some (buf + length (takeWhile (\<lambda>c. c \<noteq> CHR '' '') w)) else None)"

definition next_word :: "string \<Rightarrow> nat \<Rightarrow> string \<times> nat" where
  "next_word m buf =
     (case find_space m buf of
        Some p \<Rightarrow> (let m' = m[p := NUL] in (m', skip_space m' (p + 1)))
      | None \<Rightarrow> (m, buf + min BUFSIZE (length (c_str (drop buf m)))))"

lemma skip_space_ge: "s \<le> skip_space m s"
proof (induction m s rule: skip_space.induct)
  case (1 m s)
  then show ?case by (subst skip_space.simps) auto
qed

lemma next_word_ge: "at m buf \<noteq> NUL \<Longrightarrow> buf < snd (next_word m buf)"
proof -
  assume a: "at m buf \<noteq> NUL"
  then have "buf < length m" "m ! buf \<noteq> NUL" by (auto simp: at_def split: if_splits)
  then have "c_str (drop buf m) \<noteq> []" by (simp flip: Cons_nth_drop_Suc)
  moreover have "buf < skip_space m' (p + 1)" if "buf \<le> p" for m' p
    using skip_space_ge [of "p + 1" m'] that by linarith
  ultimately show ?thesis
    by (auto simp: next_word_def find_space_def Let_def BUFSIZE_def split: option.splits if_splits)
qed

lemma next_word_length [simp]: "length (fst (next_word m buf)) = length m"
  by (simp add: next_word_def Let_def split: option.splits)

text \<open>
  One pass of the loop of \<open>split_buf\<close>: a colon is skipped once, the word is cut, and an
  empty word makes the recorded pointer move past the NUL just written.
\<close>

definition split_step :: "string \<Rightarrow> nat \<Rightarrow> nat \<Rightarrow> string \<times> nat \<times> nat \<times> nat" where
  "split_step m buf colcount =
     (let (buf1, colcount1) =
            (if at m buf = CHR '':'' \<and> colcount < 1 then (buf + 1, colcount + 1) else (buf, colcount));
          (m1, s) = next_word m buf1;
          arg = (if at m1 buf1 = NUL then buf1 + 1 else buf1)
      in (m1, s, colcount1, arg))"

lemma next_word_ge': "buf \<le> snd (next_word m buf)"
proof (cases "find_space m buf")
  case None
  then show ?thesis by (simp add: next_word_def)
next
  case (Some p)
  then have "buf \<le> p" by (auto simp: find_space_def Let_def split: if_splits)
  then have "buf \<le> skip_space (m[p := NUL]) (p + 1)"
    using skip_space_ge [of "p + 1" "m[p := NUL]"] by linarith
  with Some show ?thesis by (simp add: next_word_def Let_def)
qed

lemma split_step_ge:
  assumes "split_step m buf col = (m1, s, col1, arg)" and "at m buf \<noteq> NUL"
  shows "buf < s \<and> length m1 = length m"
proof (cases "at m buf = CHR '':'' \<and> col < 1")
  case True
  then have "m1 = fst (next_word m (buf + 1))" "s = snd (next_word m (buf + 1))"
    using assms(1) by (auto simp: split_step_def Let_def split: prod.splits)
  then show ?thesis using next_word_ge' [of "buf + 1" m] by simp
next
  case False
  then have "m1 = fst (next_word m buf)" "s = snd (next_word m buf)"
    using assms(1) by (auto simp: split_step_def Let_def split: prod.splits if_splits)
  then show ?thesis using next_word_ge [OF assms(2)] by simp
qed

lemma split_step_less:
  assumes "at m buf \<noteq> NUL" and "split_step m buf col = (m1, s, col1, arg)"
  shows "length m1 - s < length m - buf"
  using split_step_ge [OF assms(2,1)] assms(1) by (auto simp: at_def split: if_splits)

function split_loop :: "string \<Rightarrow> nat \<Rightarrow> nat \<Rightarrow> nat list \<Rightarrow> string \<times> nat list" where
  "split_loop m buf colcount argv =
     (if at m buf \<noteq> NUL
      then (case split_step m buf colcount of
              (m1, s, colcount1, arg) \<Rightarrow> split_loop m1 s colcount1 (argv @ [arg]))
      else (m, argv))"
  by pat_completeness auto
termination
  by (relation "measure (\<lambda>(m, buf, col, argv). length m - buf)")
    (auto dest: split_step_less [OF _ sym])

declare split_loop.simps [simp del]

text \<open>The argument a pointer denotes: \<open>None\<close> when it points past the end of the array.\<close>

definition arg_at :: "string \<Rightarrow> nat \<Rightarrow> string option" where
  "arg_at m i = (if i < length m then Some (c_str (drop i m)) else None)"

definition split_buf :: "string option \<Rightarrow> string option list" where
  "split_buf buf =
     (case buf of
        None \<Rightarrow> []
      | Some s \<Rightarrow>
          (let m = s @ [NUL];
               b = (if at m 0 = CHR '':'' then 1 else 0);
               (m', argv) = split_loop m b 0 []
           in map (arg_at m') argv))"

text \<open>
  \<open>ircsplitbuf\<close>: the same loop, without the initial skip, and with \<open>colon_special\<close> the
  first colon at the start of a word makes the rest of the line one argument.
\<close>

function ircsplit_loop :: "bool \<Rightarrow> string \<Rightarrow> nat \<Rightarrow> nat \<Rightarrow> nat list \<Rightarrow> string \<times> nat list" where
  "ircsplit_loop special m buf colcount argv =
     (if at m buf \<noteq> NUL
      then if at m buf = CHR '':'' \<and> colcount < 1 \<and> special
           then (m, argv @ [buf + 1])
           else (case split_step m buf colcount of
                   (m1, s, colcount1, arg) \<Rightarrow> ircsplit_loop special m1 s colcount1 (argv @ [arg]))
      else (m, argv))"
  by pat_completeness auto
termination
  by (relation "measure (\<lambda>(special, m, buf, col, argv). length m - buf)")
    (auto dest: split_step_less [OF _ sym])

declare ircsplit_loop.simps [simp del]

definition ircsplitbuf :: "string option \<Rightarrow> bool \<Rightarrow> string option list" where
  "ircsplitbuf buf colon_special =
     (case buf of
        None \<Rightarrow> []
      | Some s \<Rightarrow>
          (let (m', argv) = ircsplit_loop colon_special (s @ [NUL]) 0 0 []
           in map (arg_at m') argv))"

section \<open>Joining arguments\<close>

text \<open>
  \<open>strlcat_str\<close> is \<open>strlcat\<close> of \<^verbatim>\<open>support.c\<close> on a buffer of exactly \<open>sz\<close> bytes that holds the
  string \<open>d\<close>: appending past the end is the store outside the buffer of
  \<open>strlcat_writes_past\<close>, here \<open>None\<close>. \<open>joinbuf\<close> concatenates with it.
\<close>

definition strlcat_str :: "nat \<Rightarrow> string \<Rightarrow> string \<Rightarrow> string option" where
  "strlcat_str sz d s = (if s = [] then Some d else if sz \<le> length d + length s then None else Some (d @ s))"

fun join_loop :: "string \<Rightarrow> string list \<Rightarrow> string option" where
  "join_loop buf [] = Some buf"
| "join_loop buf (a # av) = do {
     buf \<leftarrow> strlcat_str BUFSIZE buf '' '';
     buf \<leftarrow> strlcat_str BUFSIZE buf a;
     join_loop buf av
   }"

definition joinbuf :: "string list \<Rightarrow> nat \<Rightarrow> string option" where
  "joinbuf av from =
     (if from \<ge> length av then Some ''( null )''
      else join_loop (strlcpy_str BUFSIZE (av ! from)) (drop (from + 1) av))"

section \<open>Growable argument lists\<close>

text \<open>
  \<open>AddStringToList\<close> remembers the capacity of the array it last grew in one static
  variable, \<open>numargs\<close>, whatever list it is called for. \<open>cap\<close> is the size the list's own
  block really has; a store past it is \<open>None\<close>.
\<close>

record strlist =
  items :: "string list"
  cap :: nat

definition AddStringToList :: "nat \<Rightarrow> strlist \<Rightarrow> string \<Rightarrow> (nat \<times> strlist) option" where
  "AddStringToList numargs l s =
     (let c = length (items l);
          (numargs', l') =
            (if c = 0 then (8, l\<lparr>cap := 8\<rparr>)
             else if c = numargs then (numargs + 8, l\<lparr>cap := numargs + 8\<rparr>)
             else (numargs, l))
      in if c < cap l' then Some (numargs', l'\<lparr>items := items l @ [s]\<rparr>) else None)"

section \<open>Splitting undoes joining\<close>

definition word_ok :: "string \<Rightarrow> bool" where
  "word_ok w \<longleftrightarrow> w \<noteq> [] \<and> nul_free w \<and> CHR '' '' \<notin> set w \<and> hd w \<noteq> CHR '':'' \<and>
     \<not> c_isspace (hd w) \<and> length w \<le> BUFSIZE"

fun join_sp :: "string list \<Rightarrow> string" where
  "join_sp [] = []"
| "join_sp [w] = w"
| "join_sp (w # ws) = w @ '' '' @ join_sp ws"

lemma word_ok_Cons:
  assumes "word_ok w"
  obtains c cs where "w = c # cs" "c \<noteq> NUL" "c \<noteq> CHR '':''" "c \<noteq> CHR '' ''" "\<not> c_isspace c"
  using assms by (cases w) (auto simp: word_ok_def)

lemma c_str_append_stop: "nul_free w \<Longrightarrow> c_str (w @ NUL # xs) = w"
  by (induction w) auto

lemma c_str_append_nul_free: "nul_free w \<Longrightarrow> c_str (w @ xs) = w @ c_str xs"
  by (induction w) auto

lemma takeWhile_stop: "x \<notin> set w \<Longrightarrow> takeWhile (\<lambda>c. c \<noteq> x) (w @ x # xs) = w"
  by (induction w) auto

lemma drop_Cons_less: "drop b m = x # xs \<Longrightarrow> b < length m"
  by (metis drop_all leI list.distinct(1))

lemma at_deref: "at m b = deref (drop b m)"
  by (cases "b < length m") (simp_all add: at_def flip: Cons_nth_drop_Suc)

lemma at_drop: "drop b m = x # xs \<Longrightarrow> at m b = x"
  by (simp add: at_deref)

lemma drop_further: "drop b m = xs \<Longrightarrow> drop (b + n) m = drop n xs"
  by (metis add.commute drop_drop)

lemma next_word_last:
  assumes "drop b m = w @ [NUL]" and "word_ok w"
  shows "next_word m b = (m, b + length w)"
  using assms by (simp add: next_word_def find_space_def c_str_append_stop word_ok_def)

lemma next_word_more:
  assumes d: "drop b m = w @ CHR '' '' # rest" and w: "word_ok w" and "\<not> c_isspace (deref rest)"
  shows "next_word m b = (m[b + length w := NUL], b + length w + 1)"
proof -
  have "c_str (drop b m) = w @ CHR '' '' # c_str rest"
    using d w by (simp add: c_str_append_nul_free word_ok_def)
  then have "find_space m b = Some (b + length w)"
    using w by (simp add: find_space_def takeWhile_stop word_ok_def)
  moreover have "drop (b + length w + 1) (m[b + length w := NUL]) = rest"
    using drop_further [OF d, of "length w + 1"] by simp
  then have "at (m[b + length w := NUL]) (b + length w + 1) = deref rest"
    by (simp only: at_deref)
  ultimately show ?thesis
    using assms(3) by (simp add: next_word_def Let_def skip_space.simps)
qed

lemma split_step_word:
  assumes "drop b m = w @ xs" and "word_ok w"
    and "next_word m b = (m1, s)" and "take (b + length w) m1 = take (b + length w) m"
  shows "split_step m b col = (m1, s, col, b)"
proof -
  from assms(2) obtain c cs where c: "w = c # cs" "c \<noteq> NUL" "c \<noteq> CHR '':''" by (elim word_ok_Cons)
  with assms(1) have a: "at m b = c" "b < length m"
    by (auto intro: at_drop drop_Cons_less)
  have "length m1 = length m" using assms(3) next_word_length [of m b] by simp
  moreover have "m1 ! b = m ! b"
    using arg_cong [OF assms(4), of "\<lambda>xs. xs ! b"] c by simp
  ultimately have "at m1 b = c" using a by (simp add: at_def)
  with a c assms(3) show ?thesis by (simp add: split_step_def)
qed

text \<open>A word that was cut at the blank after it, in an array whose start up to the cut has not changed since.\<close>

lemma arg_at_cut:
  assumes d: "drop b m = w @ CHR '' '' # rest" and w: "nul_free w"
    and m': "length m' = length m" "take (b + length w + 1) m' = take (b + length w + 1) (m[b + length w := NUL])"
  shows "arg_at m' b = Some w"
proof -
  have len: "b + length w < length m" using arg_cong [OF d, of length] by simp
  have "take (length w + 1) (drop b m') = take (length w + 1) (drop b (m[b + length w := NUL]))"
    using arg_cong [OF m'(2), of "drop b"] by (simp add: drop_take)
  also have "drop b (m[b + length w := NUL]) = w @ NUL # rest"
    using d len by (simp add: drop_update_swap list_update_append)
  finally have "take (length w + 1) (drop b m') = w @ [NUL]" by simp
  then have "drop b m' = (w @ [NUL]) @ drop (length w + 1) (drop b m')" by (metis append_take_drop_id)
  then have "c_str (drop b m') = w" using w c_str_append_stop [of w] by (metis append_Cons append_Nil append_assoc)
  then show ?thesis using len m'(1) by (simp add: arg_at_def)
qed

lemma split_loop_join:
  "list_all word_ok ts \<Longrightarrow> ts \<noteq> [] \<Longrightarrow> drop b m = join_sp ts @ [NUL] \<Longrightarrow>
   \<exists>m' ps. split_loop m b col argv = (m', argv @ ps) \<and> length m' = length m \<and>
     take b m' = take b m \<and> map (arg_at m') ps = map Some ts"
proof (induction ts arbitrary: m b argv rule: join_sp.induct)
  case (2 w)
  then have w: "word_ok w" and d: "drop b m = w @ [NUL]" by simp_all
  then have "drop (b + length w) m = [NUL]"
    using drop_further [OF d, of "length w"] by simp
  then have stop: "at m (b + length w) = NUL" by (rule at_drop)
  have "split_step m b col = (m, b + length w, col, b)"
    using split_step_word [OF d w next_word_last [OF d w]] by simp
  moreover have "at m b \<noteq> NUL" using w d by (auto elim!: word_ok_Cons simp: at_drop)
  ultimately have "split_loop m b col argv = (m, argv @ [b])"
    using stop by (simp add: split_loop.simps [of m b] split_loop.simps [of m "b + length w"])
  moreover have "b < length m" using d w by (auto elim!: word_ok_Cons intro: drop_Cons_less)
  ultimately show ?case
    using d w by (auto simp: arg_at_def c_str_append_stop word_ok_def)
next
  case (3 w v ts)
  let ?rest = "join_sp (v # ts) @ [NUL]"
  from 3 have w: "word_ok w" and v: "word_ok v" and d: "drop b m = w @ CHR '' '' # ?rest" by simp_all
  from v have "deref ?rest = hd v" by (cases ts) (auto elim!: word_ok_Cons)
  with v have nw: "next_word m b = (m[b + length w := NUL], b + length w + 1)"
    by (intro next_word_more [OF d w]) (auto simp: word_ok_def)
  define m1 where "m1 = m[b + length w := NUL]"
  have d1: "drop (b + length w + 1) m1 = ?rest"
    using drop_further [OF d, of "length w + 1"] by (simp add: m1_def)
  obtain m' ps where IH: "split_loop m1 (b + length w + 1) col (argv @ [b]) = (m', argv @ [b] @ ps)"
    "length m' = length m1" "take (b + length w + 1) m' = take (b + length w + 1) m1"
    "map (arg_at m') ps = map Some (v # ts)"
    using "3.IH" [OF _ _ d1, of "argv @ [b]"] "3.prems" by auto
  have "split_step m b col = (m1, b + length w + 1, col, b)"
    unfolding m1_def by (intro split_step_word [OF d w nw]) simp
  moreover have "at m b \<noteq> NUL" using w d by (auto elim!: word_ok_Cons simp: at_drop)
  ultimately have "split_loop m b col argv = (m', argv @ b # ps)"
    using IH(1) by (simp add: split_loop.simps [of m b])
  moreover have tk: "take b m' = take b m"
    using arg_cong [OF IH(3), of "take b"] by (simp add: m1_def min_def)
  moreover have "arg_at m' b = Some w"
    using arg_at_cut [OF d] w IH(2,3) by (simp add: m1_def word_ok_def)
  ultimately show ?case
    using IH(2,4) by (auto simp: m1_def)
qed simp

lemma split_buf_join:
  assumes "list_all word_ok ts"
  shows "split_buf (Some (join_sp ts)) = map Some ts"
proof (cases "ts = []")
  case True
  then show ?thesis by (simp add: split_buf_def split_loop.simps at_def)
next
  case False
  let ?m = "join_sp ts @ [NUL]"
  obtain m' ps where "split_loop ?m 0 0 [] = (m', ps)" "map (arg_at m') ps = map Some ts"
    using split_loop_join [OF assms False, of 0 ?m 0 "[]"] by auto
  moreover have "at ?m 0 \<noteq> CHR '':''"
    using assms False by (cases ts rule: join_sp.cases) (auto elim!: word_ok_Cons simp: at_def)
  ultimately show ?thesis by (simp add: split_buf_def)
qed

section \<open>Escaping\<close>

definition escape :: "string \<Rightarrow> string" where
  "escape s = concat (map (\<lambda>c. if c = CHR ''%'' then ''%%'' else [c]) s)"

lemma escape_simps [simp]:
  "escape [] = []" "escape (c # cs) = (if c = CHR ''%'' then CHR ''%'' # CHR ''%'' # escape cs else c # escape cs)"
  by (simp_all add: escape_def)

lemma length_escape_ge: "length s \<le> length (escape s)"
  by (induction s) auto

lemma nul_free_escape: "nul_free s \<Longrightarrow> nul_free (escape s)"
  by (induction s) auto

lemma clean_loop_fits:
  "i \<le> length out \<Longrightarrow> length out + length (escape s) < len \<Longrightarrow>
    clean_loop len i out s = Some (out @ escape s @ [NUL])"
proof (induction s arbitrary: i out)
  case (Cons c cs)
  then show ?case
    using length_escape_ge [of cs] by (auto simp: push_def)
qed (simp add: push_def)

text \<open>One step of the loop on a run of percent signs stores two bytes while the index moves by one.\<close>

lemma clean_loop_overflow:
  "i + length s < len \<Longrightarrow> length out \<le> len \<Longrightarrow> len < length out + 2 * length s + 1 \<Longrightarrow>
    set s \<subseteq> {CHR ''%''} \<Longrightarrow> clean_loop len i out s = None"
proof (induction s arbitrary: i out)
  case (Cons c cs)
  show ?case
  proof (cases "length out + 2 \<le> len")
    case True
    then have "clean_loop len (Suc i) (out @ [CHR ''%'', CHR ''%'']) cs = None"
      using Cons.prems by (intro Cons.IH) auto
    then show ?thesis using Cons.prems True by (simp add: push_def)
  next
    case False
    then show ?thesis using Cons.prems by (auto simp: push_def)
  qed
qed (simp add: push_def)

section \<open>Properties\<close>

lemma join_loop_fits:
  "length buf + length (concat (map (\<lambda>w. '' '' @ w) av)) < BUFSIZE \<Longrightarrow>
    join_loop buf av = Some (buf @ concat (map (\<lambda>w. '' '' @ w) av))"
  by (induction av arbitrary: buf) (auto simp: strlcat_str_def)

lemma join_sp_Cons: "join_sp (w # ws) = w @ concat (map (\<lambda>w. '' '' @ w) ws)"
  by (induction ws arbitrary: w) auto

lemma joinbuf_fits:
  assumes "list_all word_ok ts" and "from < length ts" and "length (join_sp (drop from ts)) < BUFSIZE"
  shows "joinbuf ts from = Some (join_sp (drop from ts))"
proof -
  have d: "drop from ts = ts ! from # drop (from + 1) ts" using assms(2) by (simp add: Cons_nth_drop_Suc)
  have "word_ok (ts ! from)" using assms(1,2) by (simp add: list_all_length)
  then have "strlcpy_str BUFSIZE (ts ! from) = ts ! from"
    using assms(3) by (simp add: d join_sp_Cons word_ok_def strlcpy_str_def)
  then show ?thesis
    using assms(2,3) join_loop_fits [of "ts ! from" "drop (from + 1) ts"] by (simp add: joinbuf_def d join_sp_Cons)
qed

text \<open>C40. Joining the arguments from one position on and splitting the line again gives those
  arguments back: for words that are not empty, hold no space or NUL, and start with neither
  white space nor a colon, and a joined line that fits \<open>BUFSIZE\<close>, \<open>joinbuf\<close> succeeds and
  \<open>split_buf\<close> of its result is exactly the list of those words.\<close>

theorem split_joinbuf_roundtrip:
  assumes "list_all word_ok ts" and "from < length ts" and "length (join_sp (drop from ts)) < BUFSIZE"
  shows "\<exists>buf. joinbuf ts from = Some buf \<and> split_buf (Some buf) = map Some (drop from ts)"
proof -
  have "list_all word_ok (drop from ts)" using assms(1) by (auto simp: list_all_iff dest: in_set_dropD)
  then show ?thesis using joinbuf_fits [OF assms] split_buf_join by blast
qed

theorem split_joinbuf_roundtrip_witness:
  "\<exists>buf. joinbuf [''JOIN'', ''#chan'', ''key''] 1 = Some buf \<and> split_buf (Some buf) = [Some ''#chan'', Some ''key'']"
  using split_joinbuf_roundtrip [of "[''JOIN'', ''#chan'', ''key'']" 1]
  by (simp add: word_ok_def c_isspace_def BUFSIZE_def)

text \<open>While the escaped text fits, \<open>clean_string\<close> replaces the text by itself with every
  percent sign doubled.\<close>

theorem clean_string_escapes:
  assumes "nul_free s" and "length (escape s) < len"
  shows "clean_string s len = Some (escape s)"
proof -
  have "clean_loop len 0 [] s = Some (escape s @ [NUL])"
    using clean_loop_fits [of 0 "[]" s len] assms(2) by simp
  moreover have "c_str (take len (escape s @ [NUL])) = escape s"
    using assms nul_free_escape [OF assms(1)] by (simp add: c_str_append_stop)
  ultimately show ?thesis by (simp add: clean_string_def)
qed

theorem clean_string_escapes_witness: "clean_string ''100%s'' 8 = Some ''100%%s''"
  using clean_string_escapes [of "''100%s''" 8] by simp

text \<open>The bound of \<open>clean_string\<close> counts characters read, not bytes written: on a buffer that
  just holds a text of percent signs it writes past its heap block.\<close>

theorem clean_string_overflows:
  assumes "0 < n"
  shows "clean_string (replicate n (CHR ''%'')) (n + 1) = None"
  using clean_loop_overflow [of 0 "replicate n (CHR ''%'')" "n + 1" "[]"] assms
  by (simp add: clean_string_def)

theorem clean_string_overflows_witness: "clean_string ''%%%'' 4 = None"
  using clean_string_overflows [of 3] by (simp add: numeral_eq_Suc)

end
