(* ===== verification/Validate.thy ===== *)
theory Validate
  imports Misc
begin

text \<open>
  The validators of \<^verbatim>\<open>src/misc.c\<close>. They return \<open>NS_SUCCESS\<close> (1) or \<open>NS_FAILURE\<close>
  (-1), both of which are true in C.
\<close>

text \<open>\<^verbatim>\<open>while( *s != '\0' ) { if( !P( *s ) ) return NS_FAILURE; s++; } return NS_SUCCESS;\<close>\<close>

fun validate_loop :: "(char \<Rightarrow> bool) \<Rightarrow> string \<Rightarrow> int" where
  "validate_loop P [] = NS_SUCCESS"
| "validate_loop P (c # cs) = (if \<not> P c then NS_FAILURE else validate_loop P cs)"

definition ValidateString :: "string option \<Rightarrow> int" where
  "ValidateString s = (case s of None \<Rightarrow> NS_FAILURE | Some t \<Rightarrow> validate_loop (\<lambda>c. byte_of c < 128) t)"

definition ValidateNick :: "string option \<Rightarrow> int" where
  "ValidateNick nick = (case nick of None \<Rightarrow> NS_FAILURE | Some t \<Rightarrow> validate_loop IsNickChar t)"

definition ValidateNickWild :: "string option \<Rightarrow> int" where
  "ValidateNickWild nick =
     (case nick of None \<Rightarrow> NS_FAILURE
      | Some t \<Rightarrow> validate_loop (\<lambda>c. \<not> (\<not> IsNickChar c \<and> \<not> IsWildChar c)) t)"

definition ValidateUser :: "string option \<Rightarrow> int" where
  "ValidateUser username =
     (case username of None \<Rightarrow> NS_FAILURE | Some t \<Rightarrow> validate_loop IsUserChar t)"

definition ValidateUserWild :: "string option \<Rightarrow> int" where
  "ValidateUserWild username =
     (case username of None \<Rightarrow> NS_FAILURE
      | Some t \<Rightarrow> validate_loop (\<lambda>c. \<not> (\<not> IsUserChar c \<and> \<not> IsWildChar c)) t)"

definition ValidateHost :: "string option \<Rightarrow> int" where
  "ValidateHost hostname =
     (case hostname of None \<Rightarrow> NS_FAILURE
      | Some t \<Rightarrow> if CHR ''.'' \<notin> set t then NS_FAILURE else validate_loop IsHostChar t)"

definition ValidateHostWild :: "string option \<Rightarrow> int" where
  "ValidateHostWild hostname =
     (case hostname of None \<Rightarrow> NS_FAILURE
      | Some t \<Rightarrow> validate_loop (\<lambda>c. \<not> (\<not> IsHostChar c \<and> \<not> IsWildChar c)) t)"

text \<open>
  \<^verbatim>\<open>strtok\<close>: skip delimiters; \<open>None\<close> at the end of the string, else the token and what
  follows the delimiter that ended it.
\<close>

definition strtok :: "string \<Rightarrow> string \<Rightarrow> string option \<times> string" where
  "strtok s delim =
     (let t = dropWhile (\<lambda>c. c \<in> set delim) s
      in if t = [] then (None, [])
         else (Some (takeWhile (\<lambda>c. c \<notin> set delim) t), drop 1 (dropWhile (\<lambda>c. c \<notin> set delim) t)))"

text \<open>The three calls that take a \<^verbatim>\<open>nick!user@host\<close> apart.\<close>

definition split_userhost :: "string \<Rightarrow> string option \<times> string option \<times> string option" where
  "split_userhost s =
     (let (nick, r1) = strtok s ''!''; (user, r2) = strtok r1 ''@''; (host, _) = strtok r2 ''''
      in (nick, user, host))"

definition ValidateUserHost :: "string option \<Rightarrow> int" where
  "ValidateUserHost userhost =
     (case userhost of None \<Rightarrow> NS_FAILURE
      | Some s \<Rightarrow>
          if CHR ''!'' \<notin> set s \<or> CHR ''@'' \<notin> set s then NS_FAILURE
          else (let (nick, user, host) = split_userhost (strlcpy_str USERHOSTLEN s)
                in if ValidateNick nick \<noteq> NS_SUCCESS then NS_FAILURE
                   else if ValidateUser user \<noteq> NS_SUCCESS then NS_FAILURE
                   else if ValidateHost host \<noteq> NS_SUCCESS then NS_FAILURE
                   else NS_SUCCESS))"

definition ValidateUserHostWild :: "string option \<Rightarrow> int" where
  "ValidateUserHostWild userhost =
     (case userhost of None \<Rightarrow> NS_FAILURE
      | Some s \<Rightarrow>
          if CHR ''!'' \<notin> set s \<or> CHR ''@'' \<notin> set s then NS_FAILURE
          else (let (nick, user, host) = split_userhost (strlcpy_str USERHOSTLEN s)
                in if ValidateNickWild nick \<noteq> NS_SUCCESS then NS_FAILURE
                   else if ValidateUserWild user \<noteq> NS_SUCCESS then NS_FAILURE
                   else if ValidateHostWild host \<noteq> NS_SUCCESS then NS_FAILURE
                   else NS_SUCCESS))"

definition ValidateURL :: "string option \<Rightarrow> int" where
  "ValidateURL url =
     (case url of None \<Rightarrow> NS_FAILURE
      | Some s \<Rightarrow>
          if ircstrncasecmp (Some s) (Some ''http://'') 7 \<noteq> 0 then NS_FAILURE
          else validate_loop IsURLChar (drop 7 s))"

definition ValidateChannel :: "string option \<Rightarrow> int" where
  "ValidateChannel channel_name =
     (case channel_name of None \<Rightarrow> NS_FAILURE
      | Some s \<Rightarrow> if \<not> IsChanPrefix (deref s) then NS_FAILURE else validate_loop IsChanChar (tl s))"

definition ValidateChannelWild :: "string option \<Rightarrow> int" where
  "ValidateChannelWild channel_name =
     (case channel_name of None \<Rightarrow> NS_FAILURE
      | Some s \<Rightarrow>
          if \<not> IsChanPrefix (deref s) then NS_FAILURE
          else validate_loop (\<lambda>c. \<not> (\<not> IsChanChar c \<and> \<not> IsWildChar c)) (tl s))"

definition ValidateChannelKey :: "string option \<Rightarrow> int" where
  "ValidateChannelKey key = (case key of None \<Rightarrow> NS_FAILURE | Some t \<Rightarrow> validate_loop IsChanKeyChar t)"

definition strspn :: "string \<Rightarrow> string \<Rightarrow> nat" where
  "strspn s accept = length (takeWhile (\<lambda>c. c \<in> set accept) s)"

definition IsJustWildcard :: "string option \<Rightarrow> bool \<Rightarrow> int" where
  "IsJustWildcard wmask ishostmask =
     (case wmask of None \<Rightarrow> NS_FAILURE
      | Some m \<Rightarrow>
          if irc_eq m ''*'' then NS_TRUE
          else if (if ishostmask then strspn m ''?*.@'' else strspn m ''?*'') = length m then NS_TRUE
          else NS_FALSE)"

section \<open>What the validators accept\<close>

lemma validate_loop_iff: "validate_loop P s = NS_SUCCESS \<longleftrightarrow> list_all P s"
  by (induction s) (auto simp: ns_codes)

lemma validate_loop_range: "validate_loop P s = NS_SUCCESS \<or> validate_loop P s = NS_FAILURE"
  by (induction s) auto

lemma strtok_append:
  assumes "d \<notin> set t" and "t \<noteq> []"
  shows "strtok (t @ d # rest) [d] = (Some t, rest)"
proof -
  from assms have "dropWhile (\<lambda>c. c = d) (t @ d # rest) = t @ d # rest" by (cases t) auto
  moreover from assms(1) have "takeWhile (\<lambda>c. c \<noteq> d) (t @ d # rest) = t"
    "dropWhile (\<lambda>c. c \<noteq> d) (t @ d # rest) = d # rest"
    by (induction t) auto
  ultimately show ?thesis using assms by (simp add: strtok_def)
qed

lemma dropWhile_True_Nil: "dropWhile (\<lambda>c. True) s = []"
  by (induction s) auto

lemma strtok_rest: "s \<noteq> [] \<Longrightarrow> strtok s [] = (Some s, [])"
  by (cases s) (simp_all add: strtok_def dropWhile_True_Nil)

lemma split_userhost_parts:
  assumes "nick \<noteq> []" "CHR ''!'' \<notin> set nick" "user \<noteq> []" "CHR ''@'' \<notin> set user" "host \<noteq> []"
  shows "split_userhost (nick @ CHR ''!'' # user @ CHR ''@'' # host) = (Some nick, Some user, Some host)"
  using assms strtok_append [of "CHR ''!''" nick "user @ CHR ''@'' # host"]
    strtok_append [of "CHR ''@''" user host]
  by (simp add: split_userhost_def strtok_rest)

lemma ValidateUserHost_parts:
  assumes "nick \<noteq> []" "CHR ''!'' \<notin> set nick" "user \<noteq> []" "CHR ''@'' \<notin> set user" "host \<noteq> []"
    and "nul_free nick" "nul_free user" "nul_free host"
    and "length nick + length user + length host + 2 < USERHOSTLEN"
  shows "ValidateUserHost (Some (nick @ CHR ''!'' # user @ CHR ''@'' # host)) = NS_SUCCESS \<longleftrightarrow>
    list_all IsNickChar nick \<and> list_all IsUserChar user \<and> list_all IsHostChar host \<and> CHR ''.'' \<in> set host"
proof -
  let ?s = "nick @ CHR ''!'' # user @ CHR ''@'' # host"
  have copy: "strlcpy_str USERHOSTLEN ?s = ?s"
    using assms by (simp add: strlcpy_str_def)
  have "ValidateUserHost (Some ?s) =
    (if ValidateNick (Some nick) \<noteq> NS_SUCCESS then NS_FAILURE
     else if ValidateUser (Some user) \<noteq> NS_SUCCESS then NS_FAILURE
     else if ValidateHost (Some host) \<noteq> NS_SUCCESS then NS_FAILURE
     else NS_SUCCESS)"
    by (simp add: ValidateUserHost_def copy split_userhost_parts [OF assms(1-5)])
  then show ?thesis
    by (simp add: ValidateNick_def ValidateUser_def ValidateHost_def validate_loop_iff
        [unfolded ns_codes, symmetric] ns_codes split: if_splits)
qed

lemma takeWhile_length_iff: "length (takeWhile P m) = length m \<longleftrightarrow> (\<forall>c\<in>set m. P c)"
  by (induction m) auto

lemma IsJustWildcard_iff:
  "IsJustWildcard (Some m) h = NS_TRUE \<longleftrightarrow> irc_eq m ''*'' \<or> set m \<subseteq> set (if h then ''?*.@'' else ''?*'')"
  by (cases h) (simp_all add: IsJustWildcard_def strspn_def ns_codes takeWhile_length_iff subset_eq)

section \<open>Properties\<close>

text \<open>A mask of the form \<open>nick!user@host\<close> is accepted by \<open>ValidateUserHost\<close> exactly when each
  of the three parts holds only characters of its class and the host has a dot.\<close>

theorem ValidateUserHost_accepts:
  assumes "nick \<noteq> []" "CHR ''!'' \<notin> set nick" "user \<noteq> []" "CHR ''@'' \<notin> set user" "host \<noteq> []"
    and "nul_free nick" "nul_free user" "nul_free host"
    and "length nick + length user + length host + 2 < USERHOSTLEN"
  shows "ValidateUserHost (Some (nick @ CHR ''!'' # user @ CHR ''@'' # host)) = NS_SUCCESS \<longleftrightarrow>
    list_all IsNickChar nick \<and> list_all IsUserChar user \<and> list_all IsHostChar host \<and> CHR ''.'' \<in> set host"
  using assms by (rule ValidateUserHost_parts)

theorem ValidateUserHost_accepts_witness:
  "ValidateUserHost (Some ''ab!c@d'') \<noteq> NS_SUCCESS"
  using ValidateUserHost_accepts [of "''ab''" "''c''" "''d''"] by (simp add: ns_sizes)

end
