(* ===== verification/KList.thy ===== *)
theory KList
  imports Prelude "HOL-Library.Monad_Syntax"
begin

text \<open>
  \<^verbatim>\<open>src/list.c\<close>, the doubly linked lists every other part of the program is built on, on an
  explicit heap. A node lives at an address (0 is NULL); a \<^verbatim>\<open>list_t\<close> lives at an address too,
  which is also the address of its \<^verbatim>\<open>list_nilnode\<close>, the first member. An operation returns the
  new heap in an \<open>option\<close>: \<open>None\<close> is a store or load through a pointer to no object, a failed
  \<^verbatim>\<open>nassert\<close> (the program exits) or, for the loops, not returning.
\<close>

section \<open>Heap, nodes and lists\<close>

type_synonym addr = nat

record 'd lnode =
  lnext :: addr
  lprev :: addr
  ldata :: 'd

record list_hdr =
  nodecount :: ulong
  maxcount :: ulong

record pool_hdr =
  pool_nodes :: addr
  pool_free :: addr
  pool_size :: ulong

record 'd lheap =
  nodes :: "addr \<Rightarrow> 'd lnode option"
  hdrs :: "addr \<Rightarrow> list_hdr option"
  pools :: "addr \<Rightarrow> pool_hdr option"

definition nassert :: "bool \<Rightarrow> unit option" where
  "nassert b = (if b then Some () else None)"

lemma nassert_simps [simp]: "nassert True = Some ()" "nassert False = None"
  by (simp_all add: nassert_def)

lemma nassert_Some_iff [simp]: "nassert b = Some u \<longleftrightarrow> b"
  by (simp add: nassert_def)

definition nxt :: "'d lheap \<Rightarrow> addr \<Rightarrow> addr option" where
  "nxt h a = map_option lnext (nodes h a)"

definition prv :: "'d lheap \<Rightarrow> addr \<Rightarrow> addr option" where
  "prv h a = map_option lprev (nodes h a)"

definition dat :: "'d lheap \<Rightarrow> addr \<Rightarrow> 'd option" where
  "dat h a = map_option ldata (nodes h a)"

definition set_next :: "'d lheap \<Rightarrow> addr \<Rightarrow> addr \<Rightarrow> 'd lheap option" where
  "set_next h a v =
     (case nodes h a of None \<Rightarrow> None
      | Some n \<Rightarrow> Some (h\<lparr>nodes := (nodes h)(a \<mapsto> n\<lparr>lnext := v\<rparr>)\<rparr>))"

definition set_prev :: "'d lheap \<Rightarrow> addr \<Rightarrow> addr \<Rightarrow> 'd lheap option" where
  "set_prev h a v =
     (case nodes h a of None \<Rightarrow> None
      | Some n \<Rightarrow> Some (h\<lparr>nodes := (nodes h)(a \<mapsto> n\<lparr>lprev := v\<rparr>)\<rparr>))"

definition set_count :: "'d lheap \<Rightarrow> addr \<Rightarrow> ulong \<Rightarrow> 'd lheap option" where
  "set_count h l c =
     (case hdrs h l of None \<Rightarrow> None
      | Some r \<Rightarrow> Some (h\<lparr>hdrs := (hdrs h)(l \<mapsto> r\<lparr>nodecount := c\<rparr>)\<rparr>))"

section \<open>Creating and destroying\<close>

text \<open>A \<^verbatim>\<open>list_t\<close> object without contents at an address, as a local variable or a fresh block is.\<close>

definition alloc_list :: "'d \<Rightarrow> addr \<Rightarrow> 'd lheap \<Rightarrow> 'd lheap" where
  "alloc_list d l h =
     h\<lparr>nodes := (nodes h)(l \<mapsto> \<lparr>lnext = 0, lprev = 0, ldata = d\<rparr>),
       hdrs := (hdrs h)(l \<mapsto> \<lparr>nodecount = 0, maxcount = 0\<rparr>)\<rparr>"

definition free_list :: "addr \<Rightarrow> 'd lheap \<Rightarrow> 'd lheap" where
  "free_list l h = h\<lparr>nodes := (nodes h)(l := None), hdrs := (hdrs h)(l := None)\<rparr>"

definition list_init :: "'d lheap \<Rightarrow> addr \<Rightarrow> ulong \<Rightarrow> 'd lheap option" where
  "list_init h l mx = do {
     nassert (mx \<noteq> 0);
     h \<leftarrow> set_next h l l;
     h \<leftarrow> set_prev h l l;
     r \<leftarrow> hdrs h l;
     Some (h\<lparr>hdrs := (hdrs h)(l \<mapsto> \<lparr>nodecount = 0, maxcount = mx\<rparr>)\<rparr>)
   }"

text \<open>
  \<open>newlist\<close> is the address \<^verbatim>\<open>ns_malloc\<close> returned (the program exits when there is none) and
  \<open>garbage\<close> the contents of its data field.
\<close>

definition list_create :: "'d \<Rightarrow> 'd lheap \<Rightarrow> addr \<Rightarrow> ulong \<Rightarrow> ('d lheap \<times> addr) option" where
  "list_create garbage h newlist mx = do {
     let h = alloc_list garbage newlist h;
     nassert (mx \<noteq> 0);
     h \<leftarrow> set_next h newlist newlist;
     h \<leftarrow> set_prev h newlist newlist;
     Some (h\<lparr>hdrs := (hdrs h)(newlist \<mapsto> \<lparr>nodecount = 0, maxcount = mx\<rparr>)\<rparr>, newlist)
   }"

definition list_count :: "'d lheap \<Rightarrow> addr \<Rightarrow> ulong option" where
  "list_count h l = map_option nodecount (hdrs h l)"

definition list_isempty :: "'d lheap \<Rightarrow> addr \<Rightarrow> bool option" where
  "list_isempty h l = map_option (\<lambda>r. nodecount r = 0) (hdrs h l)"

definition list_isfull :: "'d lheap \<Rightarrow> addr \<Rightarrow> bool option" where
  "list_isfull h l = map_option (\<lambda>r. nodecount r = maxcount r) (hdrs h l)"

definition list_destroy :: "'d lheap \<Rightarrow> addr \<Rightarrow> 'd lheap option" where
  "list_destroy h l = do {
     e \<leftarrow> list_isempty h l;
     nassert e;
     Some (free_list l h)
   }"

definition lnode_is_in_a_list :: "'d lheap \<Rightarrow> addr \<Rightarrow> bool option" where
  "lnode_is_in_a_list h n = map_option (\<lambda>r. lnext r \<noteq> 0 \<or> lprev r \<noteq> 0) (nodes h n)"

definition lnode_create :: "'d lheap \<Rightarrow> addr \<Rightarrow> 'd \<Rightarrow> 'd lheap \<times> addr" where
  "lnode_create h newnode d =
     (h\<lparr>nodes := (nodes h)(newnode \<mapsto> \<lparr>lnext = 0, lprev = 0, ldata = d\<rparr>)\<rparr>, newnode)"

definition lnode_init :: "'d lheap \<Rightarrow> addr \<Rightarrow> 'd \<Rightarrow> 'd lheap option" where
  "lnode_init h n d =
     (case nodes h n of None \<Rightarrow> None
      | Some r \<Rightarrow> Some (h\<lparr>nodes := (nodes h)(n \<mapsto> r\<lparr>ldata := d, lnext := 0, lprev := 0\<rparr>)\<rparr>))"

definition lnode_put :: "'d lheap \<Rightarrow> addr \<Rightarrow> 'd \<Rightarrow> 'd lheap option" where
  "lnode_put h n d =
     (case nodes h n of None \<Rightarrow> None
      | Some r \<Rightarrow> Some (h\<lparr>nodes := (nodes h)(n \<mapsto> r\<lparr>ldata := d\<rparr>)\<rparr>))"

definition lnode_get :: "'d lheap \<Rightarrow> addr \<Rightarrow> 'd option" where
  "lnode_get h n = dat h n"

definition lnode_destroy :: "'d lheap \<Rightarrow> addr \<Rightarrow> 'd lheap option" where
  "lnode_destroy h n = do {
     b \<leftarrow> lnode_is_in_a_list h n;
     nassert (\<not> b);
     Some (h\<lparr>nodes := (nodes h)(n := None)\<rparr>)
   }"

partial_function (option) destroy_nodes_loop :: "addr \<Rightarrow> 'd lheap \<Rightarrow> addr \<Rightarrow> 'd lheap option" where
  "destroy_nodes_loop nil h n =
     (if n = nil then Some h
      else do {
        tmp \<leftarrow> nxt h n;
        h \<leftarrow> set_next h n 0;
        h \<leftarrow> set_prev h n 0;
        h \<leftarrow> lnode_destroy h n;
        destroy_nodes_loop nil h tmp
      })"

definition list_destroy_nodes :: "'d lheap \<Rightarrow> addr \<Rightarrow> 'd lheap option" where
  "list_destroy_nodes h l = do {
     n \<leftarrow> nxt h l;
     h \<leftarrow> destroy_nodes_loop l h n;
     r \<leftarrow> hdrs h l;
     list_init h l (maxcount r)
   }"

section \<open>Searching\<close>

partial_function (option) contains_loop :: "'d lheap \<Rightarrow> addr \<Rightarrow> addr \<Rightarrow> addr \<Rightarrow> bool option" where
  "contains_loop h nil node n =
     (if n = nil then Some False
      else if node = n then Some True
      else do { n \<leftarrow> nxt h n; contains_loop h nil node n })"

definition list_contains :: "'d lheap \<Rightarrow> addr \<Rightarrow> addr \<Rightarrow> bool option" where
  "list_contains h l node = do { n \<leftarrow> nxt h l; contains_loop h l node n }"

partial_function (option) find_loop :: "'d lheap \<Rightarrow> addr \<Rightarrow> ('d \<Rightarrow> int) \<Rightarrow> addr \<Rightarrow> addr option" where
  "find_loop h nil cmp node =
     (if node = nil then Some 0
      else do {
        d \<leftarrow> lnode_get h node;
        if cmp d = 0 then Some node
        else do { n \<leftarrow> nxt h node; find_loop h nil cmp n }
      })"

definition list_find :: "'d lheap \<Rightarrow> addr \<Rightarrow> 'k \<Rightarrow> ('d \<Rightarrow> 'k \<Rightarrow> int) \<Rightarrow> addr option" where
  "list_find h l key compare = do { n \<leftarrow> nxt h l; find_loop h l (\<lambda>d. compare d key) n }"

text \<open>The data pointer found, \<open>Some None\<close> being NULL.\<close>

definition lnode_find :: "'d lheap \<Rightarrow> addr \<Rightarrow> 'k \<Rightarrow> ('d \<Rightarrow> 'k \<Rightarrow> int) \<Rightarrow> 'd option option" where
  "lnode_find h l key compare = do {
     ln \<leftarrow> list_find h l key compare;
     if ln \<noteq> 0 then map_option Some (lnode_get h ln) else Some None
   }"

definition list_first :: "'d lheap \<Rightarrow> addr \<Rightarrow> addr option" where
  "list_first h l = map_option (\<lambda>n. if n = l then 0 else n) (nxt h l)"

definition list_last :: "'d lheap \<Rightarrow> addr \<Rightarrow> addr option" where
  "list_last h l = map_option (\<lambda>n. if n = l then 0 else n) (prv h l)"

definition list_next :: "'d lheap \<Rightarrow> addr \<Rightarrow> addr \<Rightarrow> addr option" where
  "list_next h l node = do {
     c \<leftarrow> list_contains h l node;
     nassert c;
     map_option (\<lambda>n. if n = l then 0 else n) (nxt h node)
   }"

definition list_prev :: "'d lheap \<Rightarrow> addr \<Rightarrow> addr \<Rightarrow> addr option" where
  "list_prev h l node = do {
     c \<leftarrow> list_contains h l node;
     nassert c;
     map_option (\<lambda>n. if n = l then 0 else n) (prv h node)
   }"

section \<open>Inserting and deleting\<close>

definition list_ins_after :: "'d lheap \<Rightarrow> addr \<Rightarrow> addr \<Rightarrow> addr \<Rightarrow> 'd lheap option" where
  "list_ins_after h l newnode thisnode = do {
     that \<leftarrow> nxt h thisnode;
     nassert (newnode \<noteq> 0);
     c \<leftarrow> list_contains h l newnode;
     nassert (\<not> c);
     i \<leftarrow> lnode_is_in_a_list h newnode;
     nassert (\<not> i);
     t \<leftarrow> (if thisnode = l then Some True else list_contains h l thisnode);
     nassert t;
     r \<leftarrow> hdrs h l;
     nassert (nodecount r + 1 > nodecount r);
     h \<leftarrow> set_prev h newnode thisnode;
     h \<leftarrow> set_next h newnode that;
     h \<leftarrow> set_prev h that newnode;
     h \<leftarrow> set_next h thisnode newnode;
     h \<leftarrow> set_count h l (nodecount r + 1);
     nassert (nodecount r + 1 \<le> maxcount r);
     Some h
   }"

definition list_ins_before :: "'d lheap \<Rightarrow> addr \<Rightarrow> addr \<Rightarrow> addr \<Rightarrow> 'd lheap option" where
  "list_ins_before h l newnode thisnode = do {
     that \<leftarrow> prv h thisnode;
     nassert (newnode \<noteq> 0);
     c \<leftarrow> list_contains h l newnode;
     nassert (\<not> c);
     i \<leftarrow> lnode_is_in_a_list h newnode;
     nassert (\<not> i);
     t \<leftarrow> (if thisnode = l then Some True else list_contains h l thisnode);
     nassert t;
     r \<leftarrow> hdrs h l;
     nassert (nodecount r + 1 > nodecount r);
     h \<leftarrow> set_next h newnode thisnode;
     h \<leftarrow> set_prev h newnode that;
     h \<leftarrow> set_next h that newnode;
     h \<leftarrow> set_prev h thisnode newnode;
     h \<leftarrow> set_count h l (nodecount r + 1);
     nassert (nodecount r + 1 \<le> maxcount r);
     Some h
   }"

definition list_append :: "'d lheap \<Rightarrow> addr \<Rightarrow> addr \<Rightarrow> 'd lheap option" where
  "list_append h l node = list_ins_before h l node l"

definition list_prepend :: "'d lheap \<Rightarrow> addr \<Rightarrow> addr \<Rightarrow> 'd lheap option" where
  "list_prepend h l node = list_ins_after h l node l"

definition list_delete :: "'d lheap \<Rightarrow> addr \<Rightarrow> addr \<Rightarrow> ('d lheap \<times> addr) option" where
  "list_delete h l del = do {
     next \<leftarrow> nxt h del;
     prev \<leftarrow> prv h del;
     c \<leftarrow> list_contains h l del;
     nassert c;
     h \<leftarrow> set_next h prev next;
     h \<leftarrow> set_prev h next prev;
     r \<leftarrow> hdrs h l;
     h \<leftarrow> set_count h l (nodecount r - 1);
     h \<leftarrow> set_prev h del 0;
     h \<leftarrow> set_next h del 0;
     Some (h, del)
   }"

definition list_del_first :: "'d lheap \<Rightarrow> addr \<Rightarrow> ('d lheap \<times> addr) option" where
  "list_del_first h l = do { n \<leftarrow> nxt h l; list_delete h l n }"

definition list_del_last :: "'d lheap \<Rightarrow> addr \<Rightarrow> ('d lheap \<times> addr) option" where
  "list_del_last h l = do { n \<leftarrow> prv h l; list_delete h l n }"

definition list_delete_destroy_node :: "'d lheap \<Rightarrow> addr \<Rightarrow> addr \<Rightarrow> 'd lheap option" where
  "list_delete_destroy_node h l del = do {
     (h, _) \<leftarrow> list_delete h l del;
     lnode_destroy h del
   }"

definition lnode_create_append :: "'d lheap \<Rightarrow> addr \<Rightarrow> addr \<Rightarrow> 'd \<Rightarrow> ('d lheap \<times> addr) option" where
  "lnode_create_append h l newnode d = do {
     let (h, ln) = lnode_create h newnode d;
     h \<leftarrow> list_append h l ln;
     Some (h, ln)
   }"

definition lnode_create_prepend :: "'d lheap \<Rightarrow> addr \<Rightarrow> addr \<Rightarrow> 'd \<Rightarrow> ('d lheap \<times> addr) option" where
  "lnode_create_prepend h l newnode d = do {
     let (h, ln) = lnode_create h newnode d;
     h \<leftarrow> list_prepend h l ln;
     Some (h, ln)
   }"

text \<open>The callback gets the heap and its context and returns both.\<close>

partial_function (option) process_loop ::
  "(addr \<Rightarrow> addr \<Rightarrow> 'd lheap \<Rightarrow> 'c \<Rightarrow> ('d lheap \<times> 'c) option) \<Rightarrow> addr \<Rightarrow> addr \<Rightarrow> 'd lheap \<Rightarrow> 'c
     \<Rightarrow> ('d lheap \<times> 'c) option" where
  "process_loop f l node h context =
     (if node = l then Some (h, context)
      else do {
        c \<leftarrow> list_contains h l node;
        nassert c;
        next \<leftarrow> nxt h node;
        (h, context) \<leftarrow> f l node h context;
        process_loop f l next h context
      })"

definition list_process ::
  "'d lheap \<Rightarrow> addr \<Rightarrow> 'c \<Rightarrow> (addr \<Rightarrow> addr \<Rightarrow> 'd lheap \<Rightarrow> 'c \<Rightarrow> ('d lheap \<times> 'c) option)
     \<Rightarrow> ('d lheap \<times> 'c) option" where
  "list_process h l context f = do { node \<leftarrow> nxt h l; process_loop f l node h context }"

section \<open>Checking\<close>

text \<open>The counter is decremented by the test of the loop also when the test fails.\<close>

partial_function (option) verify_loop ::
  "'d lheap \<Rightarrow> addr \<Rightarrow> addr \<Rightarrow> ulong \<Rightarrow> bool option" where
  "verify_loop h nil node count =
     (if node = nil then Some (count = 0)
      else if count = 0 then Some False
      else do {
        n \<leftarrow> nxt h node;
        p \<leftarrow> prv h n;
        if p \<noteq> node then Some False else verify_loop h nil n (count - 1)
      })"

definition list_verify :: "'d lheap \<Rightarrow> addr \<Rightarrow> bool option" where
  "list_verify h l = do {
     node \<leftarrow> nxt h l;
     r \<leftarrow> hdrs h l;
     p \<leftarrow> prv h node;
     if p \<noteq> l then Some False
     else if nodecount r > maxcount r then Some False
     else verify_loop h l node (nodecount r)
   }"

partial_function (option) sorted_loop ::
  "('d \<Rightarrow> 'd \<Rightarrow> int) \<Rightarrow> 'd lheap \<Rightarrow> addr \<Rightarrow> addr \<Rightarrow> addr \<Rightarrow> bool option" where
  "sorted_loop compare h nil node next =
     (if next = nil then Some True
      else do {
        x \<leftarrow> lnode_get h node;
        y \<leftarrow> lnode_get h next;
        if compare x y > 0 then Some False
        else do { n \<leftarrow> nxt h next; sorted_loop compare h nil next n }
      })"

definition list_is_sorted :: "('d \<Rightarrow> 'd \<Rightarrow> int) \<Rightarrow> 'd lheap \<Rightarrow> addr \<Rightarrow> bool option" where
  "list_is_sorted compare h l = do {
     node \<leftarrow> nxt h l;
     next \<leftarrow> (if node \<noteq> l then nxt h node else Some l);
     sorted_loop compare h l node next
   }"

section \<open>Moving nodes between lists\<close>

partial_function (option) count_loop ::
  "'d lheap \<Rightarrow> addr \<Rightarrow> addr \<Rightarrow> ulong \<Rightarrow> ulong option" where
  "count_loop h first lst moved =
     (if first = lst then Some moved
      else do { first \<leftarrow> nxt h first; count_loop h first lst (moved + 1) })"

text \<open>As \<open>count_loop\<close>, with the assertion that the nil node is not met.\<close>

partial_function (option) slice_loop ::
  "'d lheap \<Rightarrow> addr \<Rightarrow> addr \<Rightarrow> addr \<Rightarrow> ulong \<Rightarrow> ulong option" where
  "slice_loop h nil first lst moved =
     (if first = lst then Some moved
      else do {
        first \<leftarrow> nxt h first;
        nassert (first \<noteq> nil);
        slice_loop h nil first lst (moved + 1)
      })"

text \<open>The bookkeeping and the checks at the end of both routines.\<close>

definition moved_nodes :: "'d lheap \<Rightarrow> addr \<Rightarrow> addr \<Rightarrow> ulong \<Rightarrow> 'd lheap option" where
  "moved_nodes h dest source moved = do {
     s \<leftarrow> hdrs h source;
     d \<leftarrow> hdrs h dest;
     nassert (nodecount s - moved \<le> nodecount s);
     nassert (nodecount d + moved \<ge> nodecount d);
     nassert (moved \<le> nodecount s);
     h \<leftarrow> set_count h source (nodecount s - moved);
     d \<leftarrow> hdrs h dest;
     h \<leftarrow> set_count h dest (nodecount d + moved);
     v \<leftarrow> list_verify h source;
     nassert v;
     v \<leftarrow> list_verify h dest;
     nassert v;
     Some h
   }"

definition list_extract :: "'d lheap \<Rightarrow> addr \<Rightarrow> addr \<Rightarrow> addr \<Rightarrow> addr \<Rightarrow> 'd lheap option" where
  "list_extract h dest source first lst = do {
     c \<leftarrow> (if first = 0 then Some True else list_contains h source first);
     nassert c;
     c \<leftarrow> (if lst = 0 then Some True else list_contains h source lst);
     nassert c;
     if first = 0 \<or> lst = 0 then Some h
     else do {
       fp \<leftarrow> prv h first;
       ln \<leftarrow> nxt h lst;
       h \<leftarrow> set_next h fp ln;
       ln \<leftarrow> nxt h lst;
       fp \<leftarrow> prv h first;
       h \<leftarrow> set_prev h ln fp;
       h \<leftarrow> set_next h lst dest;
       dp \<leftarrow> prv h dest;
       h \<leftarrow> set_prev h first dp;
       dp \<leftarrow> prv h dest;
       h \<leftarrow> set_next h dp first;
       h \<leftarrow> set_prev h dest lst;
       moved \<leftarrow> slice_loop h source first lst 1;
       moved_nodes h dest source moved
     }
   }"

definition list_transfer :: "'d lheap \<Rightarrow> addr \<Rightarrow> addr \<Rightarrow> addr \<Rightarrow> 'd lheap option" where
  "list_transfer h dest source first = do {
     c \<leftarrow> (if first = 0 then Some True else list_contains h source first);
     nassert c;
     if first = 0 then Some h
     else do {
       lst \<leftarrow> prv h source;
       fp \<leftarrow> prv h first;
       h \<leftarrow> set_prev h source fp;
       fp \<leftarrow> prv h first;
       h \<leftarrow> set_next h fp source;
       h \<leftarrow> set_next h lst dest;
       dp \<leftarrow> prv h dest;
       h \<leftarrow> set_prev h first dp;
       dp \<leftarrow> prv h dest;
       h \<leftarrow> set_next h dp first;
       h \<leftarrow> set_prev h dest lst;
       moved \<leftarrow> count_loop h first lst 1;
       moved_nodes h dest source moved
     }
   }"

section \<open>Merging and sorting\<close>

partial_function (option) merge_loop ::
  "('d \<Rightarrow> 'd \<Rightarrow> int) \<Rightarrow> addr \<Rightarrow> addr \<Rightarrow> 'd lheap \<Rightarrow> addr \<Rightarrow> addr \<Rightarrow> ('d lheap \<times> addr \<times> addr) option" where
  "merge_loop compare dest sour h dn sn =
     (if dn \<noteq> dest \<and> sn \<noteq> sour
      then do {
        x \<leftarrow> lnode_get h dn;
        y \<leftarrow> lnode_get h sn;
        if compare x y \<ge> 0
        then do {
          tn \<leftarrow> nxt h sn;
          (h, _) \<leftarrow> list_delete h sour sn;
          h \<leftarrow> list_ins_before h dest sn dn;
          merge_loop compare dest sour h dn tn
        }
        else do { dn \<leftarrow> nxt h dn; merge_loop compare dest sour h dn sn }
      }
      else Some (h, dn, sn))"

definition list_merge ::
  "('d \<Rightarrow> 'd \<Rightarrow> int) \<Rightarrow> 'd lheap \<Rightarrow> addr \<Rightarrow> addr \<Rightarrow> 'd lheap option" where
  "list_merge compare h dest sour =
     (if dest = sour then Some h
      else do {
        cs \<leftarrow> list_count h sour;
        cd \<leftarrow> list_count h dest;
        nassert (cs + cd \<ge> cs);
        b \<leftarrow> list_is_sorted compare h sour;
        nassert b;
        b \<leftarrow> list_is_sorted compare h dest;
        nassert b;
        dn \<leftarrow> nxt h dest;
        sn \<leftarrow> nxt h sour;
        (h, dn, sn) \<leftarrow> merge_loop compare dest sour h dn sn;
        if dn \<noteq> dest then Some h
        else if sn \<noteq> sour then list_transfer h dest sour sn
        else Some h
      })"

fun advance :: "'d lheap \<Rightarrow> nat \<Rightarrow> addr \<Rightarrow> addr option" where
  "advance h 0 node = Some node"
| "advance h (Suc k) node = do { n \<leftarrow> nxt h node; advance h k n }"

text \<open>
  The local variable \<^verbatim>\<open>extra\<close> of a call lives at \<open>sp\<close>, those of the calls below it at the
  addresses after it; it is gone when the call returns. \<open>garbage\<close> is the data field of its
  nil node, which is never read.
\<close>

partial_function (option) list_sort ::
  "'d \<Rightarrow> ('d \<Rightarrow> 'd \<Rightarrow> int) \<Rightarrow> addr \<Rightarrow> 'd lheap \<Rightarrow> addr \<Rightarrow> 'd lheap option" where
  "list_sort garbage compare sp h l = do {
     n \<leftarrow> list_count h l;
     h \<leftarrow> (if n > 1
       then do {
         let middle = n div 2;
         node \<leftarrow> nxt h l;
         let h = alloc_list garbage sp h;
         h \<leftarrow> list_init h sp (n - middle);
         node \<leftarrow> advance h (unat middle) node;
         h \<leftarrow> list_transfer h sp l node;
         h \<leftarrow> list_sort garbage compare (sp + 1) h l;
         h \<leftarrow> list_sort garbage compare (sp + 1) h sp;
         h \<leftarrow> list_merge compare h l sp;
         Some (free_list sp h)
       }
       else Some h);
     b \<leftarrow> list_is_sorted compare h l;
     nassert b;
     Some h
   }"

section \<open>Node pools\<close>

definition pool_borrow_free :: "'d lheap \<Rightarrow> addr \<Rightarrow> addr \<Rightarrow> 'd lheap option" where
  "pool_borrow_free h p a =
     (case pools h p of None \<Rightarrow> None
      | Some r \<Rightarrow> Some (h\<lparr>pools := (pools h)(p \<mapsto> r\<lparr>pool_free := a\<rparr>)\<rparr>))"

fun pool_link :: "'d lheap \<Rightarrow> addr \<Rightarrow> nat \<Rightarrow> 'd lheap option" where
  "pool_link h a 0 = Some h"
| "pool_link h a (Suc k) = do { h \<leftarrow> set_next h a (a + 1); pool_link h (a + 1) k }"

definition lnode_pool_init :: "'d lheap \<Rightarrow> addr \<Rightarrow> addr \<Rightarrow> ulong \<Rightarrow> ('d lheap \<times> addr) option" where
  "lnode_pool_init h pool ns n = do {
     nassert (n \<noteq> 0);
     let h = h\<lparr>pools := (pools h)(pool \<mapsto> \<lparr>pool_nodes = ns, pool_free = ns, pool_size = n\<rparr>)\<rparr>;
     h \<leftarrow> pool_link h ns (unat (n - 1));
     let i = unat (n - 1);
     h \<leftarrow> set_next h (ns + i) 0;
     h \<leftarrow> set_prev h (ns + i) ns;
     Some (h, pool)
   }"

definition lnode_pool_isfrom :: "'d lheap \<Rightarrow> addr \<Rightarrow> addr \<Rightarrow> bool option" where
  "lnode_pool_isfrom h pool node =
     map_option (\<lambda>p. \<exists>i\<in>{0..<unat (pool_size p)}. pool_nodes p + i = node) (pools h pool)"

definition lnode_pool_isempty :: "'d lheap \<Rightarrow> addr \<Rightarrow> bool option" where
  "lnode_pool_isempty h pool = map_option (\<lambda>p. pool_free p = 0) (pools h pool)"

definition lnode_borrow :: "'d lheap \<Rightarrow> addr \<Rightarrow> 'd \<Rightarrow> ('d lheap \<times> addr) option" where
  "lnode_borrow h pool d = do {
     p \<leftarrow> pools h pool;
     let newnode = pool_free p;
     if newnode \<noteq> 0
     then do {
       n \<leftarrow> nxt h newnode;
       h \<leftarrow> pool_borrow_free h pool n;
       h \<leftarrow> lnode_init h newnode d;
       Some (h, newnode)
     }
     else Some (h, newnode)
   }"

definition lnode_return :: "'d lheap \<Rightarrow> addr \<Rightarrow> addr \<Rightarrow> 'd lheap option" where
  "lnode_return h pool node = do {
     b \<leftarrow> lnode_pool_isfrom h pool node;
     nassert b;
     i \<leftarrow> lnode_is_in_a_list h node;
     nassert (\<not> i);
     p \<leftarrow> pools h pool;
     h \<leftarrow> set_next h node (pool_free p);
     h \<leftarrow> set_prev h node node;
     pool_borrow_free h pool node
   }"

partial_function (option) return_nodes_loop ::
  "addr \<Rightarrow> addr \<Rightarrow> 'd lheap \<Rightarrow> addr \<Rightarrow> 'd lheap option" where
  "return_nodes_loop pool nil h n =
     (if n = nil then Some h
      else do {
        tmp \<leftarrow> nxt h n;
        h \<leftarrow> set_next h n 0;
        h \<leftarrow> set_prev h n 0;
        h \<leftarrow> lnode_return h pool n;
        return_nodes_loop pool nil h tmp
      })"

definition list_return_nodes :: "'d lheap \<Rightarrow> addr \<Rightarrow> addr \<Rightarrow> 'd lheap option" where
  "list_return_nodes h l pool = do {
     n \<leftarrow> nxt h l;
     h \<leftarrow> return_nodes_loop pool l h n;
     r \<leftarrow> hdrs h l;
     list_init h l (maxcount r)
   }"

end
