(* ===== verification/KListRefine.thy ===== *)
theory KListRefine
  imports KList
begin

text \<open>
  The operations of \<^verbatim>\<open>src/list.c\<close> refine operations on sequences: \<open>is_list h l ns\<close> says that
  the list at \<open>l\<close> holds the nodes \<open>ns\<close> in this order, and each operation is shown to
  succeed, to change the sequence as it should and to leave every other object alone.
\<close>

section \<open>Chains of nodes\<close>

fun chain :: "(addr \<Rightarrow> addr option) \<Rightarrow> (addr \<Rightarrow> addr option) \<Rightarrow> addr list \<Rightarrow> bool" where
  "chain nx pv (a # b # xs) = (nx a = Some b \<and> pv b = Some a \<and> chain nx pv (b # xs))"
| "chain nx pv xs = True"

lemma chain_append: "chain nx pv (xs @ y # ys) \<longleftrightarrow> chain nx pv (xs @ [y]) \<and> chain nx pv (y # ys)"
proof (induction xs)
  case (Cons x xs)
  then show ?case by (cases xs) auto
qed (cases ys; simp)

lemma chain_cong:
  "(\<And>a. a \<in> set (butlast xs) \<Longrightarrow> nx' a = nx a) \<Longrightarrow> (\<And>a. a \<in> set (tl xs) \<Longrightarrow> pv' a = pv a) \<Longrightarrow>
    chain nx' pv' xs \<longleftrightarrow> chain nx pv xs"
proof (induction xs)
  case (Cons x xs)
  then show ?case
  proof (cases xs)
    case (Cons b ys)
    have "chain nx' pv' xs \<longleftrightarrow> chain nx pv xs"
      using Cons.prems Cons by (intro Cons.IH) (auto dest: in_set_butlastD list.set_sel(2) split: if_splits)
    then show ?thesis using Cons Cons.prems(1) [of x] Cons.prems(2) [of b] by simp
  qed simp
qed simp

lemma chain_upd_nx [simp]: "a \<notin> set (butlast xs) \<Longrightarrow> chain (nx(a := v)) pv xs \<longleftrightarrow> chain nx pv xs"
  by (rule chain_cong) auto

lemma chain_upd_pv [simp]: "a \<notin> set (tl xs) \<Longrightarrow> chain nx (pv(a := v)) xs \<longleftrightarrow> chain nx pv xs"
  by (rule chain_cong) auto

section \<open>Loads and stores\<close>

definition live :: "'d lheap \<Rightarrow> addr \<Rightarrow> bool" where
  "live h a \<longleftrightarrow> nodes h a \<noteq> None"

lemma live_nxt: "nxt h a = Some b \<Longrightarrow> live h a" and live_prv: "prv h a = Some b \<Longrightarrow> live h a"
  by (auto simp: live_def nxt_def prv_def)

text \<open>
  What a store does to the three views of the heap. \<open>upd_next\<close> and \<open>upd_prev\<close> name the heap
  after a store that hits a node.
\<close>

definition upd_next :: "addr \<Rightarrow> addr \<Rightarrow> 'd lheap \<Rightarrow> 'd lheap" where
  "upd_next a v h = h\<lparr>nodes := (nodes h)(a := map_option (\<lambda>n. n\<lparr>lnext := v\<rparr>) (nodes h a))\<rparr>"

definition upd_prev :: "addr \<Rightarrow> addr \<Rightarrow> 'd lheap \<Rightarrow> 'd lheap" where
  "upd_prev a v h = h\<lparr>nodes := (nodes h)(a := map_option (\<lambda>n. n\<lparr>lprev := v\<rparr>) (nodes h a))\<rparr>"

definition upd_count :: "addr \<Rightarrow> ulong \<Rightarrow> 'd lheap \<Rightarrow> 'd lheap" where
  "upd_count l c h = h\<lparr>hdrs := (hdrs h)(l := map_option (\<lambda>r. r\<lparr>nodecount := c\<rparr>) (hdrs h l))\<rparr>"

lemma set_next_live: "live h a \<Longrightarrow> set_next h a v = Some (upd_next a v h)"
  by (auto simp: set_next_def upd_next_def live_def)

lemma set_prev_live: "live h a \<Longrightarrow> set_prev h a v = Some (upd_prev a v h)"
  by (auto simp: set_prev_def upd_prev_def live_def)

lemma set_count_live: "hdrs h l = Some r \<Longrightarrow> set_count h l c = Some (upd_count l c h)"
  by (auto simp: set_count_def upd_count_def)

lemma live_upd [simp]:
  "live (upd_next a v h) b = live h b" "live (upd_prev a v h) b = live h b"
  "live (upd_count l c h) b = live h b"
  by (auto simp: live_def upd_next_def upd_prev_def upd_count_def)

lemma views_upd_next [simp]:
  "nxt (upd_next a v h) = (if live h a then (nxt h)(a := Some v) else nxt h)"
  "prv (upd_next a v h) = prv h" "dat (upd_next a v h) = dat h"
  "hdrs (upd_next a v h) = hdrs h" "pools (upd_next a v h) = pools h"
  by (auto simp: nxt_def prv_def dat_def upd_next_def live_def fun_eq_iff option.map_comp comp_def)

lemma views_upd_prev [simp]:
  "prv (upd_prev a v h) = (if live h a then (prv h)(a := Some v) else prv h)"
  "nxt (upd_prev a v h) = nxt h" "dat (upd_prev a v h) = dat h"
  "hdrs (upd_prev a v h) = hdrs h" "pools (upd_prev a v h) = pools h"
  by (auto simp: nxt_def prv_def dat_def upd_prev_def live_def fun_eq_iff option.map_comp comp_def)

lemma views_upd_count [simp]:
  "nxt (upd_count l c h) = nxt h" "prv (upd_count l c h) = prv h" "dat (upd_count l c h) = dat h"
  "nodes (upd_count l c h) = nodes h" "pools (upd_count l c h) = pools h"
  "hdrs (upd_count l c h) = (hdrs h)(l := map_option (\<lambda>r. r\<lparr>nodecount := c\<rparr>) (hdrs h l))"
  by (auto simp: nxt_def prv_def dat_def upd_count_def)

lemma nodes_upd_other [simp]:
  "b \<noteq> a \<Longrightarrow> nodes (upd_next a v h) b = nodes h b"
  "b \<noteq> a \<Longrightarrow> nodes (upd_prev a v h) b = nodes h b"
  by (simp_all add: upd_next_def upd_prev_def)

lemma views_nodes:
  assumes "nodes h' a = nodes h a"
  shows "nxt h' a = nxt h a" "prv h' a = prv h a" "dat h' a = dat h a" "live h' a = live h a"
  using assms by (simp_all add: nxt_def prv_def dat_def live_def)

section \<open>The abstraction\<close>

definition is_list :: "'d lheap \<Rightarrow> addr \<Rightarrow> addr list \<Rightarrow> bool" where
  "is_list h l ns \<longleftrightarrow>
     chain (nxt h) (prv h) (l # ns @ [l]) \<and> distinct (l # ns) \<and> 0 \<notin> set (l # ns) \<and>
     (\<exists>r. hdrs h l = Some r \<and> nodecount r = of_nat (length ns) \<and> length ns \<le> unat (maxcount r) \<and>
       maxcount r \<noteq> 0)"

text \<open>The capacity of the list at \<open>l\<close>.\<close>

definition list_max :: "'d lheap \<Rightarrow> addr \<Rightarrow> nat" where
  "list_max h l = (case hdrs h l of None \<Rightarrow> 0 | Some r \<Rightarrow> unat (maxcount r))"

text \<open>\<open>h'\<close> differs from \<open>h\<close> only at the nodes in \<open>A\<close> and the headers in \<open>B\<close>, and in no data.\<close>

definition frame :: "'d lheap \<Rightarrow> 'd lheap \<Rightarrow> addr set \<Rightarrow> addr set \<Rightarrow> bool" where
  "frame h h' A B \<longleftrightarrow>
     (\<forall>a. a \<notin> A \<longrightarrow> nodes h' a = nodes h a) \<and> (\<forall>l. l \<notin> B \<longrightarrow> hdrs h' l = hdrs h l) \<and>
     dat h' = dat h \<and> pools h' = pools h \<and> (\<forall>l. list_max h' l = list_max h l)"

lemma frame_refl [simp]: "frame h h A B"
  by (simp add: frame_def)

lemma frame_trans: "frame h h1 A B \<Longrightarrow> frame h1 h2 A B \<Longrightarrow> frame h h2 A B"
  by (simp add: frame_def)

lemma frame_mono: "frame h h' A B \<Longrightarrow> A \<subseteq> A' \<Longrightarrow> B \<subseteq> B' \<Longrightarrow> frame h h' A' B'"
  by (auto simp: frame_def)

lemma frame_dat: "frame h h' A B \<Longrightarrow> dat h' = dat h"
  by (simp add: frame_def)

lemma frame_max: "frame h h' A B \<Longrightarrow> list_max h' l = list_max h l"
  by (simp add: frame_def)

lemma list_max_pos: "is_list h l ns \<Longrightarrow> length ns \<le> list_max h l \<and> 0 < list_max h l"
  by (auto simp: is_list_def list_max_def unat_gt_0)

lemma is_list_cong:
  assumes "\<And>a. a \<in> set (l # ns) \<Longrightarrow> nodes h' a = nodes h a" and "hdrs h' l = hdrs h l"
  shows "is_list h' l ns \<longleftrightarrow> is_list h l ns"
proof -
  have bl: "butlast (l # ns @ [l]) = l # ns" by (simp add: butlast_append)
  have "chain (nxt h') (prv h') (l # ns @ [l]) \<longleftrightarrow> chain (nxt h) (prv h) (l # ns @ [l])"
  proof (rule chain_cong)
    fix a
    show "nxt h' a = nxt h a" if "a \<in> set (butlast (l # ns @ [l]))"
      using that assms(1) unfolding bl by (blast intro: views_nodes)
    show "prv h' a = prv h a" if "a \<in> set (tl (l # ns @ [l]))"
      using that assms(1) [of a] by (intro views_nodes) auto
  qed
  then show ?thesis by (simp add: is_list_def assms(2))
qed

lemma is_list_frame:
  "is_list h l ns \<Longrightarrow> frame h h' A B \<Longrightarrow> A \<inter> set (l # ns) = {} \<Longrightarrow> l \<notin> B \<Longrightarrow> is_list h' l ns"
  using is_list_cong [of l ns h' h] by (fastforce simp: frame_def)

lemma is_listD:
  assumes "is_list h l ns"
  shows "chain (nxt h) (prv h) (l # ns @ [l])" "distinct (l # ns)" "0 \<notin> set (l # ns)"
    "\<exists>r. hdrs h l = Some r \<and> nodecount r = of_nat (length ns) \<and> length ns \<le> unat (maxcount r) \<and>
       maxcount r \<noteq> 0"
  using assms by (auto simp: is_list_def)

lemma chain_mid: "chain nx pv (xs @ a # b # ys) \<Longrightarrow> nx a = Some b \<and> pv b = Some a"
  using chain_append [of nx pv xs a "b # ys"] by simp

text \<open>The neighbours of a position, the two lists meeting at it.\<close>

lemma is_list_nxt:
  assumes "is_list h l (xs @ ys)"
  shows "nxt h (last (l # xs)) = Some (hd (ys @ [l]))" "prv h (hd (ys @ [l])) = Some (last (l # xs))"
proof -
  have "ys @ [l] = hd (ys @ [l]) # tl (ys @ [l])" by (cases ys) auto
  moreover have "l # xs = butlast (l # xs) @ [last (l # xs)]" by simp
  ultimately have "l # (xs @ ys) @ [l] = butlast (l # xs) @ last (l # xs) # hd (ys @ [l]) # tl (ys @ [l])"
    by (metis append.assoc append_Cons append_Nil)
  with assms have "chain (nxt h) (prv h)
      (butlast (l # xs) @ last (l # xs) # hd (ys @ [l]) # tl (ys @ [l]))"
    by (metis is_list_def)
  from chain_mid [OF this] show "nxt h (last (l # xs)) = Some (hd (ys @ [l]))"
    "prv h (hd (ys @ [l])) = Some (last (l # xs))"
    by blast+
qed

lemma is_list_first: "is_list h l ns \<Longrightarrow> nxt h l = Some (hd (ns @ [l]))"
  using is_list_nxt(1) [of h l "[]" ns] by simp

lemma is_list_last: "is_list h l ns \<Longrightarrow> prv h l = Some (last (l # ns))"
  using is_list_nxt(2) [of h l ns "[]"] by simp

lemma is_list_next: "is_list h l (xs @ a # ys) \<Longrightarrow> nxt h a = Some (hd (ys @ [l]))"
  using is_list_nxt(1) [of h l "xs @ [a]" ys] by simp

lemma is_list_prev: "is_list h l (xs @ a # ys) \<Longrightarrow> prv h a = Some (last (l # xs))"
  using is_list_nxt(2) [of h l xs "a # ys"] by simp

lemma is_list_live: "is_list h l ns \<Longrightarrow> a \<in> set (l # ns) \<Longrightarrow> live h a"
  using is_list_first [of h l ns] is_list_next [of h l _ a]
  by (metis live_nxt set_ConsD split_list)

section \<open>Searching\<close>

lemma contains_loop_refines:
  "is_list h l (xs @ ys) \<Longrightarrow> contains_loop h l node (hd (ys @ [l])) = Some (node \<in> set ys)"
proof (induction ys arbitrary: xs)
  case Nil
  then show ?case by (simp add: contains_loop.simps)
next
  case (Cons a ys)
  have "a \<noteq> l" using Cons.prems by (auto simp: is_list_def)
  moreover have "contains_loop h l node (hd (ys @ [l])) = Some (node \<in> set ys)"
    using Cons.IH [of "xs @ [a]"] Cons.prems by simp
  ultimately show ?case
    using is_list_next [OF Cons.prems] by (subst contains_loop.simps) (auto simp: contains_loop.simps)
qed

lemma list_contains_refines [list_ops]: "is_list h l ns \<Longrightarrow> list_contains h l node = Some (node \<in> set ns)"
  using contains_loop_refines [of h l "[]" ns node] by (simp add: list_contains_def is_list_first)

lemma find_loop_refines:
  "is_list h l (xs @ ys) \<Longrightarrow> list_all (\<lambda>a. dat h a = Some (f a)) ys \<Longrightarrow>
    find_loop h l cmp (hd (ys @ [l])) = Some (case List.find (\<lambda>a. cmp (f a) = 0) ys of None \<Rightarrow> 0 | Some a \<Rightarrow> a)"
proof (induction ys arbitrary: xs)
  case Nil
  then show ?case by (simp add: find_loop.simps)
next
  case (Cons a ys)
  have "a \<noteq> l" using Cons.prems by (auto simp: is_list_def)
  moreover have "find_loop h l cmp (hd (ys @ [l])) =
      Some (case List.find (\<lambda>a. cmp (f a) = 0) ys of None \<Rightarrow> 0 | Some a \<Rightarrow> a)"
    using Cons.IH [of "xs @ [a]"] Cons.prems by simp
  ultimately show ?case
    using is_list_next [OF Cons.prems(1)] Cons.prems(2)
    by (subst find_loop.simps) (simp add: lnode_get_def)
qed

text \<open>The data of the nodes of a list.\<close>

definition node_data :: "'d lheap \<Rightarrow> addr \<Rightarrow> 'd" where
  "node_data h a = the (dat h a)"

lemma live_dat: "live h a \<Longrightarrow> dat h a = Some (node_data h a)"
  by (auto simp: live_def dat_def node_data_def)

lemma is_list_dat: "is_list h l ns \<Longrightarrow> list_all (\<lambda>a. dat h a = Some (node_data h a)) ns"
  using is_list_live by (fastforce simp: list_all_iff intro: live_dat)

lemma list_find_refines [list_ops]:
  "is_list h l ns \<Longrightarrow> list_find h l key compare =
    Some (case List.find (\<lambda>a. compare (node_data h a) key = 0) ns of None \<Rightarrow> 0 | Some a \<Rightarrow> a)"
  using find_loop_refines [of h l "[]" ns "node_data h" "\<lambda>d. compare d key"]
  by (simp add: list_find_def is_list_first is_list_dat)

lemma is_list_distinct: "is_list h l ns \<Longrightarrow> distinct ns \<and> l \<notin> set ns \<and> l \<noteq> 0 \<and> 0 \<notin> set ns"
  by (auto simp: is_list_def)

lemma list_first_refines [list_ops]:
  "is_list h l ns \<Longrightarrow> list_first h l = Some (case ns of [] \<Rightarrow> 0 | a # _ \<Rightarrow> a)"
  using is_list_distinct [of h l ns] by (cases ns) (simp_all add: list_first_def is_list_first)

lemma list_last_refines [list_ops]:
  "is_list h l ns \<Longrightarrow> list_last h l = Some (if ns = [] then 0 else last ns)"
  using is_list_distinct [of h l ns]
  by (cases ns rule: rev_cases) (auto simp: list_last_def is_list_last)

lemma list_next_refines [list_ops]:
  assumes "is_list h l (xs @ a # ys)"
  shows "list_next h l a = Some (case ys of [] \<Rightarrow> 0 | b # _ \<Rightarrow> b)"
  using is_list_distinct [OF assms] list_contains_refines [OF assms, of a] is_list_next [OF assms]
  by (cases ys) (simp_all add: list_next_def)

lemma list_prev_refines [list_ops]:
  assumes "is_list h l (xs @ a # ys)"
  shows "list_prev h l a = Some (if xs = [] then 0 else last xs)"
  using is_list_distinct [OF assms] list_contains_refines [OF assms, of a] is_list_prev [OF assms]
  by (cases xs rule: rev_cases) (auto simp: list_prev_def)

lemma list_count_refines [list_ops]: "is_list h l ns \<Longrightarrow> list_count h l = Some (of_nat (length ns))"
  by (auto simp: list_count_def is_list_def)

lemma word_of_nat_0_iff:
  assumes "n \<le> unat (m :: ulong)"
  shows "(of_nat n :: ulong) = 0 \<longleftrightarrow> n = 0"
proof
  assume "(of_nat n :: ulong) = 0"
  then have "unat (of_nat n :: ulong) = 0" by (simp only: unat_0)
  then show "n = 0" by (simp only: le_unat_uoi [OF assms])
qed simp

lemma list_isempty_refines [list_ops]:
  assumes "is_list h l ns"
  shows "list_isempty h l = Some (ns = [])"
proof -
  obtain r where "hdrs h l = Some r" "nodecount r = of_nat (length ns)" "length ns \<le> unat (maxcount r)"
    using is_listD(4) [OF assms] by blast
  then show ?thesis using word_of_nat_0_iff [of "length ns" "maxcount r"] by (simp add: list_isempty_def)
qed

section \<open>Inserting and deleting\<close>

lemma chain_app:
  "xs \<noteq> [] \<Longrightarrow> ys \<noteq> [] \<Longrightarrow> chain nx pv (xs @ ys) \<longleftrightarrow>
    chain nx pv xs \<and> chain nx pv ys \<and> nx (last xs) = Some (hd ys) \<and> pv (hd ys) = Some (last xs)"
proof (induction xs)
  case (Cons x xs)
  then show ?case by (cases xs; cases ys) auto
qed simp

lemma is_list_halves:
  assumes "is_list h l (xs @ ys)"
  shows "chain (nxt h) (prv h) (l # xs)" "chain (nxt h) (prv h) (ys @ [l])"
proof -
  from assms have "chain (nxt h) (prv h) ((l # xs) @ (ys @ [l]))" by (simp add: is_list_def)
  then show "chain (nxt h) (prv h) (l # xs)" "chain (nxt h) (prv h) (ys @ [l])"
    using chain_app [of "l # xs" "ys @ [l]"] by blast+
qed

lemma last_in: "last (l # xs) \<in> set (l # xs)" and hd_in: "hd (ys @ [l]) \<in> set (l # ys)"
  by (auto simp: hd_append)

lemma is_list_splice:
  assumes L: "is_list h l (xs @ ys)" and n: "n \<notin> set (l # xs @ ys)" "n \<noteq> 0"
    and nx: "nxt h' = (nxt h)(last (l # xs) := Some n, n := Some (hd (ys @ [l])))"
    and pv: "prv h' = (prv h)(hd (ys @ [l]) := Some n, n := Some (last (l # xs)))"
    and hdr: "hdrs h l = Some r" "hdrs h' l = Some (r\<lparr>nodecount := nodecount r + 1\<rparr>)"
    and room: "length (xs @ ys) < list_max h l"
  shows "is_list h' l (xs @ n # ys)"
proof -
  let ?p = "last (l # xs)" and ?q = "hd (ys @ [l])"
  have d: "distinct (l # xs @ ys)" using L by (simp add: is_list_def)
  have p: "?p \<in> set (l # xs)" and q: "?q \<in> set (l # ys)"
    by (rule last_in, rule hd_in)
  have "l # xs = butlast (l # xs) @ [?p]" by simp
  then have "?p \<notin> set (butlast (l # xs))"
    using d by (metis append_Cons distinct_append not_distinct_conv_prefix)
  moreover have "?q \<notin> set (tl (l # xs))" "n \<notin> set (tl (l # xs))" "n \<notin> set (butlast (l # xs))"
    using q d n(1) by (auto dest: in_set_butlastD split: if_splits)
  ultimately have left: "chain (nxt h') (prv h') (l # xs)"
    using is_list_halves(1) [OF L] unfolding nx pv by (simp only: chain_upd_nx chain_upd_pv not_False_eq_True)
  have "?p \<notin> set (butlast (ys @ [l]))" "n \<notin> set (butlast (ys @ [l]))" using p d n(1) by auto
  moreover have "?q \<notin> set (tl (ys @ [l]))" "n \<notin> set (tl (ys @ [l]))"
    using d n(1) by (cases ys; simp)+
  ultimately have right: "chain (nxt h') (prv h') (ys @ [l])"
    using is_list_halves(2) [OF L] unfolding nx pv by (simp only: chain_upd_nx chain_upd_pv not_False_eq_True)
  have "?p \<noteq> n" "?q \<noteq> n" using p q n(1) by auto
  then have mid: "nxt h' n = Some ?q" "prv h' ?q = Some n" "nxt h' ?p = Some n" "prv h' n = Some ?p"
    by (simp_all only: nx pv fun_upd_apply if_True if_False simp_thms)
  have "chain (nxt h') (prv h') ((l # xs) @ (n # (ys @ [l])))"
    using left right mid chain_app [of "l # xs" "n # (ys @ [l])"] chain_app [of "[n]" "ys @ [l]"] by simp
  moreover have "length (xs @ n # ys) \<le> unat (maxcount r)" and "nodecount r = of_nat (length (xs @ ys))"
      and "maxcount r \<noteq> 0"
    using room hdr L by (auto simp: list_max_def is_list_def)
  ultimately show ?thesis
    using L n d by (simp add: is_list_def hdr)
qed

text \<open>A node that is in no list.\<close>

definition loose :: "'d lheap \<Rightarrow> addr \<Rightarrow> bool" where
  "loose h n \<longleftrightarrow> n \<noteq> 0 \<and> (\<exists>d. nodes h n = Some \<lparr>lnext = 0, lprev = 0, ldata = d\<rparr>)"

lemma looseD: "loose h n \<Longrightarrow> n \<noteq> 0 \<and> live h n \<and> lnode_is_in_a_list h n = Some False"
  by (auto simp: loose_def live_def lnode_is_in_a_list_def)

lemma loose_not_in_list: "loose h n \<Longrightarrow> is_list h l ns \<Longrightarrow> n \<notin> set (l # ns)"
proof
  assume n: "loose h n" and l: "is_list h l ns" and i: "n \<in> set (l # ns)"
  have "nxt h n = Some 0" using n by (auto simp: loose_def nxt_def)
  moreover have "\<exists>b. nxt h n = Some b \<and> b \<in> set (l # ns)"
  proof (cases "n = l")
    case True
    then show ?thesis using is_list_first [OF l] hd_in [of ns l] by auto
  next
    case False
    then obtain xs ys where "ns = xs @ n # ys" using i by (auto dest: split_list)
    then show ?thesis using is_list_next [of h l xs n ys] l hd_in [of ys l] by auto
  qed
  ultimately show False using l by (auto simp: is_list_def)
qed

lemma word_count_Suc:
  assumes "k < unat (m :: ulong)"
  shows "(of_nat k :: ulong) < of_nat k + 1" "of_nat k + 1 \<le> m"
proof -
  have "k \<le> unat m" "Suc k \<le> unat m" using assms by simp_all
  then have u: "unat (of_nat k :: ulong) = k" "unat (of_nat (Suc k) :: ulong) = Suc k"
    by (simp_all only: le_unat_uoi)
  then have "(of_nat k :: ulong) + 1 = of_nat (Suc k)" by (simp add: add.commute)
  with u assms show "(of_nat k :: ulong) < of_nat k + 1" "of_nat k + 1 \<le> m"
    by (simp_all only: word_less_nat_alt word_le_nat_alt)
qed

lemma list_room:
  assumes "is_list h l ns" "length ns < list_max h l"
  obtains r where "hdrs h l = Some r" "nodecount r < nodecount r + 1" "nodecount r + 1 \<le> maxcount r"
  using is_listD(4) [OF assms(1)] assms(2) word_count_Suc by (fastforce simp: list_max_def)

lemma insert_checks:
  assumes "is_list h l (xs @ ys)" "loose h n"
  shows "list_contains h l n = Some False" "lnode_is_in_a_list h n = Some False"
    "(if last (l # xs) = l then Some True else list_contains h l (last (l # xs))) = Some True"
    "(if hd (ys @ [l]) = l then Some True else list_contains h l (hd (ys @ [l]))) = Some True"
  using assms loose_not_in_list [OF assms(2,1)] looseD [OF assms(2)]
  by (auto simp: list_contains_refines hd_append)

lemma upd_count_max: "list_max (upd_count l c h) k = list_max h k"
  by (auto simp: list_max_def split: option.splits)

lemma upd_max [simp]: "list_max (upd_next a v h) k = list_max h k" "list_max (upd_prev a v h) k = list_max h k"
  by (simp_all add: list_max_def)

lemma frame_upds:
  "frame h h' A B \<Longrightarrow> a \<in> A \<Longrightarrow> frame h (upd_next a v h') A B"
  "frame h h' A B \<Longrightarrow> a \<in> A \<Longrightarrow> frame h (upd_prev a v h') A B"
  "frame h h' A B \<Longrightarrow> l \<in> B \<Longrightarrow> frame h (upd_count l c h') A B"
  by (auto simp: frame_def upd_count_max) (metis nodes_upd_other)+

lemma list_ins_before_refines [list_ops]:
  assumes L: "is_list h l (xs @ ys)" and n: "loose h n" and room: "length (xs @ ys) < list_max h l"
  shows "\<exists>h'. list_ins_before h l n (hd (ys @ [l])) = Some h' \<and> is_list h' l (xs @ n # ys) \<and>
    frame h h' (set (l # n # xs @ ys)) {l}"
proof -
  obtain r where r: "hdrs h l = Some r" "nodecount r < nodecount r + 1" "nodecount r + 1 \<le> maxcount r"
    using list_room [OF L room] .
  define p q where "p = last (l # xs)" and "q = hd (ys @ [l])"
  have pq: "p \<in> set (l # xs)" "q \<in> set (l # ys)"
    unfolding p_def q_def by (rule last_in, rule hd_in)
  have nn: "n \<notin> set (l # xs @ ys)" by (rule loose_not_in_list [OF n L])
  have live: "live h p" "live h q" "live h n" "n \<noteq> 0"
    using pq is_list_live [OF L] looseD [OF n] by auto
  note checks = insert_checks [OF L n, folded p_def q_def]
  let ?h = "upd_count l (nodecount r + 1) (upd_prev q n (upd_next p n (upd_prev n p (upd_next n q h))))"
  have "p \<noteq> n" "q \<noteq> n" using pq nn by auto
  then have views: "nxt ?h = (nxt h)(p := Some n, n := Some q)" "prv ?h = (prv h)(q := Some n, n := Some p)"
    using live by (auto simp: fun_upd_twist)
  have "list_ins_before h l n q = Some ?h"
    using is_list_nxt(2) [OF L, folded p_def q_def] checks live r
    by (simp add: list_ins_before_def set_next_live set_prev_live set_count_live)
  moreover have "is_list ?h l (xs @ n # ys)"
    using views r by (intro is_list_splice [OF L nn] room) (auto simp: p_def q_def live)
  moreover have "frame h ?h (set (l # n # xs @ ys)) {l}"
    using pq by (intro frame_upds frame_refl) auto
  ultimately show ?thesis by (auto simp: q_def)
qed

lemma list_ins_after_refines [list_ops]:
  assumes L: "is_list h l (xs @ ys)" and n: "loose h n" and room: "length (xs @ ys) < list_max h l"
  shows "\<exists>h'. list_ins_after h l n (last (l # xs)) = Some h' \<and> is_list h' l (xs @ n # ys) \<and>
    frame h h' (set (l # n # xs @ ys)) {l}"
proof -
  obtain r where r: "hdrs h l = Some r" "nodecount r < nodecount r + 1" "nodecount r + 1 \<le> maxcount r"
    using list_room [OF L room] .
  define p q where "p = last (l # xs)" and "q = hd (ys @ [l])"
  have pq: "p \<in> set (l # xs)" "q \<in> set (l # ys)"
    unfolding p_def q_def by (rule last_in, rule hd_in)
  have nn: "n \<notin> set (l # xs @ ys)" by (rule loose_not_in_list [OF n L])
  have live: "live h p" "live h q" "live h n" "n \<noteq> 0"
    using pq is_list_live [OF L] looseD [OF n] by auto
  note checks = insert_checks [OF L n, folded p_def q_def]
  let ?h = "upd_count l (nodecount r + 1) (upd_next p n (upd_prev q n (upd_next n q (upd_prev n p h))))"
  have "p \<noteq> n" "q \<noteq> n" using pq nn by auto
  then have views: "nxt ?h = (nxt h)(p := Some n, n := Some q)" "prv ?h = (prv h)(q := Some n, n := Some p)"
    using live by (auto simp: fun_upd_twist)
  have "list_ins_after h l n p = Some ?h"
    using is_list_nxt(1) [OF L, folded p_def q_def] checks live r
    by (simp add: list_ins_after_def set_next_live set_prev_live set_count_live)
  moreover have "is_list ?h l (xs @ n # ys)"
    using views r by (intro is_list_splice [OF L nn] room) (auto simp: p_def q_def live)
  moreover have "frame h ?h (set (l # n # xs @ ys)) {l}"
    using pq by (intro frame_upds frame_refl) auto
  ultimately show ?thesis by (auto simp: p_def)
qed

lemma list_append_refines [list_ops]:
  assumes "is_list h l ns" "loose h n" "length ns < list_max h l"
  shows "\<exists>h'. list_append h l n = Some h' \<and> is_list h' l (ns @ [n]) \<and> frame h h' (set (l # n # ns)) {l}"
  using list_ins_before_refines [of h l ns "[]" n] assms by (simp add: list_append_def)

lemma list_prepend_refines [list_ops]:
  assumes "is_list h l ns" "loose h n" "length ns < list_max h l"
  shows "\<exists>h'. list_prepend h l n = Some h' \<and> is_list h' l (n # ns) \<and> frame h h' (set (l # n # ns)) {l}"
  using list_ins_after_refines [of h l "[]" ns n] assms by (simp add: list_prepend_def)

lemma looseI:
  assumes "nxt h n = Some 0" "prv h n = Some 0" "n \<noteq> 0"
  shows "loose h n"
proof -
  obtain z where z: "nodes h n = Some z" "lnext z = 0" "lprev z = 0"
    using assms by (auto simp: nxt_def prv_def)
  then have "z = \<lparr>lnext = 0, lprev = 0, ldata = ldata z\<rparr>" by simp
  with z(1) have "nodes h n = Some \<lparr>lnext = 0, lprev = 0, ldata = ldata z\<rparr>" by argo
  with assms(3) show ?thesis by (auto simp: loose_def)
qed

lemma is_list_unsplice:
  assumes L: "is_list h l (xs @ x # ys)"
    and nx: "nxt h' = (nxt h)(last (l # xs) := Some (hd (ys @ [l])), x := Some 0)"
    and pv: "prv h' = (prv h)(hd (ys @ [l]) := Some (last (l # xs)), x := Some 0)"
    and hdr: "hdrs h l = Some r" "hdrs h' l = Some (r\<lparr>nodecount := nodecount r - 1\<rparr>)"
  shows "is_list h' l (xs @ ys)"
proof -
  let ?p = "last (l # xs)" and ?q = "hd (ys @ [l])"
  have d: "distinct (l # xs @ x # ys)" using L by (simp add: is_list_def)
  have p: "?p \<in> set (l # xs)" and q: "?q \<in> set (l # ys)"
    by (rule last_in, rule hd_in)
  have "l # xs = butlast (l # xs) @ [?p]" by simp
  then have "?p \<notin> set (butlast (l # xs))"
    using d by (metis append_Cons distinct_append not_distinct_conv_prefix)
  moreover have "?q \<notin> set (tl (l # xs))" "x \<notin> set (tl (l # xs))" "x \<notin> set (butlast (l # xs))"
    using q d by (auto dest: in_set_butlastD split: if_splits)
  ultimately have left: "chain (nxt h') (prv h') (l # xs)"
    using is_list_halves(1) [OF L] unfolding nx pv by (simp only: chain_upd_nx chain_upd_pv not_False_eq_True)
  have "?p \<notin> set (butlast (ys @ [l]))" "x \<notin> set (butlast (ys @ [l]))" using p d by auto
  moreover have "?q \<notin> set (tl (ys @ [l]))" "x \<notin> set (tl (ys @ [l]))"
    using d by (cases ys; simp)+
  ultimately have right: "chain (nxt h') (prv h') (ys @ [l])"
    using is_list_halves(2) [of h l "xs @ [x]" ys] L unfolding nx pv
    by (simp only: chain_upd_nx chain_upd_pv not_False_eq_True append.assoc append_Cons append_Nil)
  have "?p \<noteq> x" "?q \<noteq> x" using p q d by auto
  then have mid: "nxt h' ?p = Some ?q" "prv h' ?q = Some ?p"
    by (simp_all only: nx pv fun_upd_apply if_True if_False simp_thms)
  have "chain (nxt h') (prv h') ((l # xs) @ (ys @ [l]))"
    using left right mid chain_app [of "l # xs" "ys @ [l]"] by simp
  moreover have "length (xs @ ys) \<le> unat (maxcount r)" "nodecount r = of_nat (length (xs @ x # ys))"
    "maxcount r \<noteq> 0"
    using hdr L by (auto simp: is_list_def)
  ultimately show ?thesis using L d by (simp add: is_list_def hdr)
qed

lemma list_delete_refines [list_ops]:
  assumes L: "is_list h l (xs @ x # ys)"
  shows "\<exists>h'. list_delete h l x = Some (h', x) \<and> is_list h' l (xs @ ys) \<and> loose h' x \<and>
    frame h h' (set (l # x # xs @ ys)) {l}"
proof -
  obtain r where r: "hdrs h l = Some r" using is_listD(4) [OF L] by blast
  define p q where "p = last (l # xs)" and "q = hd (ys @ [l])"
  have pq: "p \<in> set (l # xs)" "q \<in> set (l # ys)"
    unfolding p_def q_def by (rule last_in, rule hd_in)
  have live: "live h p" "live h q" "live h x" "x \<noteq> 0"
    using pq is_list_live [OF L] is_list_distinct [OF L] by auto
  let ?h = "upd_next x 0 (upd_prev x 0 (upd_count l (nodecount r - 1) (upd_prev q p (upd_next p q h))))"
  have views: "nxt ?h = (nxt h)(p := Some q, x := Some 0)" "prv ?h = (prv h)(q := Some p, x := Some 0)"
    using live by simp_all
  have "list_delete h l x = Some (?h, x)"
    using is_list_next [OF L, folded q_def] is_list_prev [OF L, folded p_def] live r
    by (simp add: list_delete_def list_contains_refines [OF L] set_next_live set_prev_live set_count_live)
  moreover have "is_list ?h l (xs @ ys)"
    using views r by (intro is_list_unsplice [OF L]) (auto simp: p_def q_def live)
  moreover have "loose ?h x" using views live by (auto intro: looseI)
  moreover have "frame h ?h (set (l # x # xs @ ys)) {l}"
    using pq by (intro frame_upds frame_refl) auto
  ultimately show ?thesis by blast
qed

lemma list_del_first_refines [list_ops]:
  "is_list h l (x # ys) \<Longrightarrow> \<exists>h'. list_del_first h l = Some (h', x) \<and> is_list h' l ys \<and> loose h' x \<and>
    frame h h' (set (l # x # ys)) {l}"
  using list_delete_refines [of h l "[]" x ys] by (simp add: list_del_first_def is_list_first)

lemma list_del_last_refines [list_ops]:
  "is_list h l (xs @ [x]) \<Longrightarrow> \<exists>h'. list_del_last h l = Some (h', x) \<and> is_list h' l xs \<and> loose h' x \<and>
    frame h h' (set (l # x # xs)) {l}"
  using list_delete_refines [of h l xs x "[]"] by (simp add: list_del_last_def is_list_last)

section \<open>Empty lists, verification\<close>

lemma views_hdrs:
  "nxt (h\<lparr>hdrs := f\<rparr>) = nxt h" "prv (h\<lparr>hdrs := f\<rparr>) = prv h" "dat (h\<lparr>hdrs := f\<rparr>) = dat h"
  by (simp_all add: nxt_def prv_def dat_def fun_eq_iff)

lemma list_init_refines [list_ops]:
  assumes "live h l" "hdrs h l = Some r" "l \<noteq> 0" "mx \<noteq> 0"
  shows "\<exists>h'. list_init h l mx = Some h' \<and> is_list h' l [] \<and> list_max h' l = unat mx \<and>
    (\<forall>a. a \<noteq> l \<longrightarrow> nodes h' a = nodes h a \<and> hdrs h' a = hdrs h a) \<and> dat h' = dat h \<and> pools h' = pools h"
proof -
  let ?h = "upd_prev l l (upd_next l l h)"
  let ?h' = "?h\<lparr>hdrs := (hdrs ?h)(l \<mapsto> \<lparr>nodecount = 0, maxcount = mx\<rparr>)\<rparr>"
  have "list_init h l mx = Some ?h'"
    using assms by (simp add: list_init_def set_next_live set_prev_live)
  moreover have v: "nxt ?h' = nxt ?h" "prv ?h' = prv ?h" "dat ?h' = dat ?h"
    by (rule views_hdrs)+
  then have "is_list ?h' l []" using assms by (simp add: is_list_def)
  moreover have "list_max ?h' l = unat mx" by (simp add: list_max_def)
  ultimately show ?thesis using v(3) by auto
qed

lemma verify_loop_refines:
  "is_list h l (xs @ ys) \<Longrightarrow> verify_loop h l (hd (ys @ [l])) (of_nat (length ys)) = Some True"
proof (induction ys arbitrary: xs)
  case Nil
  then show ?case by (simp add: verify_loop.simps)
next
  case (Cons a ys)
  have al: "a \<noteq> l" using is_list_distinct [OF Cons.prems] by auto
  obtain r :: list_hdr where "length (xs @ a # ys) \<le> unat (maxcount r)"
    using is_listD(4) [OF Cons.prems] by blast
  then have "(of_nat (length (a # ys)) :: ulong) \<noteq> 0"
    using word_of_nat_0_iff [of "length (a # ys)" "maxcount r"] by simp
  moreover have "of_nat (length (a # ys)) - 1 = (of_nat (length ys) :: ulong)" by simp
  moreover have "verify_loop h l (hd (ys @ [l])) (of_nat (length ys)) = Some True"
    using Cons.IH [of "xs @ [a]"] Cons.prems by simp
  moreover have "prv h (hd (ys @ [l])) = Some a"
    using is_list_nxt(2) [of h l "xs @ [a]" ys] Cons.prems by simp
  ultimately show ?case
    using is_list_next [OF Cons.prems] al by (subst verify_loop.simps) (simp del: of_nat_Suc length_Cons)
qed

lemma list_verify_refines [list_ops]:
  assumes L: "is_list h l ns"
  shows "list_verify h l = Some True"
proof -
  obtain r where r: "hdrs h l = Some r" "nodecount r = of_nat (length ns)" "length ns \<le> unat (maxcount r)"
    using is_listD(4) [OF L] by blast
  then have "\<not> nodecount r > maxcount r"
    by (simp add: word_le_nat_alt not_less le_unat_uoi)
  moreover have "prv h (hd (ns @ [l])) = Some l" using is_list_nxt(2) [of h l "[]" ns] L by simp
  ultimately show ?thesis
    using verify_loop_refines [of h l "[]" ns] L r by (simp add: list_verify_def is_list_first)
qed

section \<open>Moving the tail of a list\<close>

text \<open>\<open>is_list\<close> without what the header says.\<close>

definition linked :: "'d lheap \<Rightarrow> addr \<Rightarrow> addr list \<Rightarrow> bool" where
  "linked h l ns \<longleftrightarrow> chain (nxt h) (prv h) (l # ns @ [l]) \<and> distinct (l # ns) \<and> 0 \<notin> set (l # ns)"

lemma is_list_linked: "is_list h l ns \<Longrightarrow> linked h l ns"
  by (simp add: is_list_def linked_def)

lemma linkedI:
  "linked h l ns \<Longrightarrow> hdrs h l = Some r \<Longrightarrow> nodecount r = of_nat (length ns) \<Longrightarrow>
    length ns \<le> unat (maxcount r) \<Longrightarrow> maxcount r \<noteq> 0 \<Longrightarrow> is_list h l ns"
  by (simp add: is_list_def linked_def)

lemma linked_cong: "nxt h' = nxt h \<Longrightarrow> prv h' = prv h \<Longrightarrow> linked h' l ns = linked h l ns"
  by (simp add: linked_def)

lemma last_notin_butlast: "distinct xs \<Longrightarrow> xs \<noteq> [] \<Longrightarrow> last xs \<notin> set (butlast xs)"
  by (cases xs rule: rev_cases) auto

lemma count_loop_chain:
  "chain (nxt h) (prv h) (f # ys) \<Longrightarrow> distinct (f # ys) \<Longrightarrow>
    count_loop h f (last (f # ys)) m = Some (m + of_nat (length ys))"
proof (induction ys arbitrary: f m)
  case Nil
  then show ?case by (simp add: count_loop.simps)
next
  case (Cons a ys)
  have "f \<noteq> last (a # ys)" using Cons.prems(2) last_in [of a ys] by auto
  then show ?case
    using Cons.prems Cons.IH [of a "m + 1"] by (subst count_loop.simps) (simp add: add.assoc)
qed

lemma moved_nodes_refines:
  assumes d: "linked h d ds" "hdrs h d = Some rd" "nodecount rd = of_nat (length ds - m)"
    and s: "linked h s ss" "hdrs h s = Some rs" "nodecount rs = of_nat (length ss + m)"
    and m: "m \<le> length ds" and "d \<noteq> s"
    and room: "length ds \<le> unat (maxcount rd)" "length ss + m \<le> unat (maxcount rs)" "maxcount rs \<noteq> 0"
      "maxcount rd \<noteq> 0"
  shows "\<exists>h'. moved_nodes h d s (of_nat m) = Some h' \<and> is_list h' d ds \<and> is_list h' s ss \<and>
    frame h h' {} {d, s}"
proof -
  define h' where "h' = upd_count d (of_nat (length ds)) (upd_count s (of_nat (length ss)) h)"
  have "m \<le> unat (maxcount rs)" "length ss \<le> unat (maxcount rs)" "length ds - m \<le> unat (maxcount rd)"
    using room by simp_all
  note u = this [THEN le_unat_uoi] room(1,2) [THEN le_unat_uoi]
  have w: "nodecount rs - of_nat m = of_nat (length ss)" "nodecount rd + of_nat m = of_nat (length ds)"
    using s(3) d(3) m by (simp_all add: of_nat_diff)
  have le: "of_nat (length ss) \<le> nodecount rs" "nodecount rd \<le> of_nat (length ds)" "of_nat m \<le> nodecount rs"
    unfolding s(3) d(3) word_le_nat_alt u using m by auto
  have "nxt h' = nxt h" "prv h' = prv h" by (simp_all add: h'_def)
  then have "linked h' d ds" "linked h' s ss" using d(1) s(1) linked_cong [of h' h] by blast+
  moreover have "hdrs h' d = Some (rd\<lparr>nodecount := of_nat (length ds)\<rparr>)"
    "hdrs h' s = Some (rs\<lparr>nodecount := of_nat (length ss)\<rparr>)"
    using d(2) s(2) \<open>d \<noteq> s\<close> by (simp_all add: h'_def)
  ultimately have L: "is_list h' d ds" "is_list h' s ss"
    using room by (auto intro: linkedI)
  have "moved_nodes h d s (of_nat m) = Some h'"
    using L le \<open>d \<noteq> s\<close> w d(2) s(2)
    by (simp add: moved_nodes_def set_count_live h'_def list_verify_refines)
  moreover have "frame h h' {} {d, s}" unfolding h'_def by (intro frame_upds frame_refl) auto
  ultimately show ?thesis using L by blast
qed

text \<open>
  The pointers after the tail \<open>f # ys\<close> has been cut from the ring of \<open>s\<close> and appended to the
  ring of \<open>d\<close>.
\<close>

lemma chain_upd3:
  "chain nx pv xs \<Longrightarrow> {a, b, c} \<inter> set (butlast xs) = {} \<Longrightarrow> {a', b', c'} \<inter> set (tl xs) = {} \<Longrightarrow>
    chain (nx(a := u, b := v, c := w)) (pv(a' := u', b' := v', c' := w')) xs"
  by simp

lemma linked_transfer:
  assumes s: "linked h s (xs @ f # ys)" and d: "linked h d ds"
    and dis: "set (d # ds) \<inter> set (s # xs @ f # ys) = {}"
    and p: "p = last (s # xs)" and z: "z = last (f # ys)" and e: "e = last (d # ds)"
    and nx: "nxt h' = (nxt h)(p := Some s, z := Some d, e := Some f)"
    and pv: "prv h' = (prv h)(s := Some p, f := Some e, d := Some z)"
  shows "linked h' s xs" "linked h' d (ds @ f # ys)" "chain (nxt h') (prv h') (f # ys)"
proof -
  have ds: "distinct (s # xs @ f # ys)" "distinct (d # ds)" "0 \<notin> set (s # xs @ f # ys)" "0 \<notin> set (d # ds)"
    using s d by (simp_all add: linked_def)
  have mem: "p \<in> set (s # xs)" "z \<in> set (f # ys)" "e \<in> set (d # ds)" unfolding p z e by (rule last_in)+
  have nb: "p \<notin> set (butlast (s # xs))" "z \<notin> set (butlast (f # ys))" "e \<notin> set (butlast (d # ds))"
    unfolding p z e using ds by (intro last_notin_butlast; simp)+
  have bl: "set (butlast as) \<subseteq> set as" for as :: "addr list" by (auto dest: in_set_butlastD)
  have c: "chain (nxt h) (prv h) (s # xs)" "chain (nxt h) (prv h) (f # ys)" "chain (nxt h) (prv h) (d # ds)"
    using s d chain_app [of "s # xs" "f # ys @ [s]" "nxt h" "prv h"]
      chain_app [of "f # ys" "[s]" "nxt h" "prv h"] chain_app [of "d # ds" "[d]" "nxt h" "prv h"]
    by (simp_all add: linked_def)
  have "{p, z, e} \<inter> set (butlast (s # xs)) = {}"
    using mem ds dis nb bl [of "s # xs"] by auto
  moreover have "{s, f, d} \<inter> set (tl (s # xs)) = {}" using ds dis by auto
  ultimately have 1: "chain (nxt h') (prv h') (s # xs)" unfolding nx pv by (rule chain_upd3 [OF c(1)])
  have "{p, z, e} \<inter> set (butlast (f # ys)) = {}"
    using mem ds dis nb bl [of "f # ys"] by auto
  moreover have "{s, f, d} \<inter> set (tl (f # ys)) = {}" using ds dis by auto
  ultimately show 2: "chain (nxt h') (prv h') (f # ys)" unfolding nx pv by (rule chain_upd3 [OF c(2)])
  have "{p, z, e} \<inter> set (butlast (d # ds)) = {}"
    using mem ds dis nb bl [of "d # ds"] by auto
  moreover have "{s, f, d} \<inter> set (tl (d # ds)) = {}" using ds dis by auto
  ultimately have 3: "chain (nxt h') (prv h') (d # ds)" unfolding nx pv by (rule chain_upd3 [OF c(3)])
  have ne: "p \<noteq> z" "p \<noteq> e" "z \<noteq> e" "s \<noteq> f" "s \<noteq> d" "f \<noteq> d" using mem ds dis by auto
  then have at: "nxt h' p = Some s" "nxt h' z = Some d" "nxt h' e = Some f"
    "prv h' s = Some p" "prv h' f = Some e" "prv h' d = Some z"
    by (simp_all only: nx pv fun_upd_apply if_True if_False simp_thms)
  have "chain (nxt h') (prv h') ((s # xs) @ [s])"
    using 1 at p by (subst chain_app) simp_all
  then show "linked h' s xs" using ds by (simp add: linked_def)
  have "chain (nxt h') (prv h') ((f # ys) @ [d])"
    using 2 at z by (subst chain_app) simp_all
  then have "chain (nxt h') (prv h') ((d # ds) @ ((f # ys) @ [d]))"
    using 3 at e by (subst chain_app) simp_all
  then show "linked h' d (ds @ f # ys)" using ds dis by (auto simp: linked_def)
qed

lemma list_transfer_refines [list_ops]:
  assumes s: "is_list h s (xs @ f # ys)" and d: "is_list h d ds"
    and dis: "set (d # ds) \<inter> set (s # xs @ f # ys) = {}"
    and room: "length ds + length (f # ys) \<le> list_max h d"
  shows "\<exists>h'. list_transfer h d s f = Some h' \<and> is_list h' s xs \<and> is_list h' d (ds @ f # ys) \<and>
    frame h h' (set (d # ds) \<union> set (s # xs @ f # ys)) {d, s}"
proof -
  let ?A = "set (d # ds) \<union> set (s # xs @ f # ys)"
  obtain rs where rs: "hdrs h s = Some rs" "nodecount rs = of_nat (length (xs @ f # ys))"
      "length (xs @ f # ys) \<le> unat (maxcount rs)" "maxcount rs \<noteq> 0"
    using is_listD(4) [OF s] by blast
  obtain rd where rd: "hdrs h d = Some rd" "nodecount rd = of_nat (length ds)" "maxcount rd \<noteq> 0"
    using is_listD(4) [OF d] by blast
  define p z e where "p = last (s # xs)" and "z = last (f # ys)" and "e = last (d # ds)"
  have mem: "p \<in> set (s # xs)" "z \<in> set (f # ys)" "e \<in> set (d # ds)"
    unfolding p_def z_def e_def by (rule last_in)+
  have live: "live h p" "live h z" "live h e" "live h s" "live h d" "live h f"
    using mem is_list_live [OF s] is_list_live [OF d] by auto
  have dist: "distinct (s # xs @ f # ys)" "f \<noteq> 0" using s by (auto simp: is_list_def)
  have ne: "s \<noteq> f" "s \<noteq> d" "f \<noteq> d" "d \<noteq> s" "f \<noteq> s" using dist dis by auto
  let ?h = "upd_prev d z (upd_next e f (upd_prev f e (upd_next z d (upd_next p s (upd_prev s p h)))))"
  have at: "prv h s = Some z" "prv h f = Some p" "prv h d = Some e"
    using is_list_last [OF s] is_list_prev [OF s] is_list_last [OF d] by (simp_all add: p_def z_def e_def)
  have nx: "nxt ?h = (nxt h)(p := Some s, z := Some d, e := Some f)"
    and pv: "prv ?h = (prv h)(s := Some p, f := Some e, d := Some z)"
    using live by simp_all
  note new = linked_transfer [OF is_list_linked [OF s] is_list_linked [OF d] dis p_def z_def e_def nx pv]
  have cnt: "count_loop ?h f z 1 = Some (of_nat (length (f # ys)))"
    using count_loop_chain [OF new(3), of 1] dist(1) by (simp add: z_def)
  have "\<exists>h'. moved_nodes ?h d s (of_nat (length (f # ys))) = Some h' \<and> is_list h' d (ds @ f # ys) \<and>
      is_list h' s xs \<and> frame ?h h' {} {d, s}"
    using new rs rd room ne
    by (intro moved_nodes_refines [where rd = rd and rs = rs]) (simp_all add: list_max_def)
  then obtain h' where h': "moved_nodes ?h d s (of_nat (length (f # ys))) = Some h'"
    "is_list h' d (ds @ f # ys)" "is_list h' s xs" "frame ?h h' {} {d, s}"
    by blast
  have "list_transfer h d s f = Some h'"
    using at live ne dist cnt h'(1)
    by (simp add: list_transfer_def list_contains_refines [OF s] set_next_live set_prev_live)
  moreover have "frame h ?h ?A {d, s}" using mem by (intro frame_upds frame_refl) auto
  then have "frame h h' ?A {d, s}" using frame_mono [OF h'(4)] by (blast intro: frame_trans)
  ultimately show ?thesis using h' by blast
qed

section \<open>Properties\<close>

text \<open>A heap with the list 2, 3, 4 at address 10, an empty list at 6 and a loose node 5.\<close>

definition sample_heap :: "int lheap" where
  "sample_heap =
     \<lparr>nodes = map_of [(10, \<lparr>lnext = 2, lprev = 4, ldata = 0\<rparr>), (2, \<lparr>lnext = 3, lprev = 10, ldata = 30\<rparr>),
        (3, \<lparr>lnext = 4, lprev = 2, ldata = 10\<rparr>), (4, \<lparr>lnext = 10, lprev = 3, ldata = 20\<rparr>),
        (5, \<lparr>lnext = 0, lprev = 0, ldata = 40\<rparr>), (6, \<lparr>lnext = 6, lprev = 6, ldata = 0\<rparr>)],
      hdrs = map_of [(10, \<lparr>nodecount = 3, maxcount = 8\<rparr>), (6, \<lparr>nodecount = 0, maxcount = 8\<rparr>)],
      pools = (\<lambda>_. None)\<rparr>"

lemma sample_lists: "is_list sample_heap 10 [2, 3, 4]" "is_list sample_heap 6 []" "loose sample_heap 5"
  by (simp_all add: sample_heap_def is_list_def loose_def nxt_def prv_def)

lemma sample_max: "list_max sample_heap 10 = 8" "list_max sample_heap 6 = 8"
  by (simp_all add: sample_heap_def list_max_def)

text \<open>C30. Inserting a loose node before any place of a list that has room succeeds, puts the node
  exactly there, keeps the list well formed for \<^verbatim>\<open>list_verify\<close> and all data as they were; taking
  the node out again succeeds, gives back the same sequence and leaves the node loose.\<close>

theorem list_insert_delete:
  assumes "is_list h l (xs @ ys)" and "loose h n" and "length (xs @ ys) < list_max h l"
  shows "\<exists>h' h''. list_ins_before h l n (hd (ys @ [l])) = Some h' \<and> is_list h' l (xs @ n # ys) \<and>
    list_verify h' l = Some True \<and> list_contains h' l n = Some True \<and>
    list_delete h' l n = Some (h'', n) \<and> is_list h'' l (xs @ ys) \<and> loose h'' n \<and> dat h'' = dat h"
proof -
  obtain h' where h': "list_ins_before h l n (hd (ys @ [l])) = Some h'" "is_list h' l (xs @ n # ys)"
    "frame h h' (set (l # n # xs @ ys)) {l}"
    using list_ins_before_refines [OF assms] by blast
  obtain h'' where "list_delete h' l n = Some (h'', n)" "is_list h'' l (xs @ ys)" "loose h'' n"
    "frame h' h'' (set (l # n # xs @ ys)) {l}"
    using list_delete_refines [OF h'(2)] by blast
  then show ?thesis
    using h' list_verify_refines [OF h'(2)] list_contains_refines [OF h'(2), of n]
    by (auto simp: frame_def)
qed

theorem list_insert_delete_witness:
  "\<exists>h'. list_ins_before sample_heap 10 5 3 = Some h' \<and> is_list h' 10 [2, 5, 3, 4]"
  using list_insert_delete [of sample_heap 10 "[2]" "[3, 4]" 5] sample_lists(1,3) by (auto simp: sample_max)

text \<open>The search and the walk of a list follow its sequence: \<^verbatim>\<open>list_find\<close> returns the first node
  whose data compare equal to the key and NULL when there is none, the first and last nodes
  are those of the sequence, the neighbours of a node are its neighbours in the sequence, and
  the count is its length.\<close>

theorem list_walk:
  assumes "is_list h l (xs @ a # ys)"
  shows "list_next h l a = Some (case ys of [] \<Rightarrow> 0 | b # _ \<Rightarrow> b) \<and>
    list_prev h l a = Some (if xs = [] then 0 else last xs) \<and>
    list_first h l = Some (hd (xs @ [a])) \<and> list_last h l = Some (last (a # ys)) \<and>
    list_count h l = Some (of_nat (length (xs @ a # ys))) \<and>
    list_find h l key compare =
      Some (case List.find (\<lambda>b. compare (node_data h b) key = 0) (xs @ a # ys) of None \<Rightarrow> 0 | Some b \<Rightarrow> b)"
  unfolding list_first_refines [OF assms] list_last_refines [OF assms] list_next_refines [OF assms]
    list_prev_refines [OF assms] list_count_refines [OF assms] list_find_refines [OF assms]
  by (cases xs) auto

theorem list_walk_witness: "list_next sample_heap 10 3 = Some 4 \<and> list_prev sample_heap 10 3 = Some 2"
  using list_walk [of sample_heap 10 "[2]" 3 "[4]" 0 "\<lambda>a b. a - b"] sample_lists(1) by simp

text \<open>Transferring the tail of one list to another that has room for it succeeds and moves
  exactly that tail, in order, to the end of the other; both lists stay well formed and no
  datum changes.\<close>

theorem list_transfer_tail:
  assumes "is_list h s (xs @ f # ys)" and "is_list h d ds"
    and "set (d # ds) \<inter> set (s # xs @ f # ys) = {}" and "length ds + length (f # ys) \<le> list_max h d"
  shows "\<exists>h'. list_transfer h d s f = Some h' \<and> is_list h' s xs \<and> is_list h' d (ds @ f # ys) \<and>
    list_verify h' s = Some True \<and> list_verify h' d = Some True \<and> dat h' = dat h"
  using list_transfer_refines [OF assms] list_verify_refines frame_dat by blast

theorem list_transfer_tail_witness:
  "\<exists>h'. list_transfer sample_heap 6 10 3 = Some h' \<and> is_list h' 6 [3, 4] \<and> is_list h' 10 [2]"
  using list_transfer_tail [of sample_heap 10 "[2]" 3 "[4]" 6 "[]"] sample_lists(1,2) by (auto simp: sample_max)

end
