(* ===== verification/KListSort.thy ===== *)
theory KListSort
  imports KListRefine "HOL-Library.Multiset"
begin

text \<open>
  \<open>list_is_sorted\<close>, \<open>list_merge\<close> and \<open>list_sort\<close> of \<^verbatim>\<open>src/list.c\<close>. The heap programs of \<open>KList\<close>
  refine \<open>ascending\<close>, \<open>mrg\<close> and \<open>msrt\<close> below, which act on sequences of nodes; these sort.
\<close>

section \<open>Merge sort on sequences\<close>

fun ascending :: "('d \<Rightarrow> 'd \<Rightarrow> int) \<Rightarrow> 'd list \<Rightarrow> bool" where
  "ascending cmp (x # y # zs) = (cmp x y \<le> 0 \<and> ascending cmp (y # zs))"
| "ascending cmp xs = True"

text \<open>On a tie the node of the second list goes first.\<close>

fun mrg :: "(addr \<Rightarrow> 'd) \<Rightarrow> ('d \<Rightarrow> 'd \<Rightarrow> int) \<Rightarrow> addr list \<Rightarrow> addr list \<Rightarrow> addr list" where
  "mrg f cmp (q # qs) (t # ts) =
     (if cmp (f q) (f t) \<ge> 0 then t # mrg f cmp (q # qs) ts else q # mrg f cmp qs (t # ts))"
| "mrg f cmp [] ts = ts"
| "mrg f cmp qs [] = qs"

fun msrt :: "(addr \<Rightarrow> 'd) \<Rightarrow> ('d \<Rightarrow> 'd \<Rightarrow> int) \<Rightarrow> addr list \<Rightarrow> addr list" where
  "msrt f cmp ns =
     (if length ns \<le> 1 then ns
      else mrg f cmp (msrt f cmp (take (length ns div 2) ns)) (msrt f cmp (drop (length ns div 2) ns)))"

declare msrt.simps [simp del]

lemma mrg_Nil2 [simp]: "mrg f cmp qs [] = qs"
  by (cases qs) auto

lemma mset_mrg [simp]: "mset (mrg f cmp qs ts) = mset qs + mset ts"
  by (induction f cmp qs ts rule: mrg.induct) auto

lemma set_mrg [simp]: "set (mrg f cmp qs ts) = set qs \<union> set ts"
  by (metis mset_mrg set_mset_mset set_mset_union)

lemma length_mrg [simp]: "length (mrg f cmp qs ts) = length qs + length ts"
  by (metis mset_mrg size_mset size_union)

lemma distinct_mrg: "distinct (mrg f cmp qs ts) \<longleftrightarrow> distinct (qs @ ts)"
  by (rule mset_eq_imp_distinct_iff) simp

lemma mset_msrt [simp]: "mset (msrt f cmp ns) = mset ns"
proof (induction f cmp ns rule: msrt.induct)
  case (1 f cmp ns)
  have "mset (take m ns) + mset (drop m ns) = mset ns" for m
    by (metis append_take_drop_id mset_append)
  then show ?case using 1 by (subst msrt.simps) simp
qed

lemma set_msrt [simp]: "set (msrt f cmp ns) = set ns"
  by (metis mset_msrt set_mset_mset)

lemma length_msrt [simp]: "length (msrt f cmp ns) = length ns"
  by (metis mset_msrt size_mset)

text \<open>A comparison function that orders the data: total and transitive.\<close>

definition ordering_cmp :: "('d \<Rightarrow> 'd \<Rightarrow> int) \<Rightarrow> bool" where
  "ordering_cmp cmp \<longleftrightarrow>
     (\<forall>x y. cmp x y \<ge> 0 \<longrightarrow> cmp y x \<le> 0) \<and> (\<forall>x y z. cmp x y \<le> 0 \<longrightarrow> cmp y z \<le> 0 \<longrightarrow> cmp x z \<le> 0)"

lemma ascending_Cons:
  "ascending cmp (x # xs) \<longleftrightarrow> ascending cmp xs \<and> (xs \<noteq> [] \<longrightarrow> cmp x (hd xs) \<le> 0)"
  by (cases xs) auto

lemma hd_mrg:
  "mrg f cmp qs ts \<noteq> [] \<Longrightarrow>
    qs \<noteq> [] \<and> hd (mrg f cmp qs ts) = hd qs \<or> ts \<noteq> [] \<and> hd (mrg f cmp qs ts) = hd ts"
  by (cases qs; cases ts) auto

lemma ascending_mrg:
  "ordering_cmp cmp \<Longrightarrow> ascending cmp (map f qs) \<Longrightarrow> ascending cmp (map f ts) \<Longrightarrow>
    ascending cmp (map f (mrg f cmp qs ts))"
proof (induction f cmp qs ts rule: mrg.induct)
  case (1 f cmp q qs t ts)
  show ?case
  proof (cases "cmp (f q) (f t) \<ge> 0")
    case True
    then have "cmp (f t) (f q) \<le> 0" using 1 by (simp add: ordering_cmp_def)
    then show ?thesis
      using 1 True hd_mrg [of f cmp "q # qs" ts] by (auto simp: ascending_Cons hd_map)
  next
    case False
    then show ?thesis
      using 1 hd_mrg [of f cmp qs "t # ts"] by (auto simp: ascending_Cons hd_map)
  qed
qed auto

lemma ascending_msrt: "ordering_cmp cmp \<Longrightarrow> ascending cmp (map f (msrt f cmp ns))"
proof (induction f cmp ns rule: msrt.induct)
  case (1 f cmp ns)
  have small: "length ns \<le> 1 \<Longrightarrow> ascending cmp (map f ns)" by (cases ns) auto
  show ?case using 1 small by (subst msrt.simps) (auto intro: ascending_mrg)
qed

lemma mrg_cong:
  "(\<And>a. a \<in> set qs \<union> set ts \<Longrightarrow> f a = g a) \<Longrightarrow> mrg f cmp qs ts = mrg g cmp qs ts"
  by (induction f cmp qs ts rule: mrg.induct) auto

lemma msrt_cong: "(\<And>a. a \<in> set ns \<Longrightarrow> f a = g a) \<Longrightarrow> msrt f cmp ns = msrt g cmp ns"
proof (induction f cmp ns rule: msrt.induct)
  case (1 f cmp ns)
  let ?m = "length ns div 2"
  have "msrt f cmp (take ?m ns) = msrt g cmp (take ?m ns)" "msrt f cmp (drop ?m ns) = msrt g cmp (drop ?m ns)"
    if "\<not> length ns \<le> 1"
    using 1 that by (auto dest: in_set_takeD in_set_dropD)
  moreover have "mrg f cmp as bs = mrg g cmp as bs" if "set as \<subseteq> set ns" "set bs \<subseteq> set ns" for as bs
    using that 1(3) by (intro mrg_cong) auto
  ultimately show ?case
    by (subst (1 2) msrt.simps) (simp add: set_take_subset set_drop_subset)
qed

section \<open>Refinement\<close>

lemma sorted_loop_refines:
  "is_list h l (xs @ a # ys) \<Longrightarrow>
    sorted_loop cmp h l a (hd (ys @ [l])) = Some (ascending cmp (map (node_data h) (a # ys)))"
proof (induction ys arbitrary: xs a)
  case Nil
  then show ?case by (simp add: sorted_loop.simps)
next
  case (Cons b ys)
  have L: "is_list h l ((xs @ [a]) @ b # ys)" using Cons.prems by simp
  have "b \<noteq> l" using is_list_distinct [OF L] by simp
  moreover have "dat h a = Some (node_data h a)" "dat h b = Some (node_data h b)"
    using is_list_dat [OF L] by auto
  ultimately show ?case
    using Cons.IH [OF L] is_list_next [OF L] by (subst sorted_loop.simps) (simp add: lnode_get_def)
qed

lemma list_is_sorted_refines [list_ops]:
  assumes L: "is_list h l ns"
  shows "list_is_sorted cmp h l = Some (ascending cmp (map (node_data h) ns))"
proof (cases ns)
  case Nil
  then show ?thesis using is_list_first [OF L] by (simp add: list_is_sorted_def sorted_loop.simps)
next
  case (Cons a ys)
  then have "is_list h l ([] @ a # ys)" using L by simp
  then show ?thesis
    using Cons sorted_loop_refines [of h l "[]" a ys cmp] is_list_first [OF L] is_list_next [of h l "[]" a ys]
      is_list_distinct [OF L]
    by (simp add: list_is_sorted_def)
qed

lemma node_data_cong: "dat h' = dat h \<Longrightarrow> node_data h' = node_data h"
  by (simp add: node_data_def fun_eq_iff)

text \<open>
  The loop stops with one of the two sequences used up. What is left of the other and what has
  been placed make up the merge.
\<close>

lemma merge_loop_refines:
  "is_list h d (ps @ qs) \<Longrightarrow> is_list h s ts \<Longrightarrow> set (d # ps @ qs) \<inter> set (s # ts) = {} \<Longrightarrow>
    length (ps @ qs) + length ts \<le> list_max h d \<Longrightarrow> node_data h = f \<Longrightarrow>
    \<exists>h' ps' qs' ts'. merge_loop cmp d s h (hd (qs @ [d])) (hd (ts @ [s])) =
        Some (h', hd (qs' @ [d]), hd (ts' @ [s])) \<and>
      is_list h' d (ps' @ qs') \<and> is_list h' s ts' \<and> (qs' = [] \<or> ts' = []) \<and>
      ps' @ qs' @ ts' = ps @ mrg f cmp qs ts \<and>
      frame h h' (set (d # s # ps @ qs @ ts)) {d, s}"
proof (induction f cmp qs ts arbitrary: h ps rule: mrg.induct)
  case (1 f cmp q qs t ts)
  note D = 1(3) and S = 1(4) and dis = 1(5) and room = 1(6) and f = 1(7)
  have ne: "q \<noteq> d" "t \<noteq> s" using is_list_distinct [OF D] is_list_distinct [OF S] by auto
  have data: "dat h q = Some (f q)" "dat h t = Some (f t)"
    using is_list_dat [OF D] is_list_dat [OF S] f by auto
  let ?A = "set (d # s # ps @ (q # qs) @ (t # ts))"
  show ?case
  proof (cases "cmp (f q) (f t) \<ge> 0")
    case True
    obtain h1 where h1: "list_delete h s t = Some (h1, t)" "is_list h1 s ts" "loose h1 t"
      "frame h h1 (set (s # t # ts)) {s}"
      using list_delete_refines [of h s "[]" t ts] S by auto
    have D1: "is_list h1 d (ps @ q # qs)" using is_list_frame [OF D h1(4)] dis by auto
    have "length (ps @ q # qs) < list_max h1 d" using room frame_max [OF h1(4)] by simp
    then obtain h2 where h2: "list_ins_before h1 d t q = Some h2" "is_list h2 d (ps @ t # q # qs)"
      "frame h1 h2 (set (d # t # ps @ q # qs)) {d}"
      using list_ins_before_refines [OF D1 h1(3)] by auto
    have S2: "is_list h2 s ts"
      using is_list_frame [OF h1(2) h2(3)] dis is_list_distinct [OF S] by auto
    have fr: "frame h h2 ?A {d, s}"
      by (rule frame_trans [OF frame_mono [OF h1(4)] frame_mono [OF h2(3)]]) auto
    have IH: "\<exists>h' ps' qs' ts'. merge_loop cmp d s h2 (hd ((q # qs) @ [d])) (hd (ts @ [s])) =
        Some (h', hd (qs' @ [d]), hd (ts' @ [s])) \<and> is_list h' d (ps' @ qs') \<and> is_list h' s ts' \<and>
        (qs' = [] \<or> ts' = []) \<and> ps' @ qs' @ ts' = (ps @ [t]) @ mrg f cmp (q # qs) ts \<and>
        frame h2 h' (set (d # s # (ps @ [t]) @ (q # qs) @ ts)) {d, s}"
      using h2(2) S2 dis room frame_max [OF fr] is_list_distinct [OF S]
      by (intro 1(1) True) (auto simp: f node_data_cong [OF frame_dat [OF fr]])
    then obtain h' ps' qs' ts' where
      "merge_loop cmp d s h2 (hd ((q # qs) @ [d])) (hd (ts @ [s])) = Some (h', hd (qs' @ [d]), hd (ts' @ [s]))"
      and res: "is_list h' d (ps' @ qs')" "is_list h' s ts'" "qs' = [] \<or> ts' = []"
        "ps' @ qs' @ ts' = (ps @ [t]) @ mrg f cmp (q # qs) ts"
        "frame h2 h' (set (d # s # (ps @ [t]) @ (q # qs) @ ts)) {d, s}"
      by blast
    then have "merge_loop cmp d s h (hd ((q # qs) @ [d])) (hd ((t # ts) @ [s])) =
        Some (h', hd (qs' @ [d]), hd (ts' @ [s]))"
      using True ne data h1(1) h2(1) is_list_next [of h s "[]" t ts] S
      by (subst merge_loop.simps) (simp add: lnode_get_def)
    moreover have "frame h h' ?A {d, s}"
      by (rule frame_trans [OF fr frame_mono [OF res(5)]]) auto
    ultimately show ?thesis using res(1-4) True by (intro exI [of _ h'] exI [of _ ps'] exI [of _ qs'] exI [of _ ts']) simp
  next
    case False
    have "\<exists>h' ps' qs' ts'. merge_loop cmp d s h (hd (qs @ [d])) (hd ((t # ts) @ [s])) =
        Some (h', hd (qs' @ [d]), hd (ts' @ [s])) \<and> is_list h' d (ps' @ qs') \<and> is_list h' s ts' \<and>
        (qs' = [] \<or> ts' = []) \<and> ps' @ qs' @ ts' = (ps @ [q]) @ mrg f cmp qs (t # ts) \<and>
        frame h h' (set (d # s # (ps @ [q]) @ qs @ (t # ts))) {d, s}"
      using D S dis room by (intro 1(2) False) (auto simp: f)
    moreover have "merge_loop cmp d s h (hd ((q # qs) @ [d])) (hd ((t # ts) @ [s])) =
        merge_loop cmp d s h (hd (qs @ [d])) (hd ((t # ts) @ [s]))"
      using False ne data is_list_next [of h d ps q qs] D
      by (subst merge_loop.simps) (simp add: lnode_get_def)
    ultimately show ?thesis using False by simp
  qed
next
  case (2 f cmp ts)
  then show ?case
    by (intro exI [of _ h] exI [of _ ps] exI [of _ "[]"] exI [of _ ts]) (simp add: merge_loop.simps)
next
  case (3 f cmp q qs)
  then show ?case
    by (intro exI [of _ h] exI [of _ ps] exI [of _ "q # qs"] exI [of _ "[]"]) (simp add: merge_loop.simps)
qed

lemma count_sum_no_overflow:
  assumes "m + n \<le> unat (mx :: ulong)"
  shows "(of_nat m :: ulong) \<le> of_nat m + of_nat n"
proof -
  have "m \<le> unat mx" using assms by simp
  from this [THEN le_unat_uoi] assms [THEN le_unat_uoi]
  have "unat (of_nat m :: ulong) \<le> unat (of_nat (m + n) :: ulong)" by simp
  then show ?thesis by (simp add: word_le_nat_alt)
qed

lemma list_merge_refines [list_ops]:
  assumes D: "is_list h d qs" and S: "is_list h s ts" and dis: "set (d # qs) \<inter> set (s # ts) = {}"
    and room: "length qs + length ts \<le> list_max h d"
    and sorted: "ascending cmp (map (node_data h) qs)" "ascending cmp (map (node_data h) ts)"
  shows "\<exists>h'. list_merge cmp h d s = Some h' \<and> is_list h' d (mrg (node_data h) cmp qs ts) \<and>
    is_list h' s [] \<and> frame h h' (set (d # s # qs @ ts)) {d, s}"
proof -
  let ?f = "node_data h" and ?A = "set (d # s # qs @ ts)"
  have "d \<noteq> s" using dis by auto
  obtain rd where "hdrs h d = Some rd" using is_listD(4) [OF D] by blast
  then have "length ts + length qs \<le> unat (maxcount rd)" using room by (simp add: list_max_def)
  then have cnt: "(of_nat (length ts) :: ulong) \<le> of_nat (length ts) + of_nat (length qs)"
    by (rule count_sum_no_overflow)
  obtain h1 ps' qs' ts' where loop: "merge_loop cmp d s h (hd (qs @ [d])) (hd (ts @ [s])) =
      Some (h1, hd (qs' @ [d]), hd (ts' @ [s]))"
    and res: "is_list h1 d (ps' @ qs')" "is_list h1 s ts'" "qs' = [] \<or> ts' = []"
      "ps' @ qs' @ ts' = mrg ?f cmp qs ts" "frame h h1 ?A {d, s}"
    using merge_loop_refines [of h d "[]" qs s ts ?f cmp] D S dis room by auto
  have eq: "list_merge cmp h d s =
      (if hd (qs' @ [d]) \<noteq> d then Some h1
       else if hd (ts' @ [s]) \<noteq> s then list_transfer h1 d s (hd (ts' @ [s])) else Some h1)"
    using \<open>d \<noteq> s\<close> cnt sorted loop D S
    by (simp add: list_merge_def list_count_refines list_is_sorted_refines is_list_first)
  have mem: "set (ps' @ qs' @ ts') = set qs \<union> set ts" using res(4) by simp
  show ?thesis
  proof (cases "ts' = []")
    case True
    then show ?thesis using eq res by auto
  next
    case False
    then have q': "qs' = []" using res(3) by simp
    then have D1: "is_list h1 d ps'" using res(1) by simp
    obtain a as where ts': "ts' = a # as" using False by (cases ts') auto
    then have "a \<noteq> s" using is_list_distinct [OF res(2)] by simp
    have "set (d # ps') \<inter> set (s # ts') = {}"
      using mem dis is_list_distinct [OF D1] is_list_distinct [OF res(2)] q' \<open>d \<noteq> s\<close>
        distinct_mrg [of ?f cmp qs ts] is_list_distinct [OF D] is_list_distinct [OF S]
      by (auto simp flip: res(4))
    moreover have "length ps' + length ts' \<le> list_max h1 d"
      using room arg_cong [OF res(4), of length] q' frame_max [OF res(5)] by simp
    ultimately obtain h' where h': "list_transfer h1 d s a = Some h'" "is_list h' s []"
      "is_list h' d (ps' @ a # as)" "frame h1 h' (set (d # ps') \<union> set (s # ts')) {d, s}"
      using list_transfer_refines [of h1 s "[]" a as d ps'] D1 res(2) ts' by auto
    have "frame h h' ?A {d, s}"
      by (rule frame_trans [OF res(5) frame_mono [OF h'(4)]]) (use mem q' in auto)
    then show ?thesis using eq h' res(4) ts' q' \<open>a \<noteq> s\<close> by (intro exI [of _ h']) simp
  qed
qed

lemma advance_refines:
  "is_list h l (xs @ ys) \<Longrightarrow> k < length ys \<Longrightarrow> advance h k (hd (ys @ [l])) = Some (ys ! k)"
proof (induction k arbitrary: xs ys)
  case 0
  then show ?case by (cases ys) auto
next
  case (Suc k)
  then obtain a ys' where ys: "ys = a # ys'" by (cases ys) auto
  then have "advance h k (hd (ys' @ [l])) = Some (ys' ! k)"
    using Suc.IH [of "xs @ [a]" ys'] Suc.prems by simp
  then show ?case using is_list_next [of h l xs a ys'] Suc.prems(1) ys by simp
qed

lemma alloc_list_views:
  "a \<noteq> sp \<Longrightarrow> nodes (alloc_list g sp h) a = nodes h a" "a \<noteq> sp \<Longrightarrow> hdrs (alloc_list g sp h) a = hdrs h a"
  "live (alloc_list g sp h) sp" "\<exists>r. hdrs (alloc_list g sp h) sp = Some r"
  "pools (alloc_list g sp h) = pools h"
  by (auto simp: alloc_list_def live_def)

lemma free_list_views:
  "a \<noteq> sp \<Longrightarrow> nodes (free_list sp h) a = nodes h a" "a \<noteq> sp \<Longrightarrow> hdrs (free_list sp h) a = hdrs h a"
  by (auto simp: free_list_def)

text \<open>What a sort leaves alone: everything below the stack pointer that is not of the list, and all data.\<close>

definition sort_frame :: "'d lheap \<Rightarrow> 'd lheap \<Rightarrow> addr set \<Rightarrow> addr \<Rightarrow> bool" where
  "sort_frame h h' A sp \<longleftrightarrow>
     (\<forall>a < sp. a \<notin> A \<longrightarrow> nodes h' a = nodes h a \<and> hdrs h' a = hdrs h a) \<and>
     (\<forall>a < sp. dat h' a = dat h a \<and> list_max h' a = list_max h a)"

lemma sort_frame_at:
  assumes "sort_frame h h1 A sp" "a < sp"
  shows "a \<notin> A \<Longrightarrow> nodes h1 a = nodes h a" "a \<notin> A \<Longrightarrow> hdrs h1 a = hdrs h a" "dat h1 a = dat h a"
    "list_max h1 a = list_max h a"
  using assms unfolding sort_frame_def by blast+

lemma sort_frame_trans:
  assumes "sort_frame h h1 A sp" "sort_frame h1 h2 A sp"
  shows "sort_frame h h2 A sp"
proof (unfold sort_frame_def, intro conjI allI impI)
  fix a assume lt: "a < sp"
  note at1 = sort_frame_at [OF assms(1) lt] and at2 = sort_frame_at [OF assms(2) lt]
  show "dat h2 a = dat h a" by (rule trans [OF at2(3) at1(3)])
  show "list_max h2 a = list_max h a" by (rule trans [OF at2(4) at1(4)])
  assume A: "a \<notin> A"
  show "nodes h2 a = nodes h a" by (rule trans [OF at2(1) [OF A] at1(1) [OF A]])
  show "hdrs h2 a = hdrs h a" by (rule trans [OF at2(2) [OF A] at1(2) [OF A]])
qed

lemma sort_frame_mono:
  assumes "sort_frame h h1 A sp'" "A \<inter> {..<sp} \<subseteq> B" "sp \<le> sp'"
  shows "sort_frame h h1 B sp"
proof (unfold sort_frame_def, intro conjI allI impI)
  fix a assume "a < sp"
  then have lt: "a < sp'" using assms(3) by simp
  note at = sort_frame_at [OF assms(1) lt]
  show "dat h1 a = dat h a" "list_max h1 a = list_max h a" by (rule at)+
  assume "a \<notin> B"
  then have A: "a \<notin> A" using assms(2) \<open>a < sp\<close> by blast
  show "nodes h1 a = nodes h a" "hdrs h1 a = hdrs h a" by (rule at(1) [OF A], rule at(2) [OF A])
qed

lemma frame_sort_frame: "frame h h1 A B \<Longrightarrow> sort_frame h h1 (A \<union> B) sp"
  by (simp add: sort_frame_def frame_def)

lemma is_list_sort_frame:
  "is_list h l ns \<Longrightarrow> sort_frame h h1 A sp \<Longrightarrow> \<forall>a\<in>set (l # ns). a < sp \<and> a \<notin> A \<Longrightarrow> is_list h1 l ns"
  using is_list_cong [of l ns h1 h] unfolding sort_frame_def by (metis list.set_intros(1))

lemma sort_frame_data: "sort_frame h h1 A sp \<Longrightarrow> a < sp \<Longrightarrow> node_data h1 a = node_data h a"
  by (simp add: sort_frame_def node_data_def)

lemma same_below_sort_frame:
  assumes "\<And>a. a < sp \<Longrightarrow> nodes h1 a = nodes h a \<and> hdrs h1 a = hdrs h a"
  shows "sort_frame h h1 A sp"
proof (unfold sort_frame_def, intro conjI allI impI)
  fix a assume "a < sp"
  note at = assms [OF this, THEN conjunct1] assms [OF this, THEN conjunct2]
  show "nodes h1 a = nodes h a" "hdrs h1 a = hdrs h a" by (rule at)+
  show "dat h1 a = dat h a" by (rule views_nodes(3) [OF at(1)])
  show "list_max h1 a = list_max h a" by (simp add: list_max_def at(2))
qed

lemma half_word:
  assumes "n \<le> unat (mx :: ulong)"
  shows "unat (of_nat n div 2 :: ulong) = n div 2" "of_nat n - of_nat n div 2 = (of_nat (n - n div 2) :: ulong)"
    "(of_nat n :: ulong) > 1 \<longleftrightarrow> n > 1"
proof -
  note u = le_unat_uoi [OF assms]
  show 1: "unat (of_nat n div 2 :: ulong) = n div 2" using u by (simp add: unat_div)
  have "(of_nat n div 2 :: ulong) = of_nat (unat (of_nat n div 2 :: ulong))" by simp
  then have "(of_nat n div 2 :: ulong) = of_nat (n div 2)" by (simp only: 1)
  then show "of_nat n - of_nat n div 2 = (of_nat (n - n div 2) :: ulong)" by (simp add: of_nat_diff)
  show "(of_nat n :: ulong) > 1 \<longleftrightarrow> n > 1" using u by (simp add: word_less_nat_alt)
qed

text \<open>
  One level of the recursion after the list has been cut in two: the two halves are sorted by
  assumption, merged, and the local list is dropped.
\<close>

lemma sort_level:
  assumes L: "is_list h l xs" and E: "is_list h sp ys" and below: "\<forall>a\<in>set (l # xs @ ys). a < sp"
    and dis: "set (l # xs) \<inter> set ys = {}" and room: "length xs + length ys \<le> list_max h l"
    and ord: "ordering_cmp cmp"
    and IH1: "\<And>h. is_list h l xs \<Longrightarrow> \<exists>h'. list_sort g cmp (sp + 1) h l = Some h' \<and>
        is_list h' l (msrt (node_data h) cmp xs) \<and> sort_frame h h' (set (l # xs)) (sp + 1)"
    and IH2: "\<And>h. is_list h sp ys \<Longrightarrow> \<exists>h'. list_sort g cmp (sp + 1) h sp = Some h' \<and>
        is_list h' sp (msrt (node_data h) cmp ys) \<and> sort_frame h h' (set (sp # ys)) (sp + 1)"
  shows "\<exists>h1 h2 h3. list_sort g cmp (sp + 1) h l = Some h1 \<and> list_sort g cmp (sp + 1) h1 sp = Some h2 \<and>
    list_merge cmp h2 l sp = Some h3 \<and>
    is_list (free_list sp h3) l (mrg (node_data h) cmp (msrt (node_data h) cmp xs) (msrt (node_data h) cmp ys)) \<and>
    sort_frame h (free_list sp h3) (set (l # xs @ ys)) sp"
proof -
  let ?f = "node_data h" and ?A = "set (l # xs @ ys)"
  let ?m = "mrg ?f cmp (msrt ?f cmp xs) (msrt ?f cmp ys)"
  have lt: "l < sp" "\<And>a. a \<in> set xs \<Longrightarrow> a < sp" "\<And>a. a \<in> set ys \<Longrightarrow> a < sp"
    using below by auto
  have over: "\<forall>a\<in>set (sp # ys). a < sp + 1 \<and> a \<notin> set (l # xs)"
  proof
    fix a assume "a \<in> set (sp # ys)"
    then show "a < sp + 1 \<and> a \<notin> set (l # xs)" using lt(3) [of a] lt(1) lt(2) [of sp] dis by auto
  qed
  have over': "\<forall>a\<in>set (l # msrt ?f cmp xs). a < sp + 1 \<and> a \<notin> set (sp # ys)"
  proof
    fix a assume "a \<in> set (l # msrt ?f cmp xs)"
    then show "a < sp + 1 \<and> a \<notin> set (sp # ys)" using lt(2) [of a] lt(1) lt(2) [of sp] dis by auto
  qed
  obtain h1 where h1: "list_sort g cmp (sp + 1) h l = Some h1" "is_list h1 l (msrt ?f cmp xs)"
    "sort_frame h h1 (set (l # xs)) (sp + 1)" using IH1 [OF L] by blast
  have E1: "is_list h1 sp ys" by (rule is_list_sort_frame [OF E h1(3) over])
  have f1: "msrt (node_data h1) cmp ys = msrt ?f cmp ys"
    by (intro msrt_cong sort_frame_data [OF h1(3)]) (simp add: lt(3) less_SucI)
  obtain h2 where h2: "list_sort g cmp (sp + 1) h1 sp = Some h2" "is_list h2 sp (msrt ?f cmp ys)"
    "sort_frame h1 h2 (set (sp # ys)) (sp + 1)" using IH2 [OF E1] f1 by auto
  have L2: "is_list h2 l (msrt ?f cmp xs)"
    by (rule is_list_sort_frame [OF h1(2) h2(3) over'])
  have fr2: "sort_frame h h2 ?A sp"
    by (rule sort_frame_trans [OF sort_frame_mono [OF h1(3)] sort_frame_mono [OF h2(3)]]) auto
  have data: "node_data h2 a = ?f a" if "a \<in> ?A" for a
    using sort_frame_data [OF fr2] below that by blast
  then have maps: "map (node_data h2) (msrt ?f cmp xs) = map ?f (msrt ?f cmp xs)"
    "map (node_data h2) (msrt ?f cmp ys) = map ?f (msrt ?f cmp ys)" by auto
  have "mrg (node_data h2) cmp (msrt ?f cmp xs) (msrt ?f cmp ys) = ?m"
    using data by (intro mrg_cong) auto
  moreover have "list_max h2 l = list_max h l" using fr2 below by (auto simp: sort_frame_def)
  moreover have "set (l # msrt ?f cmp xs) \<inter> set (sp # msrt ?f cmp ys) = {}" using dis below by auto
  ultimately obtain h3 where h3: "list_merge cmp h2 l sp = Some h3" "is_list h3 l ?m"
    "frame h2 h3 (set (l # sp # msrt ?f cmp xs @ msrt ?f cmp ys)) {l, sp}"
    using list_merge_refines [OF L2 h2(2), of cmp] room ord ascending_msrt [of cmp] maps by auto
  have "a \<noteq> sp" if "a \<in> set (l # ?m)" for a
    using lt that by auto
  then have drop: "is_list (free_list sp h3) l ?m"
    using h3(2) by (subst is_list_cong [of _ _ _ h3]) (simp_all add: free_list_views)
  have "sort_frame h2 h3 ?A sp"
    by (rule sort_frame_mono [OF frame_sort_frame [OF h3(3), of sp]]) auto
  moreover have "sort_frame h3 (free_list sp h3) ?A sp"
    by (rule same_below_sort_frame) (simp add: free_list_views)
  ultimately have "sort_frame h (free_list sp h3) ?A sp" using fr2 by (blast intro: sort_frame_trans)
  then show ?thesis using h1(1) h2(1) h3(1) drop by blast
qed

text \<open>The list cut in two, its second half in the local list.\<close>

lemma sort_cut:
  assumes L: "is_list h l ns" and below: "\<And>a. a \<in> set (l # ns) \<Longrightarrow> a < sp"
    and m: "m = length ns div 2" "1 < length ns"
  shows "\<exists>h2 h3. list_init (alloc_list g sp h) sp (of_nat (length ns - m)) = Some h2 \<and>
    advance h2 m (hd (ns @ [l])) = Some (ns ! m) \<and> list_transfer h2 sp l (ns ! m) = Some h3 \<and>
    is_list h3 l (take m ns) \<and> is_list h3 sp (drop m ns) \<and> sort_frame h h3 (set (l # ns)) sp"
proof -
  let ?h1 = "alloc_list g sp h" and ?k = "of_nat (length ns - m) :: ulong"
  have m': "m < length ns" "0 < m" using m by auto
  obtain f ys where ys: "drop m ns = f # ys" by (metis m'(1) Cons_nth_drop_Suc)
  have f: "ns ! m = f" using ys by (simp add: nth_via_drop)
  have ns: "ns = take m ns @ f # ys" by (simp flip: ys)
  have ne: "a \<noteq> sp" if "a \<in> set (l # ns)" for a using below [OF that] by simp
  have L1: "is_list ?h1 l ns"
    using L ne by (subst is_list_cong [of _ _ _ h]) (simp_all add: alloc_list_views)
  obtain r where hdr: "hdrs ?h1 sp = Some r" using alloc_list_views(4) [of g sp h] by blast
  obtain rl where "length ns \<le> unat (maxcount (rl :: list_hdr))" using is_listD(4) [OF L] by blast
  then have "length ns - m \<le> unat (maxcount rl)" by simp
  then have half: "unat ?k = length ns - m" by (rule le_unat_uoi)
  have "?k \<noteq> 0"
  proof
    assume "?k = 0"
    then have "unat ?k = 0" by (simp only: unat_0)
    then show False using half m' by linarith
  qed
  moreover have "sp \<noteq> 0" using below [of l] by simp
  ultimately obtain h2 where h2: "list_init ?h1 sp ?k = Some h2" "is_list h2 sp []"
    "list_max h2 sp = length ns - m" "\<And>a. a \<noteq> sp \<Longrightarrow> nodes h2 a = nodes ?h1 a \<and> hdrs h2 a = hdrs ?h1 a"
    using list_init_refines [OF alloc_list_views(3) hdr, of ?k] half by auto
  have L2: "is_list h2 l ns"
    using L1 ne h2(4) by (subst is_list_cong [of _ _ _ ?h1]) simp_all
  have fr2: "sort_frame h h2 (set (l # ns)) sp"
    by (rule same_below_sort_frame) (simp add: h2(4) alloc_list_views)
  have "set (sp # []) \<inter> set (l # ns) = {}" using ne by auto
  moreover have "length (f # ys) = length ns - m" by (simp flip: ys)
  ultimately obtain h3 where h3: "list_transfer h2 sp l f = Some h3" "is_list h3 l (take m ns)"
    "is_list h3 sp (f # ys)" "frame h2 h3 (set (sp # []) \<union> set (l # take m ns @ f # ys)) {sp, l}"
    using list_transfer_refines [of h2 l "take m ns" f ys sp "[]"] L2 h2(2,3) by (auto simp flip: ns)
  have "sort_frame h h3 (set (l # ns)) sp"
    by (rule sort_frame_trans [OF fr2 sort_frame_mono [OF frame_sort_frame [OF h3(4), of sp]]])
      (auto simp flip: ns)
  moreover have "advance h2 m (hd (ns @ [l])) = Some f"
    using advance_refines [of h2 l "[]" ns m] L2 m'(1) f by simp
  ultimately show ?thesis using h2(1) h3 f ys by auto
qed

lemma list_sort_refines [list_ops]:
  "is_list h l ns \<Longrightarrow> (\<And>a. a \<in> set (l # ns) \<Longrightarrow> a < sp) \<Longrightarrow> ordering_cmp cmp \<Longrightarrow>
    \<exists>h'. list_sort g cmp sp h l = Some h' \<and> is_list h' l (msrt (node_data h) cmp ns) \<and>
      sort_frame h h' (set (l # ns)) sp"
proof (induction "length ns" arbitrary: h l ns sp rule: less_induct)
  case less
  note L = less.prems(1) and below = less.prems(2) and ord = less.prems(3)
  obtain r :: list_hdr where max: "length ns \<le> unat (maxcount r)"
    using is_listD(4) [OF L] by blast
  note word = half_word [OF max]
  show ?case
  proof (cases "length ns \<le> 1")
    case True
    then have "ascending cmp (map (node_data h) ns)" by (cases ns) auto
    with True have "list_sort g cmp sp h l = Some h"
      using word(3) by (subst list_sort.simps)
        (simp add: list_count_refines [OF L] list_is_sorted_refines [OF L])
    moreover have "msrt (node_data h) cmp ns = ns" using True by (subst msrt.simps) simp
    ultimately show ?thesis using L by (simp add: sort_frame_def)
  next
    case False
    define m where "m = length ns div 2"
    define xs ys where "xs = take m ns" and "ys = drop m ns"
    have m: "1 < length ns" "m < length ns" "0 < m" using False by (auto simp: m_def)
    have ns: "ns = xs @ ys" by (simp add: xs_def ys_def)
    have len: "length xs < length ns" "length ys < length ns" "length xs + length ys = length ns"
      using m by (auto simp: xs_def ys_def)
    obtain h2 h3 where cut: "list_init (alloc_list g sp h) sp (of_nat (length ns - m)) = Some h2"
      "advance h2 m (hd (ns @ [l])) = Some (ns ! m)" "list_transfer h2 sp l (ns ! m) = Some h3"
      and h3: "is_list h3 l xs" "is_list h3 sp ys" "sort_frame h h3 (set (l # ns)) sp"
      using sort_cut [OF L below m_def m(1), of g] unfolding xs_def ys_def by blast
    have data: "node_data h3 a = node_data h a" if "a \<in> set ns" for a
      using sort_frame_data [OF h3(3)] below that by simp
    have max3: "length xs + length ys \<le> list_max h3 l"
      using sort_frame_at(4) [OF h3(3) below] list_max_pos [OF L] len(3) by simp
    have IH: "\<exists>h'. list_sort g cmp (sp + 1) k l' = Some h' \<and> is_list h' l' (msrt (node_data k) cmp zs) \<and>
        sort_frame k h' (set (l' # zs)) (sp + 1)"
      if "is_list k l' zs" "length zs < length ns" "l' \<le> sp" "set zs \<subseteq> set ns" for k l' zs
    proof (rule less.hyps [OF that(2,1) _ ord])
      fix a assume "a \<in> set (l' # zs)"
      then have "a \<le> sp" using that(3,4) below [of a] by auto
      then show "a < sp + 1" by simp
    qed
    have sub: "set xs \<subseteq> set ns" "set ys \<subseteq> set ns" by (auto simp: ns)
    have "l < sp" using below by simp
    have below': "\<forall>a\<in>set (l # xs @ ys). a < sp" using below ns by blast
    have dis: "set (l # xs) \<inter> set ys = {}" using is_list_distinct [OF L] ns by auto
    obtain h4 h5 h6 where run: "list_sort g cmp (sp + 1) h3 l = Some h4" "list_sort g cmp (sp + 1) h4 sp = Some h5"
      "list_merge cmp h5 l sp = Some h6"
      and res: "is_list (free_list sp h6) l
          (mrg (node_data h3) cmp (msrt (node_data h3) cmp xs) (msrt (node_data h3) cmp ys))"
        "sort_frame h3 (free_list sp h6) (set (l # xs @ ys)) sp"
      using sort_level [OF h3(1,2) below' dis max3 ord IH [OF _ len(1) _ sub(1)] IH [OF _ len(2) _ sub(2)]]
        \<open>l < sp\<close> by auto
    have "mrg (node_data h3) cmp (msrt (node_data h3) cmp xs) (msrt (node_data h3) cmp ys) =
        msrt (node_data h3) cmp ns"
      using False by (subst (3) msrt.simps) (simp add: xs_def ys_def m_def)
    also have "\<dots> = msrt (node_data h) cmp ns" by (rule msrt_cong) (rule data)
    finally have res': "is_list (free_list sp h6) l (msrt (node_data h) cmp ns)" using res(1) by simp
    have fr: "sort_frame h (free_list sp h6) (set (l # ns)) sp"
      using sort_frame_trans [OF h3(3)] res(2) ns by simp
    have maps: "map (node_data (free_list sp h6)) (msrt (node_data h) cmp ns) =
        map (node_data h) (msrt (node_data h) cmp ns)"
      using sort_frame_data [OF fr below] by simp
    have "ascending cmp (map (node_data (free_list sp h6)) (msrt (node_data h) cmp ns))"
      unfolding maps by (rule ascending_msrt [OF ord])
    then have "list_sort g cmp sp h l = Some (free_list sp h6)"
      using m(1) word cut run list_is_sorted_refines [OF res', of cmp]
      by (subst list_sort.simps) (simp add: list_count_refines [OF L] is_list_first [OF L] Let_def flip: m_def)
    then show ?thesis using res' fr by blast
  qed
qed

section \<open>Properties\<close>

text \<open>C29. Sorting a list of any length with a comparison that orders the data succeeds: the list then
  holds the same nodes with the same data, each not greater than the next, and what is
  outside the list and below the stack is untouched.\<close>

theorem list_sort_sorts:
  assumes "is_list h l ns" and "\<And>a. a \<in> set (l # ns) \<Longrightarrow> a < sp" and "ordering_cmp cmp"
  shows "\<exists>h' ns'. list_sort g cmp sp h l = Some h' \<and> is_list h' l ns' \<and> mset ns' = mset ns \<and>
    ascending cmp (map (node_data h') ns') \<and> list_is_sorted cmp h' l = Some True \<and>
    (\<forall>a < sp. dat h' a = dat h a \<and> (a \<notin> set (l # ns) \<longrightarrow> nodes h' a = nodes h a \<and> hdrs h' a = hdrs h a))"
proof -
  obtain h' where h': "list_sort g cmp sp h l = Some h'" "is_list h' l (msrt (node_data h) cmp ns)"
    "sort_frame h h' (set (l # ns)) sp"
    using list_sort_refines [OF assms] by blast
  have "map (node_data h') (msrt (node_data h) cmp ns) = map (node_data h) (msrt (node_data h) cmp ns)"
    using sort_frame_data [OF h'(3)] assms(2) mset_eq_setD [OF mset_msrt] by auto
  then have "ascending cmp (map (node_data h') (msrt (node_data h) cmp ns))"
    using ascending_msrt [OF assms(3)] by metis
  then show ?thesis
    using h' list_is_sorted_refines [OF h'(2), of cmp] by (auto simp: sort_frame_def)
qed

theorem list_sort_sorts_witness:
  "\<exists>h' ns'. list_sort 0 (\<lambda>x y. x - y) 17 sample_heap 10 = Some h' \<and> is_list h' 10 ns' \<and> mset ns' = {#2, 3, 4#} \<and>
    ascending (\<lambda>x y. x - y) (map (node_data h') ns')"
  using list_sort_sorts [of sample_heap 10 "[2, 3, 4]" 17 "\<lambda>x y. x - y" 0] sample_lists(1)
  by (force simp: ordering_cmp_def)

end
