(* ===== verification/Timer.thy ===== *)
theory Timer
  imports Misc KList "HOL-Library.Multiset" "HOL-Library.Monad_Syntax"
begin

text \<open>
  \<^verbatim>\<open>src/timer.c\<close>: the list of timers in the order of their next run, the walk that puts a timer in
  its place, the wake-up of the event library and the callback that runs one timer. A timer
  carries the address of its list node. The calendar of the C library is the pair of functions \<open>localtime\<close> and
  \<open>mktime\<close> on broken down times; the clock stands still while one call is handled. Following a null
  node, or one that is not in the list, is \<open>None\<close>.
\<close>

section \<open>Timers\<close>

datatype timer_type = TIMER_TYPE_INTERVAL | TIMER_TYPE_DAILY | TIMER_TYPE_WEEKLY | TIMER_TYPE_MONTHLY | TIMER_TYPE_COUNTDOWN

record timer =
  tm_node :: addr
  tm_module :: addr
  tm_type :: timer_type
  tm_name :: string
  tm_interval :: int
  tm_lastrun :: int
  tm_handler :: addr
  tm_userptr :: addr
  tm_nextrun :: int

text \<open>\<open>evtimer\<close> is the wake-up the event library has pending, in seconds.\<close>

record timers =
  timerlist :: "timer list"
  evtimer :: "int option"
  next_node :: addr

record broken_down =
  bd_sec :: int
  bd_min :: int
  bd_hour :: int
  bd_mday :: int
  bd_mon :: int
  bd_year :: int
  bd_isdst :: int

record clock =
  clock_now :: int
  c_localtime :: "int \<Rightarrow> broken_down"
  c_mktime :: "broken_down \<Rightarrow> int"

definition TIMER_TABLE_SIZE :: nat where "TIMER_TABLE_SIZE = 300"

definition MAX_MOD_NAME :: nat where "MAX_MOD_NAME = 32"

section \<open>The order of the list\<close>

text \<open>When a timer runs next: the day, week, month or interval after its last run.\<close>

definition next_run :: "clock \<Rightarrow> timer \<Rightarrow> int" where
  "next_run K t = c_mktime K (let bd = c_localtime K (tm_lastrun t) in
     case tm_type t of
       TIMER_TYPE_DAILY \<Rightarrow> bd\<lparr>bd_hour := 0, bd_min := 0, bd_sec := 0, bd_mday := bd_mday bd + 1\<rparr>
     | TIMER_TYPE_WEEKLY \<Rightarrow> bd\<lparr>bd_mday := bd_mday bd + 7\<rparr>
     | TIMER_TYPE_MONTHLY \<Rightarrow> bd\<lparr>bd_mon := bd_mon bd + 1\<rparr>
     | TIMER_TYPE_INTERVAL \<Rightarrow> bd\<lparr>bd_sec := bd_sec bd + tm_interval t\<rparr>
     | TIMER_TYPE_COUNTDOWN \<Rightarrow> bd\<lparr>bd_sec := bd_sec bd + tm_interval t\<rparr>)"

lemma next_run_ignores [simp]:
  "next_run K (t\<lparr>tm_nextrun := x\<rparr>) = next_run K t" "next_run K (t\<lparr>tm_node := a\<rparr>) = next_run K t"
  by (cases "tm_type t"; simp add: next_run_def Let_def)+

text \<open>The walk with the current and the next node. It starts by following the first node, which an empty list lacks.\<close>

fun place :: "timer \<Rightarrow> timer list \<Rightarrow> timer list option" where
  "place t [] = None"
| "place t [c] = Some (if tm_nextrun c < tm_nextrun t then [c, t] else [t, c])"
| "place t (c # d # ts) =
     (if tm_nextrun c < tm_nextrun t
      then if tm_nextrun d < tm_nextrun t then map_option ((#) c) (place t (d # ts)) else Some (c # t # d # ts)
      else Some (t # c # d # ts))"

definition NextSchedule :: "clock \<Rightarrow> timers \<Rightarrow> timers" where
  "NextSchedule K T =
     (case timerlist T of
        [] \<Rightarrow> T
      | c # _ \<Rightarrow> T\<lparr>evtimer := Some (let s = tm_nextrun c - clock_now K in if s \<le> 0 then 10 else s)\<rparr>)"

text \<open>\<open>given\<close>: the timer is in the list, at its node, and moves; otherwise it gets a node.\<close>

definition TimerCalcNextRun :: "clock \<Rightarrow> timer \<Rightarrow> bool \<Rightarrow> timers \<Rightarrow> timers option" where
  "TimerCalcNextRun K t given T =
     (let t = t\<lparr>tm_nextrun := next_run K t\<rparr> in
      if timerlist T = []
      then Some (T\<lparr>timerlist := [t\<lparr>tm_node := next_node T\<rparr>], next_node := next_node T + 1\<rparr>)
      else do {
        (t, T) \<leftarrow>
          (if given
           then do {
             nassert (\<exists>c\<in>set (timerlist T). tm_node c = tm_node t);
             Some (t, T\<lparr>timerlist := remove_first (\<lambda>c. tm_node c = tm_node t) (timerlist T)\<rparr>) }
           else Some (t\<lparr>tm_node := next_node T\<rparr>, T\<lparr>next_node := next_node T + 1\<rparr>));
        ts \<leftarrow> place t (timerlist T);
        Some (NextSchedule K (T\<lparr>timerlist := ts\<rparr>)) })"

section \<open>Adding, finding, deleting\<close>

definition FindTimer :: "string \<Rightarrow> timers \<Rightarrow> timer option" where
  "FindTimer name T = List.find (\<lambda>t. irc_eq (tm_name t) name) (timerlist T)"

definition new_timer :: "string \<Rightarrow> timers \<Rightarrow> timer option" where
  "new_timer name T =
     (if length (timerlist T) = TIMER_TABLE_SIZE then None
      else Some \<lparr>tm_node = 0, tm_module = 0, tm_type = TIMER_TYPE_INTERVAL, tm_name = strlcpy_str MAX_MOD_NAME name,
             tm_interval = 0, tm_lastrun = 0, tm_handler = 0, tm_userptr = 0, tm_nextrun = 0\<rparr>)"

definition AddTimer ::
  "clock \<Rightarrow> addr \<Rightarrow> timer_type \<Rightarrow> addr \<Rightarrow> string \<Rightarrow> int \<Rightarrow> addr \<Rightarrow> timers \<Rightarrow> (int \<times> timers) option" where
  "AddTimer K module ty handler name interval userptr T =
     (if handler = 0 then Some (NS_FAILURE, T)
      else if FindTimer name T \<noteq> None then Some (NS_FAILURE, T)
      else case new_timer name T of
             None \<Rightarrow> Some (NS_FAILURE, T)
           | Some t \<Rightarrow> do {
               T \<leftarrow> TimerCalcNextRun K (t\<lparr>tm_type := ty, tm_interval := interval, tm_lastrun := clock_now K,
                       tm_module := module, tm_handler := handler, tm_userptr := userptr\<rparr>) False T;
               Some (NS_SUCCESS, T) })"

definition DelTimer :: "string \<Rightarrow> timers \<Rightarrow> int \<times> timers" where
  "DelTimer name T =
     (if FindTimer name T = None then (NS_FAILURE, T)
      else (NS_SUCCESS, T\<lparr>timerlist := remove_first (\<lambda>t. irc_eq (tm_name t) name) (timerlist T)\<rparr>))"

definition del_timers :: "addr \<Rightarrow> timers \<Rightarrow> int \<times> timers" where
  "del_timers module T = (NS_SUCCESS, T\<lparr>timerlist := filter (\<lambda>t. tm_module t \<noteq> module) (timerlist T)\<rparr>)"

definition SetTimerInterval :: "clock \<Rightarrow> string \<Rightarrow> int \<Rightarrow> timers \<Rightarrow> (int \<times> timers) option" where
  "SetTimerInterval K name interval T =
     (case FindTimer name T of
        None \<Rightarrow> Some (NS_FAILURE, T)
      | Some t \<Rightarrow> do {
          T \<leftarrow> TimerCalcNextRun K (t\<lparr>tm_interval := interval\<rparr>) True T;
          Some (NS_SUCCESS, T) })"

section \<open>Running\<close>

text \<open>The cast \<^verbatim>\<open>( int )\<close> of a time.\<close>

definition int_cast :: "int \<Rightarrow> int" where
  "int_cast x = sint (word_of_int x :: 32 word)"

text \<open>
  The callback of the event library: the pending wake-up is spent. \<open>run\<close> is the handler of a
  timer, which may add and delete timers; \<open>synched\<close> says which modules are ready.
\<close>

definition CheckTimers_cb ::
  "clock \<Rightarrow> (addr \<Rightarrow> bool) \<Rightarrow> (timer \<Rightarrow> timers \<Rightarrow> (int \<times> timers) option) \<Rightarrow> timers \<Rightarrow> timers option" where
  "CheckTimers_cb K synched run T =
     (let T = T\<lparr>evtimer := None\<rparr> in
      case timerlist T of
        [] \<Rightarrow> None
      | t # ts \<Rightarrow>
          if \<not> synched (tm_module t) then Some (T\<lparr>timerlist := t\<lparr>tm_lastrun := int_cast (clock_now K)\<rparr> # ts\<rparr>)
          else if tm_nextrun t \<le> clock_now K
          then do {
            (r, T) \<leftarrow> run t T;
            t \<leftarrow> List.find (\<lambda>c. tm_node c = tm_node t) (timerlist T);
            if r < 0
            then Some (NextSchedule K (T\<lparr>timerlist := remove_first (\<lambda>c. tm_node c = tm_node t) (timerlist T)\<rparr>))
            else TimerCalcNextRun K (t\<lparr>tm_lastrun := int_cast (clock_now K)\<rparr>) True T }
          else Some T)"

text \<open>The timers of the core; \<open>pingtime\<close> and \<open>settime\<close> are the intervals configured. The addresses stand for its handlers.\<close>

definition PingServers_addr :: addr where "PingServers_addr = 1"
definition FlushLogs_addr :: addr where "FlushLogs_addr = 2"
definition SetServersTime_addr :: addr where "SetServersTime_addr = 3"
definition ResetLogs_addr :: addr where "ResetLogs_addr = 4"

definition no_timers :: timers where
  "no_timers = \<lparr>timerlist = [], evtimer = None, next_node = 1\<rparr>"

definition InitTimers :: "clock \<Rightarrow> addr \<Rightarrow> int \<Rightarrow> int \<Rightarrow> timers option" where
  "InitTimers K core pingtime settime = do {
     (_, T) \<leftarrow> AddTimer K core TIMER_TYPE_INTERVAL PingServers_addr ''PingServers'' pingtime 0 no_timers;
     (_, T) \<leftarrow> AddTimer K core TIMER_TYPE_INTERVAL FlushLogs_addr ''FlushLogs'' pingtime 0 T;
     (_, T) \<leftarrow> (if settime > 0 then AddTimer K core TIMER_TYPE_INTERVAL SetServersTime_addr ''SetServersTime'' settime 0 T
               else Some (NS_SUCCESS, T));
     (_, T) \<leftarrow> AddTimer K core TIMER_TYPE_DAILY ResetLogs_addr ''ResetLogs'' 0 0 T;
     Some T
   }"

definition FiniTimers :: "int \<Rightarrow> timers \<Rightarrow> timers option" where
  "FiniTimers settime T =
     (let (_, T) = DelTimer ''PingServers'' (T\<lparr>evtimer := None\<rparr>);
          (_, T) = DelTimer ''FlushLogs'' T;
          (_, T) = (if settime > 0 then DelTimer ''SetServersTime'' T else (NS_SUCCESS, T));
          (_, T) = DelTimer ''ResetLogs'' T
      in do { nassert (timerlist T = []); Some T })"

section \<open>The place of a timer\<close>

text \<open>The walk stops in front of the first timer that is not earlier.\<close>

lemma place_eq:
  "ts \<noteq> [] \<Longrightarrow> place t ts = Some (takeWhile (\<lambda>c. tm_nextrun c < tm_nextrun t) ts @ t # dropWhile (\<lambda>c. tm_nextrun c < tm_nextrun t) ts)"
  by (induction t ts rule: place.induct) auto

lemma place_Some: "place t ts = Some us \<Longrightarrow> ts \<noteq> []"
  by (cases ts) auto

text \<open>
  A queue of things with a time: what placing promises, and what moving an element to another time
  keeps.
\<close>

locale timed_queue =
  fixes time :: "'a \<Rightarrow> int" and put :: "'a \<Rightarrow> 'a list \<Rightarrow> 'a list option"
  assumes put_sorted: "put t ts = Some us \<Longrightarrow> sorted (map time ts) \<Longrightarrow> sorted (map time us)"
    and put_mset: "put t ts = Some us \<Longrightarrow> mset us = add_mset t (mset ts)"
    and put_total: "ts \<noteq> [] \<Longrightarrow> \<exists>us. put t ts = Some us"
begin

lemma remove_sorted: "sorted (map time ts) \<Longrightarrow> sorted (map time (remove_first P ts))"
  using set_remove_first_subset by (induction ts) fastforce+

lemma filter_sorted: "sorted (map time ts) \<Longrightarrow> sorted (map time (filter P ts))"
  by (simp add: sorted_filter)

lemma move_sorted: "sorted (map time ts) \<Longrightarrow> put t (remove_first P ts) = Some us \<Longrightarrow> sorted (map time us)"
  using put_sorted remove_sorted by blast

lemma put_set: "put t ts = Some us \<Longrightarrow> set us = insert t (set ts)"
  using put_mset by (metis set_mset_add_mset_insert set_mset_mset)

lemma put_length: "put t ts = Some us \<Longrightarrow> length us = Suc (length ts)"
  using put_mset by (metis size_add_mset size_mset)

lemma put_distinct: "put t ts = Some us \<Longrightarrow> distinct (map f us) \<longleftrightarrow> f t \<notin> f ` set ts \<and> distinct (map f ts)"
proof -
  assume "put t ts = Some us"
  then have "mset (map f us) = mset (map f (t # ts))" using put_mset by simp
  then have "distinct (map f us) = distinct (map f (t # ts))" by (rule mset_eq_imp_distinct_iff)
  then show ?thesis by simp
qed

end

interpretation tq: timed_queue tm_nextrun place
proof unfold_locales
  fix t ts us assume p: "place t ts = Some us"
  then have us: "us = takeWhile (\<lambda>c. tm_nextrun c < tm_nextrun t) ts @ t # dropWhile (\<lambda>c. tm_nextrun c < tm_nextrun t) ts"
    using place_eq [of ts t] place_Some by auto
  show "mset us = add_mset t (mset ts)" unfolding us by (induction ts) auto
  assume s: "sorted (map tm_nextrun ts)"
  show "sorted (map tm_nextrun us)"
    unfolding us using s
  proof (induction ts)
    case (Cons c ts)
    then show ?case by (auto simp: not_less dest: set_takeWhileD set_dropWhileD)
  qed simp
next
  show "\<exists>us. place t ts = Some us" if "ts \<noteq> []" for t ts using place_eq [OF that] by blast
qed

section \<open>What the operations keep\<close>

text \<open>The list is in the order of the next runs, its nodes are distinct, and there are at most \<^term>\<open>TIMER_TABLE_SIZE\<close> of them.\<close>

definition timers_ok :: "timers \<Rightarrow> bool" where
  "timers_ok T \<longleftrightarrow> sorted (map tm_nextrun (timerlist T)) \<and> distinct (map tm_node (timerlist T)) \<and>
     (\<forall>t\<in>set (timerlist T). tm_node t < next_node T) \<and> length (timerlist T) \<le> TIMER_TABLE_SIZE"

lemma timers_okI [intro?]:
  assumes "sorted (map tm_nextrun (timerlist T))" "distinct (map tm_node (timerlist T))"
    "\<And>t. t \<in> set (timerlist T) \<Longrightarrow> tm_node t < next_node T" "length (timerlist T) \<le> TIMER_TABLE_SIZE"
  shows "timers_ok T"
  using assms by (simp add: timers_ok_def)

lemma NextSchedule_keeps [simp]:
  "timerlist (NextSchedule K T) = timerlist T" "next_node (NextSchedule K T) = next_node T"
  by (simp_all add: NextSchedule_def split: list.splits)

lemma NextSchedule_wakes: "timerlist T \<noteq> [] \<Longrightarrow> \<exists>s>0. evtimer (NextSchedule K T) = Some s"
  by (auto simp: NextSchedule_def Let_def split: list.splits)

lemma timers_ok_evtimer [simp]: "timers_ok (T\<lparr>evtimer := w\<rparr>) = timers_ok T"
  by (simp add: timers_ok_def)

lemma timers_ok_NextSchedule [simp]: "timers_ok (NextSchedule K T) = timers_ok T"
  by (simp add: timers_ok_def)

lemma timers_ok_subset:
  assumes "timers_ok T" "set ts \<subseteq> set (timerlist T)" "length ts \<le> length (timerlist T)"
    "sorted (map tm_nextrun ts)" "distinct (map tm_node ts)"
  shows "timers_ok (T\<lparr>timerlist := ts\<rparr>)"
  using assms by (auto simp: timers_ok_def)

lemma length_remove_first_le: "length (remove_first P xs) \<le> length xs"
  by (induction xs) auto

lemma timers_ok_remove: "timers_ok T \<Longrightarrow> timers_ok (T\<lparr>timerlist := remove_first P (timerlist T)\<rparr>)"
  by (rule timers_ok_subset)
     (simp_all add: set_remove_first_subset length_remove_first_le tq.remove_sorted distinct_map_remove_first timers_ok_def)

lemma timers_ok_filter: "timers_ok T \<Longrightarrow> timers_ok (T\<lparr>timerlist := filter P (timerlist T)\<rparr>)"
  by (rule timers_ok_subset) (auto simp: tq.filter_sorted distinct_map_filter timers_ok_def)

lemma remove_first_node:
  "distinct (map tm_node ts) \<Longrightarrow> k \<notin> tm_node ` set (remove_first (\<lambda>c. tm_node c = k) ts)"
  by (induction ts) auto

lemma timers_ok_place:
  assumes ok: "timers_ok T" and p: "place t (timerlist T) = Some ts" and t: "tm_node t \<notin> tm_node ` set (timerlist T)"
    "tm_node t < next_node T" and l: "length (timerlist T) < TIMER_TABLE_SIZE"
  shows "timers_ok (T\<lparr>timerlist := ts\<rparr>)"
proof
  show "sorted (map tm_nextrun (timerlist (T\<lparr>timerlist := ts\<rparr>)))"
    using ok tq.put_sorted [OF p] by (simp add: timers_ok_def)
  show "distinct (map tm_node (timerlist (T\<lparr>timerlist := ts\<rparr>)))"
    using ok t tq.put_distinct [OF p, of tm_node] by (simp add: timers_ok_def)
  show "tm_node c < next_node (T\<lparr>timerlist := ts\<rparr>)" if "c \<in> set (timerlist (T\<lparr>timerlist := ts\<rparr>))" for c
    using that ok t tq.put_set [OF p] by (auto simp: timers_ok_def)
  show "length (timerlist (T\<lparr>timerlist := ts\<rparr>)) \<le> TIMER_TABLE_SIZE"
    using l tq.put_length [OF p] by simp
qed

lemma TimerCalcNextRun_ok:
  assumes ok: "timers_ok T" and r: "TimerCalcNextRun K t given T = Some T'"
    and l: "given \<or> length (timerlist T) < TIMER_TABLE_SIZE"
  shows "timers_ok T'"
proof (cases "timerlist T = []")
  case True
  then show ?thesis using r by (auto simp: TimerCalcNextRun_def timers_ok_def TIMER_TABLE_SIZE_def)
next
  case ne: False
  show ?thesis
  proof (cases given)
    case True
    let ?ts = "remove_first (\<lambda>c. tm_node c = tm_node t) (timerlist T)"
    let ?t = "t\<lparr>tm_nextrun := next_run K t\<rparr>"
    obtain us where c: "\<exists>c\<in>set (timerlist T). tm_node c = tm_node t" and p: "place ?t ?ts = Some us"
      and T': "T' = NextSchedule K (T\<lparr>timerlist := us\<rparr>)"
      using r ne True by (auto simp: TimerCalcNextRun_def nassert_def Let_def split: bind_splits if_splits)
    have "tm_node t \<notin> tm_node ` set ?ts" "length ?ts < TIMER_TABLE_SIZE" "tm_node t < next_node T"
      using ok c remove_first_node [of "timerlist T" "tm_node t"] length_remove_first [OF c] by (auto simp: timers_ok_def)
    then have "timers_ok (T\<lparr>timerlist := us\<rparr>)"
      using timers_ok_place [OF timers_ok_remove [OF ok], of ?t "\<lambda>c. tm_node c = tm_node t" us] p by simp
    then show ?thesis by (simp add: T')
  next
    case False
    let ?T = "T\<lparr>next_node := next_node T + 1\<rparr>"
    let ?t = "t\<lparr>tm_nextrun := next_run K t, tm_node := next_node T\<rparr>"
    obtain us where p: "place ?t (timerlist T) = Some us" and T': "T' = NextSchedule K (?T\<lparr>timerlist := us\<rparr>)"
      using r ne False by (auto simp: TimerCalcNextRun_def Let_def split: bind_splits if_splits)
    have "timers_ok ?T" using ok by (fastforce simp: timers_ok_def)
    then have "timers_ok (?T\<lparr>timerlist := us\<rparr>)"
      using p l False ok by (intro timers_ok_place) (auto simp: timers_ok_def)
    then show ?thesis by (simp add: T')
  qed
qed

lemma AddTimer_ok:
  assumes ok: "timers_ok T" and r: "AddTimer K m ty h name i p T = Some (r, T')"
  shows "timers_ok T'"
proof (cases "T' = T")
  case False
  then obtain t where "TimerCalcNextRun K t False T = Some T'" and "length (timerlist T) \<noteq> TIMER_TABLE_SIZE"
    using r by (auto simp: AddTimer_def new_timer_def split: if_splits bind_splits)
  then show ?thesis using TimerCalcNextRun_ok [OF ok] ok by (auto simp: timers_ok_def)
qed (use ok in simp)

lemma SetTimerInterval_ok:
  assumes ok: "timers_ok T" and r: "SetTimerInterval K name i T = Some (r, T')"
  shows "timers_ok T'"
proof (cases "T' = T")
  case False
  then obtain t where "TimerCalcNextRun K t True T = Some T'"
    using r by (auto simp: SetTimerInterval_def split: option.splits bind_splits)
  then show ?thesis using TimerCalcNextRun_ok [OF ok] by blast
qed (use ok in simp)

lemma DelTimer_ok: "timers_ok T \<Longrightarrow> DelTimer name T = (r, T') \<Longrightarrow> timers_ok T'"
  using timers_ok_remove by (auto simp: DelTimer_def split: if_splits)

lemma del_timers_ok: "timers_ok T \<Longrightarrow> del_timers m T = (r, T') \<Longrightarrow> timers_ok T'"
  using timers_ok_filter by (auto simp: del_timers_def)

lemma CheckTimers_cb_ok:
  assumes ok: "timers_ok T" and run: "\<And>t T1 r T2. run t T1 = Some (r, T2) \<Longrightarrow> timers_ok T1 \<Longrightarrow> timers_ok T2"
    and r: "CheckTimers_cb K synched run T = Some T'"
  shows "timers_ok T'"
proof -
  have "timers_ok (T\<lparr>evtimer := None, timerlist := t\<lparr>tm_lastrun := l\<rparr> # ts\<rparr>)" if "timerlist T = t # ts" for t ts l
    using ok that by (auto simp: timers_ok_def)
  moreover have "timers_ok T2" if "run t (T\<lparr>evtimer := None\<rparr>) = Some (r, T2)" for t r T2
    using run [OF that] ok by simp
  ultimately show ?thesis using r ok
    by (auto simp: CheckTimers_cb_def Let_def intro!: timers_ok_remove elim!: TimerCalcNextRun_ok [rotated]
        split: list.splits if_splits bind_splits)
qed

text \<open>
  The steps of the timers after start up: modules add, delete and change timers, and the event
  library calls back. What a handler does to the timers is itself a run of such steps.
\<close>

inductive timer_run :: "timers \<Rightarrow> timers \<Rightarrow> bool" where
  stay: "timer_run T T"
| added: "timer_run T T1 \<Longrightarrow> AddTimer K m ty h name i p T1 = Some (r, T2) \<Longrightarrow> timer_run T T2"
| deleted: "timer_run T T1 \<Longrightarrow> DelTimer name T1 = (r, T2) \<Longrightarrow> timer_run T T2"
| unloaded: "timer_run T T1 \<Longrightarrow> del_timers m T1 = (r, T2) \<Longrightarrow> timer_run T T2"
| changed: "timer_run T T1 \<Longrightarrow> SetTimerInterval K name i T1 = Some (r, T2) \<Longrightarrow> timer_run T T2"
| checked: "timer_run T T1 \<Longrightarrow> (\<And>t Ta r Tb. run t Ta = Some (r, Tb) \<Longrightarrow> timer_run Ta Tb) \<Longrightarrow>
    CheckTimers_cb K synched run T1 = Some T2 \<Longrightarrow> timer_run T T2"

lemma timer_run_ok: "timer_run T T' \<Longrightarrow> timers_ok T \<Longrightarrow> timers_ok T'"
proof (induction rule: timer_run.induct)
  case (checked T T1 run K synched T2)
  then show ?case using CheckTimers_cb_ok [of T1 run K synched T2] by blast
qed (auto intro: AddTimer_ok DelTimer_ok del_timers_ok SetTimerInterval_ok)

lemma no_timers_ok: "timers_ok no_timers"
  by (simp add: no_timers_def timers_ok_def)

lemma InitTimers_ok: "InitTimers K core pingtime settime = Some T \<Longrightarrow> timers_ok T"
  by (auto simp: InitTimers_def intro: no_timers_ok dest!: AddTimer_ok [rotated] split: bind_splits if_splits)

text \<open>A clock whose calendar counts seconds, days and months only.\<close>

definition plain_clock :: "int \<Rightarrow> clock" where
  "plain_clock now = \<lparr>clock_now = now,
     c_localtime = (\<lambda>x. \<lparr>bd_sec = x mod 60, bd_min = x div 60 mod 60, bd_hour = x div 3600 mod 24, bd_mday = x div 86400,
                         bd_mon = 0, bd_year = 70, bd_isdst = 0\<rparr>),
     c_mktime = (\<lambda>b. bd_sec b + 60 * bd_min b + 3600 * bd_hour b + 86400 * (bd_mday b + 30 * bd_mon b))\<rparr>"

section \<open>Properties\<close>

text \<open>C22. However modules add, delete and change timers and whatever their handlers do to the list when
  they run, the timers stay in the order of their next runs, no node is in the list twice and there
  are at most 300 of them: the walk of TimerCalcNextRun always finds the right place.\<close>

theorem timers_stay_ordered:
  assumes "InitTimers K core pingtime settime = Some T0" and "timer_run T0 T"
  shows "sorted (map tm_nextrun (timerlist T)) \<and> distinct (map tm_node (timerlist T)) \<and> length (timerlist T) \<le> 300"
  using timer_run_ok [OF assms(2) InitTimers_ok [OF assms(1)]] by (simp add: timers_ok_def TIMER_TABLE_SIZE_def)

text \<open>The timers of the core at second 1000, and the first of them running half a minute later.\<close>

lemma sample_timers:
  "case InitTimers (plain_clock 1000) 7 30 0 of None \<Rightarrow> False
   | Some T0 \<Rightarrow> (case CheckTimers_cb (plain_clock 1030) (\<lambda>m. True) (\<lambda>t T. Some (1, T)) T0 of None \<Rightarrow> False
      | Some T \<Rightarrow> map tm_name (timerlist T) = [''PingServers'', ''FlushLogs'', ''ResetLogs''])"
  by code_simp

theorem timers_stay_ordered_witness:
  "\<exists>T0 T. InitTimers (plain_clock 1000) 7 30 0 = Some T0 \<and>
     CheckTimers_cb (plain_clock 1030) (\<lambda>m. True) (\<lambda>t T. Some (1, T)) T0 = Some T \<and>
     map tm_name (timerlist T) = [''PingServers'', ''FlushLogs'', ''ResetLogs''] \<and>
     sorted (map tm_nextrun (timerlist T)) \<and> distinct (map tm_node (timerlist T)) \<and> length (timerlist T) \<le> 300"
proof -
  obtain T0 T where T0: "InitTimers (plain_clock 1000) 7 30 0 = Some T0"
    and T: "CheckTimers_cb (plain_clock 1030) (\<lambda>m. True) (\<lambda>t T. Some (1, T)) T0 = Some T"
      "map tm_name (timerlist T) = [''PingServers'', ''FlushLogs'', ''ResetLogs'']"
    using sample_timers by (auto split: option.splits)
  have "timer_run T0 T"
    by (rule timer_run.checked [OF timer_run.stay _ T(1)]) (auto intro: timer_run.stay)
  note timers_stay_ordered [OF T0 this]
  with T0 T show ?thesis by (intro exI [of _ T0] exI [of _ T]) simp
qed

lemma find_Some_unique:
  assumes "x \<in> set xs" "P x" "\<And>y. y \<in> set xs \<Longrightarrow> P y \<Longrightarrow> y = x"
  shows "List.find P xs = Some x"
proof (cases "List.find P xs")
  case None
  then show ?thesis using assms(1,2) by (auto simp: find_None_iff)
next
  case (Some y)
  then have "y \<in> set xs" "P y" by (auto simp: find_Some_iff)
  then show ?thesis using Some assms(3) by simp
qed

lemma set_remove_first_node:
  "distinct (map tm_node ts) \<Longrightarrow> t \<in> set ts \<Longrightarrow> set (remove_first (\<lambda>c. tm_node c = tm_node t) ts) = set ts - {t}"
  by (induction ts) (auto simp: image_iff)

lemma place_remove_first:
  assumes "place t ts = Some us" "P t" "\<not> (\<exists>c\<in>set ts. P c)"
  shows "remove_first P us = ts"
  using assms
proof (induction t ts arbitrary: us rule: place.induct)
  case (3 t c d ts)
  then show ?case by (auto split: if_splits)
qed (auto split: if_splits)

lemma find_timer_none: "FindTimer name T = None \<longleftrightarrow> \<not> (\<exists>t\<in>set (timerlist T). irc_eq (tm_name t) name)"
  by (auto simp: FindTimer_def find_None_iff)

text \<open>A timer that AddTimer accepts is in the list with the type, interval and handler given, no
  other timer had its name, and DelTimer with the name in any case takes exactly that timer out
  again. (A name of 32 or more characters is cut and cannot be found again.)\<close>

theorem AddTimer_DelTimer:
  assumes add: "AddTimer K m ty h name i p T = Some (NS_SUCCESS, T1)" and name: "nul_free name" "length name < 32" and eq: "irc_eq name nm"
  shows "FindTimer name T = None \<and>
    (\<exists>t. FindTimer nm T1 = Some t \<and> tm_type t = ty \<and> tm_interval t = i \<and> tm_handler t = h \<and> tm_module t = m \<and>
         tm_nextrun t = next_run K t) \<and>
    (\<exists>T2. DelTimer nm T1 = (NS_SUCCESS, T2) \<and> timerlist T2 = timerlist T)"
proof -
  define t where "t = \<lparr>tm_node = 0, tm_module = m, tm_type = ty, tm_name = name, tm_interval = i, tm_lastrun = clock_now K,
    tm_handler = h, tm_userptr = p, tm_nextrun = 0\<rparr>"
  then have t: "tm_type t = ty" "tm_interval t = i" "tm_handler t = h" "tm_module t = m" "tm_name t = name" by simp_all
  have none: "FindTimer name T = None" and calc: "TimerCalcNextRun K t False T = Some T1"
    using add name by (auto simp: t_def AddTimer_def new_timer_def strlcpy_str_def MAX_MOD_NAME_def ns_codes split: if_splits bind_splits)
  let ?t = "t\<lparr>tm_nextrun := next_run K t, tm_node := next_node T\<rparr>"
  have put: "timerlist T = [] \<and> timerlist T1 = [?t] \<or> place ?t (timerlist T) = Some (timerlist T1)"
    using calc by (auto simp: TimerCalcNextRun_def Let_def split: if_splits bind_splits)
  have other: "\<not> (\<exists>c\<in>set (timerlist T). irc_eq (tm_name c) nm)"
    using none eq by (simp add: find_timer_none irc_eq_iff)
  have nm: "irc_eq (tm_name ?t) nm" using t(5) eq by simp
  have rm: "remove_first (\<lambda>c. irc_eq (tm_name c) nm) (timerlist T1) = timerlist T"
    using put place_remove_first [of ?t "timerlist T"] nm other by auto
  have "set (timerlist T1) = insert ?t (set (timerlist T))"
    using put tq.put_set by auto
  then have found: "FindTimer nm T1 = Some ?t"
    using other nm unfolding FindTimer_def by (intro find_Some_unique) auto
  have "DelTimer nm T1 = (NS_SUCCESS, T1\<lparr>timerlist := timerlist T\<rparr>)"
    by (simp add: DelTimer_def found rm)
  then show ?thesis using none found t by simp
qed

theorem AddTimer_DelTimer_witness:
  "\<exists>T1 T2. AddTimer (plain_clock 0) 7 TIMER_TYPE_DAILY 5 ''stats'' 0 0 no_timers = Some (NS_SUCCESS, T1) \<and>
     DelTimer ''STATS'' T1 = (NS_SUCCESS, T2) \<and> timerlist T2 = []"
proof -
  obtain T1 where T1: "AddTimer (plain_clock 0) 7 TIMER_TYPE_DAILY 5 ''stats'' 0 0 no_timers = Some (NS_SUCCESS, T1)"
    by (auto simp: AddTimer_def new_timer_def FindTimer_def no_timers_def TIMER_TABLE_SIZE_def TimerCalcNextRun_def)
  have "irc_eq ''stats'' ''STATS''" by code_simp
  with AddTimer_DelTimer [OF T1, of "''STATS''"] T1 show ?thesis by (auto simp: no_timers_def)
qed

text \<open>C23. When the callback runs a due interval timer of a synched module, the handler does not ask for its removal and leaves the timer
  as it is and at least two timers in a well formed list, and \<^verbatim>\<open>mktime\<close> adds seconds as it should, the
  timer comes back one interval after now, in its place in the order; every other timer is as the
  handler left it, and a wake-up with a positive delay is pending.\<close>

theorem CheckTimers_cb_again:
  assumes T: "timerlist T = t # ts" and syn: "synched (tm_module t)" and due: "tm_nextrun t \<le> clock_now K"
    and run: "run t (T\<lparr>evtimer := None\<rparr>) = Some (r, T2)" and r: "0 \<le> r"
    and ok: "timers_ok T2" and mem: "t \<in> set (timerlist T2)" and two: "2 \<le> length (timerlist T2)"
    and ty: "tm_type t = TIMER_TYPE_INTERVAL" and now: "0 \<le> clock_now K" "clock_now K < 2 ^ 31"
    and mk: "\<And>x i. c_mktime K ((c_localtime K x)\<lparr>bd_sec := bd_sec (c_localtime K x) + i\<rparr>) = x + i"
  shows "\<exists>T' s t'. CheckTimers_cb K synched run T = Some T' \<and> evtimer T' = Some s \<and> 0 < s \<and>
    t' = t\<lparr>tm_lastrun := clock_now K, tm_nextrun := clock_now K + tm_interval t\<rparr> \<and>
    set (timerlist T') = insert t' (set (timerlist T2) - {t}) \<and> sorted (map tm_nextrun (timerlist T'))"
proof -
  let ?t = "t\<lparr>tm_lastrun := clock_now K, tm_nextrun := clock_now K + tm_interval t\<rparr>"
  let ?ts = "remove_first (\<lambda>c. tm_node c = tm_node t) (timerlist T2)"
  have cast: "int_cast (clock_now K) = clock_now K"
    using now by (simp add: int_cast_def sint_sbintrunc' signed_take_bit_int_eq_self)
  have nr: "next_run K (t\<lparr>tm_lastrun := clock_now K\<rparr>) = clock_now K + tm_interval t"
    by (simp add: next_run_def ty mk Let_def)
  have d: "distinct (map tm_node (timerlist T2))" using ok by (simp add: timers_ok_def)
  have find: "List.find (\<lambda>c. tm_node c = tm_node t) (timerlist T2) = Some t"
    using d mem by (intro find_Some_unique) (auto simp: distinct_map dest: inj_onD)
  have "\<exists>c\<in>set (timerlist T2). tm_node c = tm_node t" using mem by blast
  from length_remove_first [OF this] have "?ts \<noteq> []" using two by auto
  then obtain us where us: "place ?t ?ts = Some us" using tq.put_total by blast
  have "TimerCalcNextRun K (t\<lparr>tm_lastrun := clock_now K\<rparr>) True T2 = Some (NextSchedule K (T2\<lparr>timerlist := us\<rparr>))"
    using us mem by (auto simp: TimerCalcNextRun_def Let_def nr nassert_def)
  then have step: "CheckTimers_cb K synched run T = Some (NextSchedule K (T2\<lparr>timerlist := us\<rparr>))"
    using r by (simp add: CheckTimers_cb_def Let_def T syn due run find cast)
  have set: "set us = insert ?t (set (timerlist T2) - {t})"
    using tq.put_set [OF us] set_remove_first_node [OF d mem] by simp
  have "sorted (map tm_nextrun us)"
    using ok tq.move_sorted [OF _ us] by (simp add: timers_ok_def)
  moreover have "us \<noteq> []" using tq.put_length [OF us] by auto
  then obtain s where "0 < s" "evtimer (NextSchedule K (T2\<lparr>timerlist := us\<rparr>)) = Some s"
    using NextSchedule_wakes [of "T2\<lparr>timerlist := us\<rparr>" K] by auto
  ultimately show ?thesis
    by (intro exI [of _ "NextSchedule K (T2\<lparr>timerlist := us\<rparr>)"] exI [of _ s] exI [of _ ?t]) (simp add: step set)
qed

text \<open>Two timers of module 7, the first due at second 30, and a clock without days.\<close>

definition two_timers :: timers where
  "two_timers = (let t = \<lparr>tm_node = 1, tm_module = 7, tm_type = TIMER_TYPE_INTERVAL, tm_name = ''a'', tm_interval = 45,
      tm_lastrun = 0, tm_handler = 5, tm_userptr = 0, tm_nextrun = 30\<rparr>
    in \<lparr>timerlist = [t, t\<lparr>tm_node := 2, tm_name := ''b'', tm_nextrun := 70\<rparr>], evtimer = None, next_node = 3\<rparr>)"

definition seconds_clock :: "int \<Rightarrow> clock" where
  "seconds_clock now = \<lparr>clock_now = now,
     c_localtime = (\<lambda>x. \<lparr>bd_sec = x, bd_min = 0, bd_hour = 0, bd_mday = 1, bd_mon = 0, bd_year = 70, bd_isdst = 0\<rparr>), c_mktime = bd_sec\<rparr>"

theorem CheckTimers_cb_again_witness:
  "\<exists>T' s t'. CheckTimers_cb (seconds_clock 31) (\<lambda>m. True) (\<lambda>t T. Some (0, T)) two_timers = Some T' \<and> evtimer T' = Some s \<and> 0 < s \<and>
     t' \<in> set (timerlist T') \<and> tm_nextrun t' = 76"
proof -
  let ?K = "seconds_clock 31" and ?T = two_timers and ?t = "hd (timerlist two_timers)" and ?ts = "tl (timerlist two_timers)"
  have T: "timerlist ?T = ?t # ?ts" "?t \<in> set (timerlist ?T)" "2 \<le> length (timerlist ?T)" "timers_ok ?T"
    "tm_nextrun ?t \<le> clock_now ?K" "tm_type ?t = TIMER_TYPE_INTERVAL" "tm_interval ?t = 45"
    and e: "evtimer ?T = None"
    by (simp_all add: two_timers_def timers_ok_def TIMER_TABLE_SIZE_def seconds_clock_def Let_def)
  have K: "0 \<le> clock_now ?K" "clock_now ?K < 2 ^ 31" "clock_now ?K = 31"
    "c_mktime ?K ((c_localtime ?K x)\<lparr>bd_sec := bd_sec (c_localtime ?K x) + i\<rparr>) = x + i" for x i
    by (simp_all add: seconds_clock_def)
  from CheckTimers_cb_again [of ?T ?t ?ts "\<lambda>m. True" ?K "\<lambda>t T. Some (0, T)" 0 "?T\<lparr>evtimer := None\<rparr>"]
  obtain T' s t' where "CheckTimers_cb ?K (\<lambda>m. True) (\<lambda>t T. Some (0, T)) ?T = Some T'" "evtimer T' = Some s" "0 < s"
    "t' = ?t\<lparr>tm_lastrun := clock_now ?K, tm_nextrun := clock_now ?K + tm_interval ?t\<rparr>"
    "set (timerlist T') = insert t' (set (timerlist ?T) - {?t})"
    using T K by auto
  then show ?thesis by (intro exI [of _ T'] exI [of _ s] exI [of _ t']) (simp add: K(3) T(7))
qed

lemma TimerCalcNextRun_wakes:
  assumes "TimerCalcNextRun K c given T = Some T'" "timerlist T \<noteq> []"
  shows "evtimer T' \<noteq> None"
proof -
  have "\<exists>V. T' = NextSchedule K V \<and> timerlist V \<noteq> []"
    using assms by (fastforce simp: TimerCalcNextRun_def Let_def dest: tq.put_length split: if_splits bind_splits)
  then show ?thesis using NextSchedule_wakes by fastforce
qed

text \<open>C24. The callback of the event library renews the wake-up only when it has run a timer. When the
  first timer belongs to a module that is not synched, or is not due (the timer the wake-up was set
  for was deleted or moved), none is left, and no timer runs until some other timer is added or changed.\<close>

theorem CheckTimers_cb_wakes:
  assumes "timerlist T = t # ts" and "CheckTimers_cb K synched run T = Some T'"
    and "\<And>r T2. run t (T\<lparr>evtimer := None\<rparr>) = Some (r, T2) \<Longrightarrow> 0 \<le> r"
  shows "evtimer T' \<noteq> None \<longleftrightarrow> synched (tm_module t) \<and> tm_nextrun t \<le> clock_now K"
proof (cases "synched (tm_module t) \<and> tm_nextrun t \<le> clock_now K")
  case True
  then obtain r T2 c where "run t (T\<lparr>evtimer := None\<rparr>) = Some (r, T2)" and c: "List.find (\<lambda>c. tm_node c = tm_node t) (timerlist T2) = Some c"
    and step: "r < 0 \<or> TimerCalcNextRun K (c\<lparr>tm_lastrun := int_cast (clock_now K)\<rparr>) True T2 = Some T'"
    using assms(1,2) by (auto simp: CheckTimers_cb_def Let_def split: if_splits bind_splits)
  then have "TimerCalcNextRun K (c\<lparr>tm_lastrun := int_cast (clock_now K)\<rparr>) True T2 = Some T'"
    using assms(3) by fastforce
  moreover have "timerlist T2 \<noteq> []" using c by auto
  ultimately show ?thesis using True TimerCalcNextRun_wakes by simp
next
  case False
  then show ?thesis using assms(1,2) by (auto simp: CheckTimers_cb_def Let_def split: if_splits)
qed

theorem CheckTimers_cb_wakes_witness:
  "\<exists>T'. CheckTimers_cb (seconds_clock 29) (\<lambda>m. True) (\<lambda>t T. Some (0, T)) two_timers = Some T' \<and> evtimer T' = None"
proof -
  let ?t = "hd (timerlist two_timers)" and ?ts = "tl (timerlist two_timers)"
  have T: "timerlist two_timers = ?t # ?ts" "\<not> tm_nextrun ?t \<le> clock_now (seconds_clock 29)"
    by (simp_all add: two_timers_def seconds_clock_def Let_def)
  obtain T' where "CheckTimers_cb (seconds_clock 29) (\<lambda>m. True) (\<lambda>t T. Some (0, T)) two_timers = Some T'"
    by (simp add: CheckTimers_cb_def two_timers_def seconds_clock_def Let_def)
  with CheckTimers_cb_wakes [OF T(1) this] T(2) show ?thesis by auto
qed

end
