(* ===== verification/HashTable.thy ===== *)
theory HashTable
  imports KList IrcString
begin

text \<open>
  \<^verbatim>\<open>src/hash.c\<close>: the extendible chained hash tables that hold users, servers, channels and
  bans. A chain is the list of its nodes in order; a node keeps its identity (its address),
  so that the pointer comparisons of the code can be stated. As everywhere \<open>None\<close> is a
  failed \<^verbatim>\<open>nassert\<close> or an access outside an object. A key is the string the key pointer
  points to; the clients never change it while the node is in a table.
\<close>

section \<open>Nodes and tables\<close>

record ('k, 'v) hnode =
  hn_id :: addr
  hn_key :: 'k
  hn_data :: 'v
  hn_hkey :: ulong

record ('k, 'v) hash_t =
  h_table :: "('k, 'v) hnode list list"
  h_nchains :: ulong
  h_nodecount :: ulong
  h_maxcount :: ulong
  h_highmark :: ulong
  h_lowmark :: ulong
  h_compare :: "'k \<Rightarrow> 'k \<Rightarrow> int"
  h_function :: "'k \<Rightarrow> ulong"
  h_mask :: ulong
  h_dynamic :: bool

definition INIT_BITS :: nat where "INIT_BITS = 6"
definition INIT_SIZE :: ulong where "INIT_SIZE = 2 ^ INIT_BITS"
definition INIT_MASK :: ulong where "INIT_MASK = INIT_SIZE - 1"

definition chain_at :: "('k, 'v) hash_t \<Rightarrow> ulong \<Rightarrow> ('k, 'v) hnode list option" where
  "chain_at h c = (if unat c < length (h_table h) then Some (h_table h ! unat c) else None)"

definition set_chain :: "('k, 'v) hash_t \<Rightarrow> ulong \<Rightarrow> ('k, 'v) hnode list \<Rightarrow> ('k, 'v) hash_t" where
  "set_chain h c ns = h\<lparr>h_table := (h_table h)[unat c := ns]\<rparr>"

section \<open>Helpers\<close>

lemma halving_less: "val \<noteq> 0 \<Longrightarrow> unat (drop_bit 1 (val :: ulong)) < unat val"
proof -
  assume "val \<noteq> 0"
  then have "unat val div 2 < unat val" by (simp add: unat_gt_0)
  then show ?thesis by (simp add: drop_bit_eq_div unat_div)
qed

function bits_loop :: "ulong \<Rightarrow> nat \<Rightarrow> nat" where
  "bits_loop val bits = (if val \<noteq> 0 then bits_loop (drop_bit 1 val) (bits + 1) else bits)"
  by pat_completeness auto
termination
  by (relation "measure (unat \<circ> fst)") (auto intro: halving_less simp del: drop_bit_Suc One_nat_def)

declare bits_loop.simps [simp del]

definition compute_bits :: nat where
  "compute_bits = bits_loop (- 1) 0"

function pow2_loop :: "ulong \<Rightarrow> bool" where
  "pow2_loop arg = (if arg \<noteq> 0 \<and> arg AND 1 = 0 then pow2_loop (drop_bit 1 arg) else arg = 1)"
  by pat_completeness auto
termination
  by (relation "measure unat") (auto intro: halving_less simp del: drop_bit_Suc One_nat_def)

declare pow2_loop.simps [simp del]

definition is_power_of_two :: "ulong \<Rightarrow> bool" where
  "is_power_of_two arg = (if arg = 0 then False else pow2_loop arg)"

definition compute_mask :: "ulong \<Rightarrow> ulong option" where
  "compute_mask sz = do {
     nassert (is_power_of_two sz);
     nassert (sz \<ge> 2);
     Some (sz - 1)
   }"

definition clear_table :: "('k, 'v) hash_t \<Rightarrow> ('k, 'v) hash_t" where
  "clear_table h = h\<lparr>h_table := replicate (unat (h_nchains h)) [] @ drop (unat (h_nchains h)) (h_table h)\<rparr>"

text \<open>Every node is on the chain its hash value selects.\<close>

fun chains_ok :: "ulong \<Rightarrow> ulong \<Rightarrow> ('k, 'v) hnode list list \<Rightarrow> bool" where
  "chains_ok msk c [] = True"
| "chains_ok msk c (ns # nss) = (list_all (\<lambda>n. hn_hkey n AND msk = c) ns \<and> chains_ok msk (c + 1) nss)"

definition hash_verify :: "('k, 'v) hash_t \<Rightarrow> bool" where
  "hash_verify h \<longleftrightarrow>
     (h_dynamic h \<longrightarrow> h_lowmark h < h_highmark h \<and> is_power_of_two (h_highmark h) \<and> is_power_of_two (h_lowmark h)) \<and>
     chains_ok (h_mask h) 0 (h_table h) \<and> of_nat (length (concat (h_table h))) = h_nodecount h"

definition hash_isfull :: "('k, 'v) hash_t \<Rightarrow> bool" where
  "hash_isfull h \<longleftrightarrow> h_nodecount h = h_maxcount h"

definition hash_isempty :: "('k, 'v) hash_t \<Rightarrow> bool" where
  "hash_isempty h \<longleftrightarrow> h_nodecount h = 0"

definition hash_count :: "('k, 'v) hash_t \<Rightarrow> ulong" where
  "hash_count h = h_nodecount h"

definition hash_size :: "('k, 'v) hash_t \<Rightarrow> ulong" where
  "hash_size h = h_nchains h"

section \<open>Creating\<close>

text \<open>
  The comparison and hash functions are those the caller passed or, for null pointers, the
  defaults below.
\<close>

definition hash_create ::
  "ulong \<Rightarrow> ('k \<Rightarrow> 'k \<Rightarrow> int) \<Rightarrow> ('k \<Rightarrow> ulong) \<Rightarrow> ('k, 'v) hash_t option" where
  "hash_create mx compfun hashfun =
     (let h = clear_table \<lparr>h_table = replicate (unat INIT_SIZE) [], h_nchains = INIT_SIZE, h_nodecount = 0,
                h_maxcount = mx, h_highmark = INIT_SIZE * 2, h_lowmark = INIT_SIZE div 2,
                h_compare = compfun, h_function = hashfun, h_mask = INIT_MASK, h_dynamic = True\<rparr>
      in do { nassert (hash_verify h); Some h })"

definition hash_init ::
  "('k, 'v) hash_t \<Rightarrow> ulong \<Rightarrow> ('k \<Rightarrow> 'k \<Rightarrow> int) \<Rightarrow> ('k \<Rightarrow> ulong) \<Rightarrow> ('k, 'v) hnode list list \<Rightarrow> ulong
     \<Rightarrow> ('k, 'v) hash_t option" where
  "hash_init h mx compfun hashfun table nchains = do {
     nassert (is_power_of_two nchains);
     let h = h\<lparr>h_table := table, h_nchains := nchains, h_nodecount := 0, h_maxcount := mx,
               h_compare := compfun, h_function := hashfun, h_dynamic := False\<rparr>;
     m \<leftarrow> compute_mask nchains;
     let h = clear_table (h\<lparr>h_mask := m\<rparr>);
     nassert (hash_verify h);
     Some h
   }"

definition hash_destroy :: "('k, 'v) hash_t \<Rightarrow> unit option" where
  "hash_destroy h = nassert (hash_isempty h)"

definition hnode_create :: "addr \<Rightarrow> 'k \<Rightarrow> 'v \<Rightarrow> ('k, 'v) hnode" where
  "hnode_create a garbage d = \<lparr>hn_id = a, hn_key = garbage, hn_data = d, hn_hkey = 0\<rparr>"

definition hnode_init :: "('k, 'v) hnode \<Rightarrow> 'v \<Rightarrow> ('k, 'v) hnode" where
  "hnode_init n d = n\<lparr>hn_data := d\<rparr>"

definition hnode_put :: "('k, 'v) hnode \<Rightarrow> 'v \<Rightarrow> ('k, 'v) hnode" where
  "hnode_put n d = n\<lparr>hn_data := d\<rparr>"

definition hnode_get :: "('k, 'v) hnode \<Rightarrow> 'v" where
  "hnode_get n = hn_data n"

definition hnode_getkey :: "('k, 'v) hnode \<Rightarrow> 'k" where
  "hnode_getkey n = hn_key n"

section \<open>Resizing\<close>

text \<open>One chain, its nodes moved to the fronts of the two new chains in turn.\<close>

fun split_chain :: "ulong \<Rightarrow> ('k, 'v) hnode list \<Rightarrow> ('k, 'v) hnode list \<Rightarrow> ('k, 'v) hnode list
    \<Rightarrow> ('k, 'v) hnode list \<times> ('k, 'v) hnode list" where
  "split_chain exposed_bit low high [] = (low, high)"
| "split_chain exposed_bit low high (n # ns) =
     (if hn_hkey n AND exposed_bit \<noteq> 0 then split_chain exposed_bit low (n # high) ns
      else split_chain exposed_bit (n # low) high ns)"

definition grow_table :: "('k, 'v) hash_t \<Rightarrow> ('k, 'v) hash_t option" where
  "grow_table h = do {
     nassert (2 * h_nchains h > h_nchains h);
     let msk = (push_bit 1 (h_mask h)) OR 1;
     let exposed_bit = msk XOR h_mask h;
     nassert (msk \<noteq> h_mask h);
     let parts = map (split_chain exposed_bit [] []) (h_table h);
     let h = h\<lparr>h_table := map fst parts @ map snd parts, h_mask := msk, h_nchains := h_nchains h * 2,
               h_lowmark := h_lowmark h * 2, h_highmark := h_highmark h * 2\<rparr>;
     nassert (hash_verify h);
     Some h
   }"

definition shrink_table :: "('k, 'v) hash_t \<Rightarrow> ('k, 'v) hash_t option" where
  "shrink_table h = do {
     nassert (h_nchains h \<ge> 2);
     let nchains = h_nchains h div 2;
     let k = unat nchains;
     let h = h\<lparr>h_table := map2 (\<lambda>low high. low @ high) (take k (h_table h)) (drop k (h_table h)),
               h_mask := drop_bit 1 (h_mask h), h_nchains := nchains,
               h_lowmark := h_lowmark h div 2, h_highmark := h_highmark h div 2\<rparr>;
     nassert (hash_verify h);
     Some h
   }"

section \<open>Looking up, inserting, deleting\<close>

definition node_matches :: "('k, 'v) hash_t \<Rightarrow> 'k \<Rightarrow> ('k, 'v) hnode \<Rightarrow> bool" where
  "node_matches h key n \<longleftrightarrow> hn_hkey n = h_function h key \<and> h_compare h (hn_key n) key = 0"

definition hash_lookup :: "('k, 'v) hash_t \<Rightarrow> 'k \<Rightarrow> ('k, 'v) hnode option option" where
  "hash_lookup h key = do {
     ns \<leftarrow> chain_at h (h_function h key AND h_mask h);
     Some (List.find (node_matches h key) ns)
   }"

definition hnode_find :: "('k, 'v) hash_t \<Rightarrow> 'k \<Rightarrow> 'v option option" where
  "hnode_find h key = do {
     hn \<leftarrow> hash_lookup h key;
     Some (map_option hnode_get hn)
   }"

definition hash_insert :: "('k, 'v) hash_t \<Rightarrow> ('k, 'v) hnode \<Rightarrow> 'k \<Rightarrow> ('k, 'v) hash_t option" where
  "hash_insert h node key = do {
     nassert (h_nodecount h < h_maxcount h);
     r \<leftarrow> hash_lookup h key;
     nassert (r = None);
     h \<leftarrow> (if h_dynamic h \<and> h_nodecount h \<ge> h_highmark h then grow_table h else Some h);
     let hkey = h_function h key;
     let chain = hkey AND h_mask h;
     ns \<leftarrow> chain_at h chain;
     let h = set_chain h chain (node\<lparr>hn_key := key, hn_hkey := hkey\<rparr> # ns);
     let h = h\<lparr>h_nodecount := h_nodecount h + 1\<rparr>;
     nassert (hash_verify h);
     Some h
   }"

text \<open>The node whose address is \<open>a\<close> spliced out of a chain; \<open>None\<close> when it is not there.\<close>

fun unlink :: "addr \<Rightarrow> ('k, 'v) hnode list \<Rightarrow> ('k, 'v) hnode list option" where
  "unlink a [] = None"
| "unlink a (n # ns) = (if hn_id n = a then Some ns else map_option ((#) n) (unlink a ns))"

definition hash_scan_delete :: "('k, 'v) hash_t \<Rightarrow> ('k, 'v) hnode \<Rightarrow> ('k, 'v) hash_t option" where
  "hash_scan_delete h node = do {
     r \<leftarrow> hash_lookup h (hn_key node);
     nassert (map_option hn_id r = Some (hn_id node));
     let chain = hn_hkey node AND h_mask h;
     ns \<leftarrow> chain_at h chain;
     ns \<leftarrow> unlink (hn_id node) ns;
     let h = (set_chain h chain ns)\<lparr>h_nodecount := h_nodecount h - 1\<rparr>;
     nassert (hash_verify h);
     Some h
   }"

definition hash_delete :: "('k, 'v) hash_t \<Rightarrow> ('k, 'v) hnode \<Rightarrow> ('k, 'v) hash_t option" where
  "hash_delete h node = do {
     r \<leftarrow> hash_lookup h (hn_key node);
     nassert (map_option hn_id r = Some (hn_id node));
     h \<leftarrow> (if h_dynamic h \<and> h_nodecount h \<le> h_lowmark h \<and> h_nodecount h > INIT_SIZE
          then shrink_table h else Some h);
     let chain = hn_hkey node AND h_mask h;
     ns \<leftarrow> chain_at h chain;
     ns \<leftarrow> unlink (hn_id node) ns;
     let h = (set_chain h chain ns)\<lparr>h_nodecount := h_nodecount h - 1\<rparr>;
     nassert (hash_verify h);
     Some h
   }"

text \<open>\<open>a\<close> is the address of the new node.\<close>

definition hnode_create_insert :: "addr \<Rightarrow> ('k, 'v) hash_t \<Rightarrow> 'v \<Rightarrow> 'k \<Rightarrow> ('k, 'v) hash_t option" where
  "hnode_create_insert a h d key = hash_insert h (hnode_create a key d) key"

definition hash_alloc_insert :: "addr \<Rightarrow> ('k, 'v) hash_t \<Rightarrow> 'k \<Rightarrow> 'v \<Rightarrow> (('k, 'v) hash_t \<times> int) option" where
  "hash_alloc_insert a h key d =
     (if a \<noteq> 0
      then do { h \<leftarrow> hash_insert h (hnode_init (hnode_create a key d) d) key; Some (h, 1) }
      else Some (h, 0))"

text \<open>The node is freed after it has left the table.\<close>

definition hash_delete_destroy_node :: "('k, 'v) hash_t \<Rightarrow> ('k, 'v) hnode \<Rightarrow> ('k, 'v) hash_t option" where
  "hash_delete_destroy_node h node = hash_delete h node"

definition hash_scan_delete_destroy_node ::
  "('k, 'v) hash_t \<Rightarrow> ('k, 'v) hnode \<Rightarrow> ('k, 'v) hash_t option" where
  "hash_scan_delete_destroy_node h node = hash_scan_delete h node"

definition hash_delete_free :: "('k, 'v) hash_t \<Rightarrow> ('k, 'v) hnode \<Rightarrow> ('k, 'v) hash_t option" where
  "hash_delete_free h node = hash_delete h node"

definition hash_scan_delfree :: "('k, 'v) hash_t \<Rightarrow> ('k, 'v) hnode \<Rightarrow> ('k, 'v) hash_t option" where
  "hash_scan_delfree h node = hash_scan_delete h node"

section \<open>Scanning\<close>

text \<open>
  A scan remembers a chain and the address of the next node (0 is NULL). What follows that node
  is read from the table when the scan goes on; a node that has left the table meanwhile is
  a dangling pointer.
\<close>

record hscan_t =
  scan_chain :: nat
  scan_next :: addr

text \<open>The first non-empty chain from index \<open>i\<close> on: its index and its first node.\<close>

fun first_chain :: "nat \<Rightarrow> ('k, 'v) hnode list list \<Rightarrow> (nat \<times> addr) option" where
  "first_chain i [] = None"
| "first_chain i (ns # nss) = (case ns of [] \<Rightarrow> first_chain (i + 1) nss | n # _ \<Rightarrow> Some (i, hn_id n))"

text \<open>\<open>garbage\<close> is what the uninitialised \<^verbatim>\<open>scan->chain\<close> holds when the table is empty.\<close>

definition hash_scan_begin :: "nat \<Rightarrow> ('k, 'v) hash_t \<Rightarrow> hscan_t" where
  "hash_scan_begin garbage h =
     (case first_chain 0 (h_table h) of
        Some (i, a) \<Rightarrow> \<lparr>scan_chain = i, scan_next = a\<rparr>
      | None \<Rightarrow> \<lparr>scan_chain = garbage, scan_next = 0\<rparr>)"

text \<open>The chain from the node with address \<open>a\<close> on.\<close>

definition suffix_at :: "addr \<Rightarrow> ('k, 'v) hnode list list \<Rightarrow> ('k, 'v) hnode list" where
  "suffix_at a nss = concat (map (\<lambda>ns. dropWhile (\<lambda>n. hn_id n \<noteq> a) ns) nss)"

definition hash_scan_next :: "('k, 'v) hash_t \<Rightarrow> hscan_t \<Rightarrow> (('k, 'v) hnode option \<times> hscan_t) option" where
  "hash_scan_next h scan =
     (if scan_next scan = 0 then Some (None, scan)
      else case suffix_at (scan_next scan) (h_table h) of
             [] \<Rightarrow> None
           | [n] \<Rightarrow>
               (case first_chain (scan_chain scan + 1) (drop (scan_chain scan + 1) (h_table h)) of
                  Some (i, a) \<Rightarrow> Some (Some n, \<lparr>scan_chain = i, scan_next = a\<rparr>)
                | None \<Rightarrow> Some (Some n, scan\<lparr>scan_next := 0\<rparr>))
           | n # m # _ \<Rightarrow> Some (Some n, scan\<lparr>scan_next := hn_id m\<rparr>))"

text \<open>The loop \<^verbatim>\<open>while( ( n = hash_scan_next( &s ) ) ) ...\<close> with a body that leaves the table alone.\<close>

partial_function (option) scan_loop ::
  "('k, 'v) hash_t \<Rightarrow> hscan_t \<Rightarrow> ('k, 'v) hnode list option" where
  "scan_loop h scan = do {
     (r, scan) \<leftarrow> hash_scan_next h scan;
     case r of None \<Rightarrow> Some []
     | Some n \<Rightarrow> do { ns \<leftarrow> scan_loop h scan; Some (n # ns) }
   }"

definition hash_scan :: "('k, 'v) hash_t \<Rightarrow> ('k, 'v) hnode list option" where
  "hash_scan h = scan_loop h (hash_scan_begin 0 h)"

partial_function (option) free_nodes_loop ::
  "('k, 'v) hash_t \<Rightarrow> hscan_t \<Rightarrow> ('k, 'v) hash_t option" where
  "free_nodes_loop h scan = do {
     (r, scan) \<leftarrow> hash_scan_next h scan;
     case r of None \<Rightarrow> Some h
     | Some n \<Rightarrow> do { h \<leftarrow> hash_scan_delete h n; free_nodes_loop h scan }
   }"

definition hash_free_nodes :: "('k, 'v) hash_t \<Rightarrow> ('k, 'v) hash_t option" where
  "hash_free_nodes h = do {
     h \<leftarrow> free_nodes_loop h (hash_scan_begin 0 h);
     Some (clear_table (h\<lparr>h_nodecount := 0\<rparr>))
   }"

definition hash_free :: "('k, 'v) hash_t \<Rightarrow> unit option" where
  "hash_free h = do { h \<leftarrow> hash_free_nodes h; hash_destroy h }"

section \<open>The default functions\<close>

definition randbox :: "ulong list" where
  "randbox = [
     0x49848f1b, 0xe6255dba, 0x36da5bdc, 0x47bf94e9, 0x8cbcce22, 0x559fc06a, 0xd268f536, 0xe10af79a,
     0xc1af4d69, 0x1d2917b5, 0xec4c304d, 0x9ee5016c, 0x69232f74, 0xfead7bb3, 0xe9089ab6, 0xf012f6ae]"

text \<open>\<^verbatim>\<open>tolower\<close> of the C locale.\<close>

definition ascii_lower :: "nat \<Rightarrow> nat" where
  "ascii_lower b = (if 65 \<le> b \<and> b \<le> 90 then b + 32 else b)"

definition hash_round :: "ulong \<Rightarrow> nat \<Rightarrow> ulong" where
  "hash_round acc c =
     (let a1 = acc XOR (randbox ! unat ((of_nat c + acc) AND 0xf));
          a2 = ((push_bit 1 a1) OR (drop_bit 31 a1)) AND 0xffffffff;
          a3 = a2 XOR (randbox ! unat ((of_nat (c div 16) + a2) AND 0xf))
      in ((push_bit 2 a3) OR (drop_bit 30 a3)) AND 0xffffffff)"

fun hash_fun_loop :: "ulong \<Rightarrow> string \<Rightarrow> ulong" where
  "hash_fun_loop acc [] = acc"
| "hash_fun_loop acc (c # cs) = hash_fun_loop (hash_round acc (ascii_lower (byte_of c))) cs"

definition hash_fun_default :: "string \<Rightarrow> ulong" where
  "hash_fun_default key = hash_fun_loop 0 key"

definition hash_comp_default :: "string \<Rightarrow> string \<Rightarrow> int" where
  "hash_comp_default key1 key2 = ircstrcasecmp (Some key1) (Some key2)"

end
