(* ===== verification/HashRefine.thy ===== *)
theory HashRefine
  imports HashTable "HOL-Library.Multiset"
begin

text \<open>
  The hash tables of \<^verbatim>\<open>src/hash.c\<close> are finite maps up to the key comparison: the invariant of a
  table, that every operation keeps it, what a lookup returns after each of them, and that a
  scan visits every node once. Growing and shrinking change no lookup.
\<close>

section \<open>Words\<close>

lemma mask_index: "unat ((w :: ulong) AND mask k) = unat w mod 2 ^ k"
proof -
  have "unat (w AND mask k) = take_bit k (unat w)"
    by (simp only: take_bit_eq_mask [symmetric] unsigned_take_bit_eq)
  then show ?thesis by (simp only: take_bit_eq_mod)
qed

lemma mask_grow: "k < 63 \<Longrightarrow> push_bit 1 (mask k) OR 1 = (mask (Suc k) :: ulong)"
  by (simp add: mask_Suc_double ac_simps)

lemma mask_shrink: "drop_bit 1 (mask (Suc k) :: ulong) = mask k" if "k < 63"
  using that by (intro bit_word_eqI) (auto simp: bit_simps)

lemma exposed_bit: "k < 63 \<Longrightarrow> mask (Suc k) XOR mask k = (2 ^ k :: ulong)"
  by (intro bit_word_eqI) (auto simp: bit_simps)

lemma and_exposed: "(w :: ulong) AND 2 ^ k \<noteq> 0 \<longleftrightarrow> bit w k"
  by (simp add: and_exp_eq_0_iff_not_bit)

lemma index_split: "unat (w :: ulong) mod 2 ^ Suc k = (if bit w k then 2 ^ k else 0) + unat w mod 2 ^ k"
proof -
  have "take_bit (Suc k) (unat w) = 2 ^ k * of_bool (bit (unat w) k) + take_bit k (unat w)"
    by (rule take_bit_Suc_from_most)
  then show ?thesis by (auto simp: take_bit_eq_mod bit_unsigned_iff)
qed

lemma unat_power_2:
  assumes "k < 64"
  shows "unat (2 ^ k :: ulong) = 2 ^ k"
proof -
  have "(2 :: nat) ^ k < 2 ^ 64" using assms by (intro power_strict_increasing) simp_all
  moreover have "unat (of_nat (2 ^ k) :: ulong) = 2 ^ k mod 2 ^ LENGTH(64)" by (rule unat_of_nat)
  ultimately show ?thesis by simp
qed

lemma pow2_loop_power: "k < 64 \<Longrightarrow> pow2_loop (2 ^ k)"
proof (induction k)
  case 0
  then show ?case by (simp add: pow2_loop.simps)
next
  case (Suc k)
  have "(2 :: ulong) ^ Suc k AND 1 = 0"
    by (intro bit_word_eqI) (auto simp: bit_simps)
  moreover have "drop_bit 1 ((2 :: ulong) ^ Suc k) = 2 ^ k"
    using Suc.prems by (intro bit_word_eqI) (auto simp: bit_simps)
  ultimately show ?case using Suc by (subst pow2_loop.simps) (simp del: power_Suc)
qed

lemma is_power_of_two_power [simp]: "k < 64 \<Longrightarrow> is_power_of_two (2 ^ k)"
  by (simp add: is_power_of_two_def pow2_loop_power)

section \<open>The invariant\<close>

definition h_nodes :: "('k, 'v) hash_t \<Rightarrow> ('k, 'v) hnode list" where
  "h_nodes h = concat (h_table h)"

text \<open>The size of the table and where its nodes are.\<close>

definition shape :: "nat \<Rightarrow> ('k, 'v) hash_t \<Rightarrow> bool" where
  "shape k h \<longleftrightarrow>
     1 \<le> k \<and> k < 63 \<and> length (h_table h) = 2 ^ k \<and> h_nchains h = 2 ^ k \<and> h_mask h = mask k \<and>
     (h_dynamic h \<longrightarrow> 6 \<le> k \<and> k < 62 \<and> h_highmark h = 2 ^ (k + 1) \<and> h_lowmark h = 2 ^ (k - 1)) \<and>
     (\<forall>i<2 ^ k. \<forall>n\<in>set (h_table h ! i). unat (hn_hkey n) mod 2 ^ k = i)"

text \<open>Two keys are the same key for the table.\<close>

definition same_key :: "('k, 'v) hash_t \<Rightarrow> 'k \<Rightarrow> 'k \<Rightarrow> bool" where
  "same_key h a b \<longleftrightarrow> h_function h a = h_function h b \<and> h_compare h a b = 0"

definition content :: "('k, 'v) hash_t \<Rightarrow> bool" where
  "content h \<longleftrightarrow>
     (\<forall>n\<in>set (h_nodes h). hn_hkey n = h_function h (hn_key n) \<and> hn_id n \<noteq> 0) \<and>
     (\<forall>n\<in>set (h_nodes h). \<forall>m\<in>set (h_nodes h). same_key h (hn_key n) (hn_key m) \<longrightarrow> n = m) \<and>
     distinct (map hn_id (h_nodes h)) \<and>
     h_nodecount h = of_nat (length (h_nodes h)) \<and> length (h_nodes h) \<le> unat (h_maxcount h) \<and>
     equivp (same_key h)"

definition hash_inv :: "('k, 'v) hash_t \<Rightarrow> bool" where
  "hash_inv h \<longleftrightarrow> (\<exists>k. shape k h) \<and> content h"

text \<open>The abstract view: the node that holds a key.\<close>

definition holds :: "('k, 'v) hash_t \<Rightarrow> 'k \<Rightarrow> ('k, 'v) hnode \<Rightarrow> bool" where
  "holds h key n \<longleftrightarrow> n \<in> set (h_nodes h) \<and> same_key h (hn_key n) key"

lemma contentD:
  assumes "content h" "n \<in> set (h_nodes h)"
  shows "hn_hkey n = h_function h (hn_key n)" "hn_id n \<noteq> 0"
    "m \<in> set (h_nodes h) \<Longrightarrow> same_key h (hn_key n) (hn_key m) \<Longrightarrow> n = m"
  using assms by (auto simp: content_def)

lemma same_key_equiv:
  assumes "content h"
  shows "same_key h a a" "same_key h a b \<Longrightarrow> same_key h b a"
    "same_key h a b \<Longrightarrow> same_key h b c \<Longrightarrow> same_key h a c"
  using assms by (auto simp: content_def dest: equivp_reflp equivp_symp equivp_transp)

lemma holds_unique: "content h \<Longrightarrow> holds h key n \<Longrightarrow> holds h key m \<Longrightarrow> n = m"
  using contentD(3) same_key_equiv unfolding holds_def by metis

lemma holds_self: "content h \<Longrightarrow> n \<in> set (h_nodes h) \<Longrightarrow> holds h (hn_key n) n"
  by (simp add: holds_def same_key_equiv)

lemma node_matches_iff: "content h \<Longrightarrow> n \<in> set (h_nodes h) \<Longrightarrow> node_matches h key n \<longleftrightarrow> holds h key n"
  by (auto simp: node_matches_def holds_def same_key_def contentD)

lemma shape_chain:
  assumes "shape k h"
  shows "chain_at h (w AND h_mask h) = Some (h_table h ! (unat w mod 2 ^ k))"
    "unat w mod 2 ^ k < length (h_table h)" "unat (w AND h_mask h) = unat w mod 2 ^ k"
  using assms by (auto simp: shape_def chain_at_def mask_index)

lemma shape_node:
  assumes "shape k h" "n \<in> set (h_nodes h)"
  shows "n \<in> set (h_table h ! (unat (hn_hkey n) mod 2 ^ k))"
proof -
  obtain ns where "ns \<in> set (h_table h)" "n \<in> set ns"
    using assms(2) by (auto simp: h_nodes_def)
  then obtain i where "i < length (h_table h)" "n \<in> set (h_table h ! i)"
    by (auto simp: in_set_conv_nth [of ns])
  then show ?thesis using assms(1) by (auto simp: shape_def)
qed

lemma hash_lookup_Some_iff:
  assumes k: "shape k h" and c: "content h"
  shows "\<exists>r. hash_lookup h key = Some r \<and> (\<forall>n. r = Some n \<longleftrightarrow> holds h key n)"
proof -
  let ?ns = "h_table h ! (unat (h_function h key) mod 2 ^ k)"
  have sub: "set ?ns \<subseteq> set (h_nodes h)"
    using nth_mem [OF shape_chain(2) [OF k, of "h_function h key"]] by (auto simp: h_nodes_def)
  have on: "n \<in> set ?ns" if "holds h key n" for n
  proof -
    have "n \<in> set (h_nodes h)" "hn_hkey n = h_function h key"
      using that contentD(1) [OF c, of n] by (auto simp: holds_def same_key_def)
    then show ?thesis using shape_node [OF k] by metis
  qed
  have "List.find (node_matches h key) ?ns = Some n \<longleftrightarrow> holds h key n" for n
  proof
    assume "List.find (node_matches h key) ?ns = Some n"
    then have "n \<in> set ?ns" "node_matches h key n" by (auto simp: find_Some_iff)
    then show "holds h key n" using node_matches_iff [OF c] sub by blast
  next
    assume n: "holds h key n"
    then have "List.find (node_matches h key) ?ns \<noteq> None"
      using on [OF n] node_matches_iff [OF c] sub unfolding find_None_iff by blast
    then obtain m where m: "List.find (node_matches h key) ?ns = Some m" by blast
    then have "m \<in> set ?ns" "node_matches h key m" by (auto simp: find_Some_iff)
    then have "holds h key m" using node_matches_iff [OF c] sub by blast
    then show "List.find (node_matches h key) ?ns = Some n" using holds_unique [OF c n] m by simp
  qed
  then show ?thesis by (auto simp: hash_lookup_def shape_chain(1) [OF k])
qed

lemma hash_lookup_total: "hash_inv h \<Longrightarrow> \<exists>r. hash_lookup h key = Some r"
  by (auto simp: hash_inv_def dest: hash_lookup_Some_iff)

lemma hash_lookup_iff:
  assumes "hash_inv h"
  shows "hash_lookup h key = Some (Some n) \<longleftrightarrow> holds h key n"
    "hash_lookup h key = Some None \<longleftrightarrow> (\<forall>n. \<not> holds h key n)"
proof -
  from assms obtain k where k: "shape k h" "content h" by (auto simp: hash_inv_def)
  obtain r where "hash_lookup h key = Some r" "\<forall>n. r = Some n \<longleftrightarrow> holds h key n"
    using hash_lookup_Some_iff [OF k, of key] by auto
  then show "hash_lookup h key = Some (Some n) \<longleftrightarrow> holds h key n"
    "hash_lookup h key = Some None \<longleftrightarrow> (\<forall>n. \<not> holds h key n)"
    by (cases r; auto)+
qed

section \<open>Verification\<close>

lemma chains_ok_iff:
  "chains_ok msk c nss \<longleftrightarrow> (\<forall>i<length nss. \<forall>n\<in>set (nss ! i). hn_hkey n AND msk = c + of_nat i)"
proof (induction nss arbitrary: c)
  case (Cons ns nss)
  have "(\<forall>i<length (ns # nss). P i) \<longleftrightarrow> P 0 \<and> (\<forall>i<length nss. P (Suc i))" for P
    by (auto simp: less_Suc_eq_0_disj)
  then show ?case
    by (simp only: chains_ok.simps Cons.IH) (simp add: list_all_iff ac_simps)
qed simp

lemma mask_index_eq:
  assumes "i < 2 ^ k" "k < 63"
  shows "(w :: ulong) AND mask k = of_nat i \<longleftrightarrow> unat w mod 2 ^ k = i"
proof -
  have "i \<le> unat (2 ^ k :: ulong)" using assms by (simp add: unat_power_2)
  then have "unat (of_nat i :: ulong) = i" by (rule le_unat_uoi)
  then show ?thesis using mask_index [of w k] by (metis word_unat_eq_iff)
qed

lemma hash_verify_inv:
  assumes "shape k h" "h_nodecount h = of_nat (length (h_nodes h))"
  shows "hash_verify h"
proof -
  have "chains_ok (h_mask h) 0 (h_table h)"
    using assms(1) by (auto simp: chains_ok_iff shape_def mask_index_eq)
  moreover have "h_lowmark h < h_highmark h" "is_power_of_two (h_highmark h)" "is_power_of_two (h_lowmark h)"
    if "h_dynamic h"
  proof -
    from that assms(1) have "h_highmark h = 2 ^ (k + 1)" "h_lowmark h = 2 ^ (k - 1)" "k < 62"
      by (auto simp: shape_def)
    moreover have "(2 :: ulong) ^ (k - 1) < 2 ^ (k + 1)"
      using \<open>k < 62\<close> by (simp add: word_less_nat_alt unat_power_2 power_strict_increasing del: power_Suc)
    ultimately show "h_lowmark h < h_highmark h" "is_power_of_two (h_highmark h)" "is_power_of_two (h_lowmark h)"
      by (simp_all del: power_Suc)
  qed
  ultimately show ?thesis using assms(2) by (simp add: hash_verify_def h_nodes_def)
qed

section \<open>Resizing keeps the nodes\<close>

text \<open>Only the layout of the table may differ.\<close>

definition relaid :: "('k, 'v) hash_t \<Rightarrow> ('k, 'v) hash_t \<Rightarrow> bool" where
  "relaid h h' \<longleftrightarrow>
     mset (h_nodes h') = mset (h_nodes h) \<and> h_nodecount h' = h_nodecount h \<and> h_maxcount h' = h_maxcount h \<and>
     h_compare h' = h_compare h \<and> h_function h' = h_function h \<and> h_dynamic h' = h_dynamic h"

lemma relaid_refl [simp]: "relaid h h"
  by (simp add: relaid_def)

lemma relaidD:
  assumes "relaid h h'"
  shows "set (h_nodes h') = set (h_nodes h)" "length (h_nodes h') = length (h_nodes h)"
    "distinct (map hn_id (h_nodes h')) = distinct (map hn_id (h_nodes h))"
    "same_key h' = same_key h" "holds h' = holds h"
proof -
  have m: "mset (h_nodes h') = mset (h_nodes h)" using assms by (simp add: relaid_def)
  show s: "set (h_nodes h') = set (h_nodes h)" by (rule mset_eq_setD [OF m])
  show "length (h_nodes h') = length (h_nodes h)" by (rule mset_eq_length [OF m])
  show "distinct (map hn_id (h_nodes h')) = distinct (map hn_id (h_nodes h))"
    using m by (intro mset_eq_imp_distinct_iff) simp
  show k: "same_key h' = same_key h" using assms by (simp add: relaid_def same_key_def fun_eq_iff)
  show "holds h' = holds h" by (simp add: holds_def fun_eq_iff s k)
qed

lemma relaid_content: "relaid h h' \<Longrightarrow> content h' = content h"
  unfolding content_def by (simp add: relaidD) (simp add: relaid_def)

lemma split_chain_eq:
  "split_chain e low high ns =
    (rev (filter (\<lambda>n. hn_hkey n AND e = 0) ns) @ low, rev (filter (\<lambda>n. hn_hkey n AND e \<noteq> 0) ns) @ high)"
  by (induction ns arbitrary: low high) auto

lemma mset_concat_map_add:
  "mset (concat (map f xs)) + mset (concat (map g xs)) = (\<Sum>x\<leftarrow>xs. mset (f x) + mset (g x))"
  by (induction xs) (auto simp: ac_simps)

lemma mset_concat_list: "mset (concat xs) = (\<Sum>x\<leftarrow>xs. mset x)"
  by (induction xs) auto

lemma grow_table_inv:
  assumes k: "shape k h" and c: "content h" and room: "k < 61"
  shows "\<exists>h'. grow_table h = Some h' \<and> relaid h h' \<and> shape (Suc k) h'"
proof -
  let ?lo = "\<lambda>ns. rev (filter (\<lambda>n. \<not> bit (hn_hkey n) k) ns)" and ?hi = "\<lambda>ns. rev (filter (\<lambda>n. bit (hn_hkey n) k) ns)"
  let ?t = "map ?lo (h_table h) @ map ?hi (h_table h)"
  let ?h = "h\<lparr>h_table := ?t, h_mask := mask (Suc k), h_nchains := h_nchains h * 2,
     h_lowmark := h_lowmark h * 2, h_highmark := h_highmark h * 2\<rparr>"
  have K: "k < 63" "length (h_table h) = 2 ^ k" "h_nchains h = 2 ^ k" "h_mask h = mask k"
    using k by (auto simp: shape_def)
  have parts: "split_chain (mask (Suc k) XOR mask k) [] [] ns = (?lo ns, ?hi ns)" for ns :: "('a, 'b) hnode list"
    unfolding exposed_bit [OF K(1)] split_chain_eq append_Nil2 and_exposed
    by (simp flip: and_exposed)
  have "2 * h_nchains h > h_nchains h"
  proof -
    have "(2 :: ulong) ^ k < 2 ^ Suc k"
      using room by (simp add: word_less_nat_alt unat_power_2 del: power_Suc)
    then show ?thesis using K by simp
  qed
  moreover have "mask (Suc k) \<noteq> (mask k :: ulong)"
  proof
    assume "mask (Suc k) = (mask k :: ulong)"
    then have "bit (mask (Suc k) :: ulong) k = bit (mask k :: ulong) k" by simp
    then show False using K(1) by (simp add: bit_simps)
  qed
  moreover have idx: "unat (hn_hkey n) mod 2 ^ k = i" if "i < 2 ^ k" "n \<in> set (h_table h ! i)" for i n
    using k that by (auto simp: shape_def)
  have low: "(2 :: ulong) ^ (k - Suc 0) * 2 = 2 ^ k" using k by (cases k) (auto simp: shape_def)
  have S: "shape (Suc k) ?h"
    unfolding shape_def
  proof (intro conjI allI impI ballI; simp?)
    fix i n assume "i < 2 * 2 ^ k" and n: "n \<in> set (?t ! i)"
    show "unat (hn_hkey n) mod (2 * 2 ^ k) = i"
    proof (cases "i < 2 ^ k")
      case True
      then have "n \<in> set (h_table h ! i)" "\<not> bit (hn_hkey n) k" using n K by (auto simp: nth_append)
      then show ?thesis using idx [OF True] index_split [of "hn_hkey n" k] by simp
    next
      case False
      let ?j = "i - 2 ^ k"
      have j: "?j < 2 ^ k" using \<open>i < 2 * 2 ^ k\<close> False by simp
      then have "n \<in> set (h_table h ! ?j)" "bit (hn_hkey n) k" using n K False by (auto simp: nth_append)
      then show ?thesis using idx [OF j] index_split [of "hn_hkey n" k] False by simp
    qed
  next
  qed (use k room low in \<open>auto simp: shape_def\<close>)
  have R: "relaid h ?h"
  proof -
    have "mset (concat ?t) = (\<Sum>ns\<leftarrow>h_table h. mset (?lo ns) + mset (?hi ns))"
      by (simp only: concat_append mset_append mset_concat_map_add)
    also have "\<dots> = (\<Sum>ns\<leftarrow>h_table h. mset ns)"
      by (intro arg_cong [of _ _ sum_list] map_cong refl) (simp add: add.commute)
    finally show ?thesis by (simp add: relaid_def h_nodes_def mset_concat_list)
  qed
  have "hash_verify ?h"
    using c relaidD(2) [OF R] by (intro hash_verify_inv [OF S]) (simp add: content_def)
  ultimately have "grow_table h = Some ?h"
    by (simp add: grow_table_def K(4) mask_grow [OF K(1), simplified] parts comp_def del: drop_bit_Suc)
  then show ?thesis using R S by blast
qed

lemma mset_concat_map2_append:
  "length xs = length ys \<Longrightarrow> mset (concat (map2 (@) xs ys)) = mset (concat xs) + mset (concat ys)"
  by (induction xs ys rule: list_induct2) (auto simp: ac_simps)

lemma shrink_table_inv:
  assumes k: "shape (Suc k) h" and c: "content h" and room: "1 \<le> k" "h_dynamic h \<Longrightarrow> 6 \<le> k"
  shows "\<exists>h'. shrink_table h = Some h' \<and> relaid h h' \<and> shape k h'"
proof -
  let ?lo = "take (2 ^ k) (h_table h)" and ?hi = "drop (2 ^ k) (h_table h)"
  let ?h = "h\<lparr>h_table := map2 (@) ?lo ?hi, h_mask := mask k, h_nchains := 2 ^ k,
     h_lowmark := h_lowmark h div 2, h_highmark := h_highmark h div 2\<rparr>"
  have K: "k < 62" "length (h_table h) = 2 * 2 ^ k" "h_nchains h = 2 * 2 ^ k" "h_mask h = mask (Suc k)"
    using k by (auto simp: shape_def)
  have half: "(2 :: ulong) ^ Suc j div 2 = 2 ^ j" if "j < 63" for j
  proof -
    have "unat ((2 :: ulong) ^ Suc j div 2) = unat ((2 :: ulong) ^ j)"
      using that by (simp add: unat_div unat_power_2 del: power_Suc) simp
    then show ?thesis by (simp only: word_unat_eq_iff)
  qed
  have n: "h_nchains h div 2 = 2 ^ k" "unat (2 ^ k :: ulong) = 2 ^ k"
    using K half [of k] by (simp_all add: unat_power_2)
  have "(2 :: nat) \<le> 2 ^ Suc k" by simp
  then have "(2 :: ulong) \<le> 2 ^ Suc k"
    using K(1) unat_power_2 [of "Suc k"] by (simp add: word_le_nat_alt del: power_Suc)
  then have two: "h_nchains h \<ge> 2" using K(3) by simp
  have idx: "unat (hn_hkey m) mod (2 * 2 ^ k) = i" if "i < 2 * 2 ^ k" "m \<in> set (h_table h ! i)" for i m
    using k that by (auto simp: shape_def)
  have S: "shape k ?h"
    unfolding shape_def
  proof (intro conjI allI impI ballI; simp?)
    fix i m assume i: "i < 2 ^ k" and "m \<in> set (map2 (@) ?lo ?hi ! i)"
    then have "m \<in> set (h_table h ! i) \<or> m \<in> set (h_table h ! (2 ^ k + i))" using K by auto
    then have "unat (hn_hkey m) mod (2 * 2 ^ k) = i \<or> unat (hn_hkey m) mod (2 * 2 ^ k) = 2 ^ k + i"
      using idx i by auto
    moreover have "unat (hn_hkey m) mod (2 * 2 ^ k) mod 2 ^ k = unat (hn_hkey m) mod 2 ^ k"
      by (rule mod_mod_cancel) simp
    ultimately show "unat (hn_hkey m) mod 2 ^ k = i" using i by auto
  next
    assume d: "h_dynamic h"
    then show "6 \<le> k" by (rule room(2))
    then obtain j where j: "k = Suc j" by (cases k) auto
    have "h_highmark h = 2 ^ Suc (Suc k)" "h_lowmark h = 2 ^ k" using d k by (auto simp: shape_def)
    then show "h_highmark h div 2 = 2 * 2 ^ k" "h_lowmark h div 2 = 2 ^ (k - Suc 0)"
      using half [of "Suc k"] half [of j] K(1) j by simp_all
  qed (use K room in auto)
  have R: "relaid h ?h"
  proof -
    have "mset (concat (map2 (@) ?lo ?hi)) = mset (concat ?lo) + mset (concat ?hi)"
      using K(2) by (intro mset_concat_map2_append) simp
    also have "\<dots> = mset (concat (?lo @ ?hi))" by (simp only: concat_append mset_append)
    finally show ?thesis by (simp add: relaid_def h_nodes_def)
  qed
  have "hash_verify ?h"
    using c relaidD(2) [OF R] by (intro hash_verify_inv [OF S]) (simp add: content_def)
  then have "shrink_table h = Some ?h"
    using two n mask_shrink [of k] K(1,4) by (simp add: shrink_table_def Let_def del: drop_bit_Suc)
  then show ?thesis using R S by blast
qed

section \<open>Inserting\<close>

lemma set_nth_update: "i < length xs \<Longrightarrow> mset (concat (xs[i := a # (xs ! i)])) = add_mset a (mset (concat xs))"
proof (induction xs arbitrary: i)
  case (Cons x xs)
  then show ?case by (cases i) auto
qed simp

lemma insert_room:
  assumes k: "shape k h" and c: "content h" and dyn: "h_dynamic h" "h_nodecount h \<ge> h_highmark h"
    and small: "length (h_nodes h) < 2 ^ 61"
  shows "k < 61"
proof (rule ccontr)
  assume "\<not> k < 61"
  have "length (h_nodes h) \<le> unat (h_maxcount h)" using c by (simp add: content_def)
  then have "unat (h_nodecount h) = length (h_nodes h)" using c le_unat_uoi by (auto simp: content_def)
  moreover have "unat (h_highmark h) = 2 ^ Suc k" using k dyn unat_power_2 [of "Suc k"] by (auto simp: shape_def)
  ultimately have "2 ^ Suc k \<le> length (h_nodes h)" using dyn(2) by (simp add: word_le_nat_alt)
  moreover have "(2 :: nat) ^ 61 \<le> 2 ^ Suc k" using \<open>\<not> k < 61\<close> by (intro power_increasing) auto
  ultimately show False using small by linarith
qed

text \<open>Putting a node at the front of its chain, after the table has perhaps grown.\<close>

lemma put_node:
  assumes k: "shape k h" and c: "content h" and n: "hn_hkey n = h_function h (hn_key n)" "hn_id n \<noteq> 0"
    and new: "\<And>m. \<not> holds h (hn_key n) m" "hn_id n \<notin> hn_id ` set (h_nodes h)"
    and room: "length (h_nodes h) < unat (h_maxcount h)"
    and h': "h' = (set_chain h (hn_hkey n AND h_mask h) (n # (h_table h ! (unat (hn_hkey n) mod 2 ^ k))))
        \<lparr>h_nodecount := h_nodecount h + 1\<rparr>"
  shows "shape k h'" "content h'" "hash_verify h'" "mset (h_nodes h') = add_mset n (mset (h_nodes h))"
    "same_key h' = same_key h"
proof -
  let ?i = "unat (hn_hkey n) mod 2 ^ k"
  have i: "?i < length (h_table h)" "unat (hn_hkey n AND h_mask h) = ?i" using shape_chain [OF k] by auto
  have t: "h_table h' = (h_table h)[?i := n # (h_table h ! ?i)]" by (simp add: h' set_chain_def i)
  show S: "shape k h'"
    unfolding shape_def
  proof (intro conjI allI impI ballI)
    fix j m assume "j < 2 ^ k" "m \<in> set (h_table h' ! j)"
    then show "unat (hn_hkey m) mod 2 ^ k = j"
      using k i by (cases "j = ?i") (auto simp: t shape_def)
  qed (use k in \<open>auto simp: shape_def h' set_chain_def\<close>)
  show m: "mset (h_nodes h') = add_mset n (mset (h_nodes h))"
    unfolding h_nodes_def t by (rule set_nth_update [OF i(1)])
  then have s: "set (h_nodes h') = insert n (set (h_nodes h))" by (metis set_mset_add_mset_insert set_mset_mset)
  show sk: "same_key h' = same_key h" by (simp add: h' set_chain_def same_key_def fun_eq_iff)
  have len: "length (h_nodes h') = Suc (length (h_nodes h))" by (metis m size_add_mset size_mset)
  have ids: "distinct (map hn_id (h_nodes h'))"
  proof -
    have "mset (map hn_id (h_nodes h')) = mset (map hn_id (n # h_nodes h))" by (simp add: m)
    then have "distinct (map hn_id (h_nodes h')) = distinct (map hn_id (n # h_nodes h))"
      by (rule mset_eq_imp_distinct_iff)
    then show ?thesis using new(2) c by (simp add: content_def)
  qed
  have f: "h_function h' = h_function h" "h_maxcount h' = h_maxcount h"
      "h_nodecount h' = h_nodecount h + 1"
    by (simp_all add: h' set_chain_def)
  have cnt: "h_nodecount h' = of_nat (length (h_nodes h'))" using c f len by (simp add: content_def)
  have uniq: "x = y" if "x \<in> insert n (set (h_nodes h))" "y \<in> insert n (set (h_nodes h))"
    "same_key h (hn_key x) (hn_key y)" for x y
    using that new(1) contentD(3) [OF c] same_key_equiv(2) [OF c] unfolding holds_def by blast
  show "content h'"
    unfolding content_def s sk f(1,2)
    using n c uniq ids cnt room len by (auto simp: content_def)
  show "hash_verify h'" by (rule hash_verify_inv [OF S cnt])
qed

lemma hash_insert_inv:
  assumes inv: "hash_inv h" and new: "\<And>m. \<not> holds h key m" "hn_id n \<notin> hn_id ` set (h_nodes h)" "hn_id n \<noteq> 0"
    and room: "length (h_nodes h) < unat (h_maxcount h)" "length (h_nodes h) < 2 ^ 61"
  shows "\<exists>h'. hash_insert h n key = Some h' \<and> hash_inv h' \<and> same_key h' = same_key h \<and>
    h_maxcount h' = h_maxcount h \<and>
    mset (h_nodes h') = add_mset (n\<lparr>hn_key := key, hn_hkey := h_function h key\<rparr>) (mset (h_nodes h))"
proof -
  from inv obtain k where k: "shape k h" and c: "content h" by (auto simp: hash_inv_def)
  have lt: "h_nodecount h < h_maxcount h"
  proof -
    have "h_nodecount h = of_nat (length (h_nodes h))" using c by (simp add: content_def)
    moreover have "unat (of_nat (length (h_nodes h)) :: ulong) = length (h_nodes h)"
      using room(1) by (intro le_unat_uoi less_imp_le)
    ultimately show ?thesis using room(1) by (simp add: word_less_nat_alt)
  qed
  have look: "hash_lookup h key = Some None" using hash_lookup_iff(2) [OF inv] new(1) by blast
  obtain h1 k1 where h1: "(if h_dynamic h \<and> h_nodecount h \<ge> h_highmark h then grow_table h else Some h) = Some h1"
    "relaid h h1" "shape k1 h1"
  proof (cases "h_dynamic h \<and> h_nodecount h \<ge> h_highmark h")
    case True
    then show ?thesis using that grow_table_inv [OF k c insert_room [OF k c _ _ room(2)]] by auto
  next
    case False
    then show ?thesis using that [of h k] k by auto
  qed
  have c1: "content h1" using relaid_content [OF h1(2)] c by simp
  have fn: "h_function h1 = h_function h" "h_maxcount h1 = h_maxcount h" "h_nodecount h1 = h_nodecount h"
    using h1(2) by (simp_all add: relaid_def)
  let ?n = "n\<lparr>hn_key := key, hn_hkey := h_function h key\<rparr>"
  define h' where "h' = (set_chain h1 (hn_hkey ?n AND h_mask h1) (?n # (h_table h1 ! (unat (hn_hkey ?n) mod 2 ^ k1))))
        \<lparr>h_nodecount := h_nodecount h1 + 1\<rparr>"
  have new1: "\<not> holds h1 (hn_key ?n) m" for m using new(1) relaidD(5) [OF h1(2)] by simp
  have id1: "hn_id ?n \<notin> hn_id ` set (h_nodes h1)" "hn_id ?n \<noteq> 0" "hn_hkey ?n = h_function h1 (hn_key ?n)"
    using new(2,3) relaidD(1) [OF h1(2)] fn by simp_all
  have room1: "length (h_nodes h1) < unat (h_maxcount h1)" using room(1) relaidD(2) [OF h1(2)] fn by simp
  note put = put_node [OF h1(3) c1 id1(3,2) new1 id1(1) room1 h'_def]
  have "hash_insert h n key = Some h'"
    using lt look h1(1) put(3) shape_chain(1) [OF h1(3), of "h_function h key"] fn
    by (simp add: hash_insert_def h'_def Let_def set_chain_def)
  moreover have "hash_inv h'" using put(1,2) by (auto simp: hash_inv_def)
  moreover have "mset (h_nodes h') = add_mset ?n (mset (h_nodes h))" using put(4) h1(2) by (simp add: relaid_def)
  moreover have "same_key h' = same_key h" using put(5) relaidD(4) [OF h1(2)] by simp
  ultimately show ?thesis using fn(2) by (auto simp: h'_def set_chain_def)
qed

lemma lookup_eqI:
  assumes "hash_inv h" "hash_inv h'" "\<And>m. holds h' k m \<longleftrightarrow> holds h k m"
  shows "hash_lookup h' k = hash_lookup h k"
proof -
  obtain r where r: "hash_lookup h k = Some r" using hash_lookup_total [OF assms(1)] by blast
  show ?thesis
  proof (cases r)
    case None
    then have "\<forall>m. \<not> holds h' k m" using r hash_lookup_iff(2) [OF assms(1), of k] assms(3) by simp
    then show ?thesis using r None hash_lookup_iff(2) [OF assms(2), of k] by simp
  next
    case (Some n)
    then have "holds h' k n" using r hash_lookup_iff(1) [OF assms(1), of k n] assms(3) by simp
    then show ?thesis using r Some hash_lookup_iff(1) [OF assms(2), of k n] by simp
  qed
qed

text \<open>What a lookup returns after an insertion.\<close>

lemma lookup_after_insert:
  assumes "hash_inv h" "hash_inv h'" "same_key h' = same_key h"
    "mset (h_nodes h') = add_mset n (mset (h_nodes h))"
  shows "hash_lookup h' k = (if same_key h (hn_key n) k then Some (Some n) else hash_lookup h k)"
proof -
  have s: "set (h_nodes h') = insert n (set (h_nodes h))"
    using assms(4) by (metis set_mset_add_mset_insert set_mset_mset)
  have new: "holds h' k n" if "same_key h (hn_key n) k" using that s assms(3) by (simp add: holds_def)
  have old: "holds h' k m \<longleftrightarrow> holds h k m" if "\<not> same_key h (hn_key n) k" for m
    using that s assms(3) by (auto simp: holds_def)
  show ?thesis
  proof (cases "same_key h (hn_key n) k")
    case True
    then show ?thesis using hash_lookup_iff(1) [OF assms(2)] new by simp
  next
    case False
    then show ?thesis using lookup_eqI [OF assms(1,2) old] by simp
  qed
qed

section \<open>Deleting\<close>

lemma unlink_eq:
  "n \<in> set ns \<Longrightarrow> distinct (map hn_id ns) \<Longrightarrow>
    unlink (hn_id n) ns = Some (filter (\<lambda>m. hn_id m \<noteq> hn_id n) ns) \<and>
    mset (filter (\<lambda>m. hn_id m \<noteq> hn_id n) ns) = mset ns - {#n#}"
proof (induction ns)
  case (Cons m ns)
  show ?case
  proof (cases "m = n")
    case True
    then have "\<forall>x\<in>set ns. hn_id x \<noteq> hn_id n"
      using Cons.prems by (metis distinct.simps(2) image_eqI list.simps(9) set_map)
    then have "filter (\<lambda>m. hn_id m \<noteq> hn_id n) ns = ns" by (simp add: filter_id_conv)
    then show ?thesis using True by simp
  next
    case False
    then have n: "n \<in> set ns" using Cons.prems by simp
    then have "hn_id m \<noteq> hn_id n" using Cons.prems by auto
    then show ?thesis using Cons.IH n Cons.prems False by simp
  qed
qed simp

lemma mset_concat_update:
  "i < length xs \<Longrightarrow> n \<in> set (xs ! i) \<Longrightarrow> mset ys = mset (xs ! i) - {#n#} \<Longrightarrow>
    add_mset n (mset (concat (xs[i := ys]))) = mset (concat xs)"
proof (induction xs arbitrary: i)
  case (Cons x xs)
  then show ?case by (cases i) auto
qed simp

lemma distinct_concat_nth: "distinct (map f (concat xs)) \<Longrightarrow> i < length xs \<Longrightarrow> distinct (map f (xs ! i))"
proof (induction xs arbitrary: i)
  case (Cons x xs)
  then show ?case by (cases i) auto
qed simp

text \<open>Splicing a node out of its chain.\<close>

lemma drop_node:
  assumes k: "shape k h" and c: "content h" and n: "n \<in> set (h_nodes h)"
  shows "\<exists>ns h'. chain_at h (hn_hkey n AND h_mask h) = Some ns \<and> (\<exists>ms. unlink (hn_id n) ns = Some ms \<and>
      h' = (set_chain h (hn_hkey n AND h_mask h) ms)\<lparr>h_nodecount := h_nodecount h - 1\<rparr>) \<and>
    shape k h' \<and> content h' \<and> hash_verify h' \<and> add_mset n (mset (h_nodes h')) = mset (h_nodes h) \<and>
    same_key h' = same_key h"
proof -
  let ?i = "unat (hn_hkey n) mod 2 ^ k"
  let ?ns = "h_table h ! ?i"
  let ?ms = "filter (\<lambda>m. hn_id m \<noteq> hn_id n) ?ns"
  define h' where "h' = (set_chain h (hn_hkey n AND h_mask h) ?ms)\<lparr>h_nodecount := h_nodecount h - 1\<rparr>"
  have i: "?i < length (h_table h)" "unat (hn_hkey n AND h_mask h) = ?i"
    "chain_at h (hn_hkey n AND h_mask h) = Some ?ns" using shape_chain [OF k] by auto
  have "n \<in> set ?ns" by (rule shape_node [OF k n])
  moreover have "distinct (map hn_id ?ns)"
    using c i(1) by (intro distinct_concat_nth) (auto simp: content_def h_nodes_def)
  ultimately have u: "unlink (hn_id n) ?ns = Some ?ms" "mset ?ms = mset ?ns - {#n#}"
    using unlink_eq by blast+
  have t: "h_table h' = (h_table h)[?i := ?ms]" by (simp add: h'_def set_chain_def i)
  have S: "shape k h'"
    unfolding shape_def
  proof (intro conjI allI impI ballI)
    fix j m assume "j < 2 ^ k" "m \<in> set (h_table h' ! j)"
    then show "unat (hn_hkey m) mod 2 ^ k = j"
      using k i by (cases "j = ?i") (auto simp: t shape_def)
  qed (use k in \<open>auto simp: shape_def h'_def set_chain_def\<close>)
  have m: "add_mset n (mset (h_nodes h')) = mset (h_nodes h)"
    unfolding h_nodes_def t by (rule mset_concat_update [OF i(1) \<open>n \<in> set ?ns\<close> u(2)])
  have s: "set (h_nodes h') \<subseteq> set (h_nodes h)" by (metis m mset_subset_eqD set_mset_mset subsetI union_single_eq_member
        set_mset_add_mset_insert subset_insertI)
  have sk: "same_key h' = same_key h" by (simp add: h'_def set_chain_def same_key_def fun_eq_iff)
  have len: "Suc (length (h_nodes h')) = length (h_nodes h)" by (metis m size_add_mset size_mset)
  have "mset (map hn_id (n # h_nodes h')) = mset (map hn_id (h_nodes h))" by (simp add: flip: m)
  then have "distinct (map hn_id (n # h_nodes h')) = distinct (map hn_id (h_nodes h))"
    by (rule mset_eq_imp_distinct_iff)
  then have ids: "distinct (map hn_id (h_nodes h'))" using c by (simp add: content_def)
  have f: "h_function h' = h_function h" "h_maxcount h' = h_maxcount h" "h_nodecount h' = h_nodecount h - 1"
    by (simp_all add: h'_def set_chain_def)
  have cnt: "h_nodecount h' = of_nat (length (h_nodes h'))" using c f by (simp add: content_def flip: len)
  have "content h'"
    unfolding content_def sk f(1,2)
    using c s ids cnt len by (auto simp: content_def subset_eq)
  moreover have "hash_verify h'" by (rule hash_verify_inv [OF S cnt])
  ultimately show ?thesis using i u S m sk h'_def by blast
qed

lemma lookup_own_node: "hash_inv h \<Longrightarrow> n \<in> set (h_nodes h) \<Longrightarrow> hash_lookup h (hn_key n) = Some (Some n)"
  by (simp add: hash_lookup_iff(1)) (simp add: hash_inv_def holds_self)

lemma hash_scan_delete_inv:
  assumes inv: "hash_inv h" and n: "n \<in> set (h_nodes h)"
  shows "\<exists>h'. hash_scan_delete h n = Some h' \<and> hash_inv h' \<and> same_key h' = same_key h \<and>
    add_mset n (mset (h_nodes h')) = mset (h_nodes h)"
proof -
  from inv obtain k where k: "shape k h" and c: "content h" by (auto simp: hash_inv_def)
  show ?thesis
    using drop_node [OF k c n] lookup_own_node [OF inv n] by (fastforce simp: hash_scan_delete_def hash_inv_def)
qed

lemma hash_delete_inv:
  assumes inv: "hash_inv h" and n: "n \<in> set (h_nodes h)"
  shows "\<exists>h'. hash_delete h n = Some h' \<and> hash_inv h' \<and> same_key h' = same_key h \<and>
    add_mset n (mset (h_nodes h')) = mset (h_nodes h)"
proof -
  from inv obtain k where k: "shape k h" and c: "content h" by (auto simp: hash_inv_def)
  let ?P = "h_dynamic h \<and> h_nodecount h \<le> h_lowmark h \<and> h_nodecount h > INIT_SIZE"
  obtain h1 k1 where h1: "(if ?P then shrink_table h else Some h) = Some h1" "relaid h h1" "shape k1 h1"
  proof (cases ?P)
    case True
    then have d: "h_dynamic h" and "INIT_SIZE < h_lowmark h" by auto
    moreover have low: "h_lowmark h = 2 ^ (k - 1)" "6 \<le> k" "k < 62" using k d by (auto simp: shape_def)
    ultimately have "(2 :: ulong) ^ 6 < 2 ^ (k - 1)" by (simp add: INIT_SIZE_def INIT_BITS_def)
    then have "(2 :: nat) ^ 6 < 2 ^ (k - 1)"
      unfolding word_less_nat_alt using low unat_power_2 [of 6] unat_power_2 [of "k - 1"] by simp
    then have "6 < k - 1" by (rule power_less_imp_less_exp [rotated]) simp
    moreover obtain j where j: "k = Suc j" using low by (cases k) auto
    ultimately show ?thesis using that shrink_table_inv [of j h] k c True by auto
  next
    case False
    then show ?thesis using that [of h k] k by (simp only: if_False relaid_refl simp_thms)
  qed
  have c1: "content h1" using relaid_content [OF h1(2)] c by simp
  have n1: "n \<in> set (h_nodes h1)" using relaidD(1) [OF h1(2)] n by simp
  obtain ns ms h' where d: "chain_at h1 (hn_hkey n AND h_mask h1) = Some ns" "unlink (hn_id n) ns = Some ms"
    "h' = (set_chain h1 (hn_hkey n AND h_mask h1) ms)\<lparr>h_nodecount := h_nodecount h1 - 1\<rparr>"
    "shape k1 h'" "content h'" "hash_verify h'" "add_mset n (mset (h_nodes h')) = mset (h_nodes h1)"
    "same_key h' = same_key h1"
    using drop_node [OF h1(3) c1 n1] by blast
  have "hash_delete h n = Some h'"
    using lookup_own_node [OF inv n] h1(1) d by (simp add: hash_delete_def)
  then show ?thesis
    using d h1(2) relaidD(4) [OF h1(2)] by (auto simp: hash_inv_def relaid_def)
qed

lemma lookup_after_delete:
  assumes inv: "hash_inv h" "hash_inv h'" and sk: "same_key h' = same_key h"
    and m: "add_mset n (mset (h_nodes h')) = mset (h_nodes h)"
  shows "hash_lookup h' k = (if same_key h (hn_key n) k then Some None else hash_lookup h k)"
proof -
  have s: "set (h_nodes h) = insert n (set (h_nodes h'))"
    by (metis m set_mset_add_mset_insert set_mset_mset)
  have "distinct (map hn_id (h_nodes h))" using inv by (simp add: hash_inv_def content_def)
  moreover have "distinct (map hn_id (n # h_nodes h')) = distinct (map hn_id (h_nodes h))"
    by (rule mset_eq_imp_distinct_iff) (simp flip: m)
  ultimately have out: "n \<notin> set (h_nodes h')" by auto
  have c: "content h" using inv by (simp add: hash_inv_def)
  have hn: "holds h (hn_key n) n" using holds_self [OF c] s by simp
  have gone: "\<not> holds h' k m" if "same_key h (hn_key n) k" for m
  proof
    assume "holds h' k m"
    then have "m \<in> set (h_nodes h')" "holds h k m" using s sk by (auto simp: holds_def)
    moreover have "holds h k n" using that s by (simp add: holds_def)
    ultimately show False using holds_unique [OF c] out by blast
  qed
  have old: "holds h' k m \<longleftrightarrow> holds h k m" if "\<not> same_key h (hn_key n) k" for m
    using that s sk by (auto simp: holds_def)
  show ?thesis
  proof (cases "same_key h (hn_key n) k")
    case True
    then show ?thesis using hash_lookup_iff(2) [OF inv(2)] gone by simp
  next
    case False
    then show ?thesis using lookup_eqI [OF inv old] by simp
  qed
qed

section \<open>Creating\<close>

lemma hash_create_inv:
  assumes "equivp (\<lambda>a b. f a = f b \<and> cmp a b = 0)"
  shows "\<exists>h. hash_create mx cmp f = Some h \<and> hash_inv h \<and> h_nodes h = [] \<and> h_maxcount h = mx \<and>
    same_key h = (\<lambda>a b. f a = f b \<and> cmp a b = 0)"
proof -
  define h :: "('a, 'b) hash_t" where "h = \<lparr>h_table = replicate 64 [], h_nchains = 2 ^ 6, h_nodecount = 0,
    h_maxcount = mx, h_highmark = 2 ^ (6 + 1), h_lowmark = 2 ^ (6 - 1), h_compare = cmp, h_function = f,
    h_mask = mask 6, h_dynamic = True\<rparr>"
  have S: "shape 6 h" by (auto simp: shape_def h_def)
  have "concat (replicate n []) = ([] :: ('a, 'b) hnode list)" for n by (induction n) auto
  then have e: "h_nodes h = []" unfolding h_nodes_def h_def by simp
  have sk: "same_key h = (\<lambda>a b. f a = f b \<and> cmp a b = 0)" by (simp add: same_key_def fun_eq_iff h_def)
  have zero: "h_nodecount h = 0" by (simp add: h_def)
  then have "content h" using assms by (simp add: content_def e sk)
  moreover have "hash_verify h" by (rule hash_verify_inv [OF S]) (simp add: e zero)
  moreover have "clear_table \<lparr>h_table = replicate (unat INIT_SIZE) [], h_nchains = INIT_SIZE, h_nodecount = 0,
      h_maxcount = mx, h_highmark = INIT_SIZE * 2, h_lowmark = INIT_SIZE div 2, h_compare = cmp,
      h_function = f, h_mask = INIT_MASK, h_dynamic = True\<rparr> = h"
    by (simp add: clear_table_def INIT_SIZE_def INIT_BITS_def INIT_MASK_def mask_eq_exp_minus_1 h_def)
  ultimately have "hash_create mx cmp f = Some h" "hash_inv h"
    using S by (auto simp: hash_create_def hash_inv_def)
  moreover have "h_maxcount h = mx" by (simp add: h_def)
  ultimately show ?thesis using e sk by blast
qed

section \<open>Scanning\<close>

lemma suffix_at_eq:
  assumes "distinct (map hn_id (concat nss))" "i < length nss" "nss ! i = as @ n # bs"
  shows "suffix_at (hn_id n) nss = n # bs"
  using assms
proof (induction nss arbitrary: i)
  case (Cons ns nss)
  have none: "dropWhile (\<lambda>m. hn_id m \<noteq> hn_id n) ms = []" if "hn_id n \<notin> hn_id ` set ms" for ms
    using that by (simp add: dropWhile_eq_Nil_conv image_iff) metis
  have nones: "suffix_at (hn_id n) mss = []" if "hn_id n \<notin> hn_id ` set (concat mss)" for mss
    using that none by (auto simp: suffix_at_def)
  show ?case
  proof (cases i)
    case 0
    then have ns: "ns = as @ n # bs" using Cons.prems by simp
    then have "hn_id n \<notin> hn_id ` set (concat nss)" "hn_id n \<notin> hn_id ` set as"
      using Cons.prems(1) by auto
    then have "suffix_at (hn_id n) nss = []" "dropWhile (\<lambda>m. hn_id m \<noteq> hn_id n) ns = n # bs"
      using nones by (simp_all add: ns dropWhile_append3 none dropWhile_append)
    then show ?thesis by (simp add: suffix_at_def)
  next
    case (Suc j)
    then have j: "j < length nss" "nss ! j = as @ n # bs" using Cons.prems by auto
    then have "n \<in> set (concat nss)" using nth_mem [OF j(1)] by (auto intro!: bexI [of _ "as @ n # bs"])
    then have "hn_id n \<notin> hn_id ` set ns" using Cons.prems(1) by auto
    then show ?thesis using Cons.IH j Cons.prems(1) none by (simp add: suffix_at_def)
  qed
qed simp

lemma first_chain_Some:
  "first_chain i nss = Some (j, a) \<Longrightarrow>
    \<exists>n ns. i \<le> j \<and> j - i < length nss \<and> nss ! (j - i) = n # ns \<and> a = hn_id n \<and>
      concat nss = n # ns @ concat (drop (j - i + 1) nss)"
proof (induction i nss rule: first_chain.induct)
  case (2 i ns nss)
  show ?case
  proof (cases ns)
    case Nil
    then obtain n ms where "i + 1 \<le> j" "j - (i + 1) < length nss" "nss ! (j - (i + 1)) = n # ms"
      "a = hn_id n" "concat nss = n # ms @ concat (drop (j - (i + 1) + 1) nss)"
      using 2 by auto
    then show ?thesis using Nil by (auto simp: Suc_diff_Suc nth_Cons' drop_Cons' Suc_le_eq)
  next
    case (Cons n ms)
    then show ?thesis using 2 by auto
  qed
qed simp

lemma first_chain_None: "first_chain i nss = None \<Longrightarrow> concat nss = []"
  by (induction i nss rule: first_chain.induct) (auto split: list.splits)

text \<open>A scan that stands at the node after \<open>as\<close> in chain \<open>c\<close> has the rest of the table before it.\<close>

lemma scan_loop_eq:
  assumes inv: "hash_inv h"
  shows "c < length (h_table h) \<Longrightarrow> h_table h ! c = as @ n # bs \<Longrightarrow>
    scan_loop h \<lparr>scan_chain = c, scan_next = hn_id n\<rparr> = Some (n # bs @ concat (drop (c + 1) (h_table h)))"
proof (induction "length (n # bs @ concat (drop (c + 1) (h_table h)))" arbitrary: c as n bs rule: less_induct)
  case less
  have content: "content h" using inv by (simp add: hash_inv_def)
  have mem: "m \<in> set (h_nodes h)" if "c' < length (h_table h)" "m \<in> set (h_table h ! c')" for c' m
    using that nth_mem by (fastforce simp: h_nodes_def)
  have id: "hn_id m \<noteq> 0" if "c' < length (h_table h)" "m \<in> set (h_table h ! c')" for c' m
    using contentD(2) [OF content mem [OF that]] .
  have suf: "suffix_at (hn_id n) (h_table h) = n # bs"
    using content less.prems by (intro suffix_at_eq) (auto simp: content_def h_nodes_def)
  have n0: "hn_id n \<noteq> 0" using id [of c n] less.prems by simp
  have stop: "scan_loop h \<lparr>scan_chain = c', scan_next = 0\<rparr> = Some []" for c'
    by (simp add: scan_loop.simps hash_scan_next_def)
  show ?case
  proof (cases bs)
    case (Cons m bs')
    have "scan_loop h \<lparr>scan_chain = c, scan_next = hn_id m\<rparr> =
        Some (m # bs' @ concat (drop (c + 1) (h_table h)))"
      by (rule less.hyps [of m bs' c "as @ [n]"]) (use less.prems Cons in auto)
    then show ?thesis
      using suf n0 Cons by (subst scan_loop.simps) (simp add: hash_scan_next_def)
  next
    case Nil
    let ?rest = "drop (c + 1) (h_table h)"
    show ?thesis
    proof (cases "first_chain (c + 1) ?rest")
      case None
      then have "concat ?rest = []" by (rule first_chain_None)
      then show ?thesis
        using suf n0 Nil None stop [of c] by (subst scan_loop.simps) (simp add: hash_scan_next_def)
    next
      case (Some p)
      then obtain j a where p: "first_chain (c + 1) ?rest = Some (j, a)" by (cases p) auto
      then obtain m ms where m: "c + 1 \<le> j" "j - (c + 1) < length ?rest" "?rest ! (j - (c + 1)) = m # ms"
        "a = hn_id m" "concat ?rest = m # ms @ concat (drop (j - (c + 1) + 1) ?rest)"
        using first_chain_Some [OF p] by blast
      have j: "j < length (h_table h)" "h_table h ! j = [] @ m # ms" using m by auto
      have rest: "concat ?rest = m # ms @ concat (drop (j + 1) (h_table h))"
        using m(1,5) by (simp add: drop_drop add.commute)
      have "scan_loop h \<lparr>scan_chain = j, scan_next = hn_id m\<rparr> =
          Some (m # ms @ concat (drop (j + 1) (h_table h)))"
        by (rule less.hyps [of m ms j "[]"]) (use j rest in auto)
      then show ?thesis
        using suf n0 Nil p m(4) rest by (subst scan_loop.simps) (simp add: hash_scan_next_def)
    qed
  qed
qed

lemma hash_scan_all: "hash_inv h \<Longrightarrow> hash_scan h = Some (h_nodes h)"
proof (cases "first_chain 0 (h_table h)")
  case None
  then show ?thesis
    using first_chain_None [OF None] by (simp add: hash_scan_def hash_scan_begin_def h_nodes_def scan_loop.simps hash_scan_next_def)
next
  case (Some p)
  assume inv: "hash_inv h"
  obtain j a where p: "first_chain 0 (h_table h) = Some (j, a)" using Some by (cases p) auto
  then obtain m ms where "j < length (h_table h)" "h_table h ! j = [] @ m # ms" "a = hn_id m"
    "concat (h_table h) = m # ms @ concat (drop (j + 1) (h_table h))"
    using first_chain_Some [OF p] by auto
  then show ?thesis
    using scan_loop_eq [OF inv, of j "[]" m ms] p by (simp add: hash_scan_def hash_scan_begin_def h_nodes_def)
qed

end
