(* ===== verification/KeyedTable.thy ===== *)
theory KeyedTable
  imports HashRefine
begin

text \<open>
  What the rest of the program relies on when it keeps its users, servers, channels and bans
  in a \<open>hash_t\<close>: a lookup finds what was inserted last under the same key, inserting needs
  a fresh key and room, deleting needs the entry, and neither disturbs the other keys. The
  locale states this contract; it is interpreted on the model of \<^verbatim>\<open>src/hash.c\<close>.
\<close>

section \<open>The contract\<close>

locale keyed_table =
  fixes inv :: "'t \<Rightarrow> bool"
    and same :: "'k \<Rightarrow> 'k \<Rightarrow> bool"
    and room :: "'t \<Rightarrow> 'v \<Rightarrow> bool"
    and lookup :: "'t \<Rightarrow> 'k \<Rightarrow> 'v option"
    and put :: "'t \<Rightarrow> 'k \<Rightarrow> 'v \<Rightarrow> 't option"
    and del :: "'t \<Rightarrow> 'k \<Rightarrow> 't option"
  assumes same_equiv: "equivp same"
    and lookup_same: "inv t \<Longrightarrow> same j k \<Longrightarrow> lookup t j = lookup t k"
    and put_law: "inv t \<Longrightarrow> room t v \<Longrightarrow> lookup t k = None \<Longrightarrow>
      \<exists>t'. put t k v = Some t' \<and> inv t' \<and> (\<forall>j. lookup t' j = (if same k j then Some v else lookup t j))"
    and del_law: "inv t \<Longrightarrow> lookup t k = Some v \<Longrightarrow>
      \<exists>t'. del t k = Some t' \<and> inv t' \<and> (\<forall>j. lookup t' j = (if same k j then None else lookup t j))"
begin

lemma same_refl [simp]: "same k k"
  using same_equiv by (rule equivp_reflp)

lemma put_found: "inv t \<Longrightarrow> room t v \<Longrightarrow> lookup t k = None \<Longrightarrow> put t k v = Some t' \<Longrightarrow> lookup t' k = Some v"
  using put_law [of t v k] by auto

lemma put_other:
  "inv t \<Longrightarrow> room t v \<Longrightarrow> lookup t k = None \<Longrightarrow> put t k v = Some t' \<Longrightarrow> \<not> same k j \<Longrightarrow> lookup t' j = lookup t j"
  using put_law [of t v k] by auto

lemma put_inv: "inv t \<Longrightarrow> room t v \<Longrightarrow> lookup t k = None \<Longrightarrow> put t k v = Some t' \<Longrightarrow> inv t'"
  using put_law [of t v k] by auto

lemma del_gone: "inv t \<Longrightarrow> lookup t k = Some v \<Longrightarrow> del t k = Some t' \<Longrightarrow> lookup t' k = None"
  using del_law [of t k v] by auto

lemma del_other:
  "inv t \<Longrightarrow> lookup t k = Some v \<Longrightarrow> del t k = Some t' \<Longrightarrow> \<not> same k j \<Longrightarrow> lookup t' j = lookup t j"
  using del_law [of t k v] by auto

lemma del_inv: "inv t \<Longrightarrow> lookup t k = Some v \<Longrightarrow> del t k = Some t' \<Longrightarrow> inv t'"
  using del_law [of t k v] by auto

text \<open>Deleting what was just inserted gives the old lookups back.\<close>

lemma put_del:
  assumes "inv t" "room t v" "lookup t k = None"
  shows "\<exists>t' t''. put t k v = Some t' \<and> del t' k = Some t'' \<and> inv t'' \<and> lookup t'' = lookup t"
proof -
  obtain t' where t': "put t k v = Some t'" "inv t'" "\<forall>j. lookup t' j = (if same k j then Some v else lookup t j)"
    using put_law [OF assms] by blast
  then obtain t'' where t'': "del t' k = Some t''" "inv t''" "\<forall>j. lookup t'' j = (if same k j then None else lookup t' j)"
    using del_law [of t' k v] by auto
  have "lookup t'' j = lookup t j" for j
    using t'(3) t''(3) lookup_same [OF assms(1), of k j] assms(3) by auto
  then show ?thesis using t' t'' by auto
qed

text \<open>Moving an entry to another key, as a change of nick does.\<close>

lemma move_law:
  assumes "inv t" "lookup t k = Some v" "lookup t k' = None" "\<And>t'. del t k = Some t' \<Longrightarrow> room t' v"
  shows "\<exists>t' t''. del t k = Some t' \<and> put t' k' v = Some t'' \<and> inv t'' \<and>
    (\<forall>j. lookup t'' j = (if same k' j then Some v else if same k j then None else lookup t j))"
proof -
  obtain t' where t': "del t k = Some t'" "inv t'" "\<forall>j. lookup t' j = (if same k j then None else lookup t j)"
    using del_law [OF assms(1,2)] by blast
  then have "lookup t' k' = None" using assms(3) by simp
  then show ?thesis using t' put_law [of t' v k'] assms(4) by auto
qed

end

section \<open>The hash tables provide it\<close>

text \<open>
  An entry is put under a fresh node address, so the value carries the address of the node to
  use; \<open>hash_del\<close> is the lookup followed by the deletion that every client writes.
\<close>

definition hash_put :: "('k, 'v) hash_t \<Rightarrow> 'k \<Rightarrow> addr \<times> 'v \<Rightarrow> ('k, 'v) hash_t option" where
  "hash_put h key av = hnode_create_insert (fst av) h (snd av) key"

definition hash_get :: "('k, 'v) hash_t \<Rightarrow> 'k \<Rightarrow> (addr \<times> 'v) option" where
  "hash_get h key = (case hash_lookup h key of Some (Some n) \<Rightarrow> Some (hn_id n, hn_data n) | _ \<Rightarrow> None)"

definition hash_del :: "('k, 'v) hash_t \<Rightarrow> 'k \<Rightarrow> ('k, 'v) hash_t option" where
  "hash_del h key = (case hash_lookup h key of Some (Some n) \<Rightarrow> hash_delete h n | _ \<Rightarrow> None)"

text \<open>There is room for one more node, and the address is a new one.\<close>

definition hash_room :: "('k, 'v) hash_t \<Rightarrow> addr \<times> 'v \<Rightarrow> bool" where
  "hash_room h av \<longleftrightarrow> length (h_nodes h) < unat (h_maxcount h) \<and> length (h_nodes h) < 2 ^ 61 \<and>
     fst av \<noteq> 0 \<and> fst av \<notin> hn_id ` set (h_nodes h)"

text \<open>The tables of one comparison and one hash function, which together decide what one key is.\<close>

definition keyed_by :: "('k \<Rightarrow> 'k \<Rightarrow> bool) \<Rightarrow> ('k, 'v) hash_t \<Rightarrow> bool" where
  "keyed_by same h \<longleftrightarrow> hash_inv h \<and> same_key h = same"

lemma hash_get_same:
  assumes "hash_inv h" "same_key h j k"
  shows "hash_lookup h j = hash_lookup h k"
proof -
  have c: "content h" using assms(1) by (simp add: hash_inv_def)
  have "holds h j m \<longleftrightarrow> holds h k m" for m
    using same_key_equiv [OF c] assms(2) unfolding holds_def by metis
  moreover obtain r r' where r: "hash_lookup h j = Some r" "hash_lookup h k = Some r'"
    using hash_lookup_total [OF assms(1)] by metis
  ultimately have "r = Some m \<longleftrightarrow> r' = Some m" for m
    using hash_lookup_iff(1) [OF assms(1)] by (metis option.inject)
  then show ?thesis using r by (metis not_None_eq)
qed

lemma hash_put_law:
  assumes inv: "hash_inv h" and room: "hash_room h av" and new: "hash_get h k = None"
  shows "\<exists>h'. hash_put h k av = Some h' \<and> hash_inv h' \<and> same_key h' = same_key h \<and>
    (\<forall>j. hash_get h' j = (if same_key h k j then Some av else hash_get h j))"
proof -
  define n where "n = hnode_create (fst av) k (snd av)"
  have "hash_lookup h k = Some None"
    using hash_lookup_total [OF inv, of k] new by (auto simp: hash_get_def split: option.splits)
  then have none: "\<not> holds h k m" for m using hash_lookup_iff(2) [OF inv] by blast
  have n: "hn_id n = fst av" "hn_data n = snd av" "hn_key n = k" by (simp_all add: n_def hnode_create_def)
  obtain h' where h': "hash_insert h n k = Some h'" "hash_inv h'" "same_key h' = same_key h"
    "mset (h_nodes h') = add_mset (n\<lparr>hn_key := k, hn_hkey := h_function h k\<rparr>) (mset (h_nodes h))"
    using hash_insert_inv [OF inv none, of n] room n by (auto simp: hash_room_def)
  have "hash_get h' j = (if same_key h k j then Some av else hash_get h j)" for j
    using lookup_after_insert [OF inv h'(2-4), of j] n by (simp add: hash_get_def)
  then show ?thesis using h' by (auto simp: hash_put_def hnode_create_insert_def n_def)
qed

lemma hash_del_law:
  assumes inv: "hash_inv h" and found: "hash_get h k = Some av"
  shows "\<exists>h'. hash_del h k = Some h' \<and> hash_inv h' \<and> same_key h' = same_key h \<and>
    (\<forall>j. hash_get h' j = (if same_key h k j then None else hash_get h j))"
proof -
  obtain n where n: "hash_lookup h k = Some (Some n)"
    using found by (auto simp: hash_get_def split: option.splits)
  then have hold: "n \<in> set (h_nodes h)" "same_key h (hn_key n) k"
    using hash_lookup_iff(1) [OF inv] by (auto simp: holds_def)
  obtain h' where h': "hash_delete h n = Some h'" "hash_inv h'" "same_key h' = same_key h"
    "add_mset n (mset (h_nodes h')) = mset (h_nodes h)"
    using hash_delete_inv [OF inv hold(1)] by blast
  have c: "content h" using inv by (simp add: hash_inv_def)
  have "same_key h (hn_key n) j \<longleftrightarrow> same_key h k j" for j
    using hold(2) same_key_equiv [OF c] by metis
  then have "hash_get h' j = (if same_key h k j then None else hash_get h j)" for j
    using lookup_after_delete [OF inv h'(2-4), of j] by (simp add: hash_get_def)
  then show ?thesis using n h' by (auto simp: hash_del_def)
qed

text \<open>The key of the tables the program creates: equal hash values and equal folded strings.\<close>

definition irc_key :: "string \<Rightarrow> string \<Rightarrow> bool" where
  "irc_key a b \<longleftrightarrow> hash_fun_default a = hash_fun_default b \<and> irc_eq a b"

lemma equivp_irc_key: "equivp irc_key"
  by (rule equivpI) (auto simp: irc_key_def reflp_def symp_def transp_def irc_eq_iff)

lemma irc_key_default: "(\<lambda>a b. hash_fun_default a = hash_fun_default b \<and> hash_comp_default a b = 0) = irc_key"
  by (simp add: irc_key_def hash_comp_default_def irc_eq_def fun_eq_iff)

interpretation irc_table: keyed_table "keyed_by irc_key" irc_key hash_room hash_get hash_put hash_del
proof unfold_locales
  show "equivp irc_key" by (rule equivp_irc_key)
next
  fix t :: "(string, 'a) hash_t" and j k
  show "keyed_by irc_key t \<Longrightarrow> irc_key j k \<Longrightarrow> hash_get t j = hash_get t k"
    using hash_get_same [of t j k] by (simp add: keyed_by_def hash_get_def)
next
  fix t :: "(string, 'a) hash_t" and v k
  show "keyed_by irc_key t \<Longrightarrow> hash_room t v \<Longrightarrow> hash_get t k = None \<Longrightarrow>
    \<exists>t'. hash_put t k v = Some t' \<and> keyed_by irc_key t' \<and>
      (\<forall>j. hash_get t' j = (if irc_key k j then Some v else hash_get t j))"
    using hash_put_law [of t v k] by (auto simp: keyed_by_def)
next
  fix t :: "(string, 'a) hash_t" and v k
  show "keyed_by irc_key t \<Longrightarrow> hash_get t k = Some v \<Longrightarrow>
    \<exists>t'. hash_del t k = Some t' \<and> keyed_by irc_key t' \<and>
      (\<forall>j. hash_get t' j = (if irc_key k j then None else hash_get t j))"
    using hash_del_law [of t k v] by (auto simp: keyed_by_def)
qed

text \<open>The tables the program starts with.\<close>

lemma irc_table_create:
  "\<exists>h. hash_create mx hash_comp_default hash_fun_default = Some h \<and> keyed_by irc_key h \<and> h_nodes h = [] \<and>
    h_maxcount h = mx"
  using hash_create_inv [of hash_fun_default hash_comp_default mx] equivp_irc_key
  by (auto simp: keyed_by_def irc_key_default)

section \<open>Properties\<close>

text \<open>C31. Inserting under a key that is not in the table succeeds while there is room, keeps the
  structure of the table (growing it when the high mark is reached), and from then on a lookup
  gives the new datum under every key that hashes and compares equal, and under every other
  key what it gave before.\<close>

theorem hash_insert_then_lookup:
  assumes "hash_inv h" and "hash_lookup h key = Some None"
    and "a \<noteq> 0" and "a \<notin> hn_id ` set (h_nodes h)"
    and "length (h_nodes h) < unat (h_maxcount h)" and "length (h_nodes h) < 2 ^ 61"
  shows "\<exists>h'. hnode_create_insert a h d key = Some h' \<and> hash_inv h' \<and>
    (\<forall>k. hnode_find h' k = (if same_key h key k then Some (Some d) else hnode_find h k))"
proof -
  have "hash_get h key = None" using assms(2) by (simp add: hash_get_def)
  then obtain h' where h': "hash_put h key (a, d) = Some h'" "hash_inv h'"
    "\<forall>j. hash_get h' j = (if same_key h key j then Some (a, d) else hash_get h j)"
    using hash_put_law [of h "(a, d)" key] assms by (auto simp: hash_room_def)
  have find: "hnode_find g k = Some (map_option snd (hash_get g k))" if "hash_inv g" for g :: "('a, 'b) hash_t" and k
    using hash_lookup_total [OF that, of k]
    by (auto simp: hnode_find_def hash_get_def hnode_get_def split: option.splits)
  show ?thesis
    using h' find [OF assms(1)] find [OF h'(2)] by (auto simp: hash_put_def)
qed

theorem hash_insert_then_lookup_witness:
  "\<exists>h h'. hash_create 8 hash_comp_default hash_fun_default = Some h \<and>
    hnode_create_insert 5 h (7 :: nat) ''Nick'' = Some h' \<and> hnode_find h' ''NICK'' = Some (Some 7)"
proof -
  obtain h :: "(string, nat) hash_t" where h: "hash_create 8 hash_comp_default hash_fun_default = Some h"
    "keyed_by irc_key h" "h_nodes h = []" "h_maxcount h = 8"
    using irc_table_create by blast
  have inv: "hash_inv h" "same_key h = irc_key" using h(2) by (simp_all add: keyed_by_def)
  have "hash_lookup h ''Nick'' = Some None"
    using hash_lookup_iff(2) [OF inv(1)] h(3) by (simp add: holds_def)
  moreover have "irc_key ''Nick'' ''NICK''" by code_simp
  ultimately show ?thesis
    using hash_insert_then_lookup [OF inv(1), of "''Nick''" 5 7] h inv(2) by force
qed

text \<open>C32. Deleting the node a lookup found succeeds (shrinking the table when the low mark is
  reached); the key is gone from the table and the lookups of all other keys are unchanged.\<close>

theorem hash_delete_then_lookup:
  assumes "hash_inv h" and "hash_lookup h key = Some (Some n)"
  shows "\<exists>h'. hash_delete h n = Some h' \<and> hash_inv h' \<and>
    (\<forall>k. hnode_find h' k = (if same_key h key k then Some None else hnode_find h k))"
proof -
  have "hash_get h key = Some (hn_id n, hn_data n)" using assms(2) by (simp add: hash_get_def)
  then obtain h' where h': "hash_del h key = Some h'" "hash_inv h'"
    "\<forall>j. hash_get h' j = (if same_key h key j then None else hash_get h j)"
    using hash_del_law [OF assms(1)] by blast
  have find: "hnode_find g k = Some (map_option snd (hash_get g k))" if "hash_inv g" for g :: "('a, 'b) hash_t" and k
    using hash_lookup_total [OF that, of k]
    by (auto simp: hnode_find_def hash_get_def hnode_get_def split: option.splits)
  show ?thesis
    using h' assms(2) find [OF assms(1)] find [OF h'(2)] by (auto simp: hash_del_def)
qed

theorem hash_delete_then_lookup_witness:
  "\<exists>h h' h'' n. hash_create 8 hash_comp_default hash_fun_default = Some h \<and>
    hnode_create_insert 5 h (7 :: nat) ''Nick'' = Some h' \<and> hash_lookup h' ''NICK'' = Some (Some n) \<and>
    hash_delete h' n = Some h'' \<and> hnode_find h'' ''nick'' = Some None"
proof -
  obtain h :: "(string, nat) hash_t" where h: "hash_create 8 hash_comp_default hash_fun_default = Some h"
    "keyed_by irc_key h" "h_nodes h = []" "h_maxcount h = 8"
    using irc_table_create by blast
  have "hash_get h ''Nick'' = None"
    using irc_table_create h by (auto simp: hash_get_def keyed_by_def hash_lookup_iff holds_def split: option.splits)
  then obtain h' where h': "hash_put h ''Nick'' (5, 7) = Some h'" "keyed_by irc_key h'"
    "\<forall>j. hash_get h' j = (if irc_key ''Nick'' j then Some (5, 7) else hash_get h j)"
    using irc_table.put_law [OF h(2), of "(5, 7)" "''Nick''"] h by (auto simp: hash_room_def)
  have inv: "hash_inv h'" "same_key h' = irc_key" using h'(2) by (simp_all add: keyed_by_def)
  have eq: "irc_key ''Nick'' ''NICK''" "irc_key ''NICK'' ''nick''" by code_simp+
  then obtain n where "hash_lookup h' ''NICK'' = Some (Some n)"
    using h'(3) by (fastforce simp: hash_get_def split: option.splits)
  then show ?thesis
    using hash_delete_then_lookup [OF inv(1), of "''NICK''" n] h(1) h'(1) inv(2) eq by (auto simp: hash_put_def)
qed

text \<open>Growing the table doubles the chains and shrinking halves them again; both succeed on a
  well formed table, and every lookup finds the same node before and after.\<close>

theorem hash_resize_keeps_lookups:
  assumes "shape k h" and "content h" and "k < 61"
  shows "\<exists>h' h''. grow_table h = Some h' \<and> hash_size h' = 2 * hash_size h \<and>
    shrink_table h' = Some h'' \<and> hash_size h'' = hash_size h \<and> hash_inv h' \<and> hash_inv h'' \<and>
    (\<forall>key. hash_lookup h' key = hash_lookup h key \<and> hash_lookup h'' key = hash_lookup h key)"
proof -
  obtain h' where h': "grow_table h = Some h'" "relaid h h'" "shape (Suc k) h'"
    using grow_table_inv [OF assms] by blast
  have c': "content h'" using relaid_content [OF h'(2)] assms(2) by simp
  have dyn: "h_dynamic h' = h_dynamic h" using h'(2) by (simp add: relaid_def)
  have k: "1 \<le> k" "h_dynamic h' \<Longrightarrow> 6 \<le> k" using assms(1) dyn by (auto simp: shape_def)
  obtain h'' where h'': "shrink_table h' = Some h''" "relaid h' h''" "shape k h''"
    using shrink_table_inv [OF h'(3) c' k] by blast
  have c'': "content h''" using relaid_content [OF h''(2)] c' by simp
  have inv: "hash_inv h" "hash_inv h'" "hash_inv h''"
    using assms(1,2) h'(3) c' h''(3) c'' by (auto simp: hash_inv_def)
  have "hash_lookup h' key = hash_lookup h key" "hash_lookup h'' key = hash_lookup h key" for key
    using lookup_eqI [OF inv(1,2)] lookup_eqI [OF inv(1,3)] relaidD(5) [OF h'(2)] relaidD(5) [OF h''(2)]
    by simp_all
  moreover have "hash_size h' = 2 * hash_size h" "hash_size h'' = hash_size h"
    using assms(1) h'(3) h''(3) by (simp_all add: shape_def hash_size_def)
  ultimately show ?thesis using h'(1) h''(1) inv by auto
qed

theorem hash_resize_keeps_lookups_witness:
  "\<exists>h h'. hash_create 8 hash_comp_default hash_fun_default = Some (h :: (string, nat) hash_t) \<and>
    grow_table h = Some h' \<and> hash_size h' = 2 * hash_size h"
proof -
  obtain h :: "(string, nat) hash_t" where h: "hash_create 8 hash_comp_default hash_fun_default = Some h"
    "keyed_by irc_key h" "h_nodes h = []"
    using irc_table_create by blast
  then obtain k where k: "shape k h" "content h" by (auto simp: keyed_by_def hash_inv_def)
  have "length (h_table h) = 64" using h(1) by (auto simp: hash_create_def Let_def clear_table_def INIT_SIZE_def
      INIT_BITS_def bind_eq_Some_conv)
  then have "(2 :: nat) ^ k = 2 ^ 6" using k(1) by (simp add: shape_def)
  then have "k = 6" by (rule power_inject_exp [THEN iffD1, rotated]) simp
  then show ?thesis using hash_resize_keeps_lookups [OF k] h(1) by auto
qed

text \<open>C33. A scan of a well formed table returns, visits no node twice, and visits exactly the nodes
  that a lookup of their key finds.\<close>

theorem hash_scan_visits_all:
  assumes "hash_inv h"
  shows "\<exists>ns. hash_scan h = Some ns \<and> distinct ns \<and>
    (\<forall>n. n \<in> set ns \<longleftrightarrow> hash_lookup h (hn_key n) = Some (Some n))"
proof -
  have c: "content h" using assms by (simp add: hash_inv_def)
  have "hash_lookup h (hn_key n) = Some (Some n) \<longleftrightarrow> n \<in> set (h_nodes h)" for n
    using lookup_own_node [OF assms] hash_lookup_iff(1) [OF assms] by (auto simp: holds_def)
  moreover have "distinct (h_nodes h)" using c by (auto simp: content_def distinct_map)
  ultimately show ?thesis using hash_scan_all [OF assms] by auto
qed

theorem hash_scan_visits_all_witness:
  "\<exists>h ns. hash_create 8 hash_comp_default hash_fun_default = Some (h :: (string, nat) hash_t) \<and>
    hash_scan h = Some ns"
proof -
  obtain h :: "(string, nat) hash_t" where h: "hash_create 8 hash_comp_default hash_fun_default = Some h"
    "keyed_by irc_key h"
    using irc_table_create by blast
  then show ?thesis using hash_scan_visits_all [of h] by (auto simp: keyed_by_def)
qed

lemma bracket_hash: "hash_fun_default ''#['' \<noteq> hash_fun_default ''#{''"
  by code_simp

lemma bracket_compare: "hash_comp_default ''#['' ''#{'' = 0"
  by code_simp

lemma bracket_key: "\<not> irc_key ''#['' ''#{''"
  using bracket_hash by (simp only: irc_key_def) simp

text \<open>C34. The default hash function folds only ASCII letters while the default comparison folds
  the IRC alphabet: the channel names \<open>#[\<close> and \<open>#{\<close> compare equal, but once one of them is in an
  empty table the other is still not found.\<close>

theorem hash_misses_equal_key:
  assumes "keyed_by irc_key h" and "hash_lookup h ''#{'' = Some None"
    and "hash_put h ''#['' av = Some h'" and "hash_get h ''#['' = None" and "hash_room h av"
  shows "hash_comp_default ''#['' ''#{'' = 0 \<and> hash_lookup h' ''#{'' = Some None"
proof -
  have get: "hash_get h' ''#{'' = None"
    using irc_table.put_other [OF assms(1,5,4,3) bracket_key] assms(2) by (simp add: hash_get_def)
  have inv: "hash_inv h'" using irc_table.put_inv [OF assms(1,5,4,3)] by (simp add: keyed_by_def)
  obtain r where "hash_lookup h' ''#{'' = Some r" by (rule exE [OF hash_lookup_total [OF inv]])
  with get have "hash_lookup h' ''#{'' = Some None" by (cases r) (simp_all add: hash_get_def)
  with bracket_compare show ?thesis by (rule conjI)
qed

theorem hash_misses_equal_key_witness:
  "\<exists>h h'. hash_create 8 hash_comp_default hash_fun_default = Some (h :: (string, nat) hash_t) \<and>
    hash_put h ''#['' (5, 7) = Some h' \<and> hash_lookup h' ''#{'' = Some None"
proof -
  obtain h :: "(string, nat) hash_t" where h: "hash_create 8 hash_comp_default hash_fun_default = Some h"
    "keyed_by irc_key h" "h_nodes h = []" "h_maxcount h = 8"
    using irc_table_create by blast
  have inv: "hash_inv h" using h(2) by (simp add: keyed_by_def)
  have l: "hash_lookup h k = Some None" for k
    using hash_lookup_iff(2) [OF inv] h(3) by (simp add: holds_def)
  then have g: "hash_get h ''#['' = None" by (simp add: hash_get_def)
  have room: "hash_room h (5, 7)" using h by (simp add: hash_room_def)
  obtain h' where "hash_put h ''#['' (5, 7) = Some h'" using irc_table.put_law [OF h(2) room g] by blast
  then show ?thesis using hash_misses_equal_key [OF h(2) l _ g room] h(1) by blast
qed

end
