(* ===== verification/Network.thy ===== *)
theory Network
  imports KeyedTable Misc "HOL-Library.Monad_Syntax"
begin

text \<open>
  The state of the IRC network as the core keeps it (\<^verbatim>\<open>include/neostats.h\<close>): clients (users
  and servers), channels with their members, bots and bans live at addresses of an object
  store and are found through the hash tables of \<^verbatim>\<open>src/hash.c\<close>. Address 0 is NULL and holds no
  object, so that following a null pointer, or one whose object has been freed, is
  \<open>None\<close>, like a failed assertion. A list of the program is the sequence its refinement lemmas
  speak of. The events sent to modules and the lines sent to the IRC server are appended to a
  trace; what module callbacks do is not part of the model.
\<close>

section \<open>Objects\<close>

record server =
  sv_users :: uint
  sv_awaycount :: uint
  sv_hops :: int
  sv_numeric :: int
  sv_ping :: time_t
  sv_uptime :: time_t

text \<open>\<open>u_chans\<close> holds the channel names its nodes point to.\<close>

record user =
  u_hostname :: string
  u_username :: string
  u_vhost :: string
  u_awaymsg :: string
  u_userhostmask :: string
  u_uservhostmask :: string
  u_flood :: uint
  u_is_away :: bool
  u_tslastmsg :: time_t
  u_servicestamp :: time_t
  u_modes :: string
  u_swhois :: string
  u_Umode :: uint
  u_Smode :: uint
  u_ulevel :: int
  u_chans :: "string list"
  u_bot :: addr

record client =
  c_user :: "user option"
  c_server :: "server option"
  c_name :: string
  c_name64 :: string
  c_uplinkname :: string
  c_uplink :: addr
  c_info :: string
  c_version :: string
  c_flags :: uint
  c_tsconnect :: time_t
  c_ip :: uint
  c_hostip :: string

record chanmember =
  cm_u :: addr
  cm_tsjoin :: time_t
  cm_modes :: uint

record modeparam =
  mp_mask :: uint
  mp_param :: string

record channel =
  ch_name :: string
  ch_users :: uint
  ch_neousers :: uint
  ch_persistentusers :: uint
  ch_modes :: uint
  ch_members :: "chanmember list"
  ch_topic :: string
  ch_topicowner :: string
  ch_topictime :: time_t
  ch_limit :: int
  ch_key :: string
  ch_modeparams :: "modeparam list"
  ch_creationtime :: time_t
  ch_flags :: uint

record bot =
  b_name :: string
  b_flags :: uint
  b_u :: addr
  b_module :: addr

record ban =
  ban_type :: string
  ban_user :: string
  ban_host :: string
  ban_mask :: string
  ban_reason :: string
  ban_setby :: string
  ban_tsset :: time_t
  ban_tsexpires :: time_t

datatype exclude_type = NS_EXCLUDE_HOST | NS_EXCLUDE_SERVER | NS_EXCLUDE_CHANNEL | NS_EXCLUDE_USERHOST

record exclude =
  ex_type :: exclude_type
  ex_pattern :: string
  ex_addedby :: string
  ex_reason :: string
  ex_addedon :: time_t

section \<open>Flags of include/neostats.h\<close>

definition NS_FLAG_EXCLUDED :: uint where "NS_FLAG_EXCLUDED = 0x00000001"
definition CLIENT_FLAG_ME :: uint where "CLIENT_FLAG_ME = 0x00000002"
definition CLIENT_FLAG_SYNCHED :: uint where "CLIENT_FLAG_SYNCHED = 0x00000004"
definition CLIENT_FLAG_ZOMBIE :: uint where "CLIENT_FLAG_ZOMBIE = 0x00000020"
definition CLIENT_FLAG_GOTVERSION :: uint where "CLIENT_FLAG_GOTVERSION = 0x00000040"
definition NS_FLAGS_NETJOIN :: uint where "NS_FLAGS_NETJOIN = 0x00000080"
definition CHANNEL_FLAG_ME :: uint where "CHANNEL_FLAG_ME = 0x00000002"
definition BOT_FLAG_PERSIST :: uint where "BOT_FLAG_PERSIST = 0x00000010"
definition PROTOCOL_NOQUIT :: uint where "PROTOCOL_NOQUIT = 0x00000001"
definition PROTOCOL_B64NICK :: uint where "PROTOCOL_B64NICK = 0x00004000"
definition PROTOCOL_NICKIP :: uint where "PROTOCOL_NICKIP = 0x00010000"
definition PROTOCOL_KICKPART :: uint where "PROTOCOL_KICKPART = 0x00020000"
definition PROTOCOL_EOB :: uint where "PROTOCOL_EOB = 0x00080000"
definition FEATURE_UMODECLOAK :: uint where "FEATURE_UMODECLOAK = 0x00000100"
definition UMODE_HIDE :: uint where "UMODE_HIDE = 0x00000040"

lemmas ns_flags = NS_FLAG_EXCLUDED_def CLIENT_FLAG_ME_def CLIENT_FLAG_SYNCHED_def CLIENT_FLAG_ZOMBIE_def
  CLIENT_FLAG_GOTVERSION_def NS_FLAGS_NETJOIN_def CHANNEL_FLAG_ME_def BOT_FLAG_PERSIST_def
  PROTOCOL_NOQUIT_def PROTOCOL_B64NICK_def PROTOCOL_NICKIP_def PROTOCOL_KICKPART_def PROTOCOL_EOB_def
  FEATURE_UMODECLOAK_def UMODE_HIDE_def

definition has :: "uint \<Rightarrow> uint \<Rightarrow> bool" where
  "has flags f \<longleftrightarrow> flags AND f \<noteq> 0"

definition set_flag :: "uint \<Rightarrow> uint \<Rightarrow> uint" where
  "set_flag flags f = flags OR f"

definition clear_flag :: "uint \<Rightarrow> uint \<Rightarrow> uint" where
  "clear_flag flags f = flags AND NOT f"

section \<open>Events\<close>

datatype event_kind =
    EVENT_MODULELOAD | EVENT_MODULEUNLOAD | EVENT_SERVER | EVENT_SQUIT | EVENT_PING | EVENT_PONG
  | EVENT_SIGNON | EVENT_QUIT | EVENT_NICKIP | EVENT_KILL | EVENT_LOCALKILL | EVENT_GLOBALKILL
  | EVENT_SERVERKILL | EVENT_BOTKILL | EVENT_NICK | EVENT_AWAY | EVENT_UMODE | EVENT_SMODE | EVENT_NEWCHAN
  | EVENT_DELCHAN | EVENT_JOIN | EVENT_PART | EVENT_PARTBOT | EVENT_EMPTYCHAN | EVENT_KICK | EVENT_KICKBOT
  | EVENT_TOPIC | EVENT_CMODE | EVENT_PRIVATE | EVENT_NOTICE | EVENT_CPRIVATE | EVENT_CNOTICE | EVENT_GLOBOPS
  | EVENT_CHATOPS | EVENT_WALLOPS | EVENT_CTCPVERSIONRPL | EVENT_CTCPVERSIONRPLBC | EVENT_CTCPVERSIONREQ
  | EVENT_CTCPVERSIONREQBC | EVENT_CTCPFINGERRPL | EVENT_CTCPFINGERRPLBC | EVENT_CTCPFINGERREQ
  | EVENT_CTCPFINGERREQBC | EVENT_CTCPACTIONREQ | EVENT_CTCPACTIONREQBC | EVENT_CTCPTIMERPL
  | EVENT_CTCPTIMERPLBC | EVENT_CTCPTIMEREQ | EVENT_CTCPTIMEREQBC | EVENT_CTCPPINGRPL | EVENT_CTCPPINGRPLBC
  | EVENT_CTCPPINGREQ | EVENT_CTCPPINGREQBC | EVENT_CTCPUNHANDLEDRPL | EVENT_CTCPUNHANDLEDRPLBC
  | EVENT_CTCPUNHANDLEDREQ | EVENT_CTCPUNHANDLEDREQBC | EVENT_DCCSEND | EVENT_DCCCHAT | EVENT_DCCCHATMSG
  | EVENT_ADDBAN | EVENT_DELBAN

text \<open>The part of \<^verbatim>\<open>CmdParams\<close> the core fills in.\<close>

record cmdparams =
  cp_source :: addr
  cp_target :: addr
  cp_bot :: addr
  cp_channel :: addr
  cp_param :: "string option"

definition no_params :: cmdparams where
  "no_params = \<lparr>cp_source = 0, cp_target = 0, cp_bot = 0, cp_channel = 0, cp_param = None\<rparr>"

text \<open>What leaves the core: an event to all modules or to one, or a line to the IRC server.\<close>

datatype outgoing = AllModules event_kind cmdparams | ToModule event_kind cmdparams addr | Send string "string list"

section \<open>The state\<close>

record net =
  clients :: "addr \<Rightarrow> client option"
  channels :: "addr \<Rightarrow> channel option"
  bots :: "addr \<Rightarrow> bot option"
  bans :: "addr \<Rightarrow> ban option"
  userhash :: "(string, addr) hash_t"
  serverhash :: "(string, addr) hash_t"
  channelhash :: "(string, addr) hash_t"
  bothash :: "(string, addr) hash_t"
  banhash :: "(string, addr) hash_t"
  next_addr :: addr
  usercount :: uint
  awaycount :: uint
  channelcount :: uint
  servercount :: uint
  exclude_list :: "exclude list"
  savekicker :: string
  savekickreason :: string
  trace :: "outgoing list"

text \<open>
  What stays fixed while a line is handled: the configuration, the clock, and the C library
  routines on addresses and numbers.
\<close>

record env =
  me_name :: string
  me_serviceschan :: string
  me_now :: time_t
  c_time :: time_t
  splittime :: time_t
  me_want_nickip :: bool
  me_synched :: bool
  me_versionscan :: bool
  ircd_protocol :: uint
  ircd_features :: uint
  can_send_part :: bool
  c_inet_aton :: "string \<Rightarrow> uint option"
  c_inet_ntoa :: "uint \<Rightarrow> string"
  c_htonl :: "uint \<Rightarrow> uint"
  c_strtoul :: "string \<Rightarrow> uint"
  c_strtol :: "string \<Rightarrow> int"

definition upd_client :: "addr \<Rightarrow> (client \<Rightarrow> client) \<Rightarrow> net \<Rightarrow> net option" where
  "upd_client a f n = do { c \<leftarrow> clients n a; Some (n\<lparr>clients := (clients n)(a \<mapsto> f c)\<rparr>) }"

text \<open>The \<^verbatim>\<open>user\<close> and \<^verbatim>\<open>server\<close> extension of a client.\<close>

definition user_of :: "net \<Rightarrow> addr \<Rightarrow> user option" where
  "user_of n a = do { c \<leftarrow> clients n a; c_user c }"

definition server_of :: "net \<Rightarrow> addr \<Rightarrow> server option" where
  "server_of n a = do { c \<leftarrow> clients n a; c_server c }"

definition upd_user :: "addr \<Rightarrow> (user \<Rightarrow> user) \<Rightarrow> net \<Rightarrow> net option" where
  "upd_user a f n = do { u \<leftarrow> user_of n a; upd_client a (\<lambda>c. c\<lparr>c_user := Some (f u)\<rparr>) n }"

definition upd_server :: "addr \<Rightarrow> (server \<Rightarrow> server) \<Rightarrow> net \<Rightarrow> net option" where
  "upd_server a f n = do { s \<leftarrow> server_of n a; upd_client a (\<lambda>c. c\<lparr>c_server := Some (f s)\<rparr>) n }"

definition upd_chan :: "addr \<Rightarrow> (channel \<Rightarrow> channel) \<Rightarrow> net \<Rightarrow> net option" where
  "upd_chan a f n = do { c \<leftarrow> channels n a; Some (n\<lparr>channels := (channels n)(a \<mapsto> f c)\<rparr>) }"

text \<open>A fresh address: for an object, and for the node that puts it into a table.\<close>

definition alloc :: "net \<Rightarrow> addr \<times> net" where
  "alloc n = (next_addr n, n\<lparr>next_addr := next_addr n + 1\<rparr>)"

definition free_client :: "addr \<Rightarrow> net \<Rightarrow> net" where
  "free_client a n = n\<lparr>clients := (clients n)(a := None)\<rparr>"

definition free_chan :: "addr \<Rightarrow> net \<Rightarrow> net" where
  "free_chan a n = n\<lparr>channels := (channels n)(a := None)\<rparr>"

definition emit :: "outgoing \<Rightarrow> net \<Rightarrow> net" where
  "emit x n = n\<lparr>trace := trace n @ [x]\<rparr>"

definition SendAllModuleEvent :: "event_kind \<Rightarrow> cmdparams \<Rightarrow> net \<Rightarrow> net" where
  "SendAllModuleEvent e p n = emit (AllModules e p) n"

definition SendModuleEvent :: "event_kind \<Rightarrow> cmdparams \<Rightarrow> addr \<Rightarrow> net \<Rightarrow> net" where
  "SendModuleEvent e p m n = emit (ToModule e p m) n"

section \<open>Finding objects\<close>

definition find_in :: "(string, addr) hash_t \<Rightarrow> string \<Rightarrow> addr option" where
  "find_in h key = do { r \<leftarrow> hnode_find h key; Some (case r of None \<Rightarrow> 0 | Some a \<Rightarrow> a) }"

definition FindUser :: "net \<Rightarrow> string \<Rightarrow> addr option" where
  "FindUser n nick = find_in (userhash n) nick"

definition FindServer :: "net \<Rightarrow> string \<Rightarrow> addr option" where
  "FindServer n name = find_in (serverhash n) name"

definition FindChannel :: "net \<Rightarrow> string \<Rightarrow> addr option" where
  "FindChannel n chan = find_in (channelhash n) chan"

definition FindBot :: "net \<Rightarrow> string \<Rightarrow> addr option" where
  "FindBot n bot_name = find_in (bothash n) bot_name"

definition FindClient :: "net \<Rightarrow> string option \<Rightarrow> addr option" where
  "FindClient n name =
     (case name of None \<Rightarrow> Some 0
      | Some s \<Rightarrow> do {
          c \<leftarrow> FindServer n s;
          if c = 0 then FindUser n s else Some c })"

definition flags_of :: "net \<Rightarrow> addr \<Rightarrow> uint option" where
  "flags_of n a = map_option c_flags (clients n a)"

text \<open>\<^verbatim>\<open>IsMe\<close> and its like test the pointer first.\<close>

definition client_flag :: "uint \<Rightarrow> net \<Rightarrow> addr \<Rightarrow> bool option" where
  "client_flag f n a = (if a = 0 then Some False else do { fl \<leftarrow> flags_of n a; Some (has fl f) })"

definition IsMe :: "net \<Rightarrow> addr \<Rightarrow> bool option" where
  "IsMe = client_flag CLIENT_FLAG_ME"

definition IsExcluded :: "net \<Rightarrow> addr \<Rightarrow> bool option" where
  "IsExcluded = client_flag NS_FLAG_EXCLUDED"

definition IsSynched :: "net \<Rightarrow> addr \<Rightarrow> bool option" where
  "IsSynched = client_flag CLIENT_FLAG_SYNCHED"

definition IsAway :: "net \<Rightarrow> addr \<Rightarrow> bool option" where
  "IsAway n a = (if a = 0 then Some False else do { u \<leftarrow> user_of n a; Some (u_is_away u) })"

definition IsServicesChannel :: "channel \<Rightarrow> bool" where
  "IsServicesChannel c \<longleftrightarrow> has (ch_flags c) CHANNEL_FLAG_ME"

text \<open>The capacity \<^verbatim>\<open>ULONG_MAX\<close> of the lists and tables the core creates.\<close>

definition COUNT_MAX :: ulong where "COUNT_MAX = - 1"

definition full :: "'a list \<Rightarrow> bool" where
  "full xs \<longleftrightarrow> of_nat (length xs) = COUNT_MAX"

text \<open>
  A scan whose body may change the state: \<open>step\<close> is run on the data of each node in turn, with
  the table \<open>tbl\<close> of the current state, until it asks to stop. \<open>k\<close> bounds the number of
  nodes.
\<close>

primrec scan_table ::
  "(net \<Rightarrow> (string, addr) hash_t) \<Rightarrow> (addr \<Rightarrow> net \<Rightarrow> (bool \<times> net) option) \<Rightarrow> nat \<Rightarrow> hscan_t \<Rightarrow> net \<Rightarrow> net option" where
  "scan_table tbl step 0 scan n = None"
| "scan_table tbl step (Suc k) scan n = do {
     (r, scan) \<leftarrow> hash_scan_next (tbl n) scan;
     case r of
       None \<Rightarrow> Some n
     | Some nd \<Rightarrow> do {
         (stop, n) \<leftarrow> step (hnode_get nd) n;
         if stop then Some n else scan_table tbl step k scan n } }"

section \<open>Before the start\<close>

text \<open>All static data zero; address 0 is NULL, the first object gets address 1.\<close>

definition no_table :: "(string, addr) hash_t" where
  "no_table = \<lparr>h_table = [], h_nchains = 0, h_nodecount = 0, h_maxcount = 0, h_highmark = 0, h_lowmark = 0,
     h_compare = hash_comp_default, h_function = hash_fun_default, h_mask = 0, h_dynamic = True\<rparr>"

definition blank_net :: net where
  "blank_net =
     \<lparr>clients = (\<lambda>a. None), channels = (\<lambda>c. None), bots = (\<lambda>b. None), bans = (\<lambda>b. None), userhash = no_table,
      serverhash = no_table, channelhash = no_table, bothash = no_table, banhash = no_table, next_addr = 1,
      usercount = 0, awaycount = 0, channelcount = 0, servercount = 0, exclude_list = [], savekicker = [],
      savekickreason = [], trace = []\<rparr>"

text \<open>A configuration and two objects for the concrete runs.\<close>

definition sample_env :: env where
  "sample_env = \<lparr>me_name = ''stats.net'', me_serviceschan = ''#services'', me_now = 100, c_time = 100, splittime = 300,
     me_want_nickip = False, me_synched = True, me_versionscan = False, ircd_protocol = 0, ircd_features = 0,
     can_send_part = True, c_inet_aton = (\<lambda>s. None), c_inet_ntoa = (\<lambda>a. ''0.0.0.0''), c_htonl = id,
     c_strtoul = (\<lambda>s. 0), c_strtol = (\<lambda>s. 0)\<rparr>"

definition sample_user :: "string \<Rightarrow> string \<Rightarrow> user" where
  "sample_user host hm = \<lparr>u_hostname = host, u_username = ''fish'', u_vhost = host, u_awaymsg = [], u_userhostmask = hm,
     u_uservhostmask = hm, u_flood = 0, u_is_away = False, u_tslastmsg = 0, u_servicestamp = 0, u_modes = [], u_swhois = [],
     u_Umode = 0, u_Smode = 0, u_ulevel = -1, u_chans = [], u_bot = 0\<rparr>"

definition sample_client :: "string \<Rightarrow> user option \<Rightarrow> addr \<Rightarrow> client" where
  "sample_client name u up = \<lparr>c_user = u, c_server = None, c_name = name, c_name64 = [], c_uplinkname = [], c_uplink = up,
     c_info = [], c_version = [], c_flags = 0, c_tsconnect = 0, c_ip = 0, c_hostip = ''10.0.0.1''\<rparr>"

end
