(* ===== verification/Match.thy ===== *)
theory Match
  imports CharTables "HOL-Library.Monad_Syntax"
begin

text \<open>
  \<^verbatim>\<open>src/match.c\<close>: wildcard masks. \<open>match\<close> and \<open>match_esc\<close> walk two pointers, kept here as
  indices; \<open>None\<close> is a read outside a string. \<open>collapse\<close> and \<open>collapse_esc\<close> rewrite a mask
  in place. The meaning of a mask is \<open>glob\<close>, by recursion on mask and name, and \<open>match\<close> is
  proved to decide it when the limit on the number of rounds is not reached.
\<close>

definition MATCH_MAX_CALLS :: nat where "MATCH_MAX_CALLS = 512"

text \<open>Reading the character at an index, the terminating NUL included.\<close>

definition ch_at :: "string \<Rightarrow> nat \<Rightarrow> char option" where
  "ch_at s i = (if i < length s then Some (s ! i) else if i = length s then Some NUL else None)"

record mstate =
  ms_m :: nat
  ms_n :: nat
  ms_ma :: nat
  ms_na :: nat
  ms_wild :: bool

text \<open>\<^verbatim>\<open>while (*m == '*') m++;\<close>\<close>

function skip_star :: "string \<Rightarrow> nat \<Rightarrow> nat" where
  "skip_star s i = (if i < length s \<and> s ! i = CHR ''*'' then skip_star s (i + 1) else i)"
  by pat_completeness auto
termination by (relation "measure (\<lambda>(s, i). length s - i)") auto

declare skip_star.simps [simp del]

text \<open>\<^verbatim>\<open>for (; (m > mask) && (*m == '?'); m--) ;\<close>\<close>

fun back_qm :: "string \<Rightarrow> nat \<Rightarrow> nat" where
  "back_qm s 0 = 0"
| "back_qm s (Suc i) = (if s ! Suc i = CHR ''?'' then back_qm s i else Suc i)"

text \<open>Back to the last star, one character further in the name.\<close>

definition retry :: "mstate \<Rightarrow> mstate" where
  "retry st = st\<lparr>ms_m := ms_ma st, ms_n := ms_na st + 1, ms_na := ms_na st + 1\<rparr>"

definition match_compare :: "string \<Rightarrow> string \<Rightarrow> mstate \<Rightarrow> (int + mstate) option" where
  "match_compare mask' name st = do {
     cm \<leftarrow> ch_at mask' (ms_m st);
     cn \<leftarrow> ch_at name (ms_n st);
     if ToLower cm \<noteq> ToLower cn \<and> cm \<noteq> CHR ''?''
     then (if \<not> ms_wild st then Some (Inl 0) else Some (Inr (retry st)))
     else Some (Inr (st\<lparr>ms_m := (if cm \<noteq> NUL then ms_m st + 1 else ms_m st),
                        ms_n := (if cn \<noteq> NUL then ms_n st + 1 else ms_n st)\<rparr>))
   }"

text \<open>The part of a round after the stars, if any, have been passed.\<close>

definition match_rest :: "string \<Rightarrow> string \<Rightarrow> mstate \<Rightarrow> (int + mstate) option" where
  "match_rest mask' name st = do {
     cm \<leftarrow> ch_at mask' (ms_m st);
     cn \<leftarrow> ch_at name (ms_n st);
     if cm = NUL then
       (if cn = NUL then Some (Inl 1)
        else if ms_m st = 0 then None
        else (let j = back_qm mask' (ms_m st - 1)
              in if mask' ! j = CHR ''*'' \<and> j > 0 then Some (Inl 1)
                 else if \<not> ms_wild st then Some (Inl 0)
                 else match_compare mask' name (retry st)))
     else if cn = NUL then
       do { c \<leftarrow> ch_at mask' (skip_star mask' (ms_m st)); Some (Inl (if c = NUL then 1 else 0)) }
     else match_compare mask' name st
   }"

text \<open>One round of the loop: the value returned, or the next state.\<close>

definition match_step :: "string \<Rightarrow> string \<Rightarrow> mstate \<Rightarrow> (int + mstate) option" where
  "match_step mask' name st = do {
     c \<leftarrow> ch_at mask' (ms_m st);
     match_rest mask' name
       (if c = CHR ''*''
        then st\<lparr>ms_m := skip_star mask' (ms_m st), ms_wild := True,
                ms_ma := skip_star mask' (ms_m st), ms_na := ms_n st\<rparr>
        else st)
   }"

text \<open>The argument \<open>k\<close> counts the rounds that are left.\<close>

fun match_loop :: "string \<Rightarrow> string \<Rightarrow> nat \<Rightarrow> mstate \<Rightarrow> int option" where
  "match_loop mask' name 0 st = Some 0"
| "match_loop mask' name (Suc k) st =
     (case match_step mask' name st of
        None \<Rightarrow> None
      | Some (Inl r) \<Rightarrow> Some r
      | Some (Inr st') \<Rightarrow> match_loop mask' name k st')"

definition match :: "string \<Rightarrow> string \<Rightarrow> int option" where
  "match mask' name =
     match_loop mask' name MATCH_MAX_CALLS \<lparr>ms_m = 0, ms_n = 0, ms_ma = 0, ms_na = 0, ms_wild = False\<rparr>"

section \<open>Escapes\<close>

record mestate = mstate +
  ms_quote :: nat

definition esc_retry :: "mestate \<Rightarrow> mestate" where
  "esc_retry st = st\<lparr>ms_m := ms_ma st, ms_n := ms_na st + 1, ms_na := ms_na st + 1\<rparr>"

definition esc_compare :: "string \<Rightarrow> string \<Rightarrow> mestate \<Rightarrow> (int + mestate) option" where
  "esc_compare mask' name st = do {
     cm \<leftarrow> ch_at mask' (ms_m st);
     cn \<leftarrow> ch_at name (ms_n st);
     if ToLower cm \<noteq> ToLower cn \<and> \<not> (ms_quote st = 0 \<and> cm = CHR ''?'')
     then (if \<not> ms_wild st then Some (Inl 0) else Some (Inr (esc_retry st)))
     else Some (Inr (st\<lparr>ms_m := (if cm \<noteq> NUL then ms_m st + 1 else ms_m st),
                        ms_n := (if cn \<noteq> NUL then ms_n st + 1 else ms_n st)\<rparr>))
   }"

text \<open>The part of a round after the star, if any, has been passed.\<close>

definition esc_rest :: "string \<Rightarrow> string \<Rightarrow> mestate \<Rightarrow> (int + mestate) option" where
  "esc_rest mask' name st = do {
     cm \<leftarrow> ch_at mask' (ms_m st);
     cn \<leftarrow> ch_at name (ms_n st);
     if cm = NUL then
       (if cn = NUL then Some (Inl 1)
        else if ms_quote st \<noteq> 0 then Some (Inl 0)
        else if ms_m st = 0 then None
        else (let j = back_qm mask' (ms_m st - 1)
              in if mask' ! j = CHR ''*'' \<and> j > 0 then Some (Inl 1)
                 else if \<not> ms_wild st then Some (Inl 0)
                 else esc_compare mask' name (esc_retry st)))
     else if cn = NUL then
       (if ms_quote st \<noteq> 0 then Some (Inl 0)
        else do { c \<leftarrow> ch_at mask' (skip_star mask' (ms_m st)); Some (Inl (if c = NUL then 1 else 0)) })
     else esc_compare mask' name st
   }"

definition esc_step :: "string \<Rightarrow> string \<Rightarrow> mestate \<Rightarrow> (int + mestate) option" where
  "esc_step mask' name st = do {
     let st = st\<lparr>ms_quote := (if ms_quote st \<noteq> 0 then ms_quote st + 1 else 0)\<rparr>;
     let st = (if ms_quote st = 3 then st\<lparr>ms_quote := 0\<rparr> else st);
     c \<leftarrow> ch_at mask' (ms_m st);
     if c = CHR 0x5C \<and> ms_quote st = 0
     then Some (Inr (st\<lparr>ms_m := ms_m st + 1, ms_quote := 1\<rparr>))
     else if ms_quote st = 0 \<and> c = CHR ''*''
     then do {
       let m = skip_star mask' (ms_m st);
       c2 \<leftarrow> ch_at mask' m;
       if c2 = CHR 0x5C
       then do {
         c3 \<leftarrow> ch_at mask' (m + 1);
         if c3 = NUL then Some (Inl 0)
         else esc_rest mask' name (st\<lparr>ms_m := m + 1, ms_quote := 2, ms_wild := True, ms_ma := m + 1, ms_na := ms_n st\<rparr>)
       }
       else esc_rest mask' name (st\<lparr>ms_m := m, ms_wild := True, ms_ma := m, ms_na := ms_n st\<rparr>)
     }
     else esc_rest mask' name st
   }"

fun esc_loop :: "string \<Rightarrow> string \<Rightarrow> nat \<Rightarrow> mestate \<Rightarrow> int option" where
  "esc_loop mask' name 0 st = Some 0"
| "esc_loop mask' name (Suc k) st =
     (case esc_step mask' name st of
        None \<Rightarrow> None
      | Some (Inl r) \<Rightarrow> Some r
      | Some (Inr st') \<Rightarrow> esc_loop mask' name k st')"

definition match_esc :: "string \<Rightarrow> string \<Rightarrow> int option" where
  "match_esc mask' name =
     esc_loop mask' name MATCH_MAX_CALLS
       \<lparr>ms_m = 0, ms_n = 0, ms_ma = 0, ms_na = 0, ms_wild = False, ms_quote = 0\<rparr>"

section \<open>Collapsing\<close>

text \<open>\<open>star\<close> is bit 1 of \<^verbatim>\<open>f\<close>: the last character written was a star.\<close>

fun collapse_loop :: "bool \<Rightarrow> string \<Rightarrow> string" where
  "collapse_loop star [] = []"
| "collapse_loop star (c # cs) =
     (if c = CHR ''*'' then (if star then collapse_loop True cs else CHR ''*'' # collapse_loop True cs)
      else c # collapse_loop False cs)"

definition collapse :: "string option \<Rightarrow> string option" where
  "collapse pattern = map_option (collapse_loop False) pattern"

text \<open>\<open>esc\<close> is bit 2: the last character was a backslash that escapes the next.\<close>

fun collapse_esc_loop :: "bool \<Rightarrow> bool \<Rightarrow> string \<Rightarrow> string" where
  "collapse_esc_loop star esc [] = []"
| "collapse_esc_loop star esc (c # cs) =
     (if \<not> esc \<and> c = CHR ''*''
      then (if star then collapse_esc_loop True esc cs else CHR ''*'' # collapse_esc_loop True esc cs)
      else if \<not> esc \<and> c = CHR 0x5C then CHR 0x5C # collapse_esc_loop star True cs
      else c # collapse_esc_loop False False cs)"

definition collapse_esc :: "string option \<Rightarrow> string option" where
  "collapse_esc pattern = map_option (collapse_esc_loop False False) pattern"

section \<open>The meaning of a mask\<close>

fun glob :: "string \<Rightarrow> string \<Rightarrow> bool" where
  "glob [] n = (n = [])"
| "glob (c # m) n =
     (if c = CHR ''*'' then glob m n \<or> (case n of [] \<Rightarrow> False | d # ds \<Rightarrow> glob (c # m) ds)
      else case n of [] \<Rightarrow> False | d # ds \<Rightarrow> (c = CHR ''?'' \<or> ToLower c = ToLower d) \<and> glob m ds)"

lemma glob_star_iff: "glob (CHR ''*'' # p) n \<longleftrightarrow> (\<exists>k\<le>length n. glob p (drop k n))"
proof (induction n)
  case (Cons d n)
  have "(\<exists>k\<le>length (d # n). glob p (drop k (d # n))) \<longleftrightarrow>
      glob p (d # n) \<or> (\<exists>k\<le>length n. glob p (drop k n))"
    by (metis Suc_le_mono drop0 drop_Suc_Cons le0 length_Cons not0_implies_Suc)
  then show ?case using Cons by simp
qed simp

lemma glob_star_drop: "glob (CHR ''*'' # p) (drop k n) \<Longrightarrow> glob (CHR ''*'' # p) n"
proof (cases "k \<le> length n")
  case True
  assume "glob (CHR ''*'' # p) (drop k n)"
  then obtain j where "j \<le> length n - k" "glob p (drop (j + k) n)"
    unfolding glob_star_iff by (auto simp: add.commute)
  then show ?thesis using True unfolding glob_star_iff by (intro exI [of _ "j + k"]) (auto simp del: glob.simps)
next
  case False
  assume "glob (CHR ''*'' # p) (drop k n)"
  then have "glob p (drop (length n) n)" using False by simp
  then show ?thesis unfolding glob_star_iff by blast
qed

lemma glob_star_star: "glob (CHR ''*'' # CHR ''*'' # p) n \<longleftrightarrow> glob (CHR ''*'' # p) n"
proof
  assume "glob (CHR ''*'' # CHR ''*'' # p) n"
  then obtain k where "glob (CHR ''*'' # p) (drop k n)" unfolding glob_star_iff [of "CHR ''*'' # p"] by blast
  then show "glob (CHR ''*'' # p) n" by (rule glob_star_drop)
next
  assume "glob (CHR ''*'' # p) n"
  then show "glob (CHR ''*'' # CHR ''*'' # p) n" unfolding glob_star_iff [of "CHR ''*'' # p"] by force
qed

lemma glob_stars: "glob (CHR ''*'' # replicate j CHR ''*'' @ p) n \<longleftrightarrow> glob (CHR ''*'' # p) n"
  by (induction j) (simp_all add: glob_star_star del: glob.simps)

text \<open>Characters that match one by one.\<close>

definition lit :: "string \<Rightarrow> string \<Rightarrow> bool" where
  "lit ps ns \<longleftrightarrow> list_all2 (\<lambda>c d. c = CHR ''?'' \<or> ToLower c = ToLower d) ps ns"

lemma lit_length: "lit ps ns \<Longrightarrow> length ps = length ns"
  by (simp add: lit_def list_all2_lengthD)

lemma glob_lit_app:
  "CHR ''*'' \<notin> set ps \<Longrightarrow> glob (ps @ q) n \<longleftrightarrow>
    length ps \<le> length n \<and> lit ps (take (length ps) n) \<and> glob q (drop (length ps) n)"
proof (induction ps arbitrary: n)
  case (Cons c ps)
  then show ?case by (cases n) (auto simp: lit_def)
qed (simp add: lit_def)

text \<open>A star-free part that has been matched as early as possible need not be matched again later.\<close>

lemma glob_greedy:
  assumes "CHR ''*'' \<notin> set ps" and "lit ps ns"
  shows "glob (CHR ''*'' # ps @ CHR ''*'' # q) (ns @ rest) \<longleftrightarrow> glob (CHR ''*'' # q) rest"
proof
  assume "glob (CHR ''*'' # ps @ CHR ''*'' # q) (ns @ rest)"
  then obtain k where "glob (ps @ CHR ''*'' # q) (drop k (ns @ rest))"
    unfolding glob_star_iff [of "ps @ CHR ''*'' # q"] by blast
  then have "glob (CHR ''*'' # q) (drop (length ps) (drop k (ns @ rest)))"
    using glob_lit_app [OF assms(1)] by blast
  also have "drop (length ps) (drop k (ns @ rest)) = drop k (drop (length ps) (ns @ rest))"
    by (simp only: drop_drop add.commute)
  also have "drop (length ps) (ns @ rest) = rest"
    using lit_length [OF assms(2)] by simp
  finally show "glob (CHR ''*'' # q) rest" by (rule glob_star_drop)
next
  assume "glob (CHR ''*'' # q) rest"
  then have "glob (ps @ CHR ''*'' # q) (ns @ rest)"
    using assms lit_length [OF assms(2)] by (simp add: glob_lit_app del: glob.simps)
  then show "glob (CHR ''*'' # ps @ CHR ''*'' # q) (ns @ rest)"
    by (auto simp: glob_star_iff [of "ps @ CHR ''*'' # q"] intro!: exI [of _ 0] simp del: glob.simps)
qed

section \<open>Collapsing does not change the meaning\<close>

lemma collapse_loop_glob:
  "glob (collapse_loop False p) n = glob p n \<and>
   glob (CHR ''*'' # collapse_loop True p) n = glob (CHR ''*'' # p) n"
proof (induction p arbitrary: n)
  case (Cons c p)
  show ?case
  proof (cases "c = CHR ''*''")
    case True
    then show ?thesis using Cons.IH [of n] by (simp add: glob_star_star del: glob.simps)
  next
    case False
    have eq: "glob (c # collapse_loop False p) k = glob (c # p) k" for k
      using False Cons.IH by (auto split: list.splits)
    then show ?thesis using False by (simp add: glob_star_iff del: glob.simps)
  qed
qed simp

lemma collapse_glob: "collapse (Some p) = Some q \<Longrightarrow> glob q n = glob p n"
  using collapse_loop_glob by (auto simp: collapse_def)

lemma collapse_idem: "collapse_loop b (collapse_loop b p) = collapse_loop b p"
  by (induction p arbitrary: b) auto

lemma collapse_length: "length (collapse_loop b p) \<le> length p"
  by (induction p arbitrary: b) (auto intro: le_SucI)

section \<open>match decides the meaning of the mask\<close>

text \<open>
  What holds at the top of the loop. Before the first star nothing has been skipped; after it,
  the mask from \<open>ma\<close> to \<open>m\<close> has matched the name from \<open>na\<close> to \<open>n\<close> character by character.
\<close>

definition match_inv :: "string \<Rightarrow> string \<Rightarrow> mstate \<Rightarrow> bool" where
  "match_inv mk name st \<longleftrightarrow>
     ms_m st \<le> length mk \<and> ms_n st \<le> length name \<and>
     (if ms_wild st
      then 0 < ms_ma st \<and> ms_ma st \<le> ms_m st \<and> ms_na st \<le> ms_n st \<and> mk ! (ms_ma st - 1) = CHR ''*'' \<and>
        (\<exists>ps ns. drop (ms_ma st) mk = ps @ drop (ms_m st) mk \<and> drop (ms_na st) name = ns @ drop (ms_n st) name \<and>
           CHR ''*'' \<notin> set ps \<and> lit ps ns) \<and>
        (ms_ma st < length mk \<longrightarrow> mk ! ms_ma st \<noteq> CHR ''*'') \<and>
        (glob mk name \<longleftrightarrow> glob (CHR ''*'' # drop (ms_ma st) mk) (drop (ms_na st) name))
      else ms_ma st = 0 \<and> ms_na st = 0 \<and> ms_n st \<le> ms_m st \<and> CHR ''*'' \<notin> set (take (ms_m st) mk) \<and>
        (glob mk name \<longleftrightarrow> glob (drop (ms_m st) mk) (drop (ms_n st) name)))"

text \<open>How many rounds are left at most.\<close>

definition rounds :: "string \<Rightarrow> string \<Rightarrow> mstate \<Rightarrow> nat" where
  "rounds mk name st =
     ((length mk - ms_ma st) + (length name - ms_na st)) * (length mk + 2) +
     (length mk + 1 - (ms_n st - ms_na st))"

lemma skip_star_spec:
  "i < length s \<Longrightarrow> s ! i = CHR ''*'' \<Longrightarrow>
    i < skip_star s i \<and> skip_star s i \<le> length s \<and>
    drop i s = CHR ''*'' # replicate (skip_star s i - i - 1) CHR ''*'' @ drop (skip_star s i) s \<and>
    s ! (skip_star s i - 1) = CHR ''*'' \<and>
    (skip_star s i < length s \<longrightarrow> s ! skip_star s i \<noteq> CHR ''*'')"
proof (induction s i rule: skip_star.induct)
  case (1 s i)
  have d: "drop i s = CHR ''*'' # drop (i + 1) s" using 1(2,3) by (simp add: Cons_nth_drop_Suc flip: 1(3))
  have step: "skip_star s i = skip_star s (i + 1)" using 1(2,3) by (subst skip_star.simps) simp
  show ?case
  proof (cases "i + 1 < length s \<and> s ! (i + 1) = CHR ''*''")
    case True
    let ?j = "skip_star s (i + 1)"
    have IH: "i + 1 < ?j" "?j \<le> length s"
      "drop (i + 1) s = CHR ''*'' # replicate (?j - (i + 1) - 1) CHR ''*'' @ drop ?j s"
      "s ! (?j - 1) = CHR ''*''" "?j < length s \<longrightarrow> s ! ?j \<noteq> CHR ''*''"
      using 1(1) 1(2,3) True by auto
    have "replicate (?j - i - 1) CHR ''*'' = CHR ''*'' # replicate (?j - (i + 1) - 1) (CHR ''*'')"
      using IH(1) by (cases "?j - i - 1") auto
    then show ?thesis using IH d step by simp
  next
    case False
    then have "skip_star s (i + 1) = i + 1" by (subst skip_star.simps) auto
    then show ?thesis using step d 1(2,3) False by auto
  qed
qed

lemma skip_star_none: "\<not> (i < length s \<and> s ! i = CHR ''*'') \<Longrightarrow> skip_star s i = i"
  by (subst skip_star.simps) auto

lemma back_qm_spec:
  "back_qm s i \<le> i \<and> (\<forall>j. back_qm s i < j \<and> j \<le> i \<longrightarrow> s ! j = CHR ''?'')"
  by (induction i) (auto simp: le_Suc_eq)

lemma ch_at_eq: "i \<le> length s \<Longrightarrow> ch_at s i = Some (deref (drop i s))"
  by (auto simp: ch_at_def deref_def Cons_nth_drop_Suc[symmetric] split: list.splits)

lemma inv_glob_wild:
  assumes "match_inv mk name st" "ms_wild st"
  obtains ps ns where "drop (ms_ma st) mk = ps @ drop (ms_m st) mk" "drop (ms_na st) name = ns @ drop (ms_n st) name"
    "CHR ''*'' \<notin> set ps" "lit ps ns" "length ps = ms_m st - ms_ma st" "length ns = ms_n st - ms_na st"
    "glob mk name \<longleftrightarrow> glob (CHR ''*'' # ps @ drop (ms_m st) mk) (ns @ drop (ms_n st) name)"
proof -
  from assms obtain ps ns where *: "drop (ms_ma st) mk = ps @ drop (ms_m st) mk"
    "drop (ms_na st) name = ns @ drop (ms_n st) name" "CHR ''*'' \<notin> set ps" "lit ps ns"
    and le: "ms_m st \<le> length mk" "ms_n st \<le> length name" "ms_ma st \<le> ms_m st" "ms_na st \<le> ms_n st"
    and g: "glob mk name \<longleftrightarrow> glob (CHR ''*'' # drop (ms_ma st) mk) (drop (ms_na st) name)"
    by (auto simp: match_inv_def simp del: glob.simps)
  have "length ps = ms_m st - ms_ma st" "length ns = ms_n st - ms_na st"
    using arg_cong [OF *(1), of length] arg_cong [OF *(2), of length] le by auto
  then show thesis using that * g by simp
qed

lemma rounds_less: "A < (B :: nat) \<Longrightarrow> x \<le> L \<Longrightarrow> A * (L + 2) + (L + 1 - y) < B * (L + 2) + (L + 1 - x)"
proof -
  assume "A < B" "x \<le> L"
  then have "(A + 1) * (L + 2) \<le> B * (L + 2)" by (intro mult_le_mono1) simp
  with \<open>x \<le> L\<close> show ?thesis by (simp add: algebra_simps)
qed

text \<open>Passing a run of stars.\<close>

lemma star_step:
  assumes inv: "match_inv mk name st" and star: "ms_m st < length mk" "mk ! ms_m st = CHR ''*''"
  defines "m \<equiv> skip_star mk (ms_m st)"
  defines "st' \<equiv> st\<lparr>ms_m := m, ms_wild := True, ms_ma := m, ms_na := ms_n st\<rparr>"
  shows "match_inv mk name st'" "rounds mk name st' < rounds mk name st"
proof -
  let ?r = "drop (ms_n st) name"
  note sp = skip_star_spec [OF star, folded m_def]
  have n: "ms_n st \<le> length name" "ms_m st \<le> length mk" using inv by (auto simp: match_inv_def simp del: glob.simps)
  have dm: "drop (ms_m st) mk = CHR ''*'' # replicate (m - ms_m st - 1) CHR ''*'' @ drop m mk" using sp by blast
  have g: "glob mk name \<longleftrightarrow> glob (CHR ''*'' # drop m mk) ?r"
  proof (cases "ms_wild st")
    case True
    then obtain ps ns where w: "CHR ''*'' \<notin> set ps" "lit ps ns"
      "glob mk name \<longleftrightarrow> glob (CHR ''*'' # ps @ drop (ms_m st) mk) (ns @ ?r)"
      using inv_glob_wild [OF inv] by metis
    then have "glob mk name \<longleftrightarrow> glob (CHR ''*'' # replicate (m - ms_m st - 1) CHR ''*'' @ drop m mk) ?r"
      using glob_greedy [OF w(1,2)] dm by simp
    then show ?thesis by (simp only: glob_stars)
  next
    case False
    then have "glob mk name \<longleftrightarrow> glob (drop (ms_m st) mk) ?r"
      using inv by (simp add: match_inv_def del: glob.simps)
    then show ?thesis by (simp only: dm glob_stars)
  qed
  have wild: "ms_ma st < m" "ms_na st \<le> ms_n st" "ms_n st - ms_na st \<le> length mk"
  proof -
    show "ms_ma st < m" "ms_na st \<le> ms_n st"
      using inv sp by (auto simp: match_inv_def simp del: glob.simps split: if_splits)
    show "ms_n st - ms_na st \<le> length mk"
    proof (cases "ms_wild st")
      case True
      then obtain ps ns where "lit ps ns" "length ps = ms_m st - ms_ma st" "length ns = ms_n st - ms_na st"
        using inv_glob_wild [OF inv] by metis
      then show ?thesis using lit_length n(2) by (metis diff_le_self le_trans)
    next
      case False
      then show ?thesis using inv n(2) by (auto simp: match_inv_def simp del: glob.simps)
    qed
  qed
  show "match_inv mk name st'"
    using sp n g by (auto simp: match_inv_def st'_def lit_def simp del: glob.simps)
  have "(length mk - m) + (length name - ms_n st) < (length mk - ms_ma st) + (length name - ms_na st)"
    using wild sp n by linarith
  from rounds_less [OF this wild(3), of 0] show "rounds mk name st' < rounds mk name st"
    by (simp add: rounds_def st'_def)
qed

text \<open>Going back to the last star.\<close>

lemma retry_step:
  assumes inv: "match_inv mk name st" and wild: "ms_wild st" and n: "ms_na st < length name"
    and no: "\<not> glob (drop (ms_ma st) mk) (drop (ms_na st) name) \<or> ms_ma st = length mk"
    and room: "ms_n st - ms_na st \<le> length mk"
  shows "match_inv mk name (retry st)" "rounds mk name (retry st) < rounds mk name st"
proof -
  have d: "drop (ms_na st) name = name ! ms_na st # drop (ms_na st + 1) name"
    using n by (simp add: Cons_nth_drop_Suc)
  have "glob mk name \<longleftrightarrow> glob (CHR ''*'' # drop (ms_ma st) mk) (drop (ms_na st) name)"
    using inv wild by (simp add: match_inv_def del: glob.simps)
  also have "\<dots> \<longleftrightarrow> glob (drop (ms_ma st) mk) (drop (ms_na st) name) \<or>
      glob (CHR ''*'' # drop (ms_ma st) mk) (drop (ms_na st + 1) name)"
    unfolding d by simp
  also have "\<dots> \<longleftrightarrow> glob (CHR ''*'' # drop (ms_ma st) mk) (drop (ms_na st + 1) name)"
  proof (cases "ms_ma st = length mk")
    case True
    then have "glob (CHR ''*'' # drop (ms_ma st) mk) x" for x
      unfolding glob_star_iff by (intro exI [of _ "length x"]) simp
    then show ?thesis by blast
  qed (use no in blast)
  finally show "match_inv mk name (retry st)"
    using inv wild n by (auto simp: match_inv_def retry_def lit_def simp del: glob.simps)
  have "(length mk - ms_ma st) + (length name - (ms_na st + 1)) < (length mk - ms_ma st) + (length name - ms_na st)"
    using n by linarith
  from rounds_less [OF this room, of 0] show "rounds mk name (retry st) < rounds mk name st"
    by (simp add: rounds_def retry_def)
qed

lemma inv_room: "match_inv mk name st \<Longrightarrow> ms_na st \<le> ms_n st \<and> ms_n st - ms_na st \<le> length mk - ms_ma st"
proof (cases "ms_wild st")
  case True
  assume inv: "match_inv mk name st"
  then obtain ps ns where "lit ps ns" "length ps = ms_m st - ms_ma st" "length ns = ms_n st - ms_na st"
    using inv_glob_wild [OF inv True] by metis
  then have "ms_n st - ms_na st = ms_m st - ms_ma st" using lit_length by metis
  then show ?thesis using inv True by (auto simp: match_inv_def simp del: glob.simps)
qed (auto simp: match_inv_def simp del: glob.simps)

definition good_outcome :: "string \<Rightarrow> string \<Rightarrow> mstate \<Rightarrow> (int + mstate) option \<Rightarrow> bool" where
  "good_outcome mk name st r \<longleftrightarrow>
     (case r of None \<Rightarrow> False
      | Some (Inl v) \<Rightarrow> v = (if glob mk name then 1 else 0)
      | Some (Inr st') \<Rightarrow> match_inv mk name st' \<and> rounds mk name st' < rounds mk name st)"

lemma good_outcome_mono:
  "good_outcome mk name st r \<Longrightarrow> rounds mk name st \<le> rounds mk name st0 \<Longrightarrow> good_outcome mk name st0 r"
  by (auto simp: good_outcome_def split: option.splits sum.splits)

lemma ToLower_NUL: "ToLower c = ToLower NUL \<longleftrightarrow> c = NUL"
  by (auto simp: ToLower_eq)

lemma retry_none: "ms_ma st \<le> length mk \<Longrightarrow> ms_m (retry st) = ms_ma st \<and> ms_n (retry st) = ms_na st + 1 \<and>
    ms_na (retry st) = ms_na st + 1 \<and> ms_ma (retry st) = ms_ma st \<and> ms_wild (retry st) = ms_wild st"
  by (simp add: retry_def)

lemma drop_deref:
  assumes "i < length s"
  shows "drop i s = deref (drop i s) # drop (i + 1) s"
proof -
  have "drop i s = s ! i # drop (i + 1) s" using assms by (simp add: Cons_nth_drop_Suc)
  then show ?thesis by (metis deref_simps(2))
qed

text \<open>Two characters match: both pointers move on.\<close>

lemma compare_hit:
  assumes inv: "match_inv mk name st" and m: "ms_m st < length mk" "mk ! ms_m st = c" "c \<noteq> CHR ''*''"
    and n: "ms_n st < length name" "name ! ms_n st = d" and hit: "ToLower c = ToLower d \<or> c = CHR ''?''"
  defines "st' \<equiv> st\<lparr>ms_m := ms_m st + 1, ms_n := ms_n st + 1\<rparr>"
  shows "match_inv mk name st'" "rounds mk name st' < rounds mk name st"
proof -
  have dm: "drop (ms_m st) mk = c # drop (ms_m st + 1) mk" using m by (simp add: Cons_nth_drop_Suc flip: m(2))
  have dn: "drop (ms_n st) name = d # drop (ms_n st + 1) name" using n by (simp add: Cons_nth_drop_Suc flip: n(2))
  show "match_inv mk name st'"
  proof (cases "ms_wild st")
    case True
    then obtain ps ns where w: "drop (ms_ma st) mk = ps @ drop (ms_m st) mk"
      "drop (ms_na st) name = ns @ drop (ms_n st) name" "CHR ''*'' \<notin> set ps" "lit ps ns"
      using inv_glob_wild [OF inv] by metis
    then have "drop (ms_ma st) mk = (ps @ [c]) @ drop (ms_m st + 1) mk"
      "drop (ms_na st) name = (ns @ [d]) @ drop (ms_n st + 1) name"
      using dm dn by simp_all
    moreover have "CHR ''*'' \<notin> set (ps @ [c])" "lit (ps @ [c]) (ns @ [d])"
      using w(3,4) m(3) hit lit_length [OF w(4)] by (auto simp: lit_def list_all2_append)
    ultimately have "\<exists>ps ns. drop (ms_ma st) mk = ps @ drop (ms_m st + 1) mk \<and>
        drop (ms_na st) name = ns @ drop (ms_n st + 1) name \<and> CHR ''*'' \<notin> set ps \<and> lit ps ns"
      by blast
    then show ?thesis
      using inv True m(1) n(1) by (simp add: match_inv_def st'_def del: glob.simps)
  next
    case False
    have "glob (drop (ms_m st) mk) (drop (ms_n st) name) \<longleftrightarrow>
        glob (drop (ms_m st + 1) mk) (drop (ms_n st + 1) name)"
      unfolding dm dn using m(3) hit by auto
    moreover have "take (ms_m st + 1) mk = take (ms_m st) mk @ [c]"
      using m by (simp add: take_Suc_conv_app_nth)
    ultimately show ?thesis
      using inv False m n(1) by (simp add: match_inv_def st'_def del: glob.simps)
  qed
  have "length mk + 1 - (ms_n st + 1 - ms_na st) < length mk + 1 - (ms_n st - ms_na st)"
    using inv_room [OF inv] by linarith
  moreover have "ms_ma st' = ms_ma st" "ms_na st' = ms_na st" "ms_n st' = ms_n st + 1"
    by (simp_all add: st'_def)
  ultimately show "rounds mk name st' < rounds mk name st"
    by (simp only: rounds_def nat_add_left_cancel_less)
qed

text \<open>They do not, and nothing can be tried again.\<close>

lemma compare_miss:
  assumes inv: "match_inv mk name st" and m: "ms_m st < length mk" "mk ! ms_m st = c" "c \<noteq> CHR ''*''"
    and n: "ms_n st < length name" "name ! ms_n st = d" and mis: "ToLower c \<noteq> ToLower d" "c \<noteq> CHR ''?''"
  shows "\<not> ms_wild st \<Longrightarrow> \<not> glob mk name"
    "ms_wild st \<Longrightarrow> match_inv mk name (retry st) \<and> rounds mk name (retry st) < rounds mk name st"
proof -
  have dm: "drop (ms_m st) mk = c # drop (ms_m st + 1) mk" using m by (simp add: Cons_nth_drop_Suc flip: m(2))
  have dn: "drop (ms_n st) name = d # drop (ms_n st + 1) name" using n by (simp add: Cons_nth_drop_Suc flip: n(2))
  have ng: "\<not> glob (drop (ms_m st) mk) (drop (ms_n st) name)" unfolding dm dn using m(3) mis by simp
  show "\<not> glob mk name" if "\<not> ms_wild st"
    using that ng inv by (simp add: match_inv_def del: glob.simps)
  assume True: "ms_wild st"
  then obtain ps ns where w: "drop (ms_ma st) mk = ps @ drop (ms_m st) mk"
    "drop (ms_na st) name = ns @ drop (ms_n st) name" "CHR ''*'' \<notin> set ps" "lit ps ns"
    using inv_glob_wild [OF inv] by metis
  have "\<not> glob (drop (ms_ma st) mk) (drop (ms_na st) name)"
    unfolding w(1,2) glob_lit_app [OF w(3)] using ng lit_length [OF w(4)] by simp
  moreover have "ms_na st < length name" "ms_n st - ms_na st \<le> length mk"
    using inv_room [OF inv] n(1) by linarith+
  ultimately show "match_inv mk name (retry st) \<and> rounds mk name (retry st) < rounds mk name st"
    using retry_step [OF inv True] by blast
qed

text \<open>The comparison of two characters and what follows it.\<close>

lemma compare_good:
  assumes inv: "match_inv mk name st" and free: "nul_free mk" "nul_free name"
    and ns: "ms_m st < length mk \<longrightarrow> mk ! ms_m st \<noteq> CHR ''*''"
    and m_end: "ms_m st = length mk \<longrightarrow> ms_wild st \<and> ms_ma st = length mk"
    and n_end: "ms_n st = length name \<longrightarrow> ms_m st = length mk"
    and lt: "rounds mk name st < rounds mk name st0 \<or> rounds mk name st \<le> rounds mk name st0 \<and> ms_n st < length name"
  shows "good_outcome mk name st0 (match_compare mk name st)"
proof -
  have le: "ms_m st \<le> length mk" "ms_n st \<le> length name" using inv by (auto simp: match_inv_def simp del: glob.simps)
  have le0: "rounds mk name st \<le> rounds mk name st0" using lt by auto
  have at_end: "ch_at s (length s) = Some NUL" for s by (simp add: ch_at_def)
  have nz: "s ! i \<noteq> NUL" if "nul_free s" "i < length s" for s i
    using that by (auto simp: nul_free_def dest: nth_mem)
  show ?thesis
  proof (cases "ms_n st < length name")
    case False
    then have e: "ms_n st = length name" "ms_m st = length mk" using le n_end by auto
    then have "match_compare mk name st = Some (Inr st)"
      using at_end by (simp add: match_compare_def)
    then show ?thesis using inv lt False by (auto simp: good_outcome_def)
  next
    case n: True
    define d where "d = name ! ms_n st"
    have d: "ch_at name (ms_n st) = Some d" "d \<noteq> NUL" using n nz [OF free(2) n] by (simp_all add: ch_at_def d_def)
    show ?thesis
    proof (cases "ms_m st = length mk")
      case True
      then have w: "ms_wild st" "ms_ma st = length mk" using m_end by auto
      have "ToLower NUL \<noteq> ToLower d" using d(2) ToLower_NUL by metis
      then have "match_compare mk name st = Some (Inr (retry st))"
        using at_end [of mk] d w True by (simp add: match_compare_def)
      moreover have "ms_na st < length name" "ms_n st - ms_na st \<le> length mk"
        using inv_room [OF inv] n by linarith+
      then have "match_inv mk name (retry st)" "rounds mk name (retry st) < rounds mk name st"
        using retry_step [OF inv w(1)] w(2) by blast+
      ultimately show ?thesis using le0 by (simp add: good_outcome_def)
    next
      case False
      then have m: "ms_m st < length mk" using le by simp
      define c where "c = mk ! ms_m st"
      have c: "ch_at mk (ms_m st) = Some c" "c \<noteq> NUL" "c \<noteq> CHR ''*''"
        using m nz [OF free(1) m] ns by (simp_all add: ch_at_def c_def)
      note miss = compare_miss [OF inv m c_def [symmetric] c(3) n d_def [symmetric]]
      note hit = compare_hit [OF inv m c_def [symmetric] c(3) n d_def [symmetric]]
      show ?thesis
      proof (cases "ToLower c \<noteq> ToLower d \<and> c \<noteq> CHR ''?''")
        case True
        then have "match_compare mk name st = (if \<not> ms_wild st then Some (Inl 0) else Some (Inr (retry st)))"
          using c d by (simp add: match_compare_def)
        then show ?thesis
          using miss True le0 by (cases "ms_wild st") (auto simp: good_outcome_def intro: less_le_trans)
      next
        case False
        then have "match_compare mk name st = Some (Inr (st\<lparr>ms_m := ms_m st + 1, ms_n := ms_n st + 1\<rparr>))"
          using c d by (auto simp: match_compare_def)
        moreover have "ToLower c = ToLower d \<or> c = CHR ''?''" using False by blast
        ultimately show ?thesis using hit le0 by (simp add: good_outcome_def)
      qed
    qed
  qed
qed

lemma mask_end_star:
  assumes j: "j = back_qm mk (length mk - 1)" and mk: "mk \<noteq> []" "mk ! j = CHR ''*''"
  shows "drop j mk = CHR ''*'' # replicate (length mk - 1 - j) CHR ''?''"
proof (rule nth_equalityI)
  have b: "j \<le> length mk - 1" "\<And>i. j < i \<Longrightarrow> i \<le> length mk - 1 \<Longrightarrow> mk ! i = CHR ''?''"
    using back_qm_spec [of mk "length mk - 1"] j by auto
  then show "length (drop j mk) = length (CHR ''*'' # replicate (length mk - 1 - j) CHR ''?'')"
    using mk(1) by (cases mk) auto
  fix i assume "i < length (drop j mk)"
  then have "j + i \<le> length mk - 1" by simp
  then show "drop j mk ! i = (CHR ''*'' # replicate (length mk - 1 - j) CHR ''?'') ! i"
    using b mk(2) by (cases i) auto
qed

lemma step_good:
  assumes inv: "match_inv mk name st" and free: "nul_free mk" "nul_free name" and ne: "mk \<noteq> []"
  shows "good_outcome mk name st (match_step mk name st)"
proof -
  let ?star = "ms_m st < length mk \<and> mk ! ms_m st = CHR ''*''"
  let ?m = "skip_star mk (ms_m st)"
  define st1 where "st1 = (if ?star then st\<lparr>ms_m := ?m, ms_wild := True, ms_ma := ?m, ms_na := ms_n st\<rparr> else st)"
  have inv1: "match_inv mk name st1" and r1: "rounds mk name st1 \<le> rounds mk name st"
    using star_step [OF inv] inv by (auto simp: st1_def)
  have le: "ms_m st \<le> length mk" using inv by (auto simp: match_inv_def simp del: glob.simps)
  have le1: "ms_m st1 \<le> length mk" "ms_n st1 \<le> length name"
    using inv1 by (auto simp: match_inv_def simp del: glob.simps)
  have ns: "ms_m st1 < length mk \<longrightarrow> mk ! ms_m st1 \<noteq> CHR ''*''"
    using skip_star_spec [of "ms_m st" mk] by (auto simp: st1_def)
  let ?cm = "deref (drop (ms_m st1) mk)" and ?cn = "deref (drop (ms_n st1) name)"
  have at: "ch_at mk (ms_m st1) = Some ?cm" "ch_at name (ms_n st1) = Some ?cn" using le1 by (simp_all add: ch_at_eq)
  have nul: "?cm = NUL \<longleftrightarrow> ms_m st1 = length mk" "?cn = NUL \<longleftrightarrow> ms_n st1 = length name"
    using deref_NUL_nul_free free nul_free_drop le1 by auto
  have c: "\<exists>c. ch_at mk (ms_m st) = Some c \<and> (c = CHR ''*'' \<longleftrightarrow> ?star)"
    using le by (auto simp: ch_at_def)
  have eq: "match_step mk name st =
      (if ?cm = NUL then
         (if ?cn = NUL then Some (Inl 1)
          else (let j = back_qm mk (ms_m st1 - 1)
                in if mk ! j = CHR ''*'' \<and> j > 0 then Some (Inl 1)
                   else if \<not> ms_wild st1 then Some (Inl 0) else match_compare mk name (retry st1)))
       else if ?cn = NUL then Some (Inl 0)
       else match_compare mk name st1)"
  proof -
    obtain c where c: "ch_at mk (ms_m st) = Some c" "c = CHR ''*'' \<longleftrightarrow> ?star" using c by blast
    have "ms_m st1 \<noteq> 0" if "?cm = NUL" using that nul(1) ne by simp
    moreover have "skip_star mk (ms_m st1) = ms_m st1" if "?cm \<noteq> NUL"
      using ns by (intro skip_star_none) auto
    ultimately have "match_rest mk name st1 =
      (if ?cm = NUL then
         (if ?cn = NUL then Some (Inl 1)
          else (let j = back_qm mk (ms_m st1 - 1)
                in if mk ! j = CHR ''*'' \<and> j > 0 then Some (Inl 1)
                   else if \<not> ms_wild st1 then Some (Inl 0) else match_compare mk name (retry st1)))
       else if ?cn = NUL then Some (Inl 0)
       else match_compare mk name st1)"
      using at by (cases "?cm = NUL") (simp_all add: match_rest_def)
    moreover have "match_step mk name st = match_rest mk name st1"
      using c by (simp add: match_step_def st1_def)
    ultimately show ?thesis by simp
  qed
  note room = inv_room [OF inv1]
  show ?thesis
  proof (cases "ms_m st1 = length mk")
    case m: False
    then have mlt: "ms_m st1 < length mk" using le1 by simp
    have dm: "drop (ms_m st1) mk = ?cm # drop (ms_m st1 + 1) mk" by (rule drop_deref [OF mlt])
    show ?thesis
    proof (cases "ms_n st1 = length name")
      case n: True
      have cs: "?cm \<noteq> CHR ''*''" using ns mlt by (simp add: deref_def Cons_nth_drop_Suc [symmetric])
      then have nil: "\<not> glob (drop (ms_m st1) mk) []" by (subst dm) simp
      have "\<not> glob mk name"
      proof (cases "ms_wild st1")
        case True
        then obtain ps ns' where w: "CHR ''*'' \<notin> set ps" "lit ps ns'"
          "glob mk name \<longleftrightarrow> glob (CHR ''*'' # ps @ drop (ms_m st1) mk) (ns' @ drop (ms_n st1) name)"
          using inv_glob_wild [OF inv1] by metis
        have short: "\<not> glob (ps @ drop (ms_m st1) mk) (drop k (ns' @ []))" for k
        proof
          assume "glob (ps @ drop (ms_m st1) mk) (drop k (ns' @ []))"
          then have "length ps \<le> length ns' - k" "glob (drop (ms_m st1) mk) (drop (length ps) (drop k ns'))"
            using glob_lit_app [OF w(1)] by auto
          moreover have "drop (length ps) (drop k ns') = []" using lit_length [OF w(2)] by simp
          ultimately show False using nil by simp
        qed
        then show ?thesis using w(3) n unfolding glob_star_iff by simp
      next
        case False
        then show ?thesis using inv1 nil n by (simp add: match_inv_def del: glob.simps)
      qed
      then show ?thesis using eq nul m n by (simp add: good_outcome_def)
    next
      case n: False
      then have "good_outcome mk name st (match_compare mk name st1)"
        using compare_good [OF inv1 free ns] m r1 le1 by auto
      then show ?thesis using eq nul m n by simp
    qed
  next
    case m: True
    show ?thesis
    proof (cases "ms_n st1 = length name")
      case n: True
      have "glob mk name"
      proof (cases "ms_wild st1")
        case True
        then obtain ps ns' where w: "CHR ''*'' \<notin> set ps" "lit ps ns'"
          "glob mk name \<longleftrightarrow> glob (CHR ''*'' # ps @ drop (ms_m st1) mk) (ns' @ drop (ms_n st1) name)"
          using inv_glob_wild [OF inv1] by metis
        have "glob (ps @ []) (drop 0 ns')" using w lit_length [OF w(2)] glob_lit_app [OF w(1), of "[]"] by simp
        then show ?thesis using w(3) m n unfolding glob_star_iff by auto
      next
        case False
        then show ?thesis using inv1 m n by (simp add: match_inv_def)
      qed
      then show ?thesis using eq nul m n by (simp add: good_outcome_def)
    next
      case n: False
      then have nlt: "ms_n st1 < length name" using le1 by simp
      then have "drop (ms_n st1) name \<noteq> []" by simp
      define j where "j = back_qm mk (length mk - 1)"
      show ?thesis
      proof (cases "ms_wild st1")
        case False
        then have no: "CHR ''*'' \<notin> set mk" "\<not> glob mk name"
          using inv1 m nlt by (auto simp: match_inv_def)
        moreover have "j < length mk" using back_qm_spec [of mk "length mk - 1"] ne by (cases mk) (auto simp: j_def)
        ultimately have "mk ! j \<noteq> CHR ''*''" using nth_mem by metis
        then show ?thesis using eq nul m n False no by (simp add: good_outcome_def j_def Let_def)
      next
        case True
        then obtain ps ns' where w: "drop (ms_ma st1) mk = ps @ drop (ms_m st1) mk"
          "drop (ms_na st1) name = ns' @ drop (ms_n st1) name" "CHR ''*'' \<notin> set ps" "lit ps ns'"
          "glob mk name \<longleftrightarrow> glob (CHR ''*'' # ps @ drop (ms_m st1) mk) (ns' @ drop (ms_n st1) name)"
          using inv_glob_wild [OF inv1] by metis
        have ma: "0 < ms_ma st1" "ms_ma st1 \<le> length mk" "mk ! (ms_ma st1 - 1) = CHR ''*''"
          using inv1 True m by (auto simp: match_inv_def simp del: glob.simps)
        have ps: "drop (ms_ma st1) mk = ps" using w(1) m by simp
        show ?thesis
        proof (cases "mk ! j = CHR ''*'' \<and> j > 0")
          case star: True
          have dj: "drop j mk = CHR ''*'' # replicate (length mk - 1 - j) CHR ''?''"
            using mask_end_star [OF j_def ne] star by blast
          have "ms_ma st1 - 1 \<le> j"
          proof (rule ccontr)
            assume "\<not> ms_ma st1 - 1 \<le> j"
            then have "mk ! (ms_ma st1 - 1) = CHR ''?''"
              using back_qm_spec [of mk "length mk - 1"] ma(1,2) j_def by auto
            then show False using ma(3) by simp
          qed
          moreover have "\<not> ms_ma st1 \<le> j"
          proof
            assume "ms_ma st1 \<le> j"
            then have "drop j mk = drop (j - ms_ma st1) ps" using ps by (metis drop_drop le_add_diff_inverse2)
            then have "CHR ''*'' \<in> set (drop (j - ms_ma st1) ps)" using dj by (metis list.set_intros(1))
            then show False using w(3) by (auto dest: in_set_dropD)
          qed
          ultimately have "ms_ma st1 = j + 1" by simp
          then have q: "ps = replicate (length mk - 1 - j) CHR ''?''"
            using ps dj by (metis add.commute drop_drop drop_Suc_Cons drop0 One_nat_def)
          have "lit ps xs" if "length xs = length ps" for xs
            using that unfolding q lit_def by (simp add: list_all2_conv_all_nth)
          then have "glob (ps @ []) (drop (length xs - length ps) xs)" if "length ps \<le> length xs" for xs
            using that glob_lit_app [OF w(3), of "[]"] by simp
          moreover have "length ps \<le> length (ns' @ drop (ms_n st1) name)" using lit_length [OF w(4)] by simp
          ultimately have "glob mk name" using w(5) m unfolding glob_star_iff
            by (metis append_Nil2 diff_le_self drop_all le_refl)
          then show ?thesis using eq nul m n star by (simp add: good_outcome_def j_def Let_def)
        next
          case nostar: False
          have nl: "ms_na st1 < length name" using room nlt by linarith
          have "\<not> glob (drop (ms_ma st1) mk) (drop (ms_na st1) name)"
          proof
            assume "glob (drop (ms_ma st1) mk) (drop (ms_na st1) name)"
            then have "glob (ps @ []) (ns' @ drop (ms_n st1) name)" using ps w(2) by simp
            then have "glob [] (drop (length ps) (ns' @ drop (ms_n st1) name))"
              unfolding glob_lit_app [OF w(3)] by blast
            then show False using lit_length [OF w(4)] nlt by simp
          qed
          then have R: "match_inv mk name (retry st1)" "rounds mk name (retry st1) < rounds mk name st1"
            using retry_step [OF inv1 True nl] room by auto
          have "good_outcome mk name st (match_compare mk name (retry st1))"
          proof (rule compare_good [OF R(1) free])
            show "ms_m (retry st1) < length mk \<longrightarrow> mk ! ms_m (retry st1) \<noteq> CHR ''*''"
              using inv1 True by (auto simp: match_inv_def retry_def simp del: glob.simps)
            show "ms_m (retry st1) = length mk \<longrightarrow> ms_wild (retry st1) \<and> ms_ma (retry st1) = length mk"
              using True by (simp add: retry_def)
            show "ms_n (retry st1) = length name \<longrightarrow> ms_m (retry st1) = length mk"
            proof
              assume "ms_n (retry st1) = length name"
              then have "ms_n st1 = ms_na st1" using room nlt by (simp add: retry_def)
              then have "ns' = []" using w(2) by (metis append_self_conv2)
              then have "ps = []" using lit_length [OF w(4)] by simp
              then show "ms_m (retry st1) = length mk" using ps ma(2) by (simp add: retry_def)
            qed
            show "rounds mk name (retry st1) < rounds mk name st \<or>
                rounds mk name (retry st1) \<le> rounds mk name st \<and> ms_n (retry st1) < length name"
              using R(2) r1 by simp
          qed
          then show ?thesis using eq nul m n nostar True by (auto simp: j_def Let_def)
        qed
      qed
    qed
  qed
qed

lemma match_loop_correct:
  assumes "nul_free mk" "nul_free name" "mk \<noteq> []"
  shows "match_inv mk name st \<Longrightarrow>
    (\<exists>v. match_loop mk name k st = Some v \<and> (v = 1 \<longrightarrow> glob mk name) \<and>
      (rounds mk name st < k \<longrightarrow> v = (if glob mk name then 1 else 0)))"
proof (induction k arbitrary: st)
  case (Suc k)
  have "good_outcome mk name st (match_step mk name st)" by (rule step_good [OF Suc.prems assms])
  then show ?case
    using Suc.IH by (fastforce simp: good_outcome_def split: option.splits sum.splits)
qed simp

section \<open>Properties\<close>

lemma match_init: "nul_free mk \<Longrightarrow> nul_free name \<Longrightarrow>
  match_inv mk name \<lparr>ms_m = 0, ms_n = 0, ms_ma = 0, ms_na = 0, ms_wild = False\<rparr>"
  by (simp add: match_inv_def)

text \<open>C36. On a non-empty mask \<open>match\<close> stays inside both strings and returns; a positive answer is
  right: the name is one the mask stands for, with \<open>*\<close> any text, \<open>?\<close> any character and the
  case folding of \<^verbatim>\<open>ToLower\<close>.\<close>

theorem match_sound:
  assumes "nul_free mk" and "nul_free name" and "mk \<noteq> []"
  shows "\<exists>v. match mk name = Some v \<and> (v = 1 \<longrightarrow> glob mk name)"
  using match_loop_correct [OF assms match_init [OF assms(1,2)], of MATCH_MAX_CALLS]
  by (auto simp: match_def)

theorem match_sound_witness: "\<exists>v. match ''*!?oo@*'' ''nick!Foo@host'' = Some v \<and> (v = 1 \<longrightarrow> glob ''*!?oo@*'' ''nick!Foo@host'')"
  using match_sound [of "''*!?oo@*''" "''nick!Foo@host''"] by simp

text \<open>C35. When a mask that is not empty and a name are short enough for the limit of 512 rounds, \<open>match\<close> decides the
  wildcard relation: it returns 1 exactly when the mask stands for the name, and 0 otherwise.\<close>

theorem match_exact:
  assumes "nul_free mk" and "nul_free name" and "mk \<noteq> []"
    and "(length mk + length name) * (length mk + 2) + length mk + 1 < MATCH_MAX_CALLS"
  shows "match mk name = Some (if glob mk name then 1 else 0)"
  using match_loop_correct [OF assms(1-3) match_init [OF assms(1,2)], of MATCH_MAX_CALLS] assms(4)
  by (auto simp: match_def rounds_def)

theorem match_exact_witness: "match ''*!?oo@*'' ''nick!Foo@host'' = Some (if glob ''*!?oo@*'' ''nick!Foo@host'' then 1 else 0)"
  using match_exact [of "''*!?oo@*''" "''nick!Foo@host''"] by (simp add: MATCH_MAX_CALLS_def)

text \<open>With an empty mask and a name that is not empty, \<open>match\<close> reads the character before the
  mask.\<close>

theorem match_empty_mask_reads_before: "nul_free (c # name) \<Longrightarrow> match [] (c # name) = None"
  by (simp add: match_def MATCH_MAX_CALLS_def numeral_eq_Suc match_step_def match_rest_def match_compare_def
      ch_at_def skip_star.simps)

theorem match_empty_mask_reads_before_witness: "match [] ''x'' = None"
  using match_empty_mask_reads_before [of "CHR ''x''" "[]"] by simp

text \<open>C37. Collapsing a mask does not change the names it stands for, never lengthens it, and
  collapsing again changes nothing.\<close>

theorem collapse_equivalent:
  "\<exists>q. collapse (Some p) = Some q \<and> (\<forall>n. glob q n = glob p n) \<and> length q \<le> length p \<and>
    collapse (Some q) = Some q"
  using collapse_glob [of p] by (auto simp: collapse_def collapse_idem collapse_length)

end
