(* ===== verification/Exclude.thy ===== *)
theory Exclude
  imports Network Match Validate
begin

text \<open>
  \<^verbatim>\<open>src/exclude.c\<close>: the list of exclusion masks, the flags it puts on users, servers and
  channels, the questions modules ask of their own list, and the EXCLUDE command that edits
  a list. Replies to the user are not modelled, the writes to the database are.
\<close>

section \<open>Searching a list\<close>

text \<open>\<open>match\<close> used as a truth value.\<close>

definition matches :: "string \<Rightarrow> string \<Rightarrow> bool option" where
  "matches pattern s = map_option (\<lambda>v. v \<noteq> 0) (match pattern s)"

text \<open>The first entry of the type whose mask matches. The lists are never NULL.\<close>

fun FindExclude :: "exclude list \<Rightarrow> exclude_type \<Rightarrow> string \<Rightarrow> exclude option option" where
  "FindExclude [] type pattern = Some None"
| "FindExclude (e # es) type pattern =
     (if ex_type e = type
      then do {
        m \<leftarrow> matches (ex_pattern e) pattern;
        if m then Some (Some e) else FindExclude es type pattern }
      else FindExclude es type pattern)"

text \<open>The walk of a list with a handler, stopping at the first that answers true.\<close>

fun ProcessExcludeList :: "exclude list \<Rightarrow> (exclude \<Rightarrow> bool option) \<Rightarrow> bool option" where
  "ProcessExcludeList [] handler = Some False"
| "ProcessExcludeList (e # es) handler = do {
     r \<leftarrow> handler e;
     if r then Some True else ProcessExcludeList es handler
   }"

section \<open>Users, servers and channels\<close>

definition match_user_host :: "exclude \<Rightarrow> string \<Rightarrow> string \<Rightarrow> bool option" where
  "match_user_host e hostname hostip = do {
     m \<leftarrow> matches (ex_pattern e) hostname;
     if m then Some True else matches (ex_pattern e) hostip
   }"

definition ExcludeUserHandler :: "client \<Rightarrow> user \<Rightarrow> exclude \<Rightarrow> bool option" where
  "ExcludeUserHandler c u e =
     (case ex_type e of
        NS_EXCLUDE_HOST \<Rightarrow> match_user_host e (u_hostname u) (c_hostip c)
      | NS_EXCLUDE_USERHOST \<Rightarrow> matches (ex_pattern e) (u_userhostmask u)
      | _ \<Rightarrow> Some False)"

definition ns_do_exclude_user :: "addr \<Rightarrow> net \<Rightarrow> net option" where
  "ns_do_exclude_user a n = do {
     n \<leftarrow> upd_client a (\<lambda>c. c\<lparr>c_flags := clear_flag (c_flags c) NS_FLAG_EXCLUDED\<rparr>) n;
     c \<leftarrow> clients n a;
     up \<leftarrow> clients n (c_uplink c);
     if has (c_flags up) NS_FLAG_EXCLUDED
     then upd_client a (\<lambda>c. c\<lparr>c_flags := set_flag (c_flags c) NS_FLAG_EXCLUDED\<rparr>) n
     else do {
       u \<leftarrow> c_user c;
       r \<leftarrow> ProcessExcludeList (exclude_list n) (ExcludeUserHandler c u);
       if r then upd_client a (\<lambda>c. c\<lparr>c_flags := set_flag (c_flags c) NS_FLAG_EXCLUDED\<rparr>) n else Some n }
   }"

definition ModExcludeUserHandler :: "string \<Rightarrow> client \<Rightarrow> user \<Rightarrow> exclude \<Rightarrow> bool option" where
  "ModExcludeUserHandler uplink c u e =
     (case ex_type e of
        NS_EXCLUDE_SERVER \<Rightarrow> matches (ex_pattern e) uplink
      | NS_EXCLUDE_HOST \<Rightarrow> match_user_host e (u_hostname u) (c_hostip c)
      | NS_EXCLUDE_USERHOST \<Rightarrow> matches (ex_pattern e) (u_userhostmask u)
      | _ \<Rightarrow> Some False)"

text \<open>\<open>mod_list\<close> is the list of the module that asks.\<close>

definition ModIsUserExcluded :: "env \<Rightarrow> exclude list \<Rightarrow> addr \<Rightarrow> net \<Rightarrow> bool option" where
  "ModIsUserExcluded E mod_list a n = do {
     c \<leftarrow> clients n a;
     up \<leftarrow> clients n (c_uplink c);
     if irc_eq (c_name up) (me_name E) then Some True
     else do {
       u \<leftarrow> c_user c;
       ProcessExcludeList mod_list (ModExcludeUserHandler (c_name up) c u) }
   }"

definition ns_do_exclude_server :: "addr \<Rightarrow> net \<Rightarrow> net option" where
  "ns_do_exclude_server a n = do {
     s \<leftarrow> clients n a;
     r \<leftarrow> FindExclude (exclude_list n) NS_EXCLUDE_SERVER (c_name s);
     upd_client a (\<lambda>c. c\<lparr>c_flags := (if r \<noteq> None then set_flag else clear_flag) (c_flags c) NS_FLAG_EXCLUDED\<rparr>) n
   }"

definition ns_do_exclude_chan :: "addr \<Rightarrow> net \<Rightarrow> net option" where
  "ns_do_exclude_chan a n = do {
     c \<leftarrow> channels n a;
     r \<leftarrow> FindExclude (exclude_list n) NS_EXCLUDE_CHANNEL (ch_name c);
     upd_chan a (\<lambda>c. c\<lparr>ch_flags := (if r \<noteq> None then set_flag else clear_flag) (ch_flags c) NS_FLAG_EXCLUDED\<rparr>) n
   }"

definition ModIsServerExcluded :: "exclude list \<Rightarrow> addr \<Rightarrow> net \<Rightarrow> bool option" where
  "ModIsServerExcluded mod_list a n = do {
     s \<leftarrow> clients n a;
     r \<leftarrow> FindExclude mod_list NS_EXCLUDE_SERVER (c_name s);
     Some (r \<noteq> None)
   }"

definition ModIsChannelExcluded :: "exclude list \<Rightarrow> addr \<Rightarrow> net \<Rightarrow> bool option" where
  "ModIsChannelExcluded mod_list a n = do {
     c \<leftarrow> channels n a;
     if IsServicesChannel c then Some True
     else do {
       r \<leftarrow> FindExclude mod_list NS_EXCLUDE_CHANNEL (ch_name c);
       Some (r \<noteq> None) }
   }"

section \<open>The EXCLUDE command\<close>

datatype db_write = DBAStore string exclude | DBADelete string

definition MAX_EXCLUDES :: nat where "MAX_EXCLUDES = 100"
definition NS_ERR_SYNTAX_ERROR :: int where "NS_ERR_SYNTAX_ERROR = 0x8000004"
definition NS_ERR_NEED_MORE_PARAMS :: int where "NS_ERR_NEED_MORE_PARAMS = 0x8000005"

text \<open>
  A command returns the list, the writes to the database and the result code. \<open>src\<close> is the
  name of the client that sent it. \<open>collapse\<close> rewrites the argument in place.
\<close>

type_synonym exclude_result = "exclude list \<times> db_write list \<times> int"

definition AddExclude :: "env \<Rightarrow> exclude list \<Rightarrow> exclude_type \<Rightarrow> string \<Rightarrow> string list \<Rightarrow> exclude_result option" where
  "AddExclude E es type src av = do {
     found \<leftarrow> FindExclude es type (av ! 2);
     if found \<noteq> None then Some (es, [], NS_SUCCESS)
     else do {
       p \<leftarrow> collapse (Some (av ! 2));
       buf \<leftarrow> joinbuf (av[2 := p]) 3;
       let e = \<lparr>ex_type = type, ex_pattern = strlcpy_str MAXHOST p, ex_addedby = strlcpy_str MAXNICK src,
                ex_reason = strlcpy_str MAXREASON buf, ex_addedon = me_now E\<rparr>;
       Some (es @ [e], [DBAStore (ex_pattern e) e], NS_SUCCESS) }
   }"

definition cmd_exclude_add :: "env \<Rightarrow> exclude list \<Rightarrow> string \<Rightarrow> string list \<Rightarrow> exclude_result option" where
  "cmd_exclude_add E es src av =
     (if length av < 4 then Some (es, [], NS_ERR_NEED_MORE_PARAMS)
      else if length es = MAX_EXCLUDES then Some (es, [], NS_SUCCESS)
      else if irc_eq ''HOST'' (av ! 1)
      then (if ValidateHostWild (Some (av ! 2)) = 0 then Some (es, [], NS_SUCCESS)
            else AddExclude E es NS_EXCLUDE_HOST src av)
      else if irc_eq ''CHANNEL'' (av ! 1)
      then (if ValidateChannelWild (Some (av ! 2)) = 0 then Some (es, [], NS_SUCCESS)
            else AddExclude E es NS_EXCLUDE_CHANNEL src av)
      else if irc_eq ''SERVER'' (av ! 1)
      then (if ValidateHostWild (Some (av ! 2)) = 0 then Some (es, [], NS_SUCCESS)
            else AddExclude E es NS_EXCLUDE_SERVER src av)
      else if irc_eq ''USERHOST'' (av ! 1)
      then (if ValidateUserHostWild (Some (av ! 2)) = 0 then Some (es, [], NS_SUCCESS)
            else AddExclude E es NS_EXCLUDE_USERHOST src av)
      else Some (es, [], NS_SUCCESS))"

text \<open>The first entry with the pattern goes, whatever its type.\<close>

definition cmd_exclude_del :: "exclude list \<Rightarrow> string list \<Rightarrow> exclude_result" where
  "cmd_exclude_del es av =
     (if length av < 2 then (es, [], NS_ERR_NEED_MORE_PARAMS)
      else case List.find (\<lambda>e. irc_eq (ex_pattern e) (av ! 1)) es of
             None \<Rightarrow> (es, [], NS_SUCCESS)
           | Some e \<Rightarrow> (remove_first (\<lambda>e. irc_eq (ex_pattern e) (av ! 1)) es, [DBADelete (ex_pattern e)], NS_SUCCESS))"

definition cmd_exclude :: "env \<Rightarrow> exclude list \<Rightarrow> string \<Rightarrow> string list \<Rightarrow> exclude_result option" where
  "cmd_exclude E es src av = do {
     cmd \<leftarrow> (if av = [] then None else Some (hd av));
     if irc_eq cmd ''ADD'' then cmd_exclude_add E es src av
     else if irc_eq cmd ''DEL'' then Some (cmd_exclude_del es av)
     else if irc_eq cmd ''LIST'' then Some (es, [], NS_SUCCESS)
     else Some (es, [], NS_ERR_SYNTAX_ERROR)
   }"

section \<open>What is excluded\<close>

text \<open>The masks of a well formed list are not empty, so that no search leaves a mask.\<close>

definition exclude_ok :: "exclude \<Rightarrow> bool" where
  "exclude_ok e \<longleftrightarrow> ex_pattern e \<noteq> [] \<and> nul_free (ex_pattern e)"

lemma matches_total: "exclude_ok e \<Longrightarrow> nul_free s \<Longrightarrow> \<exists>b. matches (ex_pattern e) s = Some b"
  using match_loop_correct [OF _ _ _ match_init, of "ex_pattern e" s MATCH_MAX_CALLS]
  by (auto simp: exclude_ok_def matches_def match_def)

text \<open>Masks short enough for \<open>match\<close> to decide the wildcard relation.\<close>

definition mask_fits :: "string \<Rightarrow> string \<Rightarrow> bool" where
  "mask_fits p s \<longleftrightarrow> (length p + length s) * (length p + 2) + length p + 1 < MATCH_MAX_CALLS"

lemma matches_glob: "exclude_ok e \<Longrightarrow> nul_free s \<Longrightarrow> mask_fits (ex_pattern e) s \<Longrightarrow>
  matches (ex_pattern e) s = Some (glob (ex_pattern e) s)"
  using match_loop_correct [OF _ _ _ match_init, of "ex_pattern e" s MATCH_MAX_CALLS]
  by (auto simp: exclude_ok_def matches_def match_def mask_fits_def rounds_def)

lemma FindExclude_glob:
  assumes "list_all exclude_ok es" "nul_free s" "\<forall>e\<in>set es. mask_fits (ex_pattern e) s"
  shows "FindExclude es ty s = Some (List.find (\<lambda>e. ex_type e = ty \<and> glob (ex_pattern e) s) es)"
  using assms(1,3) by (induction es) (auto simp: matches_glob [OF _ assms(2)])

lemma set_cleared: "set_flag (clear_flag x f) f = set_flag x f"
  by (simp add: set_flag_def clear_flag_def bit_eq_iff bit_simps) blast

lemma ProcessExcludeList_total:
  "\<forall>e\<in>set es. \<exists>b. h e = Some b \<Longrightarrow> \<exists>b. ProcessExcludeList es h = Some b"
  by (induction es) fastforce+

text \<open>What the global list says of a user, in terms of the wildcard relation.\<close>

definition excluded_by :: "exclude list \<Rightarrow> user \<Rightarrow> string \<Rightarrow> bool" where
  "excluded_by es u ip \<longleftrightarrow> (\<exists>e\<in>set es.
     ex_type e = NS_EXCLUDE_HOST \<and> (glob (ex_pattern e) (u_hostname u) \<or> glob (ex_pattern e) ip) \<or>
     ex_type e = NS_EXCLUDE_USERHOST \<and> glob (ex_pattern e) (u_userhostmask u))"

text \<open>The same, by a mask and a text short enough for \<open>match\<close> to find it out.\<close>

definition surely_excluded_by :: "exclude list \<Rightarrow> user \<Rightarrow> string \<Rightarrow> bool" where
  "surely_excluded_by es u ip \<longleftrightarrow> (\<exists>e\<in>set es. \<exists>s. glob (ex_pattern e) s \<and> mask_fits (ex_pattern e) s \<and>
     (ex_type e = NS_EXCLUDE_HOST \<and> s \<in> {u_hostname u, ip} \<or> ex_type e = NS_EXCLUDE_USERHOST \<and> s = u_userhostmask u))"

lemma match_loop_bit:
  assumes "nul_free mk" "nul_free name" "mk \<noteq> []"
  shows "match_inv mk name st \<Longrightarrow> match_loop mk name k st = Some v \<Longrightarrow> v = 0 \<or> v = 1"
proof (induction k arbitrary: st)
  case (Suc k)
  have "good_outcome mk name st (match_step mk name st)" by (rule step_good [OF Suc.prems(1) assms])
  then show ?case using Suc by (auto simp: good_outcome_def split: option.splits sum.splits)
qed simp

lemma matches_bounds:
  assumes "exclude_ok e" "nul_free s"
  shows "\<exists>b. matches (ex_pattern e) s = Some b \<and> (b \<longrightarrow> glob (ex_pattern e) s) \<and> (glob (ex_pattern e) s \<and> mask_fits (ex_pattern e) s \<longrightarrow> b)"
proof -
  have mk: "nul_free (ex_pattern e)" "ex_pattern e \<noteq> []" using assms(1) by (simp_all add: exclude_ok_def)
  note init = match_init [OF mk(1) assms(2)]
  obtain v where v: "match (ex_pattern e) s = Some v" "v = 1 \<longrightarrow> glob (ex_pattern e) s"
    using match_loop_correct [OF mk(1) assms(2) mk(2) init, of MATCH_MAX_CALLS] by (auto simp: match_def)
  moreover have "v = 0 \<or> v = 1" using match_loop_bit [OF mk(1) assms(2) mk(2) init] v(1) by (simp add: match_def)
  ultimately show ?thesis using matches_glob [OF assms] by (auto simp: matches_def)
qed

lemma ExcludeUserHandler_bounds:
  assumes "exclude_ok e" and "nul_free (u_hostname u)" "nul_free (c_hostip c)" "nul_free (u_userhostmask u)"
  shows "\<exists>b. ExcludeUserHandler c u e = Some b \<and> (b \<longrightarrow> excluded_by [e] u (c_hostip c)) \<and> (surely_excluded_by [e] u (c_hostip c) \<longrightarrow> b)"
proof -
  obtain b1 b2 b3 where m: "matches (ex_pattern e) (u_hostname u) = Some b1" "matches (ex_pattern e) (c_hostip c) = Some b2"
      "matches (ex_pattern e) (u_userhostmask u) = Some b3"
    and "b1 \<longrightarrow> glob (ex_pattern e) (u_hostname u)" "b2 \<longrightarrow> glob (ex_pattern e) (c_hostip c)" "b3 \<longrightarrow> glob (ex_pattern e) (u_userhostmask u)"
    and "glob (ex_pattern e) (u_hostname u) \<and> mask_fits (ex_pattern e) (u_hostname u) \<longrightarrow> b1"
      "glob (ex_pattern e) (c_hostip c) \<and> mask_fits (ex_pattern e) (c_hostip c) \<longrightarrow> b2"
      "glob (ex_pattern e) (u_userhostmask u) \<and> mask_fits (ex_pattern e) (u_userhostmask u) \<longrightarrow> b3"
    using matches_bounds [OF assms(1)] assms(2-4) by metis
  then show ?thesis
    by (cases "ex_type e") (auto simp: ExcludeUserHandler_def match_user_host_def excluded_by_def surely_excluded_by_def)
qed

lemma ProcessExcludeList_bounds:
  assumes "\<And>e. e \<in> set es \<Longrightarrow> \<exists>b. h e = Some b \<and> (b \<longrightarrow> P e) \<and> (Q e \<longrightarrow> b)"
  shows "\<exists>b. ProcessExcludeList es h = Some b \<and> (b \<longrightarrow> (\<exists>e\<in>set es. P e)) \<and> ((\<exists>e\<in>set es. Q e) \<longrightarrow> b)"
  using assms
proof (induction es)
  case Nil
  show ?case by (intro exI [of _ False]) simp
next
  case (Cons e es)
  obtain b where "h e = Some b" "b \<longrightarrow> P e" "Q e \<longrightarrow> b" using Cons.prems [of e] by auto
  moreover obtain b' where "ProcessExcludeList es h = Some b'" "b' \<longrightarrow> (\<exists>e\<in>set es. P e)" "(\<exists>e\<in>set es. Q e) \<longrightarrow> b'"
    using Cons by auto
  ultimately show ?case by (cases b) auto
qed

lemma ExcludeUserHandler_total:
  assumes "exclude_ok e" "nul_free (u_hostname u)" "nul_free (c_hostip c)" "nul_free (u_userhostmask u)"
  shows "\<exists>b. ExcludeUserHandler c u e = Some b"
proof -
  obtain b1 b2 b3 where "matches (ex_pattern e) (u_hostname u) = Some b1" "matches (ex_pattern e) (c_hostip c) = Some b2"
    "matches (ex_pattern e) (u_userhostmask u) = Some b3"
    using matches_total [OF assms(1)] assms(2-4) by metis
  then show ?thesis by (cases "ex_type e") (auto simp: ExcludeUserHandler_def match_user_host_def)
qed

text \<open>The check never fails on a well formed list; it changes the flags only.\<close>

lemma ns_do_exclude_user_total:
  assumes "list_all exclude_ok (exclude_list n)"
    and c: "clients n a = Some c" "c_user c = Some u" and up: "clients n (c_uplink c) = Some up"
    and "nul_free (u_hostname u)" "nul_free (c_hostip c)" "nul_free (u_userhostmask u)"
  shows "\<exists>fl. ns_do_exclude_user a n = Some (n\<lparr>clients := (clients n)(a \<mapsto> c\<lparr>c_flags := fl\<rparr>)\<rparr>)"
proof -
  define c1 where "c1 = c\<lparr>c_flags := clear_flag (c_flags c) NS_FLAG_EXCLUDED\<rparr>"
  define n1 where "n1 = n\<lparr>clients := (clients n)(a \<mapsto> c1)\<rparr>"
  obtain up1 where up1: "clients n1 (c_uplink c1) = Some up1" using up by (cases "c_uplink c = a") (auto simp: n1_def c1_def)
  obtain b where b: "ProcessExcludeList (exclude_list n) (ExcludeUserHandler c1 u) = Some b"
    using ProcessExcludeList_total [of "exclude_list n" "ExcludeUserHandler c1 u"] ExcludeUserHandler_total [of _ u c1] assms
    by (auto simp: c1_def list_all_iff)
  have facts: "upd_client a (\<lambda>c. c\<lparr>c_flags := clear_flag (c_flags c) NS_FLAG_EXCLUDED\<rparr>) n = Some n1"
    "clients n1 a = Some c1" "c_user c1 = Some u" "exclude_list n1 = exclude_list n"
    using c by (simp_all add: n1_def c1_def upd_client_def)
  have "ns_do_exclude_user a n =
      Some (if has (c_flags up1) NS_FLAG_EXCLUDED \<or> b
            then n1\<lparr>clients := (clients n1)(a \<mapsto> c1\<lparr>c_flags := set_flag (c_flags c1) NS_FLAG_EXCLUDED\<rparr>)\<rparr> else n1)"
    unfolding ns_do_exclude_user_def facts(1) using facts(2-4) up1 b by (simp add: upd_client_def)
  then show ?thesis by (auto simp: n1_def c1_def)
qed

section \<open>Properties\<close>

text \<open>C28. The exclusion check of a user with texts free of NUL, on a well formed list, returns; it sets or clears the excluded flag
  and changes nothing else. When it sets the flag, the user's server is excluded or a mask of the global list
  of the right type stands for the user's host name, IP address or nick!user@host mask in the wildcard relation. When the
  server is excluded, or such a mask stands for such a text and the two are short enough for the limit of 512 rounds of
  \<open>match\<close>, it sets the flag; for longer ones the search may give up, and then the user is not excluded.\<close>

theorem ns_do_exclude_user_flag:
  assumes "list_all exclude_ok (exclude_list n)"
    and "clients n a = Some c" "c_user c = Some u" "c_uplink c \<noteq> a" "clients n (c_uplink c) = Some up"
    and "nul_free (u_hostname u)" "nul_free (c_hostip c)" "nul_free (u_userhostmask u)"
  shows "\<exists>b. ns_do_exclude_user a n = Some (n\<lparr>clients := (clients n)(a \<mapsto> c\<lparr>c_flags :=
      (if b then set_flag else clear_flag) (c_flags c) NS_FLAG_EXCLUDED\<rparr>)\<rparr>) \<and>
    (b \<longrightarrow> has (c_flags up) NS_FLAG_EXCLUDED \<or> excluded_by (exclude_list n) u (c_hostip c)) \<and>
    (has (c_flags up) NS_FLAG_EXCLUDED \<or> surely_excluded_by (exclude_list n) u (c_hostip c) \<longrightarrow> b)"
proof -
  define c1 where "c1 = c\<lparr>c_flags := clear_flag (c_flags c) NS_FLAG_EXCLUDED\<rparr>"
  have ip: "c_hostip c1 = c_hostip c" by (simp add: c1_def)
  have "\<exists>b. ExcludeUserHandler c1 u e = Some b \<and> (b \<longrightarrow> excluded_by [e] u (c_hostip c)) \<and> (surely_excluded_by [e] u (c_hostip c) \<longrightarrow> b)"
    if "e \<in> set (exclude_list n)" for e
    using ExcludeUserHandler_bounds [of e u c1] assms(1,6-8) that unfolding ip by (simp add: list_all_iff)
  with ProcessExcludeList_bounds [of "exclude_list n" "ExcludeUserHandler c1 u" "\<lambda>e. excluded_by [e] u (c_hostip c)"
      "\<lambda>e. surely_excluded_by [e] u (c_hostip c)"] obtain b where b: "ProcessExcludeList (exclude_list n) (ExcludeUserHandler c1 u) = Some b"
    "b \<longrightarrow> (\<exists>e\<in>set (exclude_list n). excluded_by [e] u (c_hostip c))" "(\<exists>e\<in>set (exclude_list n). surely_excluded_by [e] u (c_hostip c)) \<longrightarrow> b"
    by blast
  have "ns_do_exclude_user a n = Some (n\<lparr>clients := (clients n)(a \<mapsto> c\<lparr>c_flags :=
      (if has (c_flags up) NS_FLAG_EXCLUDED \<or> b then set_flag else clear_flag) (c_flags c) NS_FLAG_EXCLUDED\<rparr>)\<rparr>)"
    using assms(2-5) b(1) by (auto simp: ns_do_exclude_user_def upd_client_def c1_def set_cleared)
  moreover have "b \<longrightarrow> excluded_by (exclude_list n) u (c_hostip c)" "surely_excluded_by (exclude_list n) u (c_hostip c) \<longrightarrow> b"
    using b(2,3) by (auto simp: excluded_by_def surely_excluded_by_def)
  ultimately show ?thesis by blast
qed

definition sample_exclude :: exclude where
  "sample_exclude = \<lparr>ex_type = NS_EXCLUDE_HOST, ex_pattern = ''*.net'', ex_addedby = ''root'', ex_reason = ''noise'',
     ex_addedon = 0\<rparr>"

lemma ns_do_exclude_user_flag_witness:
  "let n = blank_net\<lparr>clients := [1 \<mapsto> sample_client ''hub.net'' None 0,
        2 \<mapsto> sample_client ''fish'' (Some (sample_user ''a.net'' ''fish!f@a.net'')) 1], exclude_list := [sample_exclude]\<rparr>
   in map_option (\<lambda>n'. map_option c_flags (clients n' 2)) (ns_do_exclude_user 2 n) = Some (Some NS_FLAG_EXCLUDED)"
proof -
  let ?u = "sample_user ''a.net'' ''fish!f@a.net''"
  let ?n = "blank_net\<lparr>clients := [1 \<mapsto> sample_client ''hub.net'' None 0,
        2 \<mapsto> sample_client ''fish'' (Some ?u) 1], exclude_list := [sample_exclude]\<rparr>"
  have hyps: "list_all exclude_ok (exclude_list ?n)" "nul_free (u_hostname ?u)" "nul_free (u_userhostmask ?u)"
      "nul_free (c_hostip (sample_client ''fish'' (Some ?u) 1))"
    by (simp_all add: exclude_ok_def sample_exclude_def sample_user_def sample_client_def nul_free_def)
  have "glob (ex_pattern sample_exclude) (u_hostname ?u)" "mask_fits (ex_pattern sample_exclude) (u_hostname ?u)"
    "ex_type sample_exclude = NS_EXCLUDE_HOST" by code_simp+
  then have "surely_excluded_by (exclude_list ?n) ?u (c_hostip (sample_client ''fish'' (Some ?u) 1))"
    unfolding surely_excluded_by_def by (intro bexI [of _ sample_exclude] exI conjI disjI1) auto
  then show ?thesis
    using ns_do_exclude_user_flag [where n = ?n and a = 2, OF hyps(1) _ _ _ _ hyps(2,4,3)]
    by (auto simp add: sample_client_def NS_FLAG_EXCLUDED_def set_flag_def)
qed

end
