(* ===== verification/Channels.thy ===== *)
theory Channels
  imports Exclude
begin

text \<open>
  \<^verbatim>\<open>src/channels.c\<close> and the part of \<^verbatim>\<open>src/bots.c\<close> and \<^verbatim>\<open>src/ircsend.c\<close> it calls when only bots are
  left on a channel: joining, parting and kicking keep the member list of a channel and the
  channel list of a user in step, count the members, and delete empty channels.
\<close>

section \<open>Creating and deleting channels\<close>

definition new_channel :: "env \<Rightarrow> string \<Rightarrow> channel" where
  "new_channel E chan =
     \<lparr>ch_name = strlcpy_str MAXCHANLEN chan, ch_users = 0, ch_neousers = 0, ch_persistentusers = 0, ch_modes = 0,
      ch_members = [], ch_topic = '''', ch_topicowner = '''', ch_topictime = 0, ch_limit = 0, ch_key = '''',
      ch_modeparams = [], ch_creationtime = 0,
      ch_flags = (if irc_eq (me_serviceschan E) chan then CHANNEL_FLAG_ME else 0)\<rparr>"

text \<open>The address of the new channel, 0 when the table is full.\<close>

definition new_chan :: "env \<Rightarrow> string \<Rightarrow> net \<Rightarrow> (addr \<times> net) option" where
  "new_chan E chan n =
     (if hash_isfull (channelhash n) then Some (0, n)
      else do {
        let (c, n) = alloc n;
        let n = n\<lparr>channels := (channels n)(c \<mapsto> new_channel E chan)\<rparr>;
        let (node, n) = alloc n;
        t \<leftarrow> hnode_create_insert node (channelhash n) c (strlcpy_str MAXCHANLEN chan);
        let n = n\<lparr>channelhash := t\<rparr>;
        n \<leftarrow> upd_chan c (\<lambda>ch. ch\<lparr>ch_creationtime := me_now E\<rparr>) n;
        n \<leftarrow> ns_do_exclude_chan c n;
        let n = n\<lparr>channelcount := channelcount n + 1\<rparr>;
        Some (c, SendAllModuleEvent EVENT_NEWCHAN (no_params\<lparr>cp_channel := c\<rparr>) n) })"

definition del_chan :: "addr \<Rightarrow> net \<Rightarrow> net option" where
  "del_chan c n = do {
     ch \<leftarrow> channels n c;
     r \<leftarrow> hash_lookup (channelhash n) (ch_name ch);
     case r of
       None \<Rightarrow> Some n
     | Some cn \<Rightarrow> do {
         let n = n\<lparr>channelcount := channelcount n - 1\<rparr>;
         let n = SendAllModuleEvent EVENT_DELCHAN (no_params\<lparr>cp_channel := c\<rparr>) n;
         nassert (ch_members ch = []);
         t \<leftarrow> hash_delete_destroy_node (channelhash n) cn;
         Some (free_chan c (n\<lparr>channelhash := t\<rparr>)) } }"

section \<open>Membership\<close>

text \<open>\<open>comparechanmember\<close>: a member's client is followed to its name.\<close>

fun find_member :: "net \<Rightarrow> string \<Rightarrow> chanmember list \<Rightarrow> chanmember option option" where
  "find_member n nick [] = Some None"
| "find_member n nick (m # ms) = do {
     u \<leftarrow> clients n (cm_u m);
     if irc_eq (c_name u) nick then Some (Some m) else find_member n nick ms
   }"

fun remove_member :: "net \<Rightarrow> string \<Rightarrow> chanmember list \<Rightarrow> chanmember list option" where
  "remove_member n nick [] = Some []"
| "remove_member n nick (m # ms) = do {
     u \<leftarrow> clients n (cm_u m);
     if irc_eq (c_name u) nick then Some ms else map_option ((#) m) (remove_member n nick ms)
   }"

definition del_user_channel :: "addr \<Rightarrow> addr \<Rightarrow> net \<Rightarrow> net option" where
  "del_user_channel c u n = do {
     ch \<leftarrow> channels n c;
     upd_user u (\<lambda>r. r\<lparr>u_chans := remove_first (\<lambda>x. irc_eq x (ch_name ch)) (u_chans r)\<rparr>) n
   }"

definition del_channel_member :: "addr \<Rightarrow> addr \<Rightarrow> net \<Rightarrow> net option" where
  "del_channel_member c u n = do {
     ch \<leftarrow> channels n c;
     cl \<leftarrow> clients n u;
     un \<leftarrow> find_member n (c_name cl) (ch_members ch);
     if un = None then Some n
     else do {
       ms \<leftarrow> remove_member n (c_name cl) (ch_members ch);
       upd_chan c (\<lambda>ch. ch\<lparr>ch_members := ms, ch_users := (if ch_users ch > 0 then ch_users ch - 1 else ch_users ch)\<rparr>) n }
   }"

definition IsChannelMember :: "addr \<Rightarrow> addr \<Rightarrow> net \<Rightarrow> int option" where
  "IsChannelMember c u n =
     (if u = 0 \<or> c = 0 then Some NS_FALSE
      else do {
        ch \<leftarrow> channels n c;
        cl \<leftarrow> clients n u;
        m \<leftarrow> find_member n (c_name cl) (ch_members ch);
        Some (if m \<noteq> None then NS_TRUE else NS_FALSE) })"

definition test_cumode :: "addr \<Rightarrow> addr \<Rightarrow> uint \<Rightarrow> net \<Rightarrow> int option" where
  "test_cumode c u md n =
     (if u = 0 \<or> c = 0 then Some NS_FALSE
      else do {
        ch \<leftarrow> channels n c;
        cl \<leftarrow> clients n u;
        m \<leftarrow> find_member n (c_name cl) (ch_members ch);
        Some (case m of None \<Rightarrow> NS_FALSE | Some cm \<Rightarrow> if has (cm_modes cm) md then NS_TRUE else NS_FALSE) })"

section \<open>Parting\<close>

text \<open>
  A part empties a channel of its real users, the bots left behind are parted in turn, and each
  of those parts looks again. \<open>part\<close> is the recursive call; the fuel of \<open>PartChannel\<close> is the
  depth of these calls. Every call takes one channel name off the list of the client that
  parts, so that the number of names on the lists bounds the depth.
\<close>

type_synonym part_fun = "addr \<Rightarrow> string \<Rightarrow> string option \<Rightarrow> net \<Rightarrow> net option"

definition irc_part :: "env \<Rightarrow> part_fun \<Rightarrow> addr \<Rightarrow> string \<Rightarrow> string option \<Rightarrow> net \<Rightarrow> (int \<times> net) option" where
  "irc_part E part b chan quitmsg n =
     (if \<not> can_send_part E then Some (NS_FAILURE, n)
      else do {
        c \<leftarrow> FindChannel n chan;
        bt \<leftarrow> bots n b;
        n \<leftarrow> (if has (b_flags bt) BOT_FLAG_PERSIST
             then upd_chan c (\<lambda>ch. ch\<lparr>ch_persistentusers := ch_persistentusers ch - 1\<rparr>) n else Some n);
        u \<leftarrow> clients n (b_u bt);
        let n = emit (Send ''PART'' [c_name u, chan, case quitmsg of None \<Rightarrow> '''' | Some q \<Rightarrow> q]) n;
        n \<leftarrow> part (b_u bt) chan quitmsg n;
        Some (NS_SUCCESS, n) })"

text \<open>
  The inner loop over the channels of one bot: the channel is read through the pointer
  \<open>c\<close> at every comparison, after the first match the loop is left.
\<close>

fun on_channel :: "net \<Rightarrow> addr \<Rightarrow> string list \<Rightarrow> bool option" where
  "on_channel n c [] = Some False"
| "on_channel n c (x # xs) = do {
     ch \<leftarrow> channels n c;
     if irc_eq (ch_name ch) x then Some True else on_channel n c xs
   }"

definition dead_channel_bot :: "env \<Rightarrow> part_fun \<Rightarrow> addr \<Rightarrow> addr \<Rightarrow> net \<Rightarrow> (bool \<times> net) option" where
  "dead_channel_bot E part c b n = do {
     bt \<leftarrow> bots n b;
     u \<leftarrow> user_of n (b_u bt);
     hit \<leftarrow> on_channel n c (u_chans u);
     if hit
     then do {
       ch \<leftarrow> channels n c;
       (_, n) \<leftarrow> irc_part E part b (ch_name ch) None n;
       bt \<leftarrow> bots n b;
       Some (False, SendModuleEvent EVENT_EMPTYCHAN (no_params\<lparr>cp_channel := c, cp_bot := b\<rparr>) (b_module bt) n) }
     else Some (False, n)
   }"

definition table_bound :: "(string, addr) hash_t \<Rightarrow> nat" where
  "table_bound h = Suc (unat (h_nodecount h))"

definition handle_dead_channel :: "env \<Rightarrow> part_fun \<Rightarrow> addr \<Rightarrow> net \<Rightarrow> net option" where
  "handle_dead_channel E part c n = do {
     ch \<leftarrow> channels n c;
     if IsServicesChannel ch then Some n
     else if ch_persistentusers ch > 0 then Some n
     else scan_table bothash (dead_channel_bot E part c) (table_bound (bothash n)) (hash_scan_begin 0 (bothash n)) n
   }"

definition CheckEmptyChannel :: "env \<Rightarrow> part_fun \<Rightarrow> addr \<Rightarrow> net \<Rightarrow> net option" where
  "CheckEmptyChannel E part c n = do {
     ch \<leftarrow> channels n c;
     if ch_users ch = 0 then del_chan c n
     else if ch_neousers ch > 0 \<and> ch_neousers ch = ch_users ch then handle_dead_channel E part c n
     else Some n
   }"

definition send_to_bot :: "event_kind \<Rightarrow> cmdparams \<Rightarrow> addr \<Rightarrow> net \<Rightarrow> net option" where
  "send_to_bot ev p u n = do {
     r \<leftarrow> user_of n u;
     bt \<leftarrow> bots n (u_bot r);
     Some (SendModuleEvent ev p (b_module bt) n)
   }"

text \<open>The kick that was held back until its part (PROTOCOL_KICKPART).\<close>

definition zombie_kick :: "addr \<Rightarrow> addr \<Rightarrow> net \<Rightarrow> net option" where
  "zombie_kick c u n = do {
     n \<leftarrow> upd_client u (\<lambda>r. r\<lparr>c_flags := clear_flag (c_flags r) CLIENT_FLAG_ZOMBIE\<rparr>) n;
     src \<leftarrow> FindClient n (Some (savekicker n));
     let p = no_params\<lparr>cp_channel := c, cp_target := u, cp_source := src,
               cp_param := (if savekickreason n \<noteq> [] then Some (savekickreason n) else None)\<rparr>;
     let n = SendAllModuleEvent EVENT_KICK p n;
     me \<leftarrow> IsMe n u;
     if me then do { r \<leftarrow> user_of n u; send_to_bot EVENT_KICKBOT (p\<lparr>cp_bot := u_bot r\<rparr>) u n } else Some n
   }"

definition part_body :: "env \<Rightarrow> part_fun \<Rightarrow> part_fun" where
  "part_body E part u chan reason n = do {
     cl \<leftarrow> clients n u;
     c \<leftarrow> FindChannel n chan;
     if c = 0 then Some n
     else do {
       n \<leftarrow> del_user_channel c u n;
       n \<leftarrow> del_channel_member c u n;
       n \<leftarrow> (if has (c_flags cl) CLIENT_FLAG_ZOMBIE then zombie_kick c u n else Some n);
       let p = no_params\<lparr>cp_channel := c, cp_source := u, cp_param := reason\<rparr>;
       let n = SendAllModuleEvent EVENT_PART p n;
       me \<leftarrow> IsMe n u;
       n \<leftarrow> (if me
            then do {
              n \<leftarrow> send_to_bot EVENT_PARTBOT p u n;
              upd_chan c (\<lambda>ch. ch\<lparr>ch_neousers := ch_neousers ch - 1\<rparr>) n }
            else Some n);
       CheckEmptyChannel E part c n }
   }"

primrec part_depth :: "env \<Rightarrow> nat \<Rightarrow> part_fun" where
  "part_depth E 0 u chan reason n = None"
| "part_depth E (Suc k) u chan reason n = part_body E (part_depth E k) u chan reason n"

text \<open>The number of names on the channel lists of the bots.\<close>

definition bot_chans :: "net \<Rightarrow> addr \<Rightarrow> nat" where
  "bot_chans n b = (case bots n b of None \<Rightarrow> 0 | Some bt \<Rightarrow>
     (case user_of n (b_u bt) of None \<Rightarrow> 0 | Some u \<Rightarrow> length (u_chans u)))"

definition part_fuel :: "net \<Rightarrow> nat" where
  "part_fuel n = Suc (Suc (sum_list (map (\<lambda>nd. bot_chans n (hn_data nd)) (h_nodes (bothash n)))))"

definition PartChannel :: "env \<Rightarrow> addr \<Rightarrow> string \<Rightarrow> string option \<Rightarrow> net \<Rightarrow> net option" where
  "PartChannel E u chan reason n = part_depth E (part_fuel n) u chan reason n"

text \<open>
  \<open>list_process\<close> over the channels of a client. The next node is remembered before the handler
  runs; a node that has left the list meanwhile is a dangling pointer.
\<close>

fun part_each :: "env \<Rightarrow> addr \<Rightarrow> string option \<Rightarrow> string list \<Rightarrow> net \<Rightarrow> net option" where
  "part_each E u reason [] n = Some n"
| "part_each E u reason (x # xs) n = do {
     r \<leftarrow> user_of n u;
     nassert (x \<in> set (u_chans r));
     n \<leftarrow> PartChannel E u x reason n;
     part_each E u reason xs n
   }"

definition PartAllChannels :: "env \<Rightarrow> addr \<Rightarrow> string option \<Rightarrow> net \<Rightarrow> net option" where
  "PartAllChannels E u reason n = do {
     let quitreason = (case reason of None \<Rightarrow> '''' | Some q \<Rightarrow> strip_mirc_codes (strlcpy_str BUFSIZE q));
     r \<leftarrow> user_of n u;
     part_each E u (if quitreason \<noteq> [] then Some quitreason else None) (u_chans r) n
   }"

section \<open>Kicking, joining, topics\<close>

definition KickChannel :: "env \<Rightarrow> string \<Rightarrow> string \<Rightarrow> string \<Rightarrow> string option \<Rightarrow> net \<Rightarrow> net option" where
  "KickChannel E kickby chan kicked kickreason n = do {
     u \<leftarrow> FindUser n kicked;
     if u = 0 then Some n
     else do {
       c \<leftarrow> FindChannel n chan;
       if c = 0 then Some n
       else if has (ircd_protocol E) PROTOCOL_KICKPART
       then do {
         n \<leftarrow> upd_client u (\<lambda>r. r\<lparr>c_flags := set_flag (c_flags r) CLIENT_FLAG_ZOMBIE\<rparr>) n;
         Some (n\<lparr>savekicker := strlcpy_str MAXHOST kickby,
                 savekickreason := (case kickreason of None \<Rightarrow> '''' | Some q \<Rightarrow> strlcpy_str BUFSIZE q)\<rparr>) }
       else do {
         n \<leftarrow> del_user_channel c u n;
         n \<leftarrow> del_channel_member c u n;
         src \<leftarrow> FindUser n kickby;
         src \<leftarrow> (if src = 0 then FindServer n kickby else Some src);
         let p = no_params\<lparr>cp_target := u, cp_channel := c, cp_source := src, cp_param := kickreason\<rparr>;
         let n = SendAllModuleEvent EVENT_KICK p n;
         me \<leftarrow> IsMe n u;
         n \<leftarrow> (if me then do { r \<leftarrow> user_of n u; send_to_bot EVENT_KICKBOT (p\<lparr>cp_bot := u_bot r\<rparr>) u n }
              else Some n);
         CheckEmptyChannel E (part_depth E (part_fuel n)) c n } }
   }"

definition add_member :: "env \<Rightarrow> addr \<Rightarrow> addr \<Rightarrow> net \<Rightarrow> net option" where
  "add_member E c cu n =
     upd_chan c (\<lambda>ch. ch\<lparr>ch_members := ch_members ch @ [\<lparr>cm_u = cu, cm_tsjoin = me_now E, cm_modes = 0\<rparr>],
       ch_users := ch_users ch + 1\<rparr>) n"

text \<open>The second half of \<open>JoinChannel\<close>, once user and channel are known.\<close>

definition join_member :: "env \<Rightarrow> string \<Rightarrow> addr \<Rightarrow> addr \<Rightarrow> net \<Rightarrow> net option" where
  "join_member E nick u c n = do {
     ch \<leftarrow> channels n c;
     cl \<leftarrow> clients n u;
     m \<leftarrow> find_member n (c_name cl) (ch_members ch);
     if m \<noteq> None then Some n
     else if full (ch_members ch) then Some n
     else do {
       cu \<leftarrow> FindUser n nick;
       n \<leftarrow> add_member E c cu n;
       r \<leftarrow> user_of n u;
       if full (u_chans r) then Some n
       else do {
         n \<leftarrow> upd_user u (\<lambda>r. r\<lparr>u_chans := u_chans r @ [ch_name ch]\<rparr>) n;
         me \<leftarrow> IsMe n u;
         n \<leftarrow> (if me then upd_chan c (\<lambda>ch. ch\<lparr>ch_neousers := ch_neousers ch + 1\<rparr>) n else Some n);
         Some (SendAllModuleEvent EVENT_JOIN (no_params\<lparr>cp_source := u, cp_channel := c\<rparr>) n) } }
   }"

definition JoinChannel :: "env \<Rightarrow> string \<Rightarrow> string \<Rightarrow> net \<Rightarrow> net option" where
  "JoinChannel E nick chan n = do {
     u \<leftarrow> FindUser n nick;
     if u = 0 then Some n
     else if irc_eq ''0'' chan then PartAllChannels E u None n
     else do {
       c \<leftarrow> FindChannel n chan;
       (c, n) \<leftarrow> (if c = 0 then new_chan E chan n else Some (c, n));
       join_member E nick u c n }
   }"

definition ChannelTopic :: "env \<Rightarrow> string \<Rightarrow> string \<Rightarrow> string option \<Rightarrow> string option \<Rightarrow> net \<Rightarrow> net option" where
  "ChannelTopic E chan own ts topic n = do {
     c \<leftarrow> FindChannel n chan;
     if c = 0 then Some n
     else do {
       n \<leftarrow> upd_chan c (\<lambda>ch. ch\<lparr>ch_topic := (case topic of None \<Rightarrow> '''' | Some t \<Rightarrow> strlcpy_str BUFSIZE t),
              ch_topicowner := strlcpy_str MAXHOST own,
              ch_topictime := (case ts of None \<Rightarrow> me_now E | Some t \<Rightarrow> atoi t)\<rparr>) n;
       src \<leftarrow> FindClient n (Some own);
       ch \<leftarrow> channels n c;
       Some (SendAllModuleEvent EVENT_TOPIC (no_params\<lparr>cp_source := src, cp_channel := c, cp_param := Some (ch_topic ch)\<rparr>) n) }
   }"

section \<open>Walking\<close>

text \<open>Handlers answer nonzero to stop.\<close>

definition ProcessChannelList :: "(addr \<Rightarrow> net \<Rightarrow> (int \<times> net) option) \<Rightarrow> net \<Rightarrow> net option" where
  "ProcessChannelList handler n =
     scan_table channelhash (\<lambda>c n. do { (ret, n) \<leftarrow> handler c n; Some (ret \<noteq> 0, n) })
       (table_bound (channelhash n)) (hash_scan_begin 0 (channelhash n)) n"

fun members_loop :: "(chanmember \<Rightarrow> net \<Rightarrow> (int \<times> net) option) \<Rightarrow> chanmember list \<Rightarrow> net \<Rightarrow> (int \<times> net) option" where
  "members_loop handler [] n = Some (0, n)"
| "members_loop handler (m # ms) n = do {
     (ret, n) \<leftarrow> handler m n;
     if ret \<noteq> 0 then Some (ret, n) else members_loop handler ms n
   }"

definition ProcessChannelMembers :: "addr \<Rightarrow> (chanmember \<Rightarrow> net \<Rightarrow> (int \<times> net) option) \<Rightarrow> net \<Rightarrow> (int \<times> net) option" where
  "ProcessChannelMembers c handler n = do {
     ch \<leftarrow> channels n c;
     members_loop handler (ch_members ch) n
   }"

text \<open>\<open>r\<close> is the value of \<^verbatim>\<open>rand()\<close>.\<close>

definition GetRandomChannel :: "nat \<Rightarrow> net \<Rightarrow> addr option" where
  "GetRandomChannel r n =
     (if hash_count (channelhash n) = 0 then Some 0
      else do {
        randno \<leftarrow> hrand r (ucast (hash_count (channelhash n))) 1;
        ns \<leftarrow> hash_scan (channelhash n);
        Some (if unat randno < length ns then hn_data (ns ! unat randno) else 0) })"

fun random_member_loop :: "net \<Rightarrow> bool \<Rightarrow> nat \<Rightarrow> nat \<Rightarrow> chanmember list \<Rightarrow> addr option" where
  "random_member_loop n uge randno curno [] = Some 0"
| "random_member_loop n uge randno curno (m # ms) = do {
     ex \<leftarrow> (if uge then IsExcluded n (cm_u m) else Some False);
     if \<not> ex \<and> curno = randno then Some (cm_u m) else random_member_loop n uge randno (curno + 1) ms
   }"

definition GetRandomChannelMember :: "nat \<Rightarrow> addr \<Rightarrow> bool \<Rightarrow> net \<Rightarrow> addr option" where
  "GetRandomChannelMember r c uge n = do {
     ch \<leftarrow> channels n c;
     randno \<leftarrow> hrand r (of_nat (length (ch_members ch))) 1;
     random_member_loop n uge (unat randno) 0 (ch_members ch)
   }"

text \<open>\<open>rs\<close> are the values of the calls of \<^verbatim>\<open>rand()\<close>; the length is the int passed.\<close>

definition GetRandomChannelKey :: "nat list \<Rightarrow> int \<Rightarrow> string" where
  "GetRandomChannelKey rs len =
     (let l = (if len < 1 \<or> len > int (KEYLEN - 1) then KEYLEN - 1 else nat len)
      in map (\<lambda>i. char_of (rs ! i mod 26 + 97)) [0..<l])"

definition InitChannels :: "net \<Rightarrow> net option" where
  "InitChannels n = do {
     t \<leftarrow> hash_create COUNT_MAX hash_comp_default hash_fun_default;
     Some (n\<lparr>channelhash := t\<rparr>)
   }"

definition FiniChannels :: "net \<Rightarrow> unit option" where
  "FiniChannels n = hash_destroy (channelhash n)"

end
