(* ===== verification/Users.thy ===== *)
theory Users
  imports Channels
begin

text \<open>
  \<^verbatim>\<open>src/users.c\<close>: users signing on, quitting, being killed, changing nick and going away. Their
  modes are strings whose masks the parameters \<open>umask\<close> and \<open>smask\<close> compute (\<^verbatim>\<open>src/modes.c\<close>).
\<close>

section \<open>Signing on\<close>

definition new_user_rec :: user where
  "new_user_rec =
     \<lparr>u_hostname = '''', u_username = '''', u_vhost = '''', u_awaymsg = '''', u_userhostmask = '''',
      u_uservhostmask = '''', u_flood = 0, u_is_away = False, u_tslastmsg = 0, u_servicestamp = 0, u_modes = '''', u_swhois = '''',
      u_Umode = 0, u_Smode = 0, u_ulevel = 0, u_chans = [], u_bot = 0\<rparr>"

definition blank_client :: "string \<Rightarrow> client" where
  "blank_client name =
     \<lparr>c_user = None, c_server = None, c_name = name, c_name64 = '''', c_uplinkname = '''', c_uplink = 0, c_info = '''',
      c_version = '''', c_flags = 0, c_tsconnect = 0, c_ip = 0, c_hostip = ''''\<rparr>"

text \<open>The address of the new user, 0 when the table is full.\<close>

definition new_user :: "string \<Rightarrow> net \<Rightarrow> (addr \<times> net) option" where
  "new_user nick n =
     (if hash_isfull (userhash n) then Some (0, n)
      else do {
        let (u, n) = alloc n;
        let n = n\<lparr>clients := (clients n)(u \<mapsto> (blank_client (strlcpy_str MAXNICK nick))\<lparr>c_user := Some new_user_rec\<rparr>)\<rparr>;
        let (node, n) = alloc n;
        t \<leftarrow> hnode_create_insert node (userhash n) u (strlcpy_str MAXNICK nick);
        Some (u, n\<lparr>userhash := t, usercount := usercount n + 1\<rparr>) })"

text \<open>\<^verbatim>\<open>"%s!%s@%s"\<close> into a buffer of USERHOSTLEN bytes.\<close>

definition userhost_mask :: "string \<Rightarrow> string \<Rightarrow> string \<Rightarrow> string" where
  "userhost_mask nick usr host = strlcpy_str USERHOSTLEN (nick @ ''!'' @ usr @ ''@'' @ host)"

text \<open>
  The address a host name stands for when it is one, else 0 and a lookup is started, whose
  answer comes back to \<open>lookupnickip\<close>.
\<close>

definition process_ip :: "env \<Rightarrow> string \<Rightarrow> string \<Rightarrow> net \<Rightarrow> uint \<times> net" where
  "process_ip E nick host n =
     (case c_inet_aton E host of
        Some a \<Rightarrow> (c_htonl E a, n)
      | None \<Rightarrow> (0, emit (Send ''DNS'' [host, nick]) n))"

text \<open>\<open>answer\<close> is the address in a successful answer of the resolver with at least one record.\<close>

definition lookupnickip :: "env \<Rightarrow> string \<Rightarrow> uint option \<Rightarrow> net \<Rightarrow> net option" where
  "lookupnickip E nick answer n = do {
     u \<leftarrow> FindUser n nick;
     case answer of
       None \<Rightarrow> Some n
     | Some a \<Rightarrow>
         if u = 0 then Some n
         else do {
           n \<leftarrow> upd_client u (\<lambda>c. c\<lparr>c_ip := a, c_hostip := strlcpy_str HOSTIPLEN (c_inet_ntoa E a)\<rparr>) n;
           if a > 0
           then do {
             n \<leftarrow> ns_do_exclude_user u n;
             Some (SendAllModuleEvent EVENT_NICKIP (no_params\<lparr>cp_source := u\<rparr>) n) }
           else Some n } }"

definition user_ip :: "env \<Rightarrow> string \<Rightarrow> string \<Rightarrow> string option \<Rightarrow> net \<Rightarrow> uint \<times> net" where
  "user_ip E name host ip n =
     (case ip of
        Some s \<Rightarrow> ((case c_inet_aton E s of Some a \<Rightarrow> c_htonl E a | None \<Rightarrow> c_strtoul E s), n)
      | None \<Rightarrow>
          if \<not> has (ircd_protocol E) PROTOCOL_NICKIP \<and> me_want_nickip E then process_ip E name host n else (0, n))"

definition fill_user :: "env \<Rightarrow> string \<Rightarrow> string \<Rightarrow> string \<Rightarrow> string \<Rightarrow> string option \<Rightarrow> client \<Rightarrow> client" where
  "fill_user E nick usr host realname TS c =
     c\<lparr>c_tsconnect := (case TS of Some t \<Rightarrow> c_strtol E t | None \<Rightarrow> me_now E),
       c_user := map_option (\<lambda>u. u\<lparr>u_hostname := strlcpy_str MAXHOST host, u_vhost := strlcpy_str MAXHOST host,
         u_userhostmask := userhost_mask nick usr host, u_uservhostmask := userhost_mask nick usr host,
         u_username := strlcpy_str MAXUSER usr, u_ulevel := -1\<rparr>) (c_user c),
       c_info := strlcpy_str MAXREALNAME realname\<rparr>"

definition netjoin :: "env \<Rightarrow> addr \<Rightarrow> addr \<Rightarrow> net \<Rightarrow> net option" where
  "netjoin E u up n = do {
     c \<leftarrow> clients n u;
     j \<leftarrow> (if has (ircd_protocol E) PROTOCOL_EOB
          then do { s \<leftarrow> IsSynched n up; Some (\<not> s) }
          else Some (c_time E - c_tsconnect c > splittime E));
     if j then upd_client u (\<lambda>c. c\<lparr>c_flags := set_flag (c_flags c) NS_FLAGS_NETJOIN\<rparr>) n else Some n
   }"

definition set_nick_base64 :: "string \<Rightarrow> string \<Rightarrow> net \<Rightarrow> (int \<times> net) option" where
  "set_nick_base64 nick base64name n = do {
     u \<leftarrow> FindUser n nick;
     if u = 0 then Some (NS_FAILURE, n)
     else do {
       n \<leftarrow> upd_client u (\<lambda>c. c\<lparr>c_name64 := strlcpy_str B64SIZE base64name\<rparr>) n;
       Some (NS_SUCCESS, n) }
   }"

text \<open>
  Returns 0 when the nick is taken or the table is full. An unknown server is a null pointer
  that is followed.
\<close>

definition AddUser :: "env \<Rightarrow> string \<Rightarrow> string \<Rightarrow> string \<Rightarrow> string \<Rightarrow> string \<Rightarrow> string option \<Rightarrow> string option \<Rightarrow>
    string option \<Rightarrow> net \<Rightarrow> (addr \<times> net) option" where
  "AddUser E nick usr host realname server ip TS numeric n = do {
     u \<leftarrow> FindUser n nick;
     if u \<noteq> 0 then Some (0, n)
     else do {
       (u, n) \<leftarrow> new_user nick n;
       if u = 0 then Some (0, n)
       else do {
         let (ipaddress, n) = user_ip E (strlcpy_str MAXNICK nick) host ip n;
         n \<leftarrow> upd_client u (fill_user E nick usr host realname TS) n;
         up \<leftarrow> FindServer n server;
         n \<leftarrow> upd_client u (\<lambda>c. c\<lparr>c_uplink := up\<rparr>) n;
         n \<leftarrow> upd_server up (\<lambda>s. s\<lparr>sv_users := sv_users s + 1\<rparr>) n;
         n \<leftarrow> netjoin E u up n;
         n \<leftarrow> upd_user u (\<lambda>r. r\<lparr>u_tslastmsg := me_now E, u_chans := []\<rparr>) n;
         n \<leftarrow> upd_client u (\<lambda>c. c\<lparr>c_ip := c_htonl E ipaddress,
                c_hostip := strlcpy_str HOSTIPLEN (c_inet_ntoa E (c_htonl E ipaddress))\<rparr>) n;
         me \<leftarrow> IsMe n up;
         n \<leftarrow> (if me then upd_client u (\<lambda>c. c\<lparr>c_flags := set_flag (c_flags c) CLIENT_FLAG_ME\<rparr>) n else Some n);
         n \<leftarrow> ns_do_exclude_user u n;
         n \<leftarrow> (case numeric of
                Some num \<Rightarrow>
                  if has (ircd_protocol E) PROTOCOL_B64NICK
                  then do { c \<leftarrow> clients n u; (_, n) \<leftarrow> set_nick_base64 (c_name c) num n; Some n } else Some n
              | None \<Rightarrow> Some n);
         let p = no_params\<lparr>cp_source := u\<rparr>;
         let n = SendAllModuleEvent EVENT_SIGNON p n;
         let n = (if me_want_nickip E \<and> ipaddress \<noteq> 0 then SendAllModuleEvent EVENT_NICKIP p n else n);
         ex \<leftarrow> IsExcluded n u;
         me \<leftarrow> IsMe n u;
         c \<leftarrow> clients n u;
         Some (u, if me_synched E \<and> me_versionscan E \<and> \<not> ex \<and> \<not> me then emit (Send ''VERSION'' [c_name c]) n else n) } }
   }"

section \<open>Leaving\<close>

text \<open>The entry of a bot leaves the table of bots with its commands and settings.\<close>

definition DelBot :: "string \<Rightarrow> net \<Rightarrow> (int \<times> net) option" where
  "DelBot bot_name n = do {
     r \<leftarrow> hash_lookup (bothash n) bot_name;
     case r of
       None \<Rightarrow> Some (NS_FAILURE, n)
     | Some bn \<Rightarrow> do {
         t \<leftarrow> hash_delete_destroy_node (bothash n) bn;
         Some (NS_SUCCESS, n\<lparr>bothash := t, bots := (bots n)(hn_data bn := None)\<rparr>) } }"

definition deluser :: "addr \<Rightarrow> net \<Rightarrow> net option" where
  "deluser u n = do {
     c \<leftarrow> clients n u;
     r \<leftarrow> hash_lookup (userhash n) (c_name c);
     case r of
       None \<Rightarrow> Some n
     | Some un \<Rightarrow> do {
         me \<leftarrow> IsMe n u;
         n \<leftarrow> (if me then do { (_, n) \<leftarrow> DelBot (c_name c) n; Some n } else Some n);
         t \<leftarrow> hash_delete_destroy_node (userhash n) un;
         let n = n\<lparr>userhash := t\<rparr>;
         ur \<leftarrow> user_of n u;
         nassert (u_chans ur = []);
         n \<leftarrow> (if c_uplink c \<noteq> 0 then upd_server (c_uplink c) (\<lambda>s. s\<lparr>sv_users := sv_users s - 1\<rparr>) n else Some n);
         away \<leftarrow> IsAway n u;
         n \<leftarrow> (if away
              then (let n = n\<lparr>awaycount := awaycount n - 1\<rparr>
                    in if c_uplink c \<noteq> 0
                       then upd_server (c_uplink c) (\<lambda>s. s\<lparr>sv_awaycount := sv_awaycount s - 1\<rparr>) n else Some n)
              else Some n);
         Some ((free_client u n)\<lparr>usercount := usercount n - 1\<rparr>) } }"

text \<open>The words of a reason from the given position on, as \<open>split_buf\<close> and \<open>joinbuf\<close> give them.\<close>

definition reason_from :: "string \<Rightarrow> nat \<Rightarrow> string option" where
  "reason_from reason k = do {
     av \<leftarrow> those (split_buf (Some reason));
     joinbuf av k
   }"

definition KillUser :: "env \<Rightarrow> string \<Rightarrow> string \<Rightarrow> string \<Rightarrow> net \<Rightarrow> net option" where
  "KillUser E src nick reason n = do {
     u \<leftarrow> FindUser n nick;
     if u = 0 then Some n
     else do {
       n \<leftarrow> PartAllChannels E u (Some reason) n;
       killreason \<leftarrow> reason_from reason 1;
       s \<leftarrow> FindClient n (Some src);
       let p = no_params\<lparr>cp_target := u, cp_param := Some killreason, cp_source := s\<rparr>;
       sc \<leftarrow> clients n s;
       let n = SendAllModuleEvent EVENT_KILL p n;
       let n = SendAllModuleEvent (if c_user sc \<noteq> None then EVENT_GLOBALKILL else EVENT_SERVERKILL) p n;
       me \<leftarrow> IsMe n u;
       ur \<leftarrow> user_of n u;
       let bt = (if me then u_bot ur else 0);
       n \<leftarrow> (if me then send_to_bot EVENT_BOTKILL (p\<lparr>cp_bot := bt\<rparr>) u n else Some n);
       let n = SendAllModuleEvent EVENT_QUIT (p\<lparr>cp_bot := bt, cp_target := 0, cp_source := u\<rparr>) n;
       deluser u n }
   }"

text \<open>\<^verbatim>\<open>strstr\<close>.\<close>

fun occurs :: "string \<Rightarrow> string \<Rightarrow> bool" where
  "occurs pat [] = (pat = [])"
| "occurs pat (c # cs) = (take (length pat) (c # cs) = pat \<or> occurs pat cs)"

definition local_kill :: "string \<Rightarrow> bool" where
  "local_kill reason \<longleftrightarrow> occurs ''Local kill by'' reason \<and> occurs ''['' reason \<and> occurs '']'' reason"

definition QuitUser :: "env \<Rightarrow> string \<Rightarrow> string option \<Rightarrow> net \<Rightarrow> net option" where
  "QuitUser E nick reason n = do {
     u \<leftarrow> FindUser n nick;
     if u = 0 then Some n
     else do {
       n \<leftarrow> PartAllChannels E u reason n;
       let p = no_params\<lparr>cp_source := u, cp_param := reason\<rparr>;
       let n = SendAllModuleEvent EVENT_QUIT p n;
       n \<leftarrow> (case reason of
              Some q \<Rightarrow>
                if local_kill q
                then do {
                  av \<leftarrow> those (split_buf (Some q));
                  killreason \<leftarrow> joinbuf av 5;
                  killer \<leftarrow> (if 4 < length av then FindUser n (av ! 4) else None);
                  Some (if killer \<noteq> 0
                    then SendAllModuleEvent EVENT_LOCALKILL
                           (p\<lparr>cp_source := killer, cp_target := u, cp_param := Some killreason\<rparr>) n
                    else n) }
                else Some n
            | None \<Rightarrow> Some n);
       deluser u n }
   }"

section \<open>Changing\<close>

definition away_delta :: "bool \<Rightarrow> addr \<Rightarrow> net \<Rightarrow> net option" where
  "away_delta b u n = do {
     n \<leftarrow> upd_user u (\<lambda>r. r\<lparr>u_is_away := b\<rparr>) n;
     c \<leftarrow> clients n u;
     let n = n\<lparr>awaycount := (if b then awaycount n + 1 else awaycount n - 1)\<rparr>;
     upd_server (c_uplink c) (\<lambda>s. s\<lparr>sv_awaycount := (if b then sv_awaycount s + 1 else sv_awaycount s - 1)\<rparr>) n
   }"

definition UserAway :: "string \<Rightarrow> string option \<Rightarrow> net \<Rightarrow> net option" where
  "UserAway nick awaymsg n = do {
     u \<leftarrow> FindUser n nick;
     if u = 0 then Some n
     else do {
       n \<leftarrow> upd_user u (\<lambda>r. r\<lparr>u_awaymsg := (case awaymsg of None \<Rightarrow> '''' | Some m \<Rightarrow> strlcpy_str MAXHOST m)\<rparr>) n;
       away \<leftarrow> IsAway n u;
       n \<leftarrow> (if away \<and> awaymsg = None then away_delta False u n
            else if \<not> away \<and> awaymsg \<noteq> None then away_delta True u n else Some n);
       Some (SendAllModuleEvent EVENT_AWAY (no_params\<lparr>cp_source := u\<rparr>) n) }
   }"

definition BotNickChange :: "addr \<Rightarrow> string \<Rightarrow> net \<Rightarrow> (int \<times> net) option" where
  "BotNickChange b newnick n = do {
     bt \<leftarrow> bots n b;
     r \<leftarrow> hash_lookup (bothash n) (b_name bt);
     case r of
       None \<Rightarrow> Some (NS_FAILURE, n)
     | Some bn \<Rightarrow> do {
         t \<leftarrow> hash_delete (bothash n) bn;
         let n = n\<lparr>bots := (bots n)(b \<mapsto> bt\<lparr>b_name := strlcpy_str MAXNICK newnick\<rparr>)\<rparr>;
         t \<leftarrow> hash_insert t bn (strlcpy_str MAXNICK newnick);
         Some (NS_SUCCESS, n\<lparr>bothash := t\<rparr>) } }"

definition rename_user :: "env \<Rightarrow> string \<Rightarrow> string option \<Rightarrow> client \<Rightarrow> client" where
  "rename_user E newnick ts c =
     c\<lparr>c_name := strlcpy_str MAXNICK newnick,
       c_user := map_option (\<lambda>r. r\<lparr>
         u_userhostmask := userhost_mask (strlcpy_str MAXNICK newnick) (u_username r) (u_hostname r),
         u_uservhostmask := userhost_mask (strlcpy_str MAXNICK newnick) (u_username r) (u_vhost r)\<rparr>) (c_user c),
       c_tsconnect := (case ts of Some t \<Rightarrow> atoi t | None \<Rightarrow> me_now E)\<rparr>"

definition UserNickChange :: "env \<Rightarrow> string \<Rightarrow> string \<Rightarrow> string option \<Rightarrow> net \<Rightarrow> net option" where
  "UserNickChange E oldnick newnick ts n = do {
     let oldnickbuffer = strlcpy_str MAXNICK oldnick;
     r \<leftarrow> hash_lookup (userhash n) oldnickbuffer;
     case r of
       None \<Rightarrow> Some n
     | Some un \<Rightarrow> do {
         let u = hnode_get un;
         t \<leftarrow> hash_delete (userhash n) un;
         _ \<leftarrow> user_of n u;
         n \<leftarrow> upd_client u (rename_user E newnick ts) (n\<lparr>userhash := t\<rparr>);
         n \<leftarrow> ns_do_exclude_user u n;
         t \<leftarrow> hash_insert (userhash n) un (strlcpy_str MAXNICK newnick);
         let n = n\<lparr>userhash := t\<rparr>;
         let n = SendAllModuleEvent EVENT_NICK (no_params\<lparr>cp_source := u, cp_param := Some oldnickbuffer\<rparr>) n;
         me \<leftarrow> IsMe n u;
         if me
         then do { ur \<leftarrow> user_of n u; (_, n) \<leftarrow> BotNickChange (u_bot ur) newnick n; Some n }
         else Some n } }"

definition SetUserVhost :: "env \<Rightarrow> string \<Rightarrow> string \<Rightarrow> net \<Rightarrow> net option" where
  "SetUserVhost E nick vhost n = do {
     u \<leftarrow> FindUser n nick;
     if u = 0 then Some n
     else upd_user u (\<lambda>r. r\<lparr>u_vhost := strlcpy_str MAXHOST vhost,
            u_uservhostmask := userhost_mask nick (u_username r) vhost,
            u_Umode := (if has (ircd_features E) FEATURE_UMODECLOAK then set_flag (u_Umode r) UMODE_HIDE else u_Umode r)\<rparr>) n
   }"

text \<open>\<open>umask\<close> and \<open>smask\<close> are \<open>UmodeStringToMask\<close> and \<open>SmodeStringToMask\<close> of the current IRC daemon.\<close>

definition set_umode :: "env \<Rightarrow> uint \<Rightarrow> string \<Rightarrow> user \<Rightarrow> user" where
  "set_umode E msk modes r =
     (let r' = r\<lparr>u_ulevel := -1, u_modes := strlcpy_str MODESIZE modes, u_Umode := set_flag (u_Umode r) msk\<rparr>
      in if has (ircd_features E) FEATURE_UMODECLOAK \<and> has (u_Umode r) UMODE_HIDE \<and> \<not> has (u_Umode r') UMODE_HIDE
         then r'\<lparr>u_vhost := u_hostname r\<rparr> else r')"

definition UserMode :: "env \<Rightarrow> (string \<Rightarrow> uint) \<Rightarrow> string \<Rightarrow> string \<Rightarrow> net \<Rightarrow> net option" where
  "UserMode E umask nick modes n = do {
     u \<leftarrow> FindUser n nick;
     if u = 0 then Some n
     else do {
       n \<leftarrow> upd_user u (set_umode E (umask modes) modes) n;
       Some (SendAllModuleEvent EVENT_UMODE (no_params\<lparr>cp_source := u, cp_param := Some modes\<rparr>) n) }
   }"

definition UserSMode :: "(string \<Rightarrow> uint) \<Rightarrow> string \<Rightarrow> string \<Rightarrow> net \<Rightarrow> net option" where
  "UserSMode smask nick modes n = do {
     u \<leftarrow> FindUser n nick;
     if u = 0 then Some n
     else do {
       n \<leftarrow> upd_user u (\<lambda>r. r\<lparr>u_ulevel := -1, u_Smode := set_flag (u_Smode r) (smask modes)\<rparr>) n;
       Some (SendAllModuleEvent EVENT_SMODE (no_params\<lparr>cp_source := u, cp_param := Some modes\<rparr>) n) }
   }"

definition SetUserServicesTS :: "env \<Rightarrow> string \<Rightarrow> string \<Rightarrow> net \<Rightarrow> net option" where
  "SetUserServicesTS E nick ts n = do {
     u \<leftarrow> FindUser n nick;
     if u = 0 then Some n else upd_user u (\<lambda>r. r\<lparr>u_servicestamp := c_strtol E ts\<rparr>) n
   }"

definition SetUserVersion :: "addr \<Rightarrow> string \<Rightarrow> net \<Rightarrow> net option" where
  "SetUserVersion u version n = do {
     c \<leftarrow> clients n u;
     if has (c_flags c) CLIENT_FLAG_GOTVERSION then Some n
     else upd_client u (\<lambda>c. c\<lparr>c_flags := set_flag (c_flags c) CLIENT_FLAG_GOTVERSION,
            c_version := strlcpy_str MAXHOST version\<rparr>) n
   }"

section \<open>Walking the users\<close>

definition scan_users :: "(addr \<Rightarrow> net \<Rightarrow> (bool \<times> net) option) \<Rightarrow> net \<Rightarrow> net option" where
  "scan_users step n = scan_table userhash step (table_bound (userhash n)) (hash_scan_begin 0 (userhash n)) n"

text \<open>\<^verbatim>\<open>strncmp( a, b, k ) == 0\<close>.\<close>

definition strncmp_eq :: "string \<Rightarrow> string \<Rightarrow> nat \<Rightarrow> bool" where
  "strncmp_eq a b k \<longleftrightarrow> take k (c_str a) = take k (c_str b)"

fun find_base64 :: "net \<Rightarrow> string \<Rightarrow> nat \<Rightarrow> (string, addr) hnode list \<Rightarrow> addr option" where
  "find_base64 n num k [] = Some 0"
| "find_base64 n num k (nd # nds) = do {
     c \<leftarrow> clients n (hnode_get nd);
     if strncmp_eq (c_name64 c) num k then Some (hnode_get nd) else find_base64 n num k nds
   }"

definition find_user_base64 :: "string \<Rightarrow> net \<Rightarrow> addr option" where
  "find_user_base64 num n = do { ns \<leftarrow> hash_scan (userhash n); find_base64 n num BASE64NICKSIZE ns }"

definition QuitServerUsers :: "env \<Rightarrow> addr \<Rightarrow> net \<Rightarrow> net option" where
  "QuitServerUsers E s n = scan_users (\<lambda>u n. do {
       c \<leftarrow> clients n u;
       if c_uplink c = s
       then do {
         sc \<leftarrow> clients n s;
         n \<leftarrow> QuitUser E (c_name c) (Some (c_name sc)) n;
         Some (False, n) }
       else Some (False, n) }) n"

definition SyncServerClients :: "addr \<Rightarrow> net \<Rightarrow> net option" where
  "SyncServerClients s n = scan_users (\<lambda>u n. do {
       c \<leftarrow> clients n u;
       if c_uplink c = s
       then do {
         n \<leftarrow> upd_client u (\<lambda>c. c\<lparr>c_flags := clear_flag (c_flags c) NS_FLAGS_NETJOIN\<rparr>) n;
         Some (False, n) }
       else Some (False, n) }) n"

definition ProcessUserList :: "(addr \<Rightarrow> net \<Rightarrow> (int \<times> net) option) \<Rightarrow> net \<Rightarrow> net option" where
  "ProcessUserList handler n = scan_users (\<lambda>u n. do { (ret, n) \<leftarrow> handler u n; Some (ret \<noteq> 0, n) }) n"

definition AddFakeUser :: "env \<Rightarrow> string \<Rightarrow> net \<Rightarrow> net option" where
  "AddFakeUser E msk n = do {
     let (nick, usr, host) = split_userhost (strlcpy_str MAXHOST msk);
     nick \<leftarrow> nick;
     u \<leftarrow> FindUser n nick;
     if u \<noteq> 0 then Some n
     else do {
       (u, n) \<leftarrow> new_user nick n;
       if u = 0 then Some n
       else (let printed = (\<lambda>s. case s of None \<Rightarrow> ''(null)'' | Some t \<Rightarrow> t);
                 copied = (\<lambda>k s. case s of None \<Rightarrow> '''' | Some t \<Rightarrow> strlcpy_str k t)
             in upd_client u (\<lambda>c. c\<lparr>c_tsconnect := me_now E, c_info := strlcpy_str MAXREALNAME ''fake user'',
                  c_user := map_option (\<lambda>r. r\<lparr>u_hostname := copied MAXHOST host, u_vhost := copied MAXHOST host,
                    u_username := copied MAXUSER usr,
                    u_userhostmask := userhost_mask nick (printed usr) (printed host),
                    u_uservhostmask := userhost_mask nick (printed usr) (printed host),
                    u_tslastmsg := me_now E, u_chans := []\<rparr>) (c_user c)\<rparr>) n) }
   }"

definition DelFakeUser :: "string \<Rightarrow> net \<Rightarrow> net option" where
  "DelFakeUser msk n = do {
     nick \<leftarrow> fst (strtok (strlcpy_str MAXHOST msk) ''!'');
     u \<leftarrow> FindUser n nick;
     deluser u n
   }"

text \<open>The shutdown: every user parts and is freed.\<close>

definition FiniUsers :: "env \<Rightarrow> net \<Rightarrow> net option" where
  "FiniUsers E n = do {
     n \<leftarrow> scan_users (\<lambda>u n. do {
       c \<leftarrow> clients n u;
       n \<leftarrow> PartAllChannels E u None n;
       r \<leftarrow> hash_lookup (userhash n) (c_name c);
       un \<leftarrow> r;
       t \<leftarrow> hash_scan_delete_destroy_node (userhash n) un;
       ur \<leftarrow> user_of n u;
       nassert (u_chans ur = []);
       Some (False, free_client u (n\<lparr>userhash := t\<rparr>)) }) n;
     _ \<leftarrow> hash_destroy (userhash n);
     Some n
   }"

definition InitUsers :: "net \<Rightarrow> net option" where
  "InitUsers n = do {
     t \<leftarrow> hash_create COUNT_MAX hash_comp_default hash_fun_default;
     Some (n\<lparr>userhash := t\<rparr>)
   }"

end
