(* ===== verification/Servers.thy ===== *)
theory Servers
  imports Users
begin

text \<open>
  \<^verbatim>\<open>src/servers.c\<close>: servers linking, splitting and finishing their burst, and the walks over the
  tree their uplink names describe; \<^verbatim>\<open>src/base64.c\<close>, the short names of servers and users.
\<close>

section \<open>Linking\<close>

definition new_server_rec :: server where
  "new_server_rec = \<lparr>sv_users = 0, sv_awaycount = 0, sv_hops = 0, sv_numeric = 0, sv_ping = 0, sv_uptime = 0\<rparr>"

text \<open>
  The name is copied with the limit MAXHOST into an array of MAXNICK bytes: a longer name
  leaves the array. The address is 0 when the table is full.
\<close>

definition new_server :: "string \<Rightarrow> net \<Rightarrow> (addr \<times> net) option" where
  "new_server name n =
     (if hash_isfull (serverhash n) then Some (0, n)
      else do {
        let (s, n) = alloc n;
        let nm = strlcpy_str MAXHOST name;
        nassert (length nm < MAXNICK);
        let n = n\<lparr>clients := (clients n)(s \<mapsto> (blank_client nm)\<lparr>c_server := Some new_server_rec\<rparr>)\<rparr>;
        let (node, n) = alloc n;
        t \<leftarrow> hnode_create_insert node (serverhash n) s nm;
        Some (s, n\<lparr>serverhash := t, servercount := servercount n + 1\<rparr>) })"

definition AddServer :: "env \<Rightarrow> string \<Rightarrow> string option \<Rightarrow> string option \<Rightarrow> string option \<Rightarrow> string option \<Rightarrow> net \<Rightarrow>
    (addr \<times> net) option" where
  "AddServer E name uplink hops numeric infoline n = do {
     (s, n) \<leftarrow> new_server name n;
     n \<leftarrow> (case hops of None \<Rightarrow> Some n | Some h \<Rightarrow> upd_server s (\<lambda>r. r\<lparr>sv_hops := atoi h\<rparr>) n);
     n \<leftarrow> (case uplink of None \<Rightarrow> Some n
          | Some up \<Rightarrow> do {
              n \<leftarrow> upd_client s (\<lambda>c. c\<lparr>c_uplinkname := strlcpy_str MAXHOST up\<rparr>) n;
              a \<leftarrow> FindServer n up;
              upd_client s (\<lambda>c. c\<lparr>c_uplink := a\<rparr>) n });
     n \<leftarrow> (case infoline of None \<Rightarrow> Some n
          | Some i \<Rightarrow> upd_client s (\<lambda>c. c\<lparr>c_info := strlcpy_str MAXREALNAME i\<rparr>) n);
     n \<leftarrow> (case numeric of None \<Rightarrow> Some n | Some k \<Rightarrow> upd_server s (\<lambda>r. r\<lparr>sv_numeric := atoi k\<rparr>) n);
     n \<leftarrow> upd_client s (\<lambda>c. c\<lparr>c_tsconnect := me_now E\<rparr>) n;
     n \<leftarrow> upd_server s (\<lambda>r. r\<lparr>sv_ping := 0\<rparr>) n;
     n \<leftarrow> (if irc_eq name (me_name E)
          then upd_client s (\<lambda>c. c\<lparr>c_flags := set_flag (c_flags c) CLIENT_FLAG_ME\<rparr>) n else Some n);
     n \<leftarrow> ns_do_exclude_server s n;
     n \<leftarrow> (if ircd_protocol E AND PROTOCOL_EOB = 1
          then upd_client s (\<lambda>c. c\<lparr>c_flags := clear_flag (c_flags c) CLIENT_FLAG_SYNCHED\<rparr>) n else Some n);
     Some (s, SendAllModuleEvent EVENT_SERVER (no_params\<lparr>cp_source := s\<rparr>) n)
   }"

section \<open>Splitting\<close>

definition scan_servers :: "(addr \<Rightarrow> net \<Rightarrow> (bool \<times> net) option) \<Rightarrow> net \<Rightarrow> net option" where
  "scan_servers step n = scan_table serverhash step (table_bound (serverhash n)) (hash_scan_begin 0 (serverhash n)) n"

text \<open>
  Deleting a server deletes the servers behind it first. \<open>del\<close> is the recursive call; a chain of
  calls that visits no server twice while none is deleted stays below the fuel of \<open>DelServer\<close>.
\<close>

type_synonym del_fun = "string \<Rightarrow> string option \<Rightarrow> net \<Rightarrow> net option"

definition del_server_leaves :: "del_fun \<Rightarrow> addr \<Rightarrow> net \<Rightarrow> net option" where
  "del_server_leaves del hub n = scan_servers (\<lambda>s n. do {
       c \<leftarrow> clients n s;
       h \<leftarrow> clients n hub;
       if irc_eq (c_name h) (c_uplinkname c)
       then do { n \<leftarrow> del (c_name c) (Some (c_name h)) n; Some (False, n) }
       else Some (False, n) }) n"

definition del_server_body :: "env \<Rightarrow> del_fun \<Rightarrow> del_fun" where
  "del_server_body E del name reason n = do {
     r \<leftarrow> hash_lookup (serverhash n) name;
     case r of
       None \<Rightarrow> Some n
     | Some node \<Rightarrow> do {
         let s = hnode_get node;
         n \<leftarrow> (if has (ircd_protocol E) PROTOCOL_NOQUIT
              then do { n \<leftarrow> del_server_leaves del s n; QuitServerUsers E s n }
              else Some n);
         let n = n\<lparr>servercount := servercount n - 1\<rparr>;
         let n = SendAllModuleEvent EVENT_SQUIT (no_params\<lparr>cp_source := s, cp_param := reason\<rparr>) n;
         t \<leftarrow> hash_scan_delete_destroy_node (serverhash n) node;
         c \<leftarrow> clients n s;
         Some (free_client s (n\<lparr>serverhash := t\<rparr>)) } }"

primrec del_server_depth :: "env \<Rightarrow> nat \<Rightarrow> del_fun" where
  "del_server_depth E 0 name reason n = None"
| "del_server_depth E (Suc k) name reason n = del_server_body E (del_server_depth E k) name reason n"

definition DelServer :: "env \<Rightarrow> string \<Rightarrow> string option \<Rightarrow> net \<Rightarrow> net option" where
  "DelServer E name reason n =
     del_server_depth E (table_bound (serverhash n) * table_bound (serverhash n)) name reason n"

section \<open>Walking\<close>

definition find_server_base64 :: "string \<Rightarrow> net \<Rightarrow> addr option" where
  "find_server_base64 num n = do { ns \<leftarrow> hash_scan (serverhash n); find_base64 n num BASE64SERVERSIZE ns }"

definition ProcessServerList :: "(addr \<Rightarrow> net \<Rightarrow> (int \<times> net) option) \<Rightarrow> net \<Rightarrow> net option" where
  "ProcessServerList handler n = scan_servers (\<lambda>s n. do { (ret, n) \<leftarrow> handler s n; Some (ret \<noteq> 0, n) }) n"

definition PingServer :: "env \<Rightarrow> addr \<Rightarrow> net \<Rightarrow> (int \<times> net) option" where
  "PingServer E s n = do {
     me \<leftarrow> IsMe n s;
     c \<leftarrow> clients n s;
     Some (NS_FALSE, if me then n else emit (Send ''PING'' [me_name E, me_name E, c_name c]) n)
   }"

definition PingServers :: "env \<Rightarrow> net \<Rightarrow> (int \<times> net) option" where
  "PingServers E n =
     (if \<not> me_synched E then Some (NS_SUCCESS, n)
      else do { n \<leftarrow> ProcessServerList (PingServer E) n; Some (NS_SUCCESS, n) })"

text \<open>\<open>bot_nick\<close> is the nick of the root bot.\<close>

definition RequestServerUptime :: "string \<Rightarrow> addr \<Rightarrow> net \<Rightarrow> (int \<times> net) option" where
  "RequestServerUptime bot_nick s n = do {
     me \<leftarrow> IsMe n s;
     c \<leftarrow> clients n s;
     Some (NS_FALSE, if me then n else emit (Send ''STATS'' [bot_nick, ''u'', c_name c]) n)
   }"

definition RequestServerUptimes :: "string \<Rightarrow> net \<Rightarrow> net option" where
  "RequestServerUptimes bot_nick n = ProcessServerList (RequestServerUptime bot_nick) n"

text \<open>The visits of the map in order: server, whether it is taken as a root, depth.\<close>

fun map_servers :: "net \<Rightarrow> (string \<Rightarrow> nat \<Rightarrow> (addr \<times> bool \<times> nat) list option) \<Rightarrow> bool \<Rightarrow> string \<Rightarrow> nat \<Rightarrow>
    (string, addr) hnode list \<Rightarrow> (addr \<times> bool \<times> nat) list option" where
  "map_servers n rec useex uplink depth [] = Some []"
| "map_servers n rec useex uplink depth (nd # nds) = do {
     let s = hnode_get nd;
     c \<leftarrow> clients n s;
     below \<leftarrow> (if depth > 0 \<and> c_uplink c \<noteq> 0
               then do { up \<leftarrow> clients n (c_uplink c); Some (irc_eq (c_name up) uplink) } else Some False);
     vs \<leftarrow> (if depth = 0 \<and> c_uplinkname c = [] \<or> below
           then do {
             let here = (if \<not> useex \<or> \<not> has (c_flags c) NS_FLAG_EXCLUDED then [(s, depth = 0, depth)] else []);
             ws \<leftarrow> rec (c_name c) (depth + 1);
             Some (here @ ws) }
           else Some []);
     rest \<leftarrow> map_servers n rec useex uplink depth nds;
     Some (vs @ rest)
   }"

primrec TransverseMap :: "nat \<Rightarrow> net \<Rightarrow> bool \<Rightarrow> string \<Rightarrow> nat \<Rightarrow> (addr \<times> bool \<times> nat) list option" where
  "TransverseMap 0 n useex uplink depth = None"
| "TransverseMap (Suc k) n useex uplink depth = do {
     ns \<leftarrow> hash_scan (serverhash n);
     map_servers n (TransverseMap k n useex) useex uplink depth ns
   }"

definition ProcessServerMap :: "bool \<Rightarrow> net \<Rightarrow> (addr \<times> bool \<times> nat) list option" where
  "ProcessServerMap useex n = TransverseMap (Suc (table_bound (serverhash n))) n useex '''' 0"

section \<open>End of burst\<close>

definition set_synched :: "addr \<Rightarrow> net \<Rightarrow> net option" where
  "set_synched s n = do {
     n \<leftarrow> upd_client s (\<lambda>c. c\<lparr>c_flags := set_flag (c_flags c) CLIENT_FLAG_SYNCHED\<rparr>) n;
     SyncServerClients s n
   }"

primrec sync_server_leaf :: "nat \<Rightarrow> addr \<Rightarrow> net \<Rightarrow> net option" where
  "sync_server_leaf 0 hub n = None"
| "sync_server_leaf (Suc k) hub n = scan_servers (\<lambda>s n. do {
       h \<leftarrow> clients n hub;
       c \<leftarrow> clients n s;
       if irc_eq (c_name h) (c_uplinkname c)
       then do { n \<leftarrow> set_synched s n; n \<leftarrow> sync_server_leaf k s n; Some (False, n) }
       else Some (False, n) }) n"

definition SyncServer :: "string \<Rightarrow> net \<Rightarrow> net option" where
  "SyncServer name n = do {
     s \<leftarrow> FindServer n name;
     if s = 0 then Some n
     else do {
       n \<leftarrow> set_synched s n;
       sync_server_leaf (table_bound (serverhash n)) s n }
   }"

definition FiniServers :: "net \<Rightarrow> net option" where
  "FiniServers n = do {
     n \<leftarrow> scan_servers (\<lambda>s n. do {
       c \<leftarrow> clients n s;
       r \<leftarrow> hash_lookup (serverhash n) (c_name c);
       node \<leftarrow> r;
       t \<leftarrow> hash_scan_delete_destroy_node (serverhash n) node;
       Some (False, free_client s (n\<lparr>serverhash := t\<rparr>)) }) n;
     _ \<leftarrow> hash_destroy (serverhash n);
     Some n
   }"

definition InitServers :: "net \<Rightarrow> net option" where
  "InitServers n = do {
     t \<leftarrow> hash_create COUNT_MAX hash_comp_default hash_fun_default;
     Some (n\<lparr>serverhash := t\<rparr>)
   }"

section \<open>Base 64 names\<close>

definition set_server_base64 :: "string \<Rightarrow> string \<Rightarrow> net \<Rightarrow> (int \<times> net) option" where
  "set_server_base64 name base64name n = do {
     s \<leftarrow> FindServer n name;
     if s = 0 then Some (NS_FAILURE, n)
     else do {
       n \<leftarrow> upd_client s (\<lambda>c. c\<lparr>c_name64 := strlcpy_str 6 base64name\<rparr>) n;
       Some (NS_SUCCESS, n) }
   }"

definition name_or_null :: "(client \<Rightarrow> string) \<Rightarrow> addr \<Rightarrow> net \<Rightarrow> string option option" where
  "name_or_null f a n = (if a = 0 then Some None else do { c \<leftarrow> clients n a; Some (Some (f c)) })"

definition server_to_base64 :: "string \<Rightarrow> net \<Rightarrow> string option option" where
  "server_to_base64 name n = do { s \<leftarrow> FindServer n name; name_or_null c_name64 s n }"

definition base64_to_server :: "string \<Rightarrow> net \<Rightarrow> string option option" where
  "base64_to_server num n = do { s \<leftarrow> find_server_base64 num n; name_or_null c_name s n }"

definition nick_to_base64 :: "string \<Rightarrow> net \<Rightarrow> string option option" where
  "nick_to_base64 nick n = do { u \<leftarrow> FindUser n nick; name_or_null c_name64 u n }"

definition base64_to_nick :: "string \<Rightarrow> net \<Rightarrow> string option option" where
  "base64_to_nick num n = do { u \<leftarrow> find_user_base64 num n; name_or_null c_name u n }"

definition base64_to_name :: "string \<Rightarrow> net \<Rightarrow> string option option" where
  "base64_to_name num n = do {
     u \<leftarrow> find_user_base64 num n;
     if u \<noteq> 0 then name_or_null c_name u n
     else do { s \<leftarrow> find_server_base64 num n; name_or_null c_name s n }
   }"

end
