(* ===== verification/Bans.thy ===== *)
theory Bans
  imports Network
begin

text \<open>\<^verbatim>\<open>src/bans.c\<close>: the table of network bans by their mask.\<close>

definition blank_ban :: ban where
  "blank_ban = \<lparr>ban_type = '''', ban_user = '''', ban_host = '''', ban_mask = '''', ban_reason = '''', ban_setby = '''',
     ban_tsset = 0, ban_tsexpires = 0\<rparr>"

text \<open>The address of the new ban; 0 when the table is full or has the mask.\<close>

definition new_ban :: "string \<Rightarrow> net \<Rightarrow> (addr \<times> net) option" where
  "new_ban msk n =
     (if hash_isfull (banhash n) then Some (0, n)
      else do {
        r \<leftarrow> hash_lookup (banhash n) msk;
        if r \<noteq> None then Some (0, n)
        else do {
          let (b, n) = alloc n;
          let n = n\<lparr>bans := (bans n)(b \<mapsto> blank_ban\<lparr>ban_mask := strlcpy_str MAXHOST msk\<rparr>)\<rparr>;
          let (node, n) = alloc n;
          t \<leftarrow> hnode_create_insert node (banhash n) b (strlcpy_str MAXHOST msk);
          Some (b, n\<lparr>banhash := t\<rparr>) } })"

definition AddBan :: "env \<Rightarrow> string \<Rightarrow> string \<Rightarrow> string \<Rightarrow> string \<Rightarrow> string \<Rightarrow> string \<Rightarrow> string \<Rightarrow> string \<Rightarrow> net \<Rightarrow> net option" where
  "AddBan E type usr host msk reason setby tsset tsexpires n = do {
     (b, n) \<leftarrow> new_ban msk n;
     if b = 0 then Some n
     else do {
       let n = n\<lparr>bans := (bans n)(b \<mapsto>
           \<lparr>ban_type = strlcpy_str 8 type, ban_user = strlcpy_str MAXUSER usr, ban_host = strlcpy_str MAXHOST host,
            ban_mask = strlcpy_str MAXHOST msk, ban_reason = strlcpy_str BUFSIZE reason,
            ban_setby = strlcpy_str MAXHOST setby, ban_tsset = c_strtol E tsset, ban_tsexpires = c_strtol E tsexpires\<rparr>)\<rparr>;
       Some (SendAllModuleEvent EVENT_ADDBAN (no_params\<lparr>cp_target := b\<rparr>) n) }
   }"

definition DelBan :: "string \<Rightarrow> net \<Rightarrow> net option" where
  "DelBan msk n = do {
     r \<leftarrow> hash_lookup (banhash n) msk;
     case r of
       None \<Rightarrow> Some n
     | Some node \<Rightarrow> do {
         let b = hnode_get node;
         let n = SendAllModuleEvent EVENT_DELBAN (no_params\<lparr>cp_target := b\<rparr>) n;
         t \<leftarrow> hash_delete_destroy_node (banhash n) node;
         Some (n\<lparr>banhash := t, bans := (bans n)(b := None)\<rparr>) } }"

definition ProcessBanList :: "(addr \<Rightarrow> net \<Rightarrow> (int \<times> net) option) \<Rightarrow> net \<Rightarrow> net option" where
  "ProcessBanList handler n =
     scan_table banhash (\<lambda>b n. do { (ret, n) \<leftarrow> handler b n; Some (ret \<noteq> 0, n) })
       (Suc (unat (h_nodecount (banhash n)))) (hash_scan_begin 0 (banhash n)) n"

definition FiniBans :: "net \<Rightarrow> net option" where
  "FiniBans n = do {
     n \<leftarrow> scan_table banhash (\<lambda>b n. do {
         bn \<leftarrow> bans n b;
         r \<leftarrow> hash_lookup (banhash n) (ban_mask bn);
         node \<leftarrow> r;
         t \<leftarrow> hash_scan_delete_destroy_node (banhash n) node;
         Some (False, n\<lparr>banhash := t, bans := (bans n)(b := None)\<rparr>) })
       (Suc (unat (h_nodecount (banhash n)))) (hash_scan_begin 0 (banhash n)) n;
     _ \<leftarrow> hash_destroy (banhash n);
     Some n
   }"

definition InitBans :: "net \<Rightarrow> net option" where
  "InitBans n = do {
     t \<leftarrow> hash_create COUNT_MAX hash_comp_default hash_fun_default;
     Some (n\<lparr>banhash := t\<rparr>)
   }"

section \<open>What a ban leaves in the table\<close>

lemma ban_cut: "length msk < MAXHOST \<Longrightarrow> nul_free msk \<Longrightarrow> strlcpy_str MAXHOST msk = msk"
  by (simp add: strlcpy_str_def)

end
