(* ===== verification/Modes.thy ===== *)
theory Modes
  imports Channels
begin

text \<open>
  \<^verbatim>\<open>src/modes.c\<close>: the tables that map mode letters to bit masks, built from what the protocol
  module declares, the conversions between mode strings and masks, and the handling of a
  channel mode change. A read or store outside a table or a string buffer is \<open>None\<close>.
\<close>

section \<open>Tables\<close>

definition CUMODE_CHANOP :: uint where "CUMODE_CHANOP = 0x00000001"
definition CUMODE_VOICE :: uint where "CUMODE_VOICE = 0x00000002"
definition CMODE_PRIVATE :: uint where "CMODE_PRIVATE = 0x00000020"
definition CMODE_SECRET :: uint where "CMODE_SECRET = 0x00000040"
definition CMODE_MODERATED :: uint where "CMODE_MODERATED = 0x00000080"
definition CMODE_TOPICLIMIT :: uint where "CMODE_TOPICLIMIT = 0x00000100"
definition CMODE_BAN :: uint where "CMODE_BAN = 0x00000200"
definition CMODE_INVITEONLY :: uint where "CMODE_INVITEONLY = 0x00000400"
definition CMODE_NOPRIVMSGS :: uint where "CMODE_NOPRIVMSGS = 0x00000800"
definition CMODE_KEY :: uint where "CMODE_KEY = 0x00001000"
definition CMODE_LIMIT :: uint where "CMODE_LIMIT = 0x00002000"
definition UMODE_INVISIBLE :: uint where "UMODE_INVISIBLE = 0x00000001"
definition UMODE_OPER :: uint where "UMODE_OPER = 0x00000002"
definition UMODE_REGNICK :: uint where "UMODE_REGNICK = 0x00000010"
definition NICKPARAM :: uint where "NICKPARAM = 1"
definition MODEPARAM :: uint where "MODEPARAM = 2"
definition MODE_TABLE_SIZE :: nat where "MODE_TABLE_SIZE = 256"

lemmas mode_masks = CUMODE_CHANOP_def CUMODE_VOICE_def CMODE_PRIVATE_def CMODE_SECRET_def CMODE_MODERATED_def
  CMODE_TOPICLIMIT_def CMODE_BAN_def CMODE_INVITEONLY_def CMODE_NOPRIVMSGS_def CMODE_KEY_def CMODE_LIMIT_def
  UMODE_INVISIBLE_def UMODE_OPER_def UMODE_REGNICK_def NICKPARAM_def MODEPARAM_def

record mode_init =
  mi_mode :: char
  mi_mask :: uint
  mi_flags :: uint
  mi_sjoin :: char

record mode_data =
  md_mask :: uint
  md_flags :: uint
  md_sjoin :: char

record mode_tables =
  ircd_cmodes :: "mode_data list"
  ircd_umodes :: "mode_data list"
  ircd_smodes :: "mode_data list"
  ircd_cmode_char_map :: string
  ircd_umode_char_map :: string
  ircd_smode_char_map :: string
  ircd_supported_cmodes :: uint
  ircd_supported_cumodes :: uint
  ircd_supported_umodes :: uint
  ircd_supported_smodes :: uint
  UmodeChRegNick :: char
  servicesumodemask :: uint

abbreviation mode_entry :: "char \<Rightarrow> uint \<Rightarrow> uint \<Rightarrow> char \<Rightarrow> mode_init" where
  "mode_entry c m f s \<equiv> \<lparr>mi_mode = c, mi_mask = m, mi_flags = f, mi_sjoin = s\<rparr>"

definition chan_umodes_default :: "mode_init list" where
  "chan_umodes_default =
     [mode_entry (CHR ''v'') CUMODE_VOICE 0 (CHR ''+''), mode_entry (CHR ''o'') CUMODE_CHANOP 0 (CHR ''@'')]"

definition chan_modes_default :: "mode_init list" where
  "chan_modes_default =
     [mode_entry (CHR ''l'') CMODE_LIMIT MODEPARAM NUL, mode_entry (CHR ''k'') CMODE_KEY MODEPARAM NUL,
      mode_entry (CHR ''b'') CMODE_BAN MODEPARAM NUL, mode_entry (CHR ''p'') CMODE_PRIVATE 0 NUL,
      mode_entry (CHR ''s'') CMODE_SECRET 0 NUL, mode_entry (CHR ''m'') CMODE_MODERATED 0 NUL,
      mode_entry (CHR ''t'') CMODE_TOPICLIMIT 0 NUL, mode_entry (CHR ''n'') CMODE_NOPRIVMSGS 0 NUL,
      mode_entry (CHR ''i'') CMODE_INVITEONLY 0 NUL]"

definition user_umodes_default :: "mode_init list" where
  "user_umodes_default = [mode_entry (CHR ''o'') UMODE_OPER 0 NUL, mode_entry (CHR ''i'') UMODE_INVISIBLE 0 NUL]"

definition blank_mode :: mode_data where
  "blank_mode = \<lparr>md_mask = 0, md_flags = 0, md_sjoin = NUL\<rparr>"

definition blank_table :: "mode_data list" where
  "blank_table = replicate MODE_TABLE_SIZE blank_mode"

text \<open>The number of times the mask can be shifted right before it is 0, less one.\<close>

lemma half_less: "drop_bit 1 (m :: uint) \<noteq> 0 \<Longrightarrow> unat (drop_bit 1 m) < unat m"
proof -
  assume nz: "drop_bit 1 m \<noteq> 0"
  have eq: "unat (drop_bit 1 m) = unat m div 2" by (simp add: drop_bit_eq_div unat_div)
  have "unat (drop_bit 1 m) \<noteq> 0" using nz by (simp only: unat_eq_zero) simp
  then show ?thesis unfolding eq by linarith
qed

function bit_index :: "uint \<Rightarrow> nat \<Rightarrow> nat" where
  "bit_index m k = (let m' = drop_bit 1 m in if m' \<noteq> 0 then bit_index m' (k + 1) else k)"
  by pat_completeness auto
termination
  by (relation "measure (unat \<circ> fst)") (auto intro: half_less simp del: drop_bit_Suc One_nat_def)

declare bit_index.simps [simp del]

definition BuildModeCharMap :: "string \<Rightarrow> char \<Rightarrow> uint \<Rightarrow> string" where
  "BuildModeCharMap mode_char_map mode msk =
     (let bitcount = bit_index msk 0 in if bitcount < 31 then mode_char_map[bitcount := mode] else mode_char_map)"

text \<open>Reading an initialiser stops at the mode 0.\<close>

fun BuildModeTable :: "string \<Rightarrow> mode_data list \<Rightarrow> mode_init list \<Rightarrow> uint \<Rightarrow> string \<times> mode_data list \<times> uint" where
  "BuildModeTable cm dest [] flagall = (cm, dest, 0)"
| "BuildModeTable cm dest (src # rest) flagall =
     (if mi_mode src = NUL then (cm, dest, 0)
      else (let dest = dest[byte_of (mi_mode src) :=
                  \<lparr>md_mask = mi_mask src, md_flags = mi_flags src OR flagall, md_sjoin = mi_sjoin src\<rparr>];
                (cm, dest, maskall) = BuildModeTable (BuildModeCharMap cm (mi_mode src) (mi_mask src)) dest rest flagall
            in (cm, dest, mi_mask src OR maskall)))"

definition add_modes :: "string \<times> mode_data list \<times> uint \<Rightarrow> mode_init list option \<Rightarrow> uint \<Rightarrow> string \<times> mode_data list \<times> uint" where
  "add_modes t src flagall =
     (case src of None \<Rightarrow> t
      | Some is \<Rightarrow> (let (cm, dest, sup) = t; (cm, dest, m) = BuildModeTable cm dest is flagall in (cm, dest, sup OR m)))"

definition ModeMaskToChar :: "string \<Rightarrow> uint \<Rightarrow> char" where
  "ModeMaskToChar mode_char_map msk = mode_char_map ! bit_index msk 0"

section \<open>Strings and masks\<close>

text \<open>The letters of a mask in the order of the table.\<close>

definition mode_letters :: "mode_data list \<Rightarrow> uint \<Rightarrow> string" where
  "mode_letters t msk = map char_of (filter (\<lambda>i. msk AND md_mask (t ! i) \<noteq> 0) [0..<MODE_TABLE_SIZE])"

text \<open>
  The buffer has 64 bytes: the sign, the letters and the terminator. As a C string the result
  ends at the first NUL.
\<close>

definition ModeMaskToString :: "mode_data list \<Rightarrow> uint \<Rightarrow> string option" where
  "ModeMaskToString t msk =
     (let s = CHR ''+'' # mode_letters t msk in if length s < 64 then Some (c_str s) else None)"

text \<open>The index is a signed \<^verbatim>\<open>char\<close>: a byte over 127 reads before the table.\<close>

fun string_mask :: "mode_data list \<Rightarrow> bool \<Rightarrow> uint \<Rightarrow> string \<Rightarrow> uint option" where
  "string_mask t add m [] = Some m"
| "string_mask t add m (c # cs) =
     (if c = CHR ''+'' then string_mask t True m cs
      else if c = CHR ''-'' then string_mask t False m cs
      else if byte_of c > (127 :: nat) then None
      else string_mask t add (if add then m OR md_mask (t ! byte_of c) else m AND NOT (md_mask (t ! byte_of c))) cs)"

definition ModeStringToMask :: "mode_data list \<Rightarrow> string \<Rightarrow> uint option" where
  "ModeStringToMask t s = string_mask t False 0 s"

text \<open>
  The tables after \<open>InitModeTables\<close>; without declared smodes the old smode table stays. The mode string of the
  services bots is translated with the new tables.
\<close>

definition InitModeTables :: "mode_init list option \<Rightarrow> mode_init list option \<Rightarrow> mode_init list option \<Rightarrow> mode_init list option \<Rightarrow>
    string \<Rightarrow> mode_tables \<Rightarrow> mode_tables option" where
  "InitModeTables chan_umodes chan_modes user_umodes user_smodes servicesumode t =
     (let (cmap, ctab, csup) = add_modes (add_modes (ircd_cmode_char_map t, blank_table, ircd_supported_cmodes t)
              (Some chan_modes_default) 0) chan_modes 0;
          (cmap, ctab, cusup) = add_modes (add_modes (cmap, ctab, ircd_supported_cumodes t)
              (Some chan_umodes_default) NICKPARAM) chan_umodes NICKPARAM;
          (umap, utab, usup) = add_modes (add_modes (ircd_umode_char_map t, blank_table, ircd_supported_umodes t)
              (Some user_umodes_default) 0) user_umodes 0;
          (smap, stab, ssup) = (case user_smodes of
              None \<Rightarrow> (ircd_smode_char_map t, ircd_smodes t, ircd_supported_smodes t)
            | Some is \<Rightarrow> BuildModeTable (ircd_smode_char_map t) blank_table is 0);
          t = t\<lparr>ircd_cmodes := ctab, ircd_umodes := utab, ircd_smodes := stab, ircd_cmode_char_map := cmap,
                ircd_umode_char_map := umap, ircd_smode_char_map := smap, ircd_supported_cmodes := csup,
                ircd_supported_cumodes := cusup, ircd_supported_umodes := usup, ircd_supported_smodes := ssup,
                UmodeChRegNick := (if has usup UMODE_REGNICK then ModeMaskToChar umap UMODE_REGNICK else UmodeChRegNick t)\<rparr>
      in do {
        m \<leftarrow> ModeStringToMask utab servicesumode;
        Some (t\<lparr>servicesumodemask := m\<rparr>) })"

definition UmodeMaskToString :: "mode_tables \<Rightarrow> uint \<Rightarrow> string option" where
  "UmodeMaskToString T msk = ModeMaskToString (ircd_umodes T) msk"

definition UmodeStringToMask :: "mode_tables \<Rightarrow> string \<Rightarrow> uint option" where
  "UmodeStringToMask T s = ModeStringToMask (ircd_umodes T) s"

definition SmodeMaskToString :: "mode_tables \<Rightarrow> uint \<Rightarrow> string option" where
  "SmodeMaskToString T msk = ModeMaskToString (ircd_smodes T) msk"

definition SmodeStringToMask :: "mode_tables \<Rightarrow> string \<Rightarrow> uint option" where
  "SmodeStringToMask T s = ModeStringToMask (ircd_smodes T) s"

definition CmodeMaskToString :: "mode_tables \<Rightarrow> uint \<Rightarrow> string option" where
  "CmodeMaskToString T msk = ModeMaskToString (ircd_cmodes T) msk"

definition CmodeStringToMask :: "mode_tables \<Rightarrow> string \<Rightarrow> uint option" where
  "CmodeStringToMask T s = ModeStringToMask (ircd_cmodes T) s"

definition CmodeMaskToPrefixString :: "mode_tables \<Rightarrow> uint \<Rightarrow> string option" where
  "CmodeMaskToPrefixString T msk =
     (let s = map (\<lambda>i. md_sjoin (ircd_cmodes T ! i))
            (filter (\<lambda>i. msk AND md_mask (ircd_cmodes T ! i) \<noteq> 0) [0..<MODE_TABLE_SIZE])
      in if length s < 64 then Some (c_str s) else None)"

definition UmodeCharToMask :: "mode_tables \<Rightarrow> char \<Rightarrow> uint" where
  "UmodeCharToMask T mode = md_mask (ircd_umodes T ! byte_of mode)"

definition SmodeCharToMask :: "mode_tables \<Rightarrow> char \<Rightarrow> uint" where
  "SmodeCharToMask T mode = md_mask (ircd_smodes T ! byte_of mode)"

definition CmodeCharToMask :: "mode_tables \<Rightarrow> char \<Rightarrow> uint" where
  "CmodeCharToMask T mode = md_mask (ircd_cmodes T ! byte_of mode)"

definition CmodeCharToFlags :: "mode_tables \<Rightarrow> char \<Rightarrow> uint" where
  "CmodeCharToFlags T mode = md_flags (ircd_cmodes T ! byte_of mode)"

definition UmodeMaskToChar :: "mode_tables \<Rightarrow> uint \<Rightarrow> char" where
  "UmodeMaskToChar T msk = ModeMaskToChar (ircd_umode_char_map T) msk"

definition SmodeMaskToChar :: "mode_tables \<Rightarrow> uint \<Rightarrow> char" where
  "SmodeMaskToChar T msk = ModeMaskToChar (ircd_smode_char_map T) msk"

definition CmodeMaskToChar :: "mode_tables \<Rightarrow> uint \<Rightarrow> char" where
  "CmodeMaskToChar T msk = ModeMaskToChar (ircd_cmode_char_map T) msk"

definition find_prefix :: "mode_tables \<Rightarrow> char \<Rightarrow> nat option" where
  "find_prefix T prefix = List.find (\<lambda>i. md_sjoin (ircd_cmodes T ! i) = prefix) [0..<MODE_TABLE_SIZE]"

definition CmodePrefixToMask :: "mode_tables \<Rightarrow> char \<Rightarrow> uint" where
  "CmodePrefixToMask T prefix = (case find_prefix T prefix of None \<Rightarrow> - 1 | Some i \<Rightarrow> md_mask (ircd_cmodes T ! i))"

definition CmodePrefixToChar :: "mode_tables \<Rightarrow> char \<Rightarrow> char" where
  "CmodePrefixToChar T prefix = (case find_prefix T prefix of None \<Rightarrow> NUL | Some i \<Rightarrow> char_of i)"

text \<open>The letter is looked up in the map of the user modes.\<close>

definition CmodeMaskToPrefix :: "mode_tables \<Rightarrow> uint \<Rightarrow> char" where
  "CmodeMaskToPrefix T msk = md_sjoin (ircd_cmodes T ! byte_of (ModeMaskToChar (ircd_umode_char_map T) msk))"

definition CmodeCharToPrefix :: "mode_tables \<Rightarrow> char \<Rightarrow> char" where
  "CmodeCharToPrefix T mode = md_sjoin (ircd_cmodes T ! byte_of mode)"

fun get_mode_desc :: "(uint \<times> string) list \<Rightarrow> uint \<Rightarrow> string option" where
  "get_mode_desc [] msk = None"
| "get_mode_desc ((m, s) # ds) msk = (if m = 0 then None else if m = msk then Some s else get_mode_desc ds msk)"

section \<open>Channel modes\<close>

definition test_cmode :: "addr \<Rightarrow> uint \<Rightarrow> net \<Rightarrow> int option" where
  "test_cmode c msk n =
     (if c = 0 then Some (-1)
      else do {
        ch \<leftarrow> channels n c;
        Some (if has (ch_modes ch) msk then 1
              else if \<exists>m\<in>set (ch_modeparams ch). has (mp_mask m) msk then 1 else 0) })"

definition set_bits :: "bool \<Rightarrow> uint \<Rightarrow> uint \<Rightarrow> uint" where
  "set_bits add msk w = (if add then w OR msk else w AND NOT msk)"

text \<open>The member found by name gets the new modes.\<close>

fun member_modes :: "net \<Rightarrow> string \<Rightarrow> (uint \<Rightarrow> uint) \<Rightarrow> chanmember list \<Rightarrow> chanmember list option" where
  "member_modes n nick f [] = Some []"
| "member_modes n nick f (m # ms) = do {
     u \<leftarrow> clients n (cm_u m);
     if irc_eq (c_name u) nick then Some (m\<lparr>cm_modes := f (cm_modes m)\<rparr> # ms)
     else map_option ((#) m) (member_modes n nick f ms)
   }"

definition ChanUserMode :: "string \<Rightarrow> string \<Rightarrow> bool \<Rightarrow> uint \<Rightarrow> net \<Rightarrow> net option" where
  "ChanUserMode chan nick add msk n = do {
     u \<leftarrow> FindUser n nick;
     if u = 0 then Some n
     else do {
       c \<leftarrow> FindChannel n chan;
       if c = 0 then Some n
       else do {
         ch \<leftarrow> channels n c;
         cl \<leftarrow> clients n u;
         ms \<leftarrow> member_modes n (c_name cl) (set_bits add msk) (ch_members ch);
         upd_chan c (\<lambda>ch. ch\<lparr>ch_members := ms\<rparr>) n } }
   }"

text \<open>An argument of the mode command; the handler does not compare the index with the count.\<close>

definition arg :: "string list \<Rightarrow> nat \<Rightarrow> string option" where
  "arg av i = (if i < length av then Some (av ! i) else None)"

definition same_param :: "uint \<Rightarrow> string \<Rightarrow> modeparam \<Rightarrow> bool" where
  "same_param msk a m \<longleftrightarrow> mp_mask m = msk \<and> irc_eq (mp_param m) a"

text \<open>One letter that is neither sign: the next argument index and the state.\<close>

definition mode_step :: "mode_tables \<Rightarrow> addr \<Rightarrow> char \<Rightarrow> bool \<Rightarrow> nat \<Rightarrow> string list \<Rightarrow> net \<Rightarrow> (nat \<times> net) option" where
  "mode_step T c mode add i av n =
     (let msk = CmodeCharToMask T mode; fl = CmodeCharToFlags T mode
      in if has fl NICKPARAM
         then do { chan \<leftarrow> arg av 0; a \<leftarrow> arg av i; n \<leftarrow> ChanUserMode chan a add msk n; Some (i + 1, n) }
         else if add
         then (if msk = CMODE_LIMIT
               then do { a \<leftarrow> arg av i; n \<leftarrow> upd_chan c (\<lambda>ch. ch\<lparr>ch_limit := atoi a\<rparr>) n; Some (i + 1, n) }
               else if msk = CMODE_KEY
               then do { a \<leftarrow> arg av i; n \<leftarrow> upd_chan c (\<lambda>ch. ch\<lparr>ch_key := strlcpy_str KEYLEN a\<rparr>) n; Some (i + 1, n) }
               else if has fl MODEPARAM
               then do {
                 ch \<leftarrow> channels n c;
                 a \<leftarrow> arg av i;
                 if \<exists>m\<in>set (ch_modeparams ch). same_param msk a m then Some (i + 1, n)
                 else do {
                   nassert (\<not> full (ch_modeparams ch));
                   n \<leftarrow> upd_chan c (\<lambda>ch. ch\<lparr>ch_modeparams := ch_modeparams ch @
                          [\<lparr>mp_mask = msk, mp_param = strlcpy_str PARAMSIZE a\<rparr>]\<rparr>) n;
                   Some (i + 1, n) } }
               else do { n \<leftarrow> upd_chan c (\<lambda>ch. ch\<lparr>ch_modes := ch_modes ch OR msk\<rparr>) n; Some (i, n) })
         else (if msk = CMODE_LIMIT
               then do { n \<leftarrow> upd_chan c (\<lambda>ch. ch\<lparr>ch_limit := 0\<rparr>) n; Some (i, n) }
               else if msk = CMODE_KEY
               then do { n \<leftarrow> upd_chan c (\<lambda>ch. ch\<lparr>ch_key := ''''\<rparr>) n; Some (i + 1, n) }
               else if has fl MODEPARAM
               then do {
                 n \<leftarrow> upd_chan c (\<lambda>ch. ch\<lparr>ch_modeparams := remove_first (\<lambda>m. mp_mask m = msk) (ch_modeparams ch)\<rparr>) n;
                 Some (i + 1, n) }
               else do { n \<leftarrow> upd_chan c (\<lambda>ch. ch\<lparr>ch_modes := ch_modes ch AND NOT msk\<rparr>) n; Some (i, n) }))"

fun mode_loop :: "mode_tables \<Rightarrow> addr \<Rightarrow> bool \<Rightarrow> string \<Rightarrow> nat \<Rightarrow> string list \<Rightarrow> net \<Rightarrow> net option" where
  "mode_loop T c add [] i av n = Some n"
| "mode_loop T c add (m # ms) i av n =
     (if m = CHR ''+'' then mode_loop T c True ms i av n
      else if m = CHR ''-'' then mode_loop T c False ms i av n
      else do {
        (i, n) \<leftarrow> mode_step T c m add i av n;
        mode_loop T c add ms i av n })"

definition ChanModeHandler :: "mode_tables \<Rightarrow> addr \<Rightarrow> string \<Rightarrow> nat \<Rightarrow> string list \<Rightarrow> net \<Rightarrow> net option" where
  "ChanModeHandler T c modes avindex av n = mode_loop T c True modes avindex av n"

text \<open>The argument list of the event is not part of the trace.\<close>

definition ChanMode :: "mode_tables \<Rightarrow> string \<Rightarrow> string list \<Rightarrow> net \<Rightarrow> net option" where
  "ChanMode T origin av n = do {
     chan \<leftarrow> arg av 0;
     c \<leftarrow> FindChannel n chan;
     if c = 0 then Some n
     else do {
       src \<leftarrow> FindClient n (Some origin);
       modes \<leftarrow> arg av 1;
       n \<leftarrow> ChanModeHandler T c modes 2 av n;
       Some (SendAllModuleEvent EVENT_CMODE (no_params\<lparr>cp_channel := c, cp_source := src\<rparr>) n) }
   }"

end
