(* ===== verification/IrcRecv.thy ===== *)
theory IrcRecv
  imports Channels Users Servers Bans Modes
begin

text \<open>
  \<^verbatim>\<open>src/ircrecv.c\<close>: the generic handlers of the lines of the IRC server, and what they ask of the core. A
  line arrives as the name of its origin and its argument array, as \<open>ircsplitbuf\<close> has left it. The array
  has eight null pointers at first and is not cleared when it grows, so an argument past the last one is a
  null pointer in a short line and unknown memory in a long one. A handler that needs an argument follows its
  pointer: without one the handler is \<open>None\<close>, whether or not it would have got as far as following it.
  The answers of the informative commands are text for the socket and are left out.
\<close>

section \<open>The state besides the network\<close>

record ircd_server =
  srv_burst :: int
  srv_uprot :: int
  srv_modex :: int
  srv_nicklen :: int
  srv_gc :: int
  srv_cloak :: string
  srv_maxglobalcnt :: int
  srv_tsendsync :: int
  srv_protocol :: uint

record irc =
  i_net :: net
  ircd_srv :: ircd_server
  me_netname :: string
  me_uplink :: string
  me_ulag :: int
  me_tslastping :: time_t
  me_s :: addr

type_synonym args = "string option list"

text \<open>
  What the handlers are given: the options of the protocol module, the mode tables, and the parts
  of the program the lines are handed on to, the start of the services bot and the messages to bots.
\<close>

record recv =
  rc_options :: uint
  rc_modes :: mode_tables
  rc_synched :: bool
  rc_start_services_bot :: "irc \<Rightarrow> irc option"
  rc_private :: "string \<Rightarrow> args \<Rightarrow> irc \<Rightarrow> irc option"
  rc_chan_private :: "string \<Rightarrow> args \<Rightarrow> irc \<Rightarrow> irc option"
  rc_notice :: "string \<Rightarrow> args \<Rightarrow> irc \<Rightarrow> irc option"
  rc_chan_notice :: "string \<Rightarrow> args \<Rightarrow> irc \<Rightarrow> irc option"

type_synonym handler = "recv \<Rightarrow> env \<Rightarrow> string \<Rightarrow> args \<Rightarrow> nat \<Rightarrow> irc \<Rightarrow> irc option"

definition PROTOCOL_TOKEN :: uint where "PROTOCOL_TOKEN = 0x00000002"
definition PROTOCOL_SJOIN :: uint where "PROTOCOL_SJOIN = 0x00000004"
definition PROTOCOL_NICKv2 :: uint where "PROTOCOL_NICKv2 = 0x00000008"
definition PROTOCOL_SJ3 :: uint where "PROTOCOL_SJ3 = 0x00000200"
definition PROTOCOL_CLIENT :: uint where "PROTOCOL_CLIENT = 0x00001000"
definition PROTOCOL_B64SERVER :: uint where "PROTOCOL_B64SERVER = 0x00002000"
definition PROTOCOL_UNKLN :: uint where "PROTOCOL_UNKLN = 0x00008000"
definition PROTOCOL_P10 :: uint where "PROTOCOL_P10 = 0x00040000"
definition CLOAKKEYLEN :: nat where "CLOAKKEYLEN = 40 + 1"

lemmas protocol_flags = PROTOCOL_TOKEN_def PROTOCOL_SJOIN_def PROTOCOL_NICKv2_def PROTOCOL_SJ3_def PROTOCOL_CLIENT_def
  PROTOCOL_B64SERVER_def PROTOCOL_UNKLN_def PROTOCOL_P10_def

text \<open>The protocol options in force are those of the link.\<close>

definition proto :: "irc \<Rightarrow> uint \<Rightarrow> bool" where
  "proto s f = has (srv_protocol (ircd_srv s)) f"

definition link_env :: "env \<Rightarrow> irc \<Rightarrow> env" where
  "link_env E s = E\<lparr>ircd_protocol := srv_protocol (ircd_srv s)\<rparr>"

definition on_net :: "(net \<Rightarrow> net option) \<Rightarrow> irc \<Rightarrow> irc option" where
  "on_net f s = do { n \<leftarrow> f (i_net s); Some (s\<lparr>i_net := n\<rparr>) }"

definition on_srv :: "(ircd_server \<Rightarrow> ircd_server) \<Rightarrow> irc \<Rightarrow> irc" where
  "on_srv f s = s\<lparr>ircd_srv := f (ircd_srv s)\<rparr>"

text \<open>The pointer \<open>argv[i]\<close>, and the text it must point to.\<close>

definition argv :: "args \<Rightarrow> nat \<Rightarrow> string option option" where
  "argv av i =
     (if i < length av then map_option Some (av ! i)
      else if i < 8 \<and> length av \<le> 8 then Some None else None)"

definition argv_text :: "args \<Rightarrow> nat \<Rightarrow> string option" where
  "argv_text av i = do { a \<leftarrow> argv av i; a }"

definition last_arg :: "args \<Rightarrow> string option" where
  "last_arg av = (if av = [] then None else last av)"

text \<open>Names in base 64 of the protocols derived from P10.\<close>

definition nick_name :: "string \<Rightarrow> irc \<Rightarrow> string option option" where
  "nick_name a s = (if proto s PROTOCOL_P10 then base64_to_nick a (i_net s) else Some (Some a))"

definition any_name :: "string \<Rightarrow> irc \<Rightarrow> string option option" where
  "any_name a s = (if proto s PROTOCOL_P10 then base64_to_name a (i_net s) else Some (Some a))"

definition nick_text :: "string \<Rightarrow> irc \<Rightarrow> string option" where
  "nick_text a s = do { x \<leftarrow> nick_name a s; x }"

definition any_text :: "string \<Rightarrow> irc \<Rightarrow> string option" where
  "any_text a s = do { x \<leftarrow> any_name a s; x }"

section \<open>What the lines ask of the core\<close>

definition do_oper_message :: "event_kind \<Rightarrow> string \<Rightarrow> string option \<Rightarrow> net \<Rightarrow> net option" where
  "do_oper_message e origin message n = do {
     c \<leftarrow> FindClient n (Some origin);
     Some (if c \<noteq> 0 then SendAllModuleEvent e (no_params\<lparr>cp_source := c, cp_param := message\<rparr>) n else n)
   }"

definition do_globops :: "string \<Rightarrow> string option \<Rightarrow> net \<Rightarrow> net option" where
  "do_globops = do_oper_message EVENT_GLOBOPS"

definition do_wallops :: "string \<Rightarrow> string option \<Rightarrow> net \<Rightarrow> net option" where
  "do_wallops = do_oper_message EVENT_WALLOPS"

definition do_chatops :: "string \<Rightarrow> string option \<Rightarrow> net \<Rightarrow> net option" where
  "do_chatops = do_oper_message EVENT_CHATOPS"

definition do_synch_neostats :: "recv \<Rightarrow> irc \<Rightarrow> irc option" where
  "do_synch_neostats R s = do {
     s \<leftarrow> rc_start_services_bot R s;
     on_net (\<lambda>n. Some (emit (Send ''GLOBOPS'' [''Link with Network Complete!'']) n)) s
   }"

definition do_ping :: "env \<Rightarrow> string \<Rightarrow> irc \<Rightarrow> irc option" where
  "do_ping E origin s = on_net (\<lambda>n.
     let n = emit (Send ''PONG'' [origin]) n
     in Some (if srv_burst (ircd_srv s) \<noteq> 0 then emit (Send ''PING'' [me_name E, origin, origin]) n else n)) s"

definition do_pong :: "env \<Rightarrow> string \<Rightarrow> irc \<Rightarrow> irc option" where
  "do_pong E origin s = do {
     a \<leftarrow> FindServer (i_net s) origin;
     if a = 0 then Some s
     else do {
       let s = (if me_tslastping s = 0 then s\<lparr>me_tslastping := me_now E\<rparr> else s);
       s \<leftarrow> on_net (upd_server a (\<lambda>sv. sv\<lparr>sv_ping := me_now E - me_tslastping s\<rparr>)) s;
       s \<leftarrow> (if me_ulag s > 1
            then on_net (upd_server a (\<lambda>sv. sv\<lparr>sv_ping := sv_ping sv - me_ulag s\<rparr>)) s else Some s);
       me \<leftarrow> IsMe (i_net s) a;
       s \<leftarrow> (if me then do { sv \<leftarrow> server_of (i_net s) (me_s s); Some (s\<lparr>me_ulag := sv_ping sv\<rparr>) } else Some s);
       on_net (\<lambda>n. Some (SendAllModuleEvent EVENT_PONG (no_params\<lparr>cp_source := a\<rparr>) n)) s }
   }"

text \<open>The options of the link: those both sides name.\<close>

definition protocol_list :: "(string \<times> uint) list" where
  "protocol_list = [(''TOKEN'', PROTOCOL_TOKEN), (''CLIENT'', PROTOCOL_CLIENT), (''UNKLN'', PROTOCOL_UNKLN),
     (''NOQUIT'', PROTOCOL_NOQUIT), (''NICKIP'', PROTOCOL_NICKIP), (''NICKv2'', PROTOCOL_NICKv2), (''SJ3'', PROTOCOL_SJ3)]"

definition add_option :: "uint \<Rightarrow> string \<Rightarrow> uint \<Rightarrow> uint" where
  "add_option options a p =
     (case List.find (\<lambda>(token, flag). irc_eq token a \<and> has options flag) protocol_list of
        None \<Rightarrow> p
      | Some (token, flag) \<Rightarrow> p OR flag)"

fun add_options :: "uint \<Rightarrow> args \<Rightarrow> uint \<Rightarrow> uint option" where
  "add_options options [] p = Some p"
| "add_options options (a # av) p = do { a \<leftarrow> a; add_options options av (add_option options a p) }"

definition do_protocol :: "recv \<Rightarrow> args \<Rightarrow> irc \<Rightarrow> irc option" where
  "do_protocol R av s = do {
     p \<leftarrow> add_options (rc_options R) av (srv_protocol (ircd_srv s));
     Some (on_srv (\<lambda>v. v\<lparr>srv_protocol := p\<rparr>) s)
   }"

text \<open>
  The prefixes of a nick in SJOIN and the nick. A table that declares a mode without a prefix also answers for the
  terminator, so a word of prefixes alone is read past its end: \<open>None\<close>.
\<close>

fun prefix_mask :: "mode_tables \<Rightarrow> uint \<Rightarrow> string \<Rightarrow> (uint \<times> string) option" where
  "prefix_mask T m [] = (if CmodePrefixToMask T NUL = - 1 then Some (m, []) else None)"
| "prefix_mask T m (c # cs) =
     (if CmodePrefixToMask T c = - 1 then Some (m, c # cs) else prefix_mask T (m OR CmodePrefixToMask T c) cs)"

definition sjoin_one :: "env \<Rightarrow> mode_tables \<Rightarrow> bool \<Rightarrow> string \<Rightarrow> string \<Rightarrow> net \<Rightarrow> net option" where
  "sjoin_one E T sj3 chan word n =
     (if sj3 \<and> (deref word = CHR ''&'' \<or> deref word = CHR 0x22) then Some n
      else do {
        (msk, nick) \<leftarrow> prefix_mask T 0 word;
        let nick = strlcpy_str MAXNICK nick;
        n \<leftarrow> JoinChannel E nick chan n;
        ChanUserMode chan nick True msk n })"

fun sjoin_loop :: "env \<Rightarrow> mode_tables \<Rightarrow> bool \<Rightarrow> string \<Rightarrow> args \<Rightarrow> net \<Rightarrow> net option" where
  "sjoin_loop E T sj3 chan [] n = Some n"
| "sjoin_loop E T sj3 chan (w # ws) n = do {
     w \<leftarrow> w;
     n \<leftarrow> sjoin_one E T sj3 chan w n;
     sjoin_loop E T sj3 chan ws n
   }"

text \<open>Splitting the last argument has cut it at its first space when the modes are handled.\<close>

definition sjoin_modes :: "recv \<Rightarrow> string \<Rightarrow> string \<Rightarrow> string \<Rightarrow> args \<Rightarrow> string \<Rightarrow> irc \<Rightarrow> irc option" where
  "sjoin_modes R tstime channame modes av nicks s = do {
     c \<leftarrow> FindChannel (i_net s) channame;
     if c = 0 then Some s
     else do {
       av \<leftarrow> those (butlast av @ [Some (takeWhile (\<lambda>c. c \<noteq> CHR '' '') nicks)]);
       on_net (\<lambda>n. do {
         n \<leftarrow> upd_chan c (\<lambda>ch. ch\<lparr>ch_creationtime := atoi tstime\<rparr>) n;
         ChanModeHandler (rc_modes R) c modes 3 av n }) s }
   }"

definition do_sjoin :: "recv \<Rightarrow> env \<Rightarrow> string \<Rightarrow> string \<Rightarrow> string option \<Rightarrow> string \<Rightarrow> args \<Rightarrow> irc \<Rightarrow> irc option" where
  "do_sjoin R E tstime channame modes sjoinnick av s =
     (case modes of
        Some m \<Rightarrow>
          if deref m = CHR ''#'' then on_net (JoinChannel (link_env E s) sjoinnick m) s
          else do {
            nicks \<leftarrow> last_arg av;
            let words = split_buf (Some nicks);
            s \<leftarrow> on_net (sjoin_loop (link_env E s) (rc_modes R) (proto s PROTOCOL_SJ3) channame words) s;
            sjoin_modes R tstime channame m av nicks s }
      | None \<Rightarrow> None)"

definition do_netinfo :: "recv \<Rightarrow> string \<Rightarrow> string \<Rightarrow> string \<Rightarrow> string \<Rightarrow> string \<Rightarrow> irc \<Rightarrow> irc option" where
  "do_netinfo R maxglobalcnt tsendsync prot cloak netname s =
     (let s = on_srv (\<lambda>v. v\<lparr>srv_maxglobalcnt := atoi maxglobalcnt, srv_tsendsync := atoi tsendsync, srv_uprot := atoi prot,
                srv_cloak := strlcpy_str CLOAKKEYLEN cloak\<rparr>) s\<lparr>me_netname := strlcpy_str MAXPASS netname\<rparr>
      in do {
        s \<leftarrow> on_net (\<lambda>n. Some (emit (Send ''NETINFO'' [maxglobalcnt, srv_cloak (ircd_srv s), me_netname s]) n)) s;
        do_synch_neostats R s })"

definition do_snetinfo :: "recv \<Rightarrow> string \<Rightarrow> string \<Rightarrow> string \<Rightarrow> irc \<Rightarrow> irc option" where
  "do_snetinfo R prot cloak netname s =
     (let s = on_srv (\<lambda>v. v\<lparr>srv_uprot := atoi prot, srv_cloak := strlcpy_str CLOAKKEYLEN cloak\<rparr>) s
                \<lparr>me_netname := strlcpy_str MAXPASS netname\<rparr>
      in do {
        s \<leftarrow> on_net (\<lambda>n. Some (emit (Send ''SNETINFO'' [srv_cloak (ircd_srv s), me_netname s]) n)) s;
        do_synch_neostats R s })"

text \<open>A list of channels, cut at its commas; an empty name is a name.\<close>

function channel_names :: "string \<Rightarrow> string list" where
  "channel_names t =
     (if t = [] then []
      else (let s = takeWhile (\<lambda>c. c \<noteq> CHR '','') t; r = dropWhile (\<lambda>c. c \<noteq> CHR '','') t
            in s # channel_names (tl r)))"
  by pat_completeness auto
termination
proof (relation "measure length")
  show "(tl r, t) \<in> measure length" if "t \<noteq> []" "r = dropWhile (\<lambda>c. c \<noteq> CHR '','') t" for t r
    using that length_dropWhile_le [of "\<lambda>c. c \<noteq> CHR '',''" t] by (cases t) (auto split: if_splits)
qed simp

declare channel_names.simps [simp del]

fun join_each :: "env \<Rightarrow> string \<Rightarrow> string list \<Rightarrow> net \<Rightarrow> net option" where
  "join_each E nick [] n = Some n"
| "join_each E nick (c # cs) n = do { n \<leftarrow> JoinChannel E nick c n; join_each E nick cs n }"

definition do_join :: "env \<Rightarrow> string \<Rightarrow> string \<Rightarrow> net \<Rightarrow> net option" where
  "do_join E nick chanlist n = join_each E nick (channel_names chanlist) n"

definition do_part :: "env \<Rightarrow> string \<Rightarrow> string \<Rightarrow> string option \<Rightarrow> net \<Rightarrow> net option" where
  "do_part E nick chan reason n = do { u \<leftarrow> FindUser n nick; PartChannel E u chan reason n }"

text \<open>The mask of a mode string is computed for a user who exists.\<close>

definition do_mode_user :: "recv \<Rightarrow> env \<Rightarrow> string \<Rightarrow> string \<Rightarrow> net \<Rightarrow> net option" where
  "do_mode_user R E nick modes n = do {
     u \<leftarrow> FindUser n nick;
     if u = 0 then Some n
     else do { m \<leftarrow> UmodeStringToMask (rc_modes R) modes; UserMode E (\<lambda>_. m) nick modes n }
   }"

definition do_smode :: "recv \<Rightarrow> string \<Rightarrow> string \<Rightarrow> net \<Rightarrow> net option" where
  "do_smode R nick modes n = do {
     u \<leftarrow> FindUser n nick;
     if u = 0 then Some n
     else do { m \<leftarrow> SmodeStringToMask (rc_modes R) modes; UserSMode (\<lambda>_. m) nick modes n }
   }"

definition do_nick :: "recv \<Rightarrow> env \<Rightarrow> string option \<Rightarrow> string option \<Rightarrow> string option \<Rightarrow> string option \<Rightarrow> string option \<Rightarrow>
    string option \<Rightarrow> string option \<Rightarrow> string option \<Rightarrow> string option \<Rightarrow> string option \<Rightarrow> string option \<Rightarrow> net \<Rightarrow> net option" where
  "do_nick R E nick TS usr host server ip modes vhost realname numeric smodes n =
     (case nick of
        None \<Rightarrow> Some n
      | Some nick \<Rightarrow> do {
          usr \<leftarrow> usr; host \<leftarrow> host; realname \<leftarrow> realname; server \<leftarrow> server;
          (_, n) \<leftarrow> AddUser E nick usr host realname server ip TS numeric n;
          n \<leftarrow> (case modes of None \<Rightarrow> Some n | Some m \<Rightarrow> do_mode_user R E nick m n);
          n \<leftarrow> (case vhost of None \<Rightarrow> Some n | Some v \<Rightarrow> SetUserVhost E nick v n);
          case smodes of None \<Rightarrow> Some n | Some m \<Rightarrow> do_smode R nick m n })"

definition do_client :: "recv \<Rightarrow> env \<Rightarrow> string option \<Rightarrow> string option \<Rightarrow> string option \<Rightarrow> string option \<Rightarrow> string option \<Rightarrow>
    string option \<Rightarrow> string option \<Rightarrow> string option \<Rightarrow> string option \<Rightarrow> string option \<Rightarrow> net \<Rightarrow> net option" where
  "do_client R E nick TS modes smodes usr host vhost server ip realname n =
     do_nick R E nick TS usr host server ip modes vhost realname None smodes n"

text \<open>
  SVSMODE with a services time stamp: a mode string that contains \<^verbatim>\<open>d\<close> besides \<^verbatim>\<open>+d\<close> is copied with a byte left
  unset for every \<^verbatim>\<open>d\<close>, and one of \<^term>\<open>MODESIZE\<close> or more bytes does not fit the copy.
\<close>

definition do_svsmode_user :: "recv \<Rightarrow> env \<Rightarrow> string \<Rightarrow> string \<Rightarrow> string option \<Rightarrow> net \<Rightarrow> net option" where
  "do_svsmode_user R E nick modes ts n =
     (case ts of
        Some t \<Rightarrow>
          if c_isdigit (deref t)
          then do {
            n \<leftarrow> SetUserServicesTS E nick t n;
            if irc_eq modes ''+d'' then Some n
            else if CHR ''d'' \<in> set modes \<or> MODESIZE \<le> length modes then None
            else do_mode_user R E nick modes n }
          else do_mode_user R E nick modes n
      | None \<Rightarrow> do_mode_user R E nick modes n)"

text \<open>
  A server that names no uplink is linked to this one. The uplink of a server line with an origin is the
  origin.
\<close>

definition do_server :: "env \<Rightarrow> string \<Rightarrow> string option \<Rightarrow> string option \<Rightarrow> string option \<Rightarrow> string option \<Rightarrow> nat \<Rightarrow> net \<Rightarrow>
    net option" where
  "do_server E name uplink hops numeric infoline srv n = do {
     (_, n) \<leftarrow> (if srv = 0 \<and> (uplink = None \<or> uplink = Some [])
              then AddServer E name (Some (me_name E)) hops numeric infoline n
              else AddServer E name uplink hops numeric infoline n);
     Some (emit (Send ''VERSION'' [me_name E, name]) n)
   }"

definition do_burst :: "recv \<Rightarrow> args \<Rightarrow> irc \<Rightarrow> irc option" where
  "do_burst R av s =
     (if av \<noteq> []
      then if srv_burst (ircd_srv s) = 1
           then do {
             s \<leftarrow> on_net (\<lambda>n. Some (emit (Send ''BURST'' [''0'']) n)) s;
             do_synch_neostats R (on_srv (\<lambda>v. v\<lparr>srv_burst := 0\<rparr>) s) }
           else Some s
      else Some (on_srv (\<lambda>v. v\<lparr>srv_burst := 1\<rparr>) s))"

definition do_vctrl :: "string \<Rightarrow> string \<Rightarrow> string \<Rightarrow> string \<Rightarrow> string \<Rightarrow> irc \<Rightarrow> irc option" where
  "do_vctrl uprot nicklen modex gc netname s =
     (let s = on_srv (\<lambda>v. v\<lparr>srv_uprot := atoi uprot, srv_nicklen := atoi nicklen, srv_modex := atoi modex, srv_gc := atoi gc\<rparr>) s
                \<lparr>me_netname := strlcpy_str MAXPASS netname\<rparr>
      in on_net (\<lambda>n. Some (emit (Send ''VCTRL'' [uprot, nicklen, modex, gc, me_netname s]) n)) s)"

definition do_svinfo :: "net \<Rightarrow> net option" where
  "do_svinfo n = Some (emit (Send ''SVINFO'' []) n)"

definition do_tkl :: "env \<Rightarrow> string \<Rightarrow> string \<Rightarrow> string \<Rightarrow> string \<Rightarrow> string \<Rightarrow> string \<Rightarrow> string \<Rightarrow> string \<Rightarrow> net \<Rightarrow> net option" where
  "do_tkl E add type usr host setby tsexpire tsset reason n =
     (let msk = strlcpy_str MAXHOST (usr @ ''@'' @ host)
      in if deref add = CHR ''+'' then AddBan E type usr host msk reason setby tsset tsexpire n else DelBan msk n)"

definition do_eos :: "string \<Rightarrow> net \<Rightarrow> net option" where
  "do_eos name n = do {
     s \<leftarrow> FindServer n name;
     if s = 0 then Some n else do { c \<leftarrow> clients n s; SyncServer (c_name c) n }
   }"

section \<open>Fields of a user\<close>

text \<open>\<open>strlcpy\<close> with a limit that may exceed the array: a longer text is written past the end.\<close>

definition strlcpy_field :: "nat \<Rightarrow> nat \<Rightarrow> string \<Rightarrow> string option" where
  "strlcpy_field bytes limit text =
     (let t = strlcpy_str limit text in if length t < bytes then Some t else None)"

definition set_field :: "(string \<Rightarrow> user \<Rightarrow> user) \<Rightarrow> nat \<Rightarrow> string \<Rightarrow> string \<Rightarrow> net \<Rightarrow> net option" where
  "set_field f bytes nick text n = do {
     u \<leftarrow> FindUser n nick;
     if u = 0 then Some n
     else do { t \<leftarrow> strlcpy_field bytes MAXHOST text; upd_user u (f t) n }
   }"

definition do_swhois :: "string \<Rightarrow> string \<Rightarrow> net \<Rightarrow> net option" where
  "do_swhois = set_field (\<lambda>t r. r\<lparr>u_swhois := t\<rparr>) MAXHOST"

definition do_sethost :: "string \<Rightarrow> string \<Rightarrow> net \<Rightarrow> net option" where
  "do_sethost = set_field (\<lambda>t r. r\<lparr>u_hostname := t\<rparr>) MAXHOST"

definition do_chghost :: "string \<Rightarrow> string \<Rightarrow> net \<Rightarrow> net option" where
  "do_chghost = set_field (\<lambda>t r. r\<lparr>u_hostname := t\<rparr>) MAXHOST"

text \<open>The array for the user name has \<^term>\<open>MAXUSER\<close> bytes, the one for the real name \<^term>\<open>MAXREALNAME\<close>.\<close>

definition do_setident :: "string \<Rightarrow> string \<Rightarrow> net \<Rightarrow> net option" where
  "do_setident = set_field (\<lambda>t r. r\<lparr>u_username := t\<rparr>) MAXUSER"

definition do_chgident :: "string \<Rightarrow> string \<Rightarrow> net \<Rightarrow> net option" where
  "do_chgident = set_field (\<lambda>t r. r\<lparr>u_username := t\<rparr>) MAXUSER"

definition do_setname :: "string \<Rightarrow> string \<Rightarrow> net \<Rightarrow> net option" where
  "do_setname nick realname n = do {
     u \<leftarrow> FindUser n nick;
     if u = 0 then Some n
     else do { t \<leftarrow> strlcpy_field MAXREALNAME MAXHOST realname; upd_client u (\<lambda>c. c\<lparr>c_info := t\<rparr>) n }
   }"

definition do_chgname :: "string \<Rightarrow> string \<Rightarrow> net \<Rightarrow> net option" where
  "do_chgname = do_setname"

section \<open>The generic handlers\<close>

definition m_globops :: handler where
  "m_globops R E origin av srv s = do { m \<leftarrow> argv av 0; on_net (do_globops origin m) s }"

definition m_wallops :: handler where
  "m_wallops R E origin av srv s = do { m \<leftarrow> argv av 0; on_net (do_wallops origin m) s }"

definition m_chatops :: handler where
  "m_chatops R E origin av srv s = do { m \<leftarrow> argv av 0; on_net (do_chatops origin m) s }"

text \<open>The process ends.\<close>

definition m_error :: handler where
  "m_error R E origin av srv s = None"

text \<open>The handlers that do nothing, only log, or only answer.\<close>

definition m_ignorecommand :: handler where
  "m_ignorecommand R E origin av srv s = Some s"

definition m_protoctl :: handler where
  "m_protoctl R E origin av srv s = do_protocol R av s"

definition m_ping :: handler where
  "m_ping R E origin av srv s =
     (if proto s PROTOCOL_P10
      then do { o64 \<leftarrow> base64_to_server origin (i_net s); name \<leftarrow> o64; _ \<leftarrow> argv av 1; do_ping E name s }
      else do { a \<leftarrow> argv_text av 0; do_ping E a s })"

definition m_pong :: handler where
  "m_pong R E origin av srv s =
     (if proto s PROTOCOL_P10
      then do { o64 \<leftarrow> base64_to_server origin (i_net s); name \<leftarrow> o64; do_pong E name s }
      else do { a \<leftarrow> argv_text av 0; do_pong E a s })"

definition m_quit :: handler where
  "m_quit R E origin av srv s = do {
     nick \<leftarrow> nick_text origin s;
     why \<leftarrow> argv av 0;
     on_net (QuitUser (link_env E s) nick why) s }"

definition m_join :: handler where
  "m_join R E origin av srv s = do {
     nick \<leftarrow> nick_text origin s;
     chans \<leftarrow> argv_text av 0;
     on_net (do_join (link_env E s) nick chans) s }"

definition m_part :: handler where
  "m_part R E origin av srv s = do {
     nick \<leftarrow> nick_text origin s;
     chan \<leftarrow> argv_text av 0;
     why \<leftarrow> argv av 1;
     on_net (do_part (link_env E s) nick chan why) s }"

definition m_kick :: handler where
  "m_kick R E origin av srv s = do {
     by \<leftarrow> any_text origin s;
     chan \<leftarrow> argv_text av 0;
     k \<leftarrow> argv_text av 1;
     kicked \<leftarrow> nick_text k s;
     why \<leftarrow> argv av 2;
     on_net (KickChannel (link_env E s) by chan kicked why) s }"

definition m_topic :: handler where
  "m_topic R E origin av srv s =
     (if proto s PROTOCOL_P10
      then do {
        chan \<leftarrow> argv_text av 0;
        own \<leftarrow> any_text origin s;
        topic \<leftarrow> last_arg av;
        on_net (ChannelTopic (link_env E s) chan own None (Some topic)) s }
      else do {
        chan \<leftarrow> argv_text av 0;
        own \<leftarrow> argv_text av 1;
        ts \<leftarrow> argv av 2;
        topic \<leftarrow> argv av 3;
        on_net (ChannelTopic (link_env E s) chan own ts topic) s })"

definition m_away :: handler where
  "m_away R E origin av srv s =
     (if proto s PROTOCOL_P10
      then do {
        nick \<leftarrow> nick_text origin s;
        why \<leftarrow> (if av \<noteq> [] then do { av \<leftarrow> those av; map_option Some (joinbuf av 0) } else Some None);
        on_net (UserAway nick why) s }
      else do {
        why \<leftarrow> (if av \<noteq> [] then argv av 0 else Some None);
        on_net (UserAway origin why) s })"

definition m_kill :: handler where
  "m_kill R E origin av srv s = do {
     src \<leftarrow> any_text origin s;
     k \<leftarrow> argv_text av 0;
     nick \<leftarrow> nick_text k s;
     why \<leftarrow> argv_text av 1;
     on_net (KillUser (link_env E s) src nick why) s }"

definition m_squit :: handler where
  "m_squit R E origin av srv s =
     (if proto s PROTOCOL_P10
      then do {
        a \<leftarrow> argv_text av 0;
        b64 \<leftarrow> base64_to_server a (i_net s);
        why \<leftarrow> argv av 2;
        on_net (DelServer (link_env E s) (case b64 of Some name \<Rightarrow> name | None \<Rightarrow> a) why) s }
      else do {
        a \<leftarrow> argv_text av 0;
        why \<leftarrow> last_arg av;
        on_net (DelServer (link_env E s) a (Some why)) s })"

definition m_netinfo :: handler where
  "m_netinfo R E origin av srv s = do {
     cnt \<leftarrow> argv_text av 0; synch \<leftarrow> argv_text av 1; prot \<leftarrow> argv_text av 2; cloak \<leftarrow> argv_text av 3;
     name \<leftarrow> argv_text av 7;
     do_netinfo R cnt synch prot cloak name s }"

definition m_snetinfo :: handler where
  "m_snetinfo R E origin av srv s = do {
     _ \<leftarrow> argv av 0; _ \<leftarrow> argv av 1; prot \<leftarrow> argv_text av 2; cloak \<leftarrow> argv_text av 3; name \<leftarrow> argv_text av 7;
     do_snetinfo R prot cloak name s }"

text \<open>The event of a channel mode passes the argument array on.\<close>

definition m_mode :: handler where
  "m_mode R E origin av srv s = do {
     target \<leftarrow> argv_text av 0;
     if deref target = CHR ''#''
     then do { av \<leftarrow> those av; on_net (ChanMode (rc_modes R) origin av) s }
     else do { modes \<leftarrow> argv_text av 1; on_net (do_mode_user R E target modes) s } }"

definition m_svsnick :: handler where
  "m_svsnick R E origin av srv s = do {
     old \<leftarrow> argv_text av 0;
     new \<leftarrow> argv_text av 1;
     ts \<leftarrow> (if 2 < length av then argv av 2 else Some None);
     on_net (UserNickChange (link_env E s) old new ts) s }"

definition field_of_origin :: "(string \<Rightarrow> string \<Rightarrow> net \<Rightarrow> net option) \<Rightarrow> handler" where
  "field_of_origin f R E origin av srv s = do { t \<leftarrow> argv_text av 0; on_net (f origin t) s }"

definition field_of_arg :: "(string \<Rightarrow> string \<Rightarrow> net \<Rightarrow> net option) \<Rightarrow> handler" where
  "field_of_arg f R E origin av srv s = do { nick \<leftarrow> argv_text av 0; t \<leftarrow> argv_text av 1; on_net (f nick t) s }"

definition m_setname :: handler where "m_setname = field_of_origin do_setname"
definition m_chgname :: handler where "m_chgname = field_of_arg do_setname"
definition m_sethost :: handler where "m_sethost = field_of_origin do_sethost"
definition m_chghost :: handler where "m_chghost = field_of_arg do_chghost"
definition m_setident :: handler where "m_setident = field_of_origin do_setident"
definition m_chgident :: handler where "m_chgident = field_of_arg do_setident"

definition m_svsjoin :: handler where
  "m_svsjoin R E origin av srv s = do {
     nick \<leftarrow> argv_text av 0;
     chans \<leftarrow> argv_text av 1;
     on_net (do_join (link_env E s) nick chans) s }"

definition m_svspart :: handler where
  "m_svspart R E origin av srv s = do {
     nick \<leftarrow> argv_text av 0;
     chan \<leftarrow> argv_text av 1;
     why \<leftarrow> argv av 2;
     on_net (do_part (link_env E s) nick chan why) s }"

definition m_svinfo :: handler where
  "m_svinfo R E origin av srv s = on_net do_svinfo s"

text \<open>The end of a burst, from a server the core does not know: the null pointer is followed.\<close>

definition m_eob :: handler where
  "m_eob R E origin av srv s = do {
     s \<leftarrow> (if proto s PROTOCOL_EOB
          then do {
            a \<leftarrow> FindClient (i_net s) (Some origin);
            synched \<leftarrow> IsSynched (i_net s) a;
            if synched then Some s
            else do { c \<leftarrow> clients (i_net s) a; on_net (SyncServer (c_name c)) s } }
          else Some s);
     if rc_synched R then Some s
     else do {
       s \<leftarrow> on_net (\<lambda>n. Some (emit (Send ''EOB'' [me_name E]) n)) s;
       do_synch_neostats R s } }"

text \<open>A message to a channel, or to a bot, whose name an exclamation mark or an at sign may follow.\<close>

definition m_notice :: handler where
  "m_notice R E origin av srv s = do {
     a \<leftarrow> argv av 0;
     case a of
       None \<Rightarrow> Some s
     | Some target \<Rightarrow> if deref target = CHR ''#'' then rc_chan_notice R origin av s else rc_notice R origin av s }"

text \<open>\<^verbatim>\<open>strtok\<close>: the first token and the rest.\<close>

definition strtok :: "string \<Rightarrow> string \<Rightarrow> string option \<times> string" where
  "strtok delims s =
     (let t = dropWhile (\<lambda>c. c \<in> set delims) s in
      if t = [] then (None, [])
      else (Some (takeWhile (\<lambda>c. c \<notin> set delims) t), tl (dropWhile (\<lambda>c. c \<notin> set delims) t)))"

definition bot_target :: "string \<Rightarrow> string option" where
  "bot_target target =
     (if CHR ''!'' \<in> set target then fst (strtok ''!'' (strlcpy_str 64 target))
      else if CHR ''@'' \<in> set target then fst (strtok ''@'' (strlcpy_str 64 target))
      else Some target)"

definition m_private :: handler where
  "m_private R E origin av srv s = do {
     a \<leftarrow> argv av 0;
     case a of
       None \<Rightarrow> Some s
     | Some target \<Rightarrow>
         if deref target = CHR ''#'' then rc_chan_private R origin av s
         else do { t \<leftarrow> bot_target target; rc_private R origin (if av = [] then av else av[0 := Some t]) s } }"

section \<open>Numeric replies\<close>

text \<open>\<^verbatim>\<open>src/numerics.c\<close>. The server is the origin, or has it as its number.\<close>

definition numeric_server :: "string \<Rightarrow> irc \<Rightarrow> addr option" where
  "numeric_server origin s =
     (if proto s PROTOCOL_B64SERVER
      then do { b \<leftarrow> base64_to_server origin (i_net s); name \<leftarrow> b; FindServer (i_net s) name }
      else FindServer (i_net s) origin)"

definition m_numeric351 :: handler where
  "m_numeric351 R E origin av srv s = do {
     a \<leftarrow> numeric_server origin s;
     if a = 0 then Some s
     else do {
       v \<leftarrow> argv_text av 1;
       on_net (upd_client a (\<lambda>c. c\<lparr>c_version := strlcpy_str MAXHOST v\<rparr>)) s } }"

text \<open>\<^verbatim>\<open>Server Up d days, hh:mm:ss\<close> in seconds.\<close>

definition uptime_seconds :: "string \<Rightarrow> int option" where
  "uptime_seconds text =
     (let (_, t) = strtok '' '' text;
          (_, t) = strtok '' '' t;
          (days, t) = strtok '' '' t
      in do {
        days \<leftarrow> days;
        let (_, t) = strtok '' '' t;
        (hours, t) \<leftarrow> (case strtok '':'' t of (None, _) \<Rightarrow> None | (Some h, t) \<Rightarrow> Some (h, t));
        (minutes, t) \<leftarrow> (case strtok '':'' t of (None, _) \<Rightarrow> None | (Some m, t) \<Rightarrow> Some (m, t));
        if t = [] then None
        else Some (atoi days * 86400 + atoi hours * 3600 + atoi minutes * 60 + atoi t) })"

definition m_numeric242 :: handler where
  "m_numeric242 R E origin av srv s = do {
     a \<leftarrow> numeric_server origin s;
     if a = 0 then Some s
     else do {
       text \<leftarrow> last_arg av;
       case uptime_seconds text of
         None \<Rightarrow> Some s
       | Some secs \<Rightarrow> on_net (upd_server a (\<lambda>sv. sv\<lparr>sv_uptime := secs\<rparr>)) s } }"

end
