(* ===== verification/IrcProtocol.thy ===== *)
theory IrcProtocol
  imports IrcRecv
begin

text \<open>
  \<^verbatim>\<open>src/ircprotocol.c\<close>: a line is cut into its origin, its command and its arguments, and the command is looked
  up in the table of the protocol module, in the intrinsic table of \<^verbatim>\<open>src/ircrecv.c\<close> and among the numeric
  replies. The protocol module names the messages and their tokens; a message it does not name is a
  null pointer. A line is its text before the terminating NUL.
\<close>

section \<open>Cutting a line\<close>

text \<open>
  The text before the first space, and what follows the space and the white space after it. \<open>None\<close>: there is no
  space.
\<close>

definition cut_word :: "string \<Rightarrow> (string \<times> string) option" where
  "cut_word line =
     (if CHR '' '' \<in> set line
      then Some (takeWhile (\<lambda>c. c \<noteq> CHR '' '') line, dropWhile c_isspace (tl (dropWhile (\<lambda>c. c \<noteq> CHR '' '') line)))
      else None)"

text \<open>
  Moving the rest of a line to its start copies \<^term>\<open>BUFSIZE + 1\<close> bytes at most: of a longer rest the tail stays where
  it was, behind the copy.
\<close>

definition moved_rest :: "string \<Rightarrow> string \<Rightarrow> string" where
  "moved_rest line rest =
     (if length rest \<le> BUFSIZE then rest
      else c_str (take (BUFSIZE + 1) rest @
             drop (BUFSIZE + 1) (line[length (takeWhile (\<lambda>c. c \<noteq> CHR '' '') line) := NUL])))"

record parsed =
  pl_cmdptr :: nat
  pl_cmd :: string
  pl_origin :: string
  pl_args :: args

text \<open>The line without its origin; the origin is cut to its array. \<open>None\<close>: there is an origin only.\<close>

definition take_origin :: "string \<Rightarrow> (nat \<times> string \<times> string) option" where
  "take_origin line =
     (if deref line = CHR '':''
      then do {
        (word, rest) \<leftarrow> cut_word line;
        Some (1, strlcpy_str 64 (tl word), moved_rest line rest) }
      else Some (0, [], line))"

definition split_command :: "string \<Rightarrow> string \<times> string" where
  "split_command line =
     (case cut_word line of
        Some (word, rest) \<Rightarrow> (strlcpy_str 64 word, rest)
      | None \<Rightarrow> (strlcpy_str 64 line, []))"

text \<open>\<open>None\<close>: \<^verbatim>\<open>NS_FAILURE\<close>, and nothing is done.\<close>

definition parse_line :: "string \<Rightarrow> parsed option" where
  "parse_line line =
     (if line = [] then None
      else do {
        (cmdptr, origin, line) \<leftarrow> take_origin line;
        if line = [] then None
        else (let (cmd, args) = split_command line
              in Some \<lparr>pl_cmdptr = cmdptr, pl_cmd = cmd, pl_origin = origin, pl_args = ircsplitbuf (Some args) True\<rparr>) })"

section \<open>Running a command\<close>

type_synonym irc_cmd = "string \<times> string option \<times> handler option"

text \<open>What a protocol module defines: its commands, and the names and tokens of the messages.\<close>

record protocol_module =
  pm_cmd_list :: "irc_cmd list"
  pm_MSG :: "string \<Rightarrow> string option"
  pm_TOK :: "string \<Rightarrow> string option"

definition intrinsic_cmd_list :: "(string \<times> handler) list" where
  "intrinsic_cmd_list = [(''PRIVATE'', m_private), (''NOTICE'', m_notice), (''STATS'', m_ignorecommand),
     (''VERSION'', m_ignorecommand), (''MOTD'', m_ignorecommand), (''ADMIN'', m_ignorecommand), (''CREDITS'', m_ignorecommand),
     (''INFO'', m_ignorecommand), (''SQUIT'', m_squit), (''AWAY'', m_away), (''QUIT'', m_quit), (''MODE'', m_mode),
     (''SVSJOIN'', m_svsjoin), (''SVSPART'', m_svspart), (''KILL'', m_kill), (''PING'', m_ping), (''PONG'', m_pong),
     (''JOIN'', m_join), (''PART'', m_part), (''KICK'', m_kick), (''GLOBOPS'', m_globops), (''WALLOPS'', m_wallops),
     (''SVINFO'', m_svinfo), (''NETINFO'', m_netinfo), (''SNETINFO'', m_snetinfo), (''EOB'', m_eob),
     (''PROTOCTL'', m_protoctl), (''CAPAB'', m_protoctl), (''PASS'', m_ignorecommand), (''TOPIC'', m_topic),
     (''SVSNICK'', m_svsnick), (''SETNAME'', m_setname), (''SETHOST'', m_sethost), (''SETIDENT'', m_setident),
     (''CHGHOST'', m_chghost), (''CHGIDENT'', m_chgident), (''CHGNAME'', m_chgname), (''CHATOPS'', m_chatops),
     (''SQLINE'', m_ignorecommand), (''UNSQLINE'', m_ignorecommand), (''ZLINE'', m_ignorecommand),
     (''UNZLINE'', m_ignorecommand), (''AKILL'', m_ignorecommand), (''RAKILL'', m_ignorecommand),
     (''KLINE'', m_ignorecommand), (''UNKLINE'', m_ignorecommand), (''GLINE'', m_ignorecommand),
     (''REMGLINE'', m_ignorecommand), (''ERROR'', m_error), (''WHOIS'', m_ignorecommand)]"

definition numeric_cmd_list :: "(string \<times> handler) list" where
  "numeric_cmd_list = [(''219'', m_ignorecommand), (''242'', m_numeric242), (''351'', m_numeric351)]"

text \<open>
  The first command that matches. Tokens of the module are compared exactly, those of the intrinsic
  table without regard to case.
\<close>

definition module_matches :: "bool \<Rightarrow> string \<Rightarrow> irc_cmd \<Rightarrow> bool" where
  "module_matches tokens cmd c =
     (case c of (name, tok, h) \<Rightarrow> irc_eq name cmd \<or> (tokens \<and> tok = Some cmd))"

definition intrinsic_matches :: "protocol_module \<Rightarrow> bool \<Rightarrow> string \<Rightarrow> string \<times> handler \<Rightarrow> bool" where
  "intrinsic_matches P tokens cmd c =
     (case pm_MSG P (fst c) of
        None \<Rightarrow> False
      | Some name \<Rightarrow> irc_eq name cmd \<or> (tokens \<and> (case pm_TOK P (fst c) of None \<Rightarrow> False | Some tok \<Rightarrow> irc_eq tok cmd)))"

definition find_handler :: "protocol_module \<Rightarrow> bool \<Rightarrow> string \<Rightarrow> handler option" where
  "find_handler P tokens cmd =
     (case List.find (module_matches tokens cmd) (pm_cmd_list P) of
        Some (name, tok, h) \<Rightarrow> h
      | None \<Rightarrow>
          (case List.find (intrinsic_matches P tokens cmd) intrinsic_cmd_list of
             Some (name, h) \<Rightarrow> Some h
           | None \<Rightarrow> map_option snd (List.find (\<lambda>(name, h). irc_eq name cmd) numeric_cmd_list)))"

definition process_ircd_cmd :: "protocol_module \<Rightarrow> recv \<Rightarrow> env \<Rightarrow> nat \<Rightarrow> string \<Rightarrow> string \<Rightarrow> args \<Rightarrow> irc \<Rightarrow> irc option" where
  "process_ircd_cmd P R E cmdptr cmd origin av s =
     (case find_handler P (proto s PROTOCOL_TOKEN) cmd of
        Some h \<Rightarrow> h R E origin av cmdptr s
      | None \<Rightarrow> Some s)"

definition parse :: "protocol_module \<Rightarrow> recv \<Rightarrow> env \<Rightarrow> string \<Rightarrow> irc \<Rightarrow> (int \<times> irc) option" where
  "parse P R E line s =
     (case parse_line line of
        None \<Rightarrow> Some (NS_FAILURE, s)
      | Some p \<Rightarrow> do {
          s \<leftarrow> process_ircd_cmd P R E (pl_cmdptr p) (pl_cmd p) (pl_origin p) (pl_args p) s;
          Some (NS_SUCCESS, s) })"

end
