(* ===== verification/Unreal32.thy ===== *)
theory Unreal32
  imports IrcProtocol IrcPrintf
begin

text \<open>
  \<^verbatim>\<open>src/modules/protocol/unreal32.c\<close>: the protocol module for Unreal IRCd 3.2. It names the messages and their
  tokens, decodes the addresses of users, and has the handlers for the lines that differ from the generic
  ones, and declares its modes.
\<close>

section \<open>Messages and tokens\<close>

text \<open>The symbols \<^verbatim>\<open>MSG_...\<close> and \<^verbatim>\<open>TOK_...\<close>.\<close>

definition unreal_messages :: "(string \<times> string \<times> string option) list" where
  "unreal_messages =
    [(''PRIVATE'', ''PRIVMSG'', Some ''!''), (''WHOIS'', ''WHOIS'', Some ''#''), (''WHOWAS'', ''WHOWAS'', Some ''$''),
     (''USER'', ''USER'', Some ''%''), (''NICK'', ''NICK'', Some ''&''), (''SERVER'', ''SERVER'', Some [CHR 0x27]),
     (''LIST'', ''LIST'', Some ''(''), (''TOPIC'', ''TOPIC'', Some '')''), (''INVITE'', ''INVITE'', Some ''*''),
     (''VERSION'', ''VERSION'', Some ''+''), (''QUIT'', ''QUIT'', Some '',''), (''SQUIT'', ''SQUIT'', Some ''-''),
     (''KILL'', ''KILL'', Some ''.''), (''INFO'', ''INFO'', Some ''/''), (''LINKS'', ''LINKS'', Some ''0''),
     (''SUMMON'', ''SUMMON'', Some ''1''), (''STATS'', ''STATS'', Some ''2''), (''USERS'', ''USERS'', Some ''3''),
     (''HELP'', ''HELP'', Some ''4''), (''HELPOP'', ''HELPOP'', None), (''ERROR'', ''ERROR'', Some ''5''),
     (''AWAY'', ''AWAY'', Some ''6''), (''CONNECT'', ''CONNECT'', Some ''7''), (''PING'', ''PING'', Some ''8''),
     (''PONG'', ''PONG'', Some ''9''), (''OPER'', ''OPER'', Some '';''), (''PASS'', ''PASS'', Some ''<''),
     (''WALLOPS'', ''WALLOPS'', Some ''=''), (''TIME'', ''TIME'', Some ''>''), (''NAMES'', ''NAMES'', Some ''?''),
     (''ADMIN'', ''ADMIN'', Some ''@''), (''NOTICE'', ''NOTICE'', Some ''B''), (''JOIN'', ''JOIN'', Some ''C''),
     (''PART'', ''PART'', Some ''D''), (''LUSERS'', ''LUSERS'', Some ''E''), (''MOTD'', ''MOTD'', Some ''F''),
     (''MODE'', ''MODE'', Some ''G''), (''KICK'', ''KICK'', Some ''H''), (''SERVICE'', ''SERVICE'', Some ''I''),
     (''USERHOST'', ''USERHOST'', Some ''J''), (''ISON'', ''ISON'', Some ''K''), (''REHASH'', ''REHASH'', Some ''O''),
     (''RESTART'', ''RESTART'', Some ''P''), (''CLOSE'', ''CLOSE'', Some ''Q''), (''DIE'', ''DIE'', Some ''R''),
     (''HASH'', ''HASH'', Some ''S''), (''DNS'', ''DNS'', Some ''T''), (''SILENCE'', ''SILENCE'', Some ''U''),
     (''AKILL'', ''AKILL'', Some ''V''), (''KLINE'', ''KLINE'', Some ''W''), (''UNKLINE'', ''UNKLINE'', Some ''X''),
     (''RAKILL'', ''RAKILL'', Some ''Y''), (''GNOTICE'', ''GNOTICE'', Some ''Z''), (''GOPER'', ''GOPER'', Some ''[''),
     (''GLOBOPS'', ''GLOBOPS'', Some '']''), (''LOCOPS'', ''LOCOPS'', Some ''^''), (''PROTOCTL'', ''PROTOCTL'', Some ''_''),
     (''WATCH'', ''WATCH'', Some [CHR 0x60]), (''TRACE'', ''TRACE'', Some ''b''), (''SQLINE'', ''SQLINE'', Some ''c''),
     (''UNSQLINE'', ''UNSQLINE'', Some ''d''), (''SVSNICK'', ''SVSNICK'', Some ''e''),
     (''SVSNOOP'', ''SVSNOOP'', Some ''f''), (''IDENTIFY'', ''IDENTIFY'', Some ''g''),
     (''SVSKILL'', ''SVSKILL'', Some ''h''), (''NICKSERV'', ''NICKSERV'', Some ''i''), (''NS'', ''NS'', None),
     (''CHANSERV'', ''CHANSERV'', Some ''j''), (''CS'', ''CS'', None), (''OPERSERV'', ''OPERSERV'', Some ''k''),
     (''OS'', ''OS'', None), (''MEMOSERV'', ''MEMOSERV'', Some ''l''), (''MS'', ''MS'', None),
     (''SERVICES'', ''SERVICES'', Some ''m''), (''SVSMODE'', ''SVSMODE'', Some ''n''), (''SAMODE'', ''SAMODE'', Some ''o''),
     (''CHATOPS'', ''CHATOPS'', Some ''p''), (''ZLINE'', ''ZLINE'', Some ''q''), (''UNZLINE'', ''UNZLINE'', Some ''r''),
     (''HELPSERV'', ''HELPSERV'', Some ''s''), (''HS'', ''HS'', None), (''RULES'', ''RULES'', Some ''t''),
     (''MAP'', ''MAP'', Some ''u''), (''SVS2MODE'', ''SVS2MODE'', Some ''v''), (''DALINFO'', ''DALINFO'', Some ''w''),
     (''ADMINCHAT'', ''ADCHAT'', Some ''x''), (''MKPASSWD'', ''MKPASSWD'', Some ''y''),
     (''ADDLINE'', ''ADDLINE'', Some ''z''), (''GLINE'', ''GLINE'', Some ''}''), (''SJOIN'', ''SJOIN'', Some ''~''),
     (''SETHOST'', ''SETHOST'', Some ''AA''), (''NACHAT'', ''NACHAT'', Some ''AC''),
     (''SETIDENT'', ''SETIDENT'', Some ''AD''), (''SETNAME'', ''SETNAME'', Some ''AE''), (''LAG'', ''LAG'', Some ''AF''),
     (''STATSERV'', ''STATSERV'', Some ''AH''), (''KNOCK'', ''KNOCK'', Some ''AI''),
     (''CREDITS'', ''CREDITS'', Some ''AJ''), (''LICENSE'', ''LICENSE'', Some ''AK''),
     (''CHGHOST'', ''CHGHOST'', Some ''AL''), (''RPING'', ''RPING'', Some ''AM''), (''RPONG'', ''RPONG'', Some ''AN''),
     (''NETINFO'', ''NETINFO'', Some ''AO''), (''SENDUMODE'', ''SENDUMODE'', Some ''AP''),
     (''ADDMOTD'', ''ADDMOTD'', Some ''AQ''), (''ADDOMOTD'', ''ADDOMOTD'', Some ''AR''),
     (''SVSMOTD'', ''SVSMOTD'', Some ''AS''), (''SMO'', ''SMO'', Some ''AU''), (''OPERMOTD'', ''OPERMOTD'', Some ''AV''),
     (''TSCTL'', ''TSCTL'', Some ''AW''), (''SVSJOIN'', ''SVSJOIN'', Some ''BX''), (''SAJOIN'', ''SAJOIN'', Some ''AX''),
     (''SVSPART'', ''SVSPART'', Some ''BT''), (''SAPART'', ''SAPART'', Some ''AY''),
     (''CHGIDENT'', ''CHGIDENT'', Some ''AZ''), (''SWHOIS'', ''SWHOIS'', Some ''BA''), (''SVSO'', ''SVSO'', Some ''BB''),
     (''SVSFLINE'', ''SVSFLINE'', Some ''BC''), (''TKL'', ''TKL'', Some ''BD''), (''VHOST'', ''VHOST'', Some ''BE''),
     (''BOTMOTD'', ''BOTMOTD'', Some ''BF''), (''REMGLINE'', ''REMGLINE'', Some ''BG''), (''HTM'', ''HTM'', Some ''BH''),
     (''UMODE2'', ''UMODE2'', Some ''|''), (''DCCDENY'', ''DCCDENY'', Some ''BI''),
     (''UNDCCDENY'', ''UNDCCDENY'', Some ''BJ''), (''CHGNAME'', ''CHGNAME'', Some ''BK''), (''SVSNAME'', ''SVSNAME'', None),
     (''SHUN'', ''SHUN'', Some ''BL''), (''NEWJOIN'', ''NEWJOIN'', None), (''POST'', ''POST'', Some ''BN''),
     (''INFOSERV'', ''INFOSERV'', Some ''BO''), (''IS'', ''IS'', None), (''BOTSERV'', ''BOTSERV'', Some ''BS''),
     (''CYCLE'', ''CYCLE'', Some ''BP''), (''MODULE'', ''MODULE'', Some ''BQ''), (''SENDSNO'', ''SENDSNO'', Some ''Ss''),
     (''EOS'', ''EOS'', Some ''ES'')]"

definition unreal_MSG :: "string \<Rightarrow> string option" where
  "unreal_MSG m = map_option fst (map_of unreal_messages m)"

definition unreal_TOK :: "string \<Rightarrow> string option" where
  "unreal_TOK m = do { (name, tok) \<leftarrow> map_of unreal_messages m; tok }"

definition unreal_required :: uint where "unreal_required = PROTOCOL_SJOIN"

definition unreal_options :: uint where
  "unreal_options = PROTOCOL_TOKEN OR PROTOCOL_NICKIP OR PROTOCOL_NICKv2 OR PROTOCOL_SJ3"

definition unreal_services_umode :: string where "unreal_services_umode = ''+OwoSq''"

section \<open>Modes\<close>

definition unreal_chan_umodes :: "mode_init list" where
  "unreal_chan_umodes =
     [mode_entry (CHR ''h'') 0x00000004 0 (CHR ''%''),
      mode_entry (CHR ''a'') 0x00000010 0 (CHR ''~''),
      mode_entry (CHR ''q'') 0x00000008 0 (CHR ''*'')]"

definition unreal_chan_modes :: "mode_init list" where
  "unreal_chan_modes =
     [mode_entry (CHR ''r'') 0x00008000 0 NUL,
      mode_entry (CHR ''R'') 0x00010000 0 NUL,
      mode_entry (CHR ''c'') 0x00040000 0 NUL,
      mode_entry (CHR ''O'') 0x00080000 0 NUL,
      mode_entry (CHR ''A'') 0x00100000 0 NUL,
      mode_entry (CHR ''L'') 0x00020000 MODEPARAM NUL,
      mode_entry (CHR ''Q'') 0x02000000 0 NUL,
      mode_entry (CHR ''S'') 0x00200000 0 NUL,
      mode_entry (CHR ''e'') 0x00004000 MODEPARAM NUL,
      mode_entry (CHR ''K'') 0x00400000 0 NUL,
      mode_entry (CHR ''V'') 0x00800000 0 NUL,
      mode_entry (CHR ''f'') 0x01000000 MODEPARAM NUL,
      mode_entry (CHR ''M'') 0x04000000 0 NUL,
      mode_entry (CHR ''G'') 0x08000000 0 NUL,
      mode_entry (CHR ''C'') 0x10000000 0 NUL,
      mode_entry (CHR ''u'') 0x20000000 0 NUL,
      mode_entry (CHR ''z'') 0x40000000 0 NUL,
      mode_entry (CHR ''N'') 0x80000000 0 NUL]"

definition unreal_user_umodes :: "mode_init list" where
  "unreal_user_umodes =
     [mode_entry (CHR ''S'') 0x00000400 0 NUL,
      mode_entry (CHR ''N'') 0x00000800 0 NUL,
      mode_entry (CHR ''a'') 0x00000100 0 NUL,
      mode_entry (CHR ''A'') 0x00000200 0 NUL,
      mode_entry (CHR ''C'') 0x00001000 0 NUL,
      mode_entry (CHR ''O'') 0x00000008 0 NUL,
      mode_entry (CHR ''r'') 0x00000010 0 NUL,
      mode_entry (CHR ''w'') 0x00000004 0 NUL,
      mode_entry (CHR ''g'') 0x00200000 0 NUL,
      mode_entry (CHR ''h'') 0x00020000 0 NUL,
      mode_entry (CHR ''s'') 0x00400000 0 NUL,
      mode_entry (CHR ''q'') 0x00010000 0 NUL,
      mode_entry (CHR ''B'') 0x00000080 0 NUL,
      mode_entry (CHR ''d'') 0x00000020 0 NUL,
      mode_entry (CHR ''R'') 0x00040000 0 NUL,
      mode_entry (CHR ''T'') 0x00800000 0 NUL,
      mode_entry (CHR ''V'') 0x01000000 0 NUL,
      mode_entry (CHR ''p'') 0x80000000 0 NUL,
      mode_entry (CHR ''H'') 0x10000000 0 NUL,
      mode_entry (CHR ''G'') 0x40000000 0 NUL,
      mode_entry (CHR ''t'') 0x20000000 0 NUL,
      mode_entry (CHR ''x'') 0x00000040 0 NUL,
      mode_entry (CHR ''W'') 0x02000000 0 NUL,
      mode_entry (CHR ''z'') 0x04000000 0 NUL,
      mode_entry (CHR ''v'') 0x08000000 0 NUL]"

text \<open>The tables of the core before a protocol module is loaded, and those that \<open>InitIrcdModes\<close> builds for this one.\<close>

definition static_mode_tables :: mode_tables where
  "static_mode_tables = \<lparr>ircd_cmodes = blank_table, ircd_umodes = blank_table, ircd_smodes = blank_table,
     ircd_cmode_char_map = replicate 32 NUL, ircd_umode_char_map = replicate 32 NUL, ircd_smode_char_map = replicate 32 NUL,
     ircd_supported_cmodes = 0, ircd_supported_cumodes = 0, ircd_supported_umodes = 0, ircd_supported_smodes = 0,
     UmodeChRegNick = CHR ''r'', servicesumodemask = 0\<rparr>"

definition unreal_mode_tables :: "mode_tables option" where
  "unreal_mode_tables = InitModeTables (Some unreal_chan_umodes) (Some unreal_chan_modes) (Some unreal_user_umodes) None
     unreal_services_umode static_mode_tables"

section \<open>Base 64\<close>

definition Base64 :: string where
  "Base64 = ''ABCDEFGHIJKLMNOPQRSTUVWXYZabcdefghijklmnopqrstuvwxyz0123456789+/''"

definition Pad64 :: char where "Pad64 = CHR ''=''"

definition base64_value :: "char \<Rightarrow> nat option" where
  "base64_value c = (if c \<in> set Base64 then Some (length (takeWhile (\<lambda>x. x \<noteq> c) Base64)) else None)"

text \<open>
  The decoding loop. The target is the bytes written so far; in the states 1 to 3 the last of them is
  incomplete. The loop ends at the padding, at the end of the text, or with an error: \<open>(False, ...)\<close>.
\<close>

type_synonym b64_state = "bool \<times> nat \<times> 8 word list \<times> string"

definition put_bits :: "8 word list \<Rightarrow> 8 word \<Rightarrow> 8 word list" where
  "put_bits t b = butlast t @ [last t OR b]"

fun b64_loop :: "nat \<Rightarrow> nat \<Rightarrow> 8 word list \<Rightarrow> string \<Rightarrow> b64_state" where
  "b64_loop targsize st t [] = (True, st, t, [])"
| "b64_loop targsize st t (c # cs) =
     (if c_isspace c then b64_loop targsize st t cs
      else if c = Pad64 then (True, st, t, c # cs)
      else case base64_value c of
             None \<Rightarrow> (False, st, t, cs)
           | Some v \<Rightarrow>
               if st = 0
               then if targsize \<le> length t then (False, st, t, cs)
                    else b64_loop targsize 1 (t @ [of_nat (v * 4)]) cs
               else if st = 3
               then b64_loop targsize 0 (put_bits t (of_nat v)) cs
               else if targsize \<le> length t then (False, st, t, cs)
               else if st = 1
               then b64_loop targsize 2 (put_bits t (of_nat (v div 16)) @ [of_nat (v mod 16 * 16)]) cs
               else b64_loop targsize 3 (put_bits t (of_nat (v div 4)) @ [of_nat (v mod 4 * 64)]) cs)"

text \<open>The length, or -1, and the bytes written. An incomplete last byte does not count.\<close>

definition b64_decode :: "string \<Rightarrow> nat \<Rightarrow> int \<times> 8 word list" where
  "b64_decode src targsize =
     (case b64_loop targsize 0 [] src of
        (False, st, t, r) \<Rightarrow> (-1, t)
      | (True, st, t, []) \<Rightarrow> (if st = 0 then int (length t) else -1, t)
      | (True, st, t, _ # r) \<Rightarrow>
          (let bad = (-1, t);
               n = int (length t) - 1;
               tail_ok = (\<lambda>r. list_all c_isspace r \<and> last t = 0)
           in if st = 0 \<or> st = 1 then bad
              else if st = 2
              then (case dropWhile c_isspace r of
                      c # r \<Rightarrow> if c = Pad64 \<and> tail_ok r then (n, t) else bad
                    | [] \<Rightarrow> bad)
              else if tail_ok r then (n, t) else bad))"

text \<open>A network address as the number a machine that stores the low byte first reads.\<close>

definition ip_of_bytes :: "8 word \<Rightarrow> 8 word \<Rightarrow> 8 word \<Rightarrow> 8 word \<Rightarrow> uint" where
  "ip_of_bytes a b c d = ucast a OR push_bit 8 (ucast b) OR push_bit 16 (ucast c) OR push_bit 24 (ucast d)"

text \<open>
  An IPv4 address in network byte order, read from the first four bytes of the target; unless all four have
  been written their value is unknown: \<open>None\<close>.
\<close>

definition decode_ip :: "string \<Rightarrow> uint option" where
  "decode_ip buf =
     (let (_, t) = b64_decode buf 25 in
      if length buf \<noteq> 8 then Some 0
      else if length t < 4 then None
      else Some (ip_of_bytes (t ! 0) (t ! 1) (t ! 2) (t ! 3)))"

text \<open>\<^verbatim>\<open>ntohl\<close> on such a machine.\<close>

definition c_ntohl :: "uint \<Rightarrow> uint" where
  "c_ntohl x = push_bit 24 (x AND 0xFF) OR push_bit 8 (x AND 0xFF00) OR drop_bit 8 (x AND 0xFF0000) OR drop_bit 24 x"

section \<open>Handlers\<close>

text \<open>The description of the directly linked server has other data before its first space.\<close>

definition server_description :: "string \<Rightarrow> string \<Rightarrow> string option" where
  "server_description origin s =
     (if origin \<noteq> [] then Some s
      else if CHR '' '' \<in> set s then Some (tl (dropWhile (\<lambda>c. c \<noteq> CHR '' '') s)) else None)"

definition m_server :: handler where
  "m_server R E origin av srv s = do {
     l \<leftarrow> last_arg av;
     info \<leftarrow> server_description origin l;
     name \<leftarrow> argv_text av 0;
     hops \<leftarrow> argv av 1;
     numeric \<leftarrow> (if 3 < length av then argv av 2 else Some None);
     on_net (do_server (link_env E s) name (Some origin) hops numeric (Some info) srv) s }"

definition m_svsmode :: handler where
  "m_svsmode R E origin av srv s = do {
     target \<leftarrow> argv_text av 0;
     if deref target = CHR ''#''
     then do { av \<leftarrow> those av; on_net (ChanMode (rc_modes R) origin av) s }
     else do { modes \<leftarrow> argv_text av 1; ts \<leftarrow> argv av 2; on_net (do_svsmode_user R E target modes ts) s } }"

definition m_umode2 :: handler where
  "m_umode2 R E origin av srv s = do { modes \<leftarrow> argv_text av 0; on_net (do_mode_user R E origin modes) s }"

text \<open>The address as a decimal number, negative for the upper half of the addresses.\<close>

definition ip_text :: "string \<Rightarrow> string option" where
  "ip_text buf = do {
     a \<leftarrow> decode_ip buf;
     (text, _) \<leftarrow> ircsnprintf (\<lambda>_ _ _. None) 25 ''%d'' [VInt (c_ntohl a)];
     Some text }"

definition m_nick :: handler where
  "m_nick R E origin av srv s =
     (let E = link_env E s in
      if srv = 0
      then do {
        nick \<leftarrow> argv av 0; ts \<leftarrow> argv av 2; usr \<leftarrow> argv av 3; host \<leftarrow> argv av 4; server \<leftarrow> argv av 5;
        if proto s PROTOCOL_NICKv2
        then do {
          modes \<leftarrow> argv av 7; vhost \<leftarrow> argv av 8;
          if proto s PROTOCOL_NICKIP
          then do {
            b64 \<leftarrow> argv_text av 9; realname \<leftarrow> argv av 10; ip \<leftarrow> ip_text b64;
            on_net (do_nick R E nick ts usr host server (Some ip) modes vhost realname None None) s }
          else do {
            realname \<leftarrow> argv av 9;
            on_net (do_nick R E nick ts usr host server None modes vhost realname None None) s } }
        else do {
          realname \<leftarrow> argv av 9;
          on_net (do_nick R E nick ts usr host server None None None realname None None) s } }
      else do { new \<leftarrow> argv_text av 0; on_net (UserNickChange E origin new None) s })"

definition m_eos :: handler where
  "m_eos R E origin av srv s = on_net (do_eos origin) s"

definition m_sjoin :: handler where
  "m_sjoin R E origin av srv s = do {
     ts \<leftarrow> argv_text av 0;
     chan \<leftarrow> argv_text av 1;
     modes \<leftarrow> (if 4 \<le> length av then argv av 2 else Some (Some []));
     do_sjoin R E ts chan modes origin av s }"

definition m_swhois :: handler where
  "m_swhois R E origin av srv s = do { who \<leftarrow> argv_text av 0; t \<leftarrow> argv_text av 1; on_net (do_swhois who t) s }"

definition m_smo :: handler where
  "m_smo R E origin av srv s = Some s"

definition m_svskill :: handler where
  "m_svskill R E origin av srv s = do {
     nick \<leftarrow> argv_text av 0;
     why \<leftarrow> argv_text av 1;
     on_net (KillUser (link_env E s) origin nick why) s }"

definition m_tkl :: handler where
  "m_tkl R E origin av srv s = do {
     add \<leftarrow> argv_text av 0; type \<leftarrow> argv_text av 1; usr \<leftarrow> argv_text av 2; host \<leftarrow> argv_text av 3;
     if deref add = CHR ''+''
     then do {
       setby \<leftarrow> argv_text av 4; expire \<leftarrow> argv_text av 5; tsset \<leftarrow> argv_text av 6; reason \<leftarrow> argv_text av 7;
       on_net (do_tkl E add type usr host setby expire tsset reason) s }
     else on_net (do_tkl E add type usr host [] [] [] []) s }"

section \<open>The module\<close>

definition unreal_handlers :: "(string \<times> handler) list" where
  "unreal_handlers = [(''SERVER'', m_server), (''UMODE2'', m_umode2), (''SVSMODE'', m_svsmode), (''SVS2MODE'', m_svsmode),
     (''NICK'', m_nick), (''SJOIN'', m_sjoin), (''SWHOIS'', m_swhois), (''SMO'', m_smo), (''EOS'', m_eos), (''TKL'', m_tkl),
     (''SVSKILL'', m_svskill)]"

definition unreal32 :: protocol_module where
  "unreal32 = \<lparr>pm_cmd_list = map (\<lambda>(m, h). (the (unreal_MSG m), unreal_TOK m, Some h)) unreal_handlers,
     pm_MSG = unreal_MSG, pm_TOK = unreal_TOK\<rparr>"

end
