(* ===== verification/ModeProps.thy ===== *)
theory ModeProps
  imports Unreal32
begin

text \<open>
  The tables of user modes: whatever a protocol module declares, letters and masks are translated into each other, and
  a mask survives being written as a mode string and read again. The one mode that is lost is the one
  on the top bit of the mask, which has no place in the map from bits to letters.
\<close>

section \<open>Declarations\<close>

text \<open>
  What a protocol module must see to: every mode has a letter of its own, no sign among them, and a bit of its own.
\<close>

definition modes_ok :: "mode_init list \<Rightarrow> bool" where
  "modes_ok is \<longleftrightarrow> distinct (map mi_mode is) \<and> distinct (map mi_mask is) \<and>
     list_all (\<lambda>e. mi_mode e \<notin> {NUL, CHR ''+'', CHR ''-''} \<and> byte_of (mi_mode e) < (128 :: nat) \<and>
       list_ex (\<lambda>k. mi_mask e = push_bit k 1) [0..<32]) is"

lemma modes_okD:
  assumes "modes_ok is" "e \<in> set is"
  shows "mi_mode e \<noteq> NUL" "mi_mode e \<noteq> CHR ''+''" "mi_mode e \<noteq> CHR ''-''" "byte_of (mi_mode e) < (128 :: nat)"
    "\<exists>k<32. mi_mask e = push_bit k 1"
  using assms by (auto simp: modes_ok_def list_all_iff list_ex_iff Bex_def)

lemma modes_ok_Cons: "modes_ok (e # is) \<Longrightarrow> modes_ok is"
  by (simp add: modes_ok_def)

section \<open>Building the tables\<close>

lemma bit_index_bit: "k < 32 \<Longrightarrow> bit_index (push_bit k 1) j = j + k"
proof (induction k arbitrary: j)
  case 0
  have "drop_bit 1 (1 :: uint) = 0" by code_simp
  then show ?case by (simp add: bit_index.simps Let_def)
next
  case (Suc k)
  have d: "drop_bit 1 (push_bit (Suc k) (1 :: uint)) = push_bit k 1"
    using Suc.prems by (intro bit_word_eqI) (auto simp: bit_simps)
  have "bit (push_bit k (1 :: uint)) k" using Suc.prems by (simp add: bit_simps)
  then have "push_bit k (1 :: uint) \<noteq> 0" by (metis bit_0_eq bot_apply bot_bool_def)
  then show ?case using Suc.IH [of "j + 1"] Suc.prems by (subst bit_index.simps) (simp only: d Let_def if_True, simp)
qed

lemma BuildModeTable_append:
  assumes "\<And>e. e \<in> set is \<Longrightarrow> mi_mode e \<noteq> NUL"
  shows "BuildModeTable cm dest (is @ js) f =
    (case BuildModeTable cm dest is f of (cm, dest, a) \<Rightarrow>
       case BuildModeTable cm dest js f of (cm, dest, b) \<Rightarrow> (cm, dest, a OR b))"
  using assms by (induction cm dest "is" f rule: BuildModeTable.induct) (auto simp: Let_def or.assoc split: prod.splits)

lemma BuildModeTable_table:
  assumes "modes_ok is" "length dest = 256" "BuildModeTable cm dest is f = (cm', dest', m)"
  shows "length dest' = 256 \<and> length cm' = length cm \<and>
    (\<forall>e\<in>set is. md_mask (dest' ! byte_of (mi_mode e)) = mi_mask e) \<and>
    (\<forall>i. (\<forall>e\<in>set is. i \<noteq> byte_of (mi_mode e)) \<longrightarrow> dest' ! i = dest ! i)"
  using assms
proof (induction "is" arbitrary: cm dest m)
  case (Cons e "is")
  let ?d = "dest[byte_of (mi_mode e) := \<lparr>md_mask = mi_mask e, md_flags = mi_flags e OR f, md_sjoin = mi_sjoin e\<rparr>]"
  obtain m1 where b: "BuildModeTable (BuildModeCharMap cm (mi_mode e) (mi_mask e)) ?d is f = (cm', dest', m1)"
    using Cons.prems modes_okD(1) [of "e # is" e] by (auto simp: Let_def split: prod.splits)
  have ok: "modes_ok is" using modes_ok_Cons Cons.prems(1) .
  have fresh: "\<forall>e'\<in>set is. byte_of (mi_mode e) \<noteq> (byte_of (mi_mode e') :: nat)"
    using Cons.prems(1) by (auto simp: modes_ok_def image_iff)
  have lt: "byte_of (mi_mode e) < (256 :: nat)" using modes_okD(4) [OF Cons.prems(1), of e] by simp
  show ?case
    using Cons.IH [OF ok _ b] Cons.prems(2) fresh lt
    by (auto simp: BuildModeCharMap_def Let_def)
qed simp

lemma BuildModeTable_map:
  assumes "modes_ok is" "length cm = 32" "BuildModeTable cm dest is f = (cm', dest', m)"
  shows "(\<forall>e\<in>set is. \<forall>k<31. mi_mask e = push_bit k 1 \<longrightarrow> cm' ! k = mi_mode e) \<and>
    (\<forall>k<32. (k = 31 \<or> (\<forall>e\<in>set is. mi_mask e \<noteq> push_bit k 1)) \<longrightarrow> cm' ! k = cm ! k)"
  using assms
proof (induction "is" arbitrary: cm dest m)
  case (Cons e "is")
  let ?c = "BuildModeCharMap cm (mi_mode e) (mi_mask e)"
  obtain d m1 where b: "BuildModeTable ?c d is f = (cm', dest', m1)"
    using Cons.prems modes_okD(1) [of "e # is" e] by (auto simp: Let_def split: prod.splits)
  have ok: "modes_ok is" using modes_ok_Cons Cons.prems(1) .
  obtain k where k: "k < 32" "mi_mask e = push_bit k 1" using modes_okD(5) [OF Cons.prems(1), of e] by auto
  have c: "?c = (if k < 31 then cm[k := mi_mode e] else cm)"
    unfolding BuildModeCharMap_def k(2) bit_index_bit [OF k(1)] by simp
  have inj: "push_bit i (1 :: uint) = push_bit j 1 \<Longrightarrow> i = j" if "i < 32" "j < 32" for i j
    using that bit_index_bit [of i 0] bit_index_bit [of j 0] by simp
  have fresh: "\<forall>e'\<in>set is. mi_mask e' \<noteq> push_bit k 1" using Cons.prems(1) k(2) by (auto simp: modes_ok_def image_iff)
  note IH = Cons.IH [OF ok _ b]
  have len: "length ?c = 32" using c Cons.prems(2) by simp
  show ?case
  proof (intro conjI ballI allI impI)
    fix e' i assume e': "e' \<in> set (e # is)" "i < 31" "mi_mask e' = push_bit i 1"
    show "cm' ! i = mi_mode e'"
    proof (cases "e' = e")
      case True
      then have "i = k" using inj e' k by simp
      then show ?thesis using IH [OF len] fresh c e' Cons.prems(2) True by auto
    next
      case False
      then show ?thesis using IH [OF len] e' by auto
    qed
  next
    fix i assume i: "i < 32" "i = 31 \<or> (\<forall>e\<in>set (e # is). mi_mask e \<noteq> push_bit i 1)"
    then have "i \<noteq> k \<or> \<not> k < 31" using k(2) by auto
    then have "?c ! i = cm ! i" using c by auto
    then show "cm' ! i = cm ! i" using IH [OF len] i by auto
  qed
qed simp

text \<open>The tables of user modes that \<open>InitModeTables\<close> leaves.\<close>

lemma InitModeTables_umodes:
  assumes "InitModeTables cu cm (Some um) sm str t = Some T" "modes_ok (user_umodes_default @ um)"
  obtains m where "BuildModeTable (ircd_umode_char_map t) blank_table (user_umodes_default @ um) 0 =
      (ircd_umode_char_map T, ircd_umodes T, m)" "ircd_supported_umodes T = ircd_supported_umodes t OR m"
proof -
  obtain c d a where 1: "BuildModeTable (ircd_umode_char_map t) blank_table user_umodes_default 0 = (c, d, a)" by (metis prod_cases3)
  obtain c' d' b where 2: "BuildModeTable c d um 0 = (c', d', b)" by (metis prod_cases3)
  have "ircd_umode_char_map T = c'" "ircd_umodes T = d'" "ircd_supported_umodes T = (ircd_supported_umodes t OR a) OR b"
    using assms(1) 1 2
    by (auto simp: InitModeTables_def add_modes_def Let_def bind_eq_Some_conv split: prod.splits)
  moreover have "BuildModeTable (ircd_umode_char_map t) blank_table (user_umodes_default @ um) 0 = (c', d', a OR b)"
    using BuildModeTable_append [of user_umodes_default "ircd_umode_char_map t" blank_table um 0] 1 2
    by (auto simp: user_umodes_default_def or.assoc)
  ultimately show ?thesis using that by (simp add: or.assoc)
qed

text \<open>What the Unreal module declares.\<close>

lemma unreal_modes_ok: "modes_ok (user_umodes_default @ unreal_user_umodes)"
proof -
  have "[0..<32] = [0, 1, 2, 3, 4, 5, 6, 7, 8, 9, 10, 11, 12, 13, 14, 15, 16, 17, 18, 19, 20, 21, 22, 23, 24, 25, 26, 27, 28, 29, 30, 31 :: nat]"
    by code_simp
  then show ?thesis unfolding modes_ok_def user_umodes_default_def unreal_user_umodes_def mode_masks by simp
qed

lemma string_mask_total:
  "list_all (\<lambda>c. byte_of c < (128 :: nat)) cs \<Longrightarrow> \<exists>r. Option.bind (string_mask t add m cs) (\<lambda>x. Some (f x)) = Some r"
  by (induction t add m cs rule: string_mask.induct) auto

lemma unreal_mode_tables_built: "\<exists>T. unreal_mode_tables = Some T"
proof -
  have "list_all (\<lambda>c. byte_of c < (128 :: nat)) unreal_services_umode" by (simp add: unreal_services_umode_def)
  then show ?thesis
    unfolding unreal_mode_tables_def InitModeTables_def ModeStringToMask_def Let_def
    by (auto split: prod.splits intro!: string_mask_total)
qed

section \<open>Letters and masks\<close>

text \<open>C26. Whatever modes a protocol module declares, each with a letter and a bit of its own, the letter of a user mode is
  translated to its mask and the mask back to the letter. The mode on the top bit is the exception:
  \<open>BuildModeCharMap\<close> leaves the last place of its map out, so the mask is translated to what was there before.\<close>

theorem umode_letters:
  assumes "InitModeTables cu cm (Some um) sm str t = Some T" "modes_ok (user_umodes_default @ um)"
    and "length (ircd_umode_char_map t) = 32" and "e \<in> set (user_umodes_default @ um)"
  shows "UmodeCharToMask T (mi_mode e) = mi_mask e \<and>
    UmodeMaskToChar T (mi_mask e) = (if mi_mask e = 0x80000000 then ircd_umode_char_map t ! 31 else mi_mode e)"
proof -
  obtain m where b: "BuildModeTable (ircd_umode_char_map t) blank_table (user_umodes_default @ um) 0 =
      (ircd_umode_char_map T, ircd_umodes T, m)"
    using InitModeTables_umodes [OF assms(1,2)] by metis
  have "length blank_table = 256" by (simp add: blank_table_def MODE_TABLE_SIZE_def)
  note tab = BuildModeTable_table [OF assms(2) this b]
  note map = BuildModeTable_map [OF assms(2,3) b]
  obtain k where k: "k < 32" "mi_mask e = push_bit k 1" using modes_okD(5) [OF assms(2,4)] by blast
  have top: "push_bit 31 (1 :: uint) = 0x80000000" by code_simp
  have "mi_mask e = 0x80000000 \<longleftrightarrow> k = 31"
    using bit_index_bit [of k 0] bit_index_bit [of 31 0] k unfolding top by auto
  then have "ircd_umode_char_map T ! k = (if mi_mask e = 0x80000000 then ircd_umode_char_map t ! 31 else mi_mode e)"
  proof (cases "k = 31")
    case True
    moreover have "ircd_umode_char_map T ! 31 = ircd_umode_char_map t ! 31" using map [THEN conjunct2, rule_format, of 31] by simp
    ultimately show ?thesis using \<open>mi_mask e = 0x80000000 \<longleftrightarrow> k = 31\<close> by simp
  next
    case False
    then have "ircd_umode_char_map T ! k = mi_mode e" using map [THEN conjunct1, rule_format, OF assms(4), of k] k by simp
    then show ?thesis using False \<open>mi_mask e = 0x80000000 \<longleftrightarrow> k = 31\<close> by simp
  qed
  then show ?thesis
    using tab assms(4) bit_index_bit [OF k(1), of 0] k(2)
    by (simp add: UmodeCharToMask_def UmodeMaskToChar_def ModeMaskToChar_def)
qed

lemma umode_letters_witness:
  "\<exists>T. unreal_mode_tables = Some T \<and> UmodeCharToMask T (CHR ''r'') = UMODE_REGNICK \<and> UmodeMaskToChar T UMODE_REGNICK = CHR ''r'' \<and>
    UmodeCharToMask T (CHR ''p'') = 0x80000000 \<and> UmodeMaskToChar T 0x80000000 = NUL"
proof -
  obtain T where T: "unreal_mode_tables = Some T" using unreal_mode_tables_built by blast
  have len: "length (ircd_umode_char_map static_mode_tables) = 32" by (simp add: static_mode_tables_def)
  note w = umode_letters [OF T [unfolded unreal_mode_tables_def] unreal_modes_ok len]
  have "mode_entry (CHR ''r'') UMODE_REGNICK 0 NUL \<in> set unreal_user_umodes" "mode_entry (CHR ''p'') 0x80000000 0 NUL \<in> set unreal_user_umodes"
    by (simp_all add: unreal_user_umodes_def UMODE_REGNICK_def)
  then show ?thesis
    using T w [of "mode_entry (CHR ''r'') UMODE_REGNICK 0 NUL"] w [of "mode_entry (CHR ''p'') 0x80000000 0 NUL"]
    by (intro exI [of _ T]) (simp add: static_mode_tables_def UMODE_REGNICK_def)
qed

section \<open>Mode strings\<close>

lemma string_mask_letters:
  "list_all (\<lambda>c. c \<notin> {CHR ''+'', CHR ''-''} \<and> byte_of c < (128 :: nat)) cs \<Longrightarrow>
    string_mask t True m cs = Some (fold (\<lambda>c m. m OR md_mask (t ! byte_of c)) cs m)"
  by (induction cs arbitrary: m) auto

lemma bit_fold_or:
  "bit (fold (\<lambda>c m. m OR f c) cs (m :: uint)) j \<longleftrightarrow> bit m j \<or> (\<exists>c\<in>set cs. bit (f c) j)"
  by (induction cs arbitrary: m) (auto simp: bit_or_iff)

lemma mode_letters_known:
  assumes "modes_ok is" and tab: "\<And>i. i < 256 \<Longrightarrow> (\<exists>e\<in>set is. i = byte_of (mi_mode e) \<and> md_mask (t ! i) = mi_mask e) \<or>
      ((\<forall>e\<in>set is. i \<noteq> byte_of (mi_mode e)) \<and> md_mask (t ! i) = 0)"
  shows "set (mode_letters t msk) = {mi_mode e | e. e \<in> set is \<and> msk AND mi_mask e \<noteq> 0}" "distinct (mode_letters t msk)"
proof -
  let ?found = "filter (\<lambda>i. msk AND md_mask (t ! i) \<noteq> 0) [0..<MODE_TABLE_SIZE]"
  have sz: "i < MODE_TABLE_SIZE \<longleftrightarrow> i < 256" for i by (simp add: MODE_TABLE_SIZE_def)
  have inj: "e = e'" if "e \<in> set is" "e' \<in> set is" "byte_of (mi_mode e) = (byte_of (mi_mode e') :: nat)" for e e'
  proof -
    have "mi_mode e = mi_mode e'" using that(3) by (metis char_of_char)
    then show ?thesis using that(1,2) assms(1) by (auto simp: modes_ok_def distinct_map inj_on_def)
  qed
  have "i \<in> set ?found \<longleftrightarrow> (\<exists>e\<in>set is. i = byte_of (mi_mode e) \<and> msk AND mi_mask e \<noteq> 0)" for i
  proof (cases "\<exists>e\<in>set is. i = byte_of (mi_mode e)")
    case True
    then obtain e where e: "e \<in> set is" "i = byte_of (mi_mode e)" by blast
    then have i: "i < 256" by simp
    then have "md_mask (t ! i) = mi_mask e" using tab [OF i] e inj by metis
    then show ?thesis using e inj i sz by auto
  next
    case False
    then show ?thesis using tab [of i] sz by auto
  qed
  then have "set ?found = {byte_of (mi_mode e) | e. e \<in> set is \<and> msk AND mi_mask e \<noteq> 0}" by blast
  then show "set (mode_letters t msk) = {mi_mode e | e. e \<in> set is \<and> msk AND mi_mask e \<noteq> 0}"
    unfolding mode_letters_def set_map by force
  have "inj_on (char_of :: nat \<Rightarrow> char) {0..<256}"
    by (rule inj_onI) (metis atLeastLessThan_iff of_char_of mod_less)
  then have "inj_on (char_of :: nat \<Rightarrow> char) (set ?found)" by (rule inj_on_subset) (simp add: sz subset_iff)
  then show "distinct (mode_letters t msk)"
    unfolding mode_letters_def distinct_map by simp
qed

lemma BuildModeTable_bits:
  assumes "\<And>e. e \<in> set is \<Longrightarrow> mi_mode e \<noteq> NUL" "BuildModeTable cm dest is f = (cm', dest', m)"
  shows "bit m j \<longleftrightarrow> (\<exists>e\<in>set is. bit (mi_mask e) j)"
  using assms
  by (induction cm dest "is" f arbitrary: m rule: BuildModeTable.induct) (auto simp: Let_def bit_or_iff split: prod.splits)

lemma modes_ok_length:
  assumes "modes_ok is"
  shows "length is \<le> 32"
proof -
  have "set (map mi_mask is) \<subseteq> (\<lambda>k. push_bit k 1) ` {0..<32}" using modes_okD(5) [OF assms] by fastforce
  then have "card (set (map mi_mask is)) \<le> card ((\<lambda>k. push_bit k (1 :: uint)) ` {0..<32})" by (intro card_mono) auto
  also have "\<dots> \<le> 32" using card_image_le [of "{0..<32}" "\<lambda>k. push_bit k (1 :: uint)"] by simp
  finally show ?thesis using assms distinct_card [of "map mi_mask is"] by (simp add: modes_ok_def)
qed

lemma and_bit: "(msk :: uint) AND push_bit k 1 \<noteq> 0 \<longleftrightarrow> k < 32 \<and> bit msk k"
proof -
  have "msk AND push_bit k 1 = (if bit msk k then push_bit k 1 else 0)"
    by (rule bit_word_eqI) (auto simp: bit_simps)
  moreover have "push_bit k (1 :: uint) = 0 \<longleftrightarrow> \<not> k < 32"
  proof
    assume "push_bit k (1 :: uint) = 0"
    then have "\<not> bit (push_bit k (1 :: uint)) k" by (simp only: bit_0_eq bot_apply bot_bool_def not_False_eq_True)
    then show "\<not> k < 32" by (simp add: bit_simps)
  qed (auto intro!: bit_word_eqI simp: bit_simps)
  ultimately show ?thesis using impossible_bit by auto
qed

lemma known_mask:
  assumes "modes_ok is" "e \<in> set is" "bit (mi_mask e) j"
  shows "msk AND mi_mask e \<noteq> 0 \<longleftrightarrow> bit msk j"
proof -
  obtain k where k: "k < 32" "mi_mask e = push_bit k 1" using modes_okD(5) [OF assms(1,2)] by blast
  then have "j = k" using assms(3) by (auto simp: bit_simps)
  then show ?thesis using and_bit k by simp
qed

text \<open>C27. A mask of user modes survives being written and read, for a protocol module that declares every mode with a letter and a bit of
  its own (ASCII letters, no signs, other ones than the modes every network has): the mode string that \<open>UmodeMaskToString\<close> writes fits its
  buffer of 64 bytes, and \<open>UmodeStringToMask\<close> gives back exactly the declared modes of the mask, whatever the mask, the mode on the
  top bit included. A module that uses a letter twice loses the first mode.\<close>

theorem umode_string_roundtrip:
  assumes "InitModeTables cu cm (Some um) sm str t = Some T" "modes_ok (user_umodes_default @ um)"
    and "ircd_supported_umodes t = 0"
  shows "\<exists>s. UmodeMaskToString T msk = Some s \<and> UmodeStringToMask T s = Some (msk AND ircd_supported_umodes T)"
proof -
  let ?is = "user_umodes_default @ um" and ?cs = "mode_letters (ircd_umodes T) msk"
  obtain m where b: "BuildModeTable (ircd_umode_char_map t) blank_table ?is 0 = (ircd_umode_char_map T, ircd_umodes T, m)"
    and m: "ircd_supported_umodes T = m"
    using InitModeTables_umodes [OF assms(1,2)] assms(3) by (metis or.left_neutral)
  have "length blank_table = 256" by (simp add: blank_table_def MODE_TABLE_SIZE_def)
  note tab = BuildModeTable_table [OF assms(2) this b]
  have known: "(\<exists>e\<in>set ?is. i = byte_of (mi_mode e) \<and> md_mask (ircd_umodes T ! i) = mi_mask e) \<or>
      ((\<forall>e\<in>set ?is. i \<noteq> byte_of (mi_mode e)) \<and> md_mask (ircd_umodes T ! i) = 0)" if "i < 256" for i
  proof (cases "\<exists>e\<in>set ?is. i = byte_of (mi_mode e)")
    case False
    then have "ircd_umodes T ! i = blank_table ! i" using tab by blast
    then show ?thesis using that False by (auto simp: blank_table_def MODE_TABLE_SIZE_def blank_mode_def)
  qed (use tab in blast)
  note letters = mode_letters_known [OF assms(2) known, of msk]
  have "NUL \<notin> mi_mode ` set ?is" using modes_okD(1) [OF assms(2)] by (metis imageE)
  moreover have "set ?cs \<subseteq> mi_mode ` set ?is" using letters(1) by auto
  ultimately have "NUL \<notin> set ?cs" by blast
  then have ok: "list_all (\<lambda>c. c \<notin> {CHR ''+'', CHR ''-''} \<and> byte_of c < (128 :: nat)) ?cs" "nul_free ?cs"
    using letters(1) modes_okD(2-4) [OF assms(2)] by (auto simp: list_all_iff nul_free_def)
  have "card (set ?cs) \<le> card (mi_mode ` set ?is)" using letters(1) by (intro card_mono) auto
  also have "\<dots> \<le> card (set ?is)" by (rule card_image_le) simp
  also have "\<dots> \<le> 32" using modes_ok_length [OF assms(2)] card_length [of ?is] by linarith
  finally have "length ?cs \<le> 32" using distinct_card [OF letters(2)] by simp
  then have s: "UmodeMaskToString T msk = Some (CHR ''+'' # ?cs)"
    using ok(2) by (simp add: UmodeMaskToString_def ModeMaskToString_def)
  let ?m = "fold (\<lambda>c m. m OR md_mask (ircd_umodes T ! byte_of c)) ?cs 0"
  have read: "UmodeStringToMask T (CHR ''+'' # ?cs) = Some ?m"
    using string_mask_letters [OF ok(1)] by (simp add: UmodeStringToMask_def ModeStringToMask_def)
  have "bit ?m j \<longleftrightarrow> bit (msk AND m) j" for j
  proof -
    have "bit ?m j \<longleftrightarrow> (\<exists>e\<in>set ?is. msk AND mi_mask e \<noteq> 0 \<and> bit (mi_mask e) j)"
    proof -
      have "bit ?m j \<longleftrightarrow> (\<exists>c\<in>{mi_mode e | e. e \<in> set ?is \<and> msk AND mi_mask e \<noteq> 0}. bit (md_mask (ircd_umodes T ! byte_of c)) j)"
        by (simp only: bit_fold_or letters(1) bit_0_eq bot_apply bot_bool_def simp_thms)
      then show ?thesis using tab by fastforce
    qed
    also have "\<dots> \<longleftrightarrow> bit msk j \<and> (\<exists>e\<in>set ?is. bit (mi_mask e) j)" using known_mask [OF assms(2)] by blast
    also have "\<dots> \<longleftrightarrow> bit (msk AND m) j"
      using BuildModeTable_bits [OF modes_okD(1) [OF assms(2)] b] by (simp add: bit_and_iff)
    finally show ?thesis .
  qed
  then have "?m = msk AND m" by (intro bit_word_eqI) simp
  then show ?thesis using s read m by simp
qed

lemma umode_string_roundtrip_witness:
  "\<exists>T s. unreal_mode_tables = Some T \<and> UmodeMaskToString T 0x80000012 = Some s \<and>
    UmodeStringToMask T s = Some (0x80000012 AND ircd_supported_umodes T)"
proof -
  obtain T where T: "unreal_mode_tables = Some T" using unreal_mode_tables_built by blast
  have "ircd_supported_umodes static_mode_tables = 0" by (simp add: static_mode_tables_def)
  from umode_string_roundtrip [OF T [unfolded unreal_mode_tables_def] unreal_modes_ok this, where msk = "0x80000012"]
  show ?thesis using T by blast
qed

end
