(* ===== verification/NetState.thy ===== *)
theory NetState
  imports Servers Modes Bans
begin

text \<open>
  The invariant of the network state and its preservation by every primitive step of the core:
  what the tables find, which users are on which channels, and the counters. The invariant
  speaks of two views, one of the users and one of the channels, so that an operation that
  leaves both alone preserves it without further proof.
\<close>

section \<open>Names\<close>

text \<open>
  The tables identify names by \<open>irc_key\<close>, the member lists by \<open>irc_eq\<close>. The two agree on the
  names in use, a set \<open>N\<close>, when it is coherent: no two of them differ only in the letters
  whose case the hash function does not fold.
\<close>

definition coherent :: "string set \<Rightarrow> bool" where
  "coherent N \<longleftrightarrow> (\<forall>a\<in>N. \<forall>b\<in>N. irc_eq a b \<longrightarrow> irc_key a b)"

lemma coherentD: "coherent N \<Longrightarrow> a \<in> N \<Longrightarrow> b \<in> N \<Longrightarrow> irc_eq a b = irc_key a b"
  unfolding coherent_def irc_key_def by blast

text \<open>The names without a bracket, a brace, a backslash or a bar are coherent.\<close>

definition plain_byte :: "nat \<Rightarrow> bool" where
  "plain_byte b \<longleftrightarrow> b \<noteq> 0 \<and> \<not> (91 \<le> b \<and> b \<le> 93) \<and> \<not> (123 \<le> b \<and> b \<le> 125)"

definition plain :: "string \<Rightarrow> bool" where
  "plain s \<longleftrightarrow> list_all (\<lambda>c. plain_byte (byte_of c)) s"

abbreviation lowered :: "string \<Rightarrow> nat list" where
  "lowered s \<equiv> map (\<lambda>c. ascii_lower (byte_of c)) s"

lemma plain_byte_0 [simp]: "\<not> plain_byte 0"
  by (simp add: plain_byte_def)

lemma plain_byte_eq:
  assumes "plain_byte (byte_of x)" "plain_byte (byte_of y)" "IRCTOLOWER x = IRCTOLOWER y"
  shows "ascii_lower (byte_of x) = ascii_lower (byte_of y)"
proof -
  have "\<And>m n :: nat. plain_byte m \<Longrightarrow> plain_byte n \<Longrightarrow>
      (if 65 \<le> m \<and> m \<le> 93 then m + 32 else m) = (if 65 \<le> n \<and> n \<le> 93 then n + 32 else n) \<Longrightarrow>
      ascii_lower m = ascii_lower n"
    unfolding plain_byte_def ascii_lower_def by (split if_split_asm)+ (simp_all, arith+)
  then show ?thesis using assms unfolding IRCTOLOWER_eq by blast
qed

lemma plain_folds: "plain a \<Longrightarrow> plain b \<Longrightarrow> irc_fold a = irc_fold b \<Longrightarrow> lowered a = lowered b"
proof (induction a arbitrary: b)
  case Nil
  then show ?case by (cases b) (auto simp: plain_def split: if_splits)
next
  case (Cons x xs)
  have x: "plain_byte (byte_of x)" "x \<noteq> NUL" using Cons.prems(1) by (auto simp: plain_def)
  obtain y ys where b: "b = y # ys" using Cons.prems(3) x by (cases b) auto
  have y: "plain_byte (byte_of y)" "y \<noteq> NUL" using Cons.prems(2) b by (auto simp: plain_def)
  have eq: "IRCTOLOWER x = IRCTOLOWER y" "irc_fold xs = irc_fold ys" using Cons.prems(3) b x y by auto
  have "lowered xs = lowered ys" using Cons.prems eq b by (intro Cons.IH) (auto simp: plain_def)
  with plain_byte_eq [OF x(1) y(1) eq(1)] b show ?case by (simp only: list.map)
qed

lemma hash_fun_loop_cong: "lowered a = lowered b \<Longrightarrow> hash_fun_loop acc a = hash_fun_loop acc b"
proof (induction a arbitrary: b acc)
  case Nil
  then show ?case by simp
next
  case (Cons x xs)
  then obtain y ys where b: "b = y # ys" by (cases b) auto
  have "ascii_lower (byte_of x) = ascii_lower (byte_of y)" "lowered xs = lowered ys"
    using Cons.prems b by (simp_all only: list.map list.inject)
  then show ?case using b by (simp only: hash_fun_loop.simps Cons.IH)
qed

lemma coherent_plain: "coherent (Collect plain)"
  unfolding coherent_def irc_key_def hash_fun_default_def irc_eq_iff
  by (intro ballI impI conjI hash_fun_loop_cong plain_folds) simp_all

section \<open>Tables of objects\<close>

text \<open>The object a table holds under a name, and the tables whose nodes lie below an address.\<close>

definition obj :: "(string, addr) hash_t \<Rightarrow> string \<Rightarrow> addr option" where
  "obj h k = map_option snd (hash_get h k)"

definition table_ok :: "addr \<Rightarrow> (string, addr) hash_t \<Rightarrow> bool" where
  "table_ok b h \<longleftrightarrow> keyed_by irc_key h \<and> (\<forall>nd\<in>set (h_nodes h). hn_id nd < b) \<and> h_maxcount h = COUNT_MAX"

lemma set_chain_maxcount [simp]: "h_maxcount (set_chain h i ns) = h_maxcount h"
  by (simp add: set_chain_def)

lemma hash_resize_maxcount:
  "grow_table h = Some h' \<Longrightarrow> h_maxcount h' = h_maxcount h" "shrink_table h = Some h' \<Longrightarrow> h_maxcount h' = h_maxcount h"
  by (auto simp: grow_table_def shrink_table_def Let_def bind_eq_Some_conv)

lemma hash_maxcount:
  "hash_insert h nd k = Some h' \<Longrightarrow> h_maxcount h' = h_maxcount h"
  "hash_delete h nd = Some h' \<Longrightarrow> h_maxcount h' = h_maxcount h"
  "hash_scan_delete h nd = Some h' \<Longrightarrow> h_maxcount h' = h_maxcount h"
  by (auto simp: hash_insert_def hash_delete_def hash_scan_delete_def Let_def bind_eq_Some_conv
    dest!: hash_resize_maxcount split: if_splits)

lemma table_okD: "table_ok b h \<Longrightarrow> hash_inv h" "table_ok b h \<Longrightarrow> same_key h = irc_key"
  by (simp_all add: table_ok_def keyed_by_def)

lemma table_ok_mono: "table_ok b h \<Longrightarrow> b \<le> b' \<Longrightarrow> table_ok b' h"
  by (auto simp: table_ok_def)

lemma obj_lookup:
  assumes "table_ok b h"
  shows "\<exists>r. hash_lookup h k = Some r \<and> obj h k = map_option hn_data r"
  using hash_lookup_total [OF table_okD(1) [OF assms], of k] by (auto simp: obj_def hash_get_def split: option.split)

lemma obj_node:
  assumes "table_ok b h" "obj h k = Some a"
  obtains nd where "hash_lookup h k = Some (Some nd)" "hn_data nd = a"
proof -
  obtain r where "hash_lookup h k = Some r" "obj h k = map_option hn_data r" using obj_lookup [OF assms(1)] by blast
  with assms(2) that show thesis by (cases r) auto
qed

lemma find_in_obj: "table_ok b h \<Longrightarrow> find_in h k = Some (case obj h k of None \<Rightarrow> 0 | Some a \<Rightarrow> a)"
  using obj_lookup [of b h k]
  by (cases "hash_lookup h k") (auto simp: find_in_def hnode_find_def hnode_get_def split: option.split)

lemma obj_same: "table_ok b h \<Longrightarrow> irc_key j k \<Longrightarrow> obj h j = obj h k"
  by (simp add: obj_def table_ok_def irc_table.lookup_same)

lemma table_length:
  assumes "table_ok b h"
  shows "length (h_nodes h) < b \<or> h_nodes h = []"
proof (rule disjCI)
  have d: "distinct (map hn_id (h_nodes h))" and nz: "0 \<notin> set (map hn_id (h_nodes h))"
    using table_okD(1) [OF assms] by (auto simp: hash_inv_def content_def)
  assume "h_nodes h \<noteq> []"
  have "set (map hn_id (h_nodes h)) \<subseteq> {1..<b}"
    using nz assms by (auto simp: table_ok_def Suc_le_eq intro!: gr0I)
  then have "card (set (map hn_id (h_nodes h))) \<le> b - 1"
    using card_mono [of "{1..<b}"] by fastforce
  then have "length (h_nodes h) \<le> b - 1" using distinct_card [OF d] by simp
  moreover have "b > 0" using \<open>h_nodes h \<noteq> []\<close> assms by (cases "h_nodes h") (auto simp: table_ok_def)
  ultimately show "length (h_nodes h) < b" by simp
qed

text \<open>A table the core creates does not fill up.\<close>

lemma not_full_table:
  assumes "table_ok b h" "b \<le> 2 ^ 61"
  shows "\<not> hash_isfull h"
proof
  assume "hash_isfull h"
  moreover have "h_nodecount h = of_nat (length (h_nodes h))"
    using table_okD(1) [OF assms(1)] by (auto simp: hash_inv_def content_def)
  moreover have "length (h_nodes h) < 2 ^ 61" using table_length [OF assms(1)] assms(2) by auto
  ultimately have "unat (of_nat (length (h_nodes h)) :: ulong) = unat (- 1 :: ulong)"
    using assms(1) by (simp add: hash_isfull_def table_ok_def COUNT_MAX_def)
  then show False
    using \<open>length (h_nodes h) < 2 ^ 61\<close> by (simp add: unat_of_nat unsigned_minus_1_eq_mask mask_eq_exp_minus_1)
qed

lemma obj_insert:
  assumes ok: "table_ok b h" and new: "obj h k = None"
    and n: "hn_id n \<notin> hn_id ` set (h_nodes h)" "hn_id n \<noteq> 0" "hn_id n < b'" "b \<le> b'" "b \<le> 2 ^ 61"
  shows "\<exists>h'. hash_insert h n k = Some h' \<and> table_ok b' h' \<and>
    obj h' = (\<lambda>j. if irc_key k j then Some (hn_data n) else obj h j)"
proof -
  have room: "\<not> hash_isfull h" by (rule not_full_table [OF ok n(5)])
  have inv: "hash_inv h" and sk: "same_key h = irc_key" by (rule table_okD [OF ok])+
  then have c: "h_nodecount h = of_nat (length (h_nodes h))" "length (h_nodes h) \<le> unat (h_maxcount h)"
    by (auto simp: hash_inv_def content_def)
  have "length (h_nodes h) \<noteq> unat (h_maxcount h)" using room c(1) by (auto simp: hash_isfull_def)
  with c have len: "length (h_nodes h) < unat (h_maxcount h)" "length (h_nodes h) < 2 ^ 61"
    using table_length [OF ok] n(5) by auto
  have none: "\<not> holds h k m" for m
    using new obj_lookup [OF ok, of k] hash_lookup_iff [OF inv, of k] by auto
  define m where "m = n\<lparr>hn_key := k, hn_hkey := h_function h k\<rparr>"
  obtain h' where h': "hash_insert h n k = Some h'" "hash_inv h'" "same_key h' = same_key h"
    "mset (h_nodes h') = add_mset m (mset (h_nodes h))"
    using hash_insert_inv [OF inv none n(1,2) len] by (auto simp: m_def)
  have "set (h_nodes h') = insert m (set (h_nodes h))"
    using arg_cong [OF h'(4), of set_mset] by simp
  then have t': "table_ok b' h'"
    using h' hash_maxcount(1) [OF h'(1)] ok n(3,4) by (auto simp: table_ok_def keyed_by_def m_def)
  moreover have "obj h' j = (if irc_key k j then Some (hn_data n) else obj h j)" for j
    using lookup_after_insert [OF inv h'(2-4), of j] sk obj_lookup [OF ok, of j] obj_lookup [OF t', of j]
    by (auto simp: m_def split: if_splits)
  ultimately show ?thesis using h'(1) by blast
qed

lemma obj_put:
  assumes "table_ok b h" "obj h k = None" "b \<le> a" "a \<noteq> 0" "a < 2 ^ 61"
  shows "\<exists>h'. hnode_create_insert a h v k = Some h' \<and> table_ok (Suc a) h' \<and>
    obj h' = (\<lambda>j. if irc_key k j then Some v else obj h j)"
proof -
  have "a \<notin> hn_id ` set (h_nodes h)" using assms(1,3) by (auto simp: table_ok_def)
  then show ?thesis
    using obj_insert [OF assms(1,2), of "hnode_create a k v" "Suc a"] assms(3-5)
    unfolding hnode_create_insert_def by (simp add: hnode_create_def cong: if_cong)
qed

text \<open>An insertion that succeeds had a free key.\<close>

lemma put_new:
  assumes "table_ok b h" "hnode_create_insert a h v k = Some h'"
  shows "obj h k = None"
  using assms obj_lookup [OF assms(1), of k]
  by (auto simp: hnode_create_insert_def hash_insert_def hash_isfull_def bind_eq_Some_conv)

lemma obj_del:
  assumes ok: "table_ok b h" and found: "hash_lookup h k = Some (Some nd)"
    and del: "hash_delete h nd = Some h' \<or> hash_scan_delete h nd = Some h'"
  shows "table_ok b h'" "obj h' = (\<lambda>j. if irc_key k j then None else obj h j)"
    "hn_id nd \<notin> hn_id ` set (h_nodes h')" "hn_id nd \<noteq> 0" "hn_id nd < b" "obj h k = Some (hn_data nd)"
proof -
  have inv: "hash_inv h" and sk: "same_key h = irc_key" by (rule table_okD [OF ok])+
  have nd: "nd \<in> set (h_nodes h)" "irc_key (hn_key nd) k"
    using hash_lookup_iff(1) [OF inv] found sk by (auto simp: holds_def)
  have h': "hash_inv h'" "same_key h' = same_key h" "add_mset nd (mset (h_nodes h')) = mset (h_nodes h)"
    using del hash_delete_inv [OF inv nd(1)] hash_scan_delete_inv [OF inv nd(1)] by auto
  have sub: "set (h_nodes h') \<subseteq> set (h_nodes h)" using arg_cong [OF h'(3), of set_mset] by auto
  then show t': "table_ok b h'" using ok h' hash_maxcount(2,3) [of h nd h'] del by (auto simp: table_ok_def keyed_by_def)
  have "distinct (map hn_id (h_nodes h))" using inv by (simp add: hash_inv_def content_def)
  then have "distinct (map hn_id (nd # h_nodes h'))"
    using h'(3) by (metis mset.simps(2) mset_eq_imp_distinct_iff mset_map)
  then show "hn_id nd \<notin> hn_id ` set (h_nodes h')" by simp
  show "hn_id nd \<noteq> 0" using nd inv by (auto simp: hash_inv_def content_def)
  show "hn_id nd < b" using nd ok by (auto simp: table_ok_def)
  show "obj h k = Some (hn_data nd)" using obj_lookup [OF ok, of k] found by simp
  have keys: "irc_key (hn_key nd) j = irc_key k j" for j
    using nd(2) equivp_irc_key by (metis equivp_def)
  show "obj h' = (\<lambda>j. if irc_key k j then None else obj h j)"
  proof
    fix j
    show "obj h' j = (if irc_key k j then None else obj h j)"
      using lookup_after_delete [OF inv h'(1-3), of j] sk keys obj_lookup [OF ok, of j] obj_lookup [OF t', of j]
      by (auto split: if_splits)
  qed
qed

lemma del_total:
  assumes "table_ok b h" "hash_lookup h k = Some (Some nd)"
  shows "\<exists>h'. hash_delete h nd = Some h'" "\<exists>h'. hash_scan_delete h nd = Some h'"
proof -
  have inv: "hash_inv h" by (rule table_okD [OF assms(1)])
  then have "nd \<in> set (h_nodes h)" using hash_lookup_iff(1) [of h k nd] assms(2) by (auto simp: holds_def)
  then show "\<exists>h'. hash_delete h nd = Some h'" "\<exists>h'. hash_scan_delete h nd = Some h'"
    using hash_delete_inv [OF inv] hash_scan_delete_inv [OF inv] by blast+
qed

section \<open>Tables of named objects\<close>

text \<open>
  A table finds exactly the objects of a view, each under its name: users, channels, servers,
  bots and bans are all kept like this. The names come from \<open>N\<close>, the addresses are below \<open>b\<close>.
\<close>

definition named :: "string set \<Rightarrow> addr \<Rightarrow> (string, addr) hash_t \<Rightarrow> (addr \<Rightarrow> string option) \<Rightarrow> bool" where
  "named N b h name \<longleftrightarrow> table_ok b h \<and>
     (\<forall>k a. obj h k = Some a \<longrightarrow> (\<exists>nm. name a = Some nm \<and> irc_key nm k)) \<and>
     (\<forall>a nm. name a = Some nm \<longrightarrow> obj h nm = Some a \<and> nm \<in> N \<and> 0 < a \<and> a < b)"

lemma namedD:
  assumes "named N b h name"
  shows "table_ok b h"
    "obj h k = Some a \<Longrightarrow> \<exists>nm. name a = Some nm \<and> irc_key nm k"
    "name a = Some nm \<Longrightarrow> obj h nm = Some a" "name a = Some nm \<Longrightarrow> nm \<in> N"
    "name a = Some nm \<Longrightarrow> 0 < a" "name a = Some nm \<Longrightarrow> a < b"
  using assms unfolding named_def by blast+

lemma irc_key_sym: "irc_key a b \<longleftrightarrow> irc_key b a"
  by (auto simp: irc_key_def irc_eq_sym)

lemma irc_key_trans: "irc_key a b \<Longrightarrow> irc_key b c \<Longrightarrow> irc_key a c"
  using equivp_irc_key by (rule equivp_transp)

lemma named_mono: "named N b h name \<Longrightarrow> b \<le> b' \<Longrightarrow> named N b' h name"
  unfolding named_def using table_ok_mono by (metis less_le_trans)

text \<open>Names that compare equal belong to one object.\<close>

lemma named_unique:
  assumes "named N b h name" "name a = Some x" "name a' = Some y" "irc_key x y"
  shows "a = a'"
  using obj_same [OF namedD(1) [OF assms(1)] assms(4)] namedD(3) [OF assms(1)] assms(2,3) by simp

lemma named_unique_eq:
  "named N b h name \<Longrightarrow> coherent N \<Longrightarrow> name a = Some x \<Longrightarrow> name a' = Some y \<Longrightarrow> irc_eq x y \<longleftrightarrow> a = a'"
  using named_unique namedD(4) coherentD irc_eq_refl by (metis option.inject)

lemma named_insert:
  assumes nm: "named N b h name" and n: "hn_id n \<notin> hn_id ` set (h_nodes h)" "hn_id n \<noteq> 0" "hn_id n < b'" "b \<le> b'" "b \<le> 2 ^ 61"
    and v: "name (hn_data n) = None" "0 < hn_data n" "hn_data n < b'" and k: "k \<in> N"
    and h': "hash_insert h n k = Some h'"
  shows "named N b' h' (name(hn_data n := Some k))"
proof -
  have ok: "table_ok b h" by (rule namedD [OF nm])
  have free: "obj h k = None"
    using h' obj_lookup [OF ok, of k] by (auto simp: hash_insert_def hash_isfull_def bind_eq_Some_conv)
  obtain t: "table_ok b' h'" "obj h' = (\<lambda>j. if irc_key k j then Some (hn_data n) else obj h j)"
    using obj_insert [OF ok free n] h' by auto
  have other: "\<not> irc_key k x" if "name a = Some x" for a x
    using namedD(3) [OF nm that] obj_same [OF ok, of k x] free by auto
  show ?thesis
    unfolding named_def
  proof (intro conjI allI impI)
    fix j a assume "obj h' j = Some a"
    then show "\<exists>x. (name(hn_data n := Some k)) a = Some x \<and> irc_key x j"
      using t(2) namedD(2) [OF nm, of j a] v(1) by (auto split: if_splits)
  next
    fix a x assume a: "(name(hn_data n := Some k)) a = Some x"
    then show "obj h' x = Some a"
      using t(2) other [of a x] namedD(3) [OF nm, of a x] by (auto split: if_splits)
    show "x \<in> N" "0 < a" "a < b'"
      using a k v n(4) namedD(4-6) [OF nm, of a x] by (auto split: if_splits)
  qed (rule t)
qed

lemma named_put:
  assumes "named N b h name" "hnode_create_insert a h v k = Some h'" "b \<le> a" "a < 2 ^ 61"
    and "name v = None" "0 < v" "v \<le> a" "k \<in> N"
  shows "named N (Suc a) h' (name(v := Some k))"
proof -
  have "a \<notin> hn_id ` set (h_nodes h)" using namedD(1) [OF assms(1)] assms(3) by (auto simp: table_ok_def)
  then show ?thesis
    using named_insert [OF assms(1), of "hnode_create a k v" "Suc a" k h'] assms(2-8)
    by (simp add: hnode_create_insert_def hnode_create_def)
qed

lemma named_del:
  assumes nm: "named N b h name" and found: "hash_lookup h k = Some (Some nd)"
    and del: "hash_delete h nd = Some h' \<or> hash_scan_delete h nd = Some h'"
  shows "named N b h' (name(hn_data nd := None))"
proof -
  note d = obj_del [OF namedD(1) [OF nm] found del]
  obtain x where x: "name (hn_data nd) = Some x" "irc_key x k" using namedD(2) [OF nm d(6)] by blast
  show ?thesis
    unfolding named_def
  proof (intro conjI allI impI)
    fix j a assume a: "obj h' j = Some a"
    then obtain y where y: "name a = Some y" "irc_key y j" "\<not> irc_key k j"
      using d(2) namedD(2) [OF nm, of j a] by (auto split: if_splits)
    then have "a \<noteq> hn_data nd" using x irc_key_trans irc_key_sym by (metis option.inject)
    with y show "\<exists>y. (name(hn_data nd := None)) a = Some y \<and> irc_key y j" by auto
  next
    fix a y assume a: "(name(hn_data nd := None)) a = Some y"
    then have y: "name a = Some y" "a \<noteq> hn_data nd" by (auto split: if_splits)
    then have "\<not> irc_key k y" using named_unique [OF nm x(1) y(1)] x(2) irc_key_trans by blast
    with y d(2) show "obj h' y = Some a" using namedD(3) [OF nm y(1)] by simp
    show "y \<in> N" "0 < a" "a < b" using namedD(4-6) [OF nm y(1)] by auto
  qed (rule d)
qed

section \<open>The invariant\<close>

text \<open>What is known of a user: name, channels, away. Of a channel: name, members, counter.\<close>

type_synonym user_view = "string \<times> string list \<times> bool"
type_synonym chan_view = "string \<times> addr list \<times> uint"

definition uview :: "net \<Rightarrow> addr \<Rightarrow> user_view option" where
  "uview n a = do { c \<leftarrow> clients n a; u \<leftarrow> c_user c; Some (c_name c, u_chans u, u_is_away u) }"

definition cview :: "net \<Rightarrow> addr \<Rightarrow> chan_view option" where
  "cview n c = map_option (\<lambda>ch. (ch_name ch, map cm_u (ch_members ch), ch_users ch)) (channels n c)"

abbreviation uname :: "(addr \<Rightarrow> user_view option) \<Rightarrow> addr \<Rightarrow> string option" where
  "uname U a \<equiv> map_option fst (U a)"

abbreviation cname :: "(addr \<Rightarrow> chan_view option) \<Rightarrow> addr \<Rightarrow> string option" where
  "cname C c \<equiv> map_option fst (C c)"

text \<open>The name of a server.\<close>

definition sview :: "net \<Rightarrow> addr \<Rightarrow> string option" where
  "sview n a = do { c \<leftarrow> clients n a; _ \<leftarrow> c_server c; Some (c_name c) }"

text \<open>A user's list holds the names of the channels that have the user as a member, each once.\<close>

definition members_ok :: "(addr \<Rightarrow> user_view option) \<Rightarrow> (addr \<Rightarrow> chan_view option) \<Rightarrow> bool" where
  "members_ok U C \<longleftrightarrow>
     (\<forall>a nm cs aw. U a = Some (nm, cs, aw) \<longrightarrow>
        distinct cs \<and> (\<forall>x\<in>set cs. \<exists>c ms k. C c = Some (x, ms, k) \<and> a \<in> set ms)) \<and>
     (\<forall>c x ms k. C c = Some (x, ms, k) \<longrightarrow>
        distinct ms \<and> k = of_nat (length ms) \<and> (\<forall>a\<in>set ms. \<exists>nm cs aw. U a = Some (nm, cs, aw) \<and> x \<in> set cs))"

definition away_users :: "(addr \<Rightarrow> user_view option) \<Rightarrow> addr set" where
  "away_users U = {a. \<exists>nm cs. U a = Some (nm, cs, True)}"

text \<open>The table of servers, their counter; a client is a user or a server, not both.\<close>

definition servers_ok :: "string set \<Rightarrow> net \<Rightarrow> bool" where
  "servers_ok N n \<longleftrightarrow> named N (next_addr n) (serverhash n) (sview n) \<and> servercount n = of_nat (card (dom (sview n))) \<and>
     (\<forall>a. sview n a = None \<or> uview n a = None)"

text \<open>
  There are fewer than \<open>2 ^ 32\<close> users, so that the counter of a channel is exact; the number
  of channels is counted modulo the word.
\<close>

definition net_ok :: "string set \<Rightarrow> net \<Rightarrow> bool" where
  "net_ok N n \<longleftrightarrow>
     0 < next_addr n \<and>
     named N (next_addr n) (userhash n) (uname (uview n)) \<and>
     named N (next_addr n) (channelhash n) (cname (cview n)) \<and>
     members_ok (uview n) (cview n) \<and>
     card (dom (uview n)) < 2 ^ 32 \<and>
     usercount n = of_nat (card (dom (uview n))) \<and>
     channelcount n = of_nat (card (dom (cview n))) \<and>
     awaycount n = of_nat (card (away_users (uview n))) \<and>
     servers_ok N n"

text \<open>What the invariant depends on.\<close>

definition core :: "net \<Rightarrow> (addr \<Rightarrow> user_view option) \<times> (addr \<Rightarrow> chan_view option) \<times> (addr \<Rightarrow> string option) \<times>
    (string, addr) hash_t \<times> (string, addr) hash_t \<times> (string, addr) hash_t \<times> addr \<times> uint \<times> uint \<times> uint \<times> uint" where
  "core n = (uview n, cview n, sview n, userhash n, channelhash n, serverhash n, next_addr n, usercount n, channelcount n,
     awaycount n, servercount n)"

lemma core_eq_iff:
  "core n' = core n \<longleftrightarrow> uview n' = uview n \<and> cview n' = cview n \<and> userhash n' = userhash n \<and>
     channelhash n' = channelhash n \<and> next_addr n' = next_addr n \<and> usercount n' = usercount n \<and>
     channelcount n' = channelcount n \<and> awaycount n' = awaycount n \<and> sview n' = sview n \<and> serverhash n' = serverhash n \<and>
     servercount n' = servercount n"
  by (auto simp: core_def)

lemma net_ok_cong: "core n' = core n \<Longrightarrow> net_ok N n' = net_ok N n"
  by (simp add: core_eq_iff net_ok_def servers_ok_def)

lemma net_okD:
  assumes "net_ok N n"
  shows "named N (next_addr n) (userhash n) (uname (uview n))"
    "named N (next_addr n) (channelhash n) (cname (cview n))" "members_ok (uview n) (cview n)" "0 < next_addr n"
    "servers_ok N n"
  using assms by (simp_all add: net_ok_def)

lemma members_okD:
  assumes "members_ok U C"
  shows "U a = Some (nm, cs, aw) \<Longrightarrow> distinct cs"
    "U a = Some (nm, cs, aw) \<Longrightarrow> x \<in> set cs \<Longrightarrow> \<exists>c ms k. C c = Some (x, ms, k) \<and> a \<in> set ms"
    "C c = Some (x, ms, k) \<Longrightarrow> distinct ms" "C c = Some (x, ms, k) \<Longrightarrow> k = of_nat (length ms)"
    "C c = Some (x, ms, k) \<Longrightarrow> a \<in> set ms \<Longrightarrow> \<exists>nm cs aw. U a = Some (nm, cs, aw) \<and> x \<in> set cs"
  using assms unfolding members_ok_def by blast+

lemma named_dom_finite: "named N b h (\<lambda>a. map_option fst (V a)) \<Longrightarrow> finite (dom V)"
  by (rule finite_subset [of _ "{..<b}"]) (auto dest: namedD(6))

text \<open>A step that leaves the servers alone and lets no address become a user that is a server.\<close>

lemma servers_okD:
  assumes "servers_ok N n"
  shows "named N (next_addr n) (serverhash n) (sview n)" "uview n a \<noteq> None \<Longrightarrow> sview n a = None"
  using assms unfolding servers_ok_def by auto

lemma servers_ok_keep:
  assumes "net_ok N n" "sview n' = sview n" "serverhash n' = serverhash n" "servercount n' = servercount n"
    and "next_addr n \<le> next_addr n'" and "\<And>a. uview n' a \<noteq> None \<Longrightarrow> uview n a \<noteq> None \<or> sview n a = None"
  shows "servers_ok N n'"
proof -
  have ok: "servers_ok N n" using assms(1) by (rule net_okD)
  then have "sview n' a = None \<or> uview n' a = None" for a
    using servers_okD(2) [OF ok, of a] assms(2) assms(6) [of a] by (cases "uview n' a") auto
  then show ?thesis using ok named_mono [OF _ assms(5)] assms(2-4) unfolding servers_ok_def by simp
qed

section \<open>Operations that leave the views alone\<close>

lemma core_emit [simp]: "core (emit x n) = core n"
  by (simp add: emit_def core_def uview_def [abs_def] cview_def [abs_def] sview_def [abs_def])

lemma core_events [simp]: "core (SendAllModuleEvent e p n) = core n" "core (SendModuleEvent e p m n) = core n"
  by (simp_all add: SendAllModuleEvent_def SendModuleEvent_def)

lemma core_upd_client:
  assumes "upd_client a f n = Some n'"
    and "\<And>c. clients n a = Some c \<Longrightarrow> c_name (f c) = c_name c \<and>
      (c_server (f c) = None) = (c_server c = None) \<and>
      map_option (\<lambda>u. (u_chans u, u_is_away u)) (c_user (f c)) = map_option (\<lambda>u. (u_chans u, u_is_away u)) (c_user c)"
  shows "core n' = core n"
proof -
  obtain c where c: "clients n a = Some c" "n' = n\<lparr>clients := (clients n)(a \<mapsto> f c)\<rparr>"
    using assms(1) by (auto simp: upd_client_def bind_eq_Some_conv)
  have "uview n' b = uview n b" for b
    using assms(2) [OF c(1)] c by (cases "c_user c"; cases "c_user (f c)") (auto simp: uview_def)
  moreover have "sview n' b = sview n b" for b
    using assms(2) [OF c(1)] c by (cases "c_server c"; cases "c_server (f c)") (auto simp: sview_def)
  ultimately show ?thesis using c(2) by (auto simp: core_def cview_def fun_eq_iff)
qed

lemma core_upd_user:
  assumes "upd_user a f n = Some n'"
    and "\<And>u. user_of n a = Some u \<Longrightarrow> u_chans (f u) = u_chans u \<and> u_is_away (f u) = u_is_away u"
  shows "core n' = core n"
proof -
  obtain u where u: "user_of n a = Some u" "upd_client a (\<lambda>c. c\<lparr>c_user := Some (f u)\<rparr>) n = Some n'"
    using assms(1) by (auto simp: upd_user_def bind_eq_Some_conv)
  from u(2) show ?thesis
    by (rule core_upd_client) (use u(1) assms(2) in \<open>auto simp: user_of_def\<close>)
qed

lemma core_upd_server: "upd_server a f n = Some n' \<Longrightarrow> core n' = core n"
  by (auto simp: upd_server_def server_of_def bind_eq_Some_conv elim!: core_upd_client)

lemma core_upd_chan:
  assumes "upd_chan a f n = Some n'"
    and "\<And>c. channels n a = Some c \<Longrightarrow>
      ch_name (f c) = ch_name c \<and> map cm_u (ch_members (f c)) = map cm_u (ch_members c) \<and> ch_users (f c) = ch_users c"
  shows "core n' = core n"
proof -
  obtain c where c: "channels n a = Some c" "n' = n\<lparr>channels := (channels n)(a \<mapsto> f c)\<rparr>"
    using assms(1) by (auto simp: upd_chan_def bind_eq_Some_conv)
  have "cview n' b = cview n b" for b using assms(2) [OF c(1)] c by (auto simp: cview_def)
  then show ?thesis using c(2) by (auto simp: core_def uview_def sview_def fun_eq_iff)
qed

lemmas core_upd = core_upd_client core_upd_user core_upd_server core_upd_chan

lemma core_exclude:
  "ns_do_exclude_user a n = Some n' \<Longrightarrow> core n' = core n"
  "ns_do_exclude_server a n = Some n' \<Longrightarrow> core n' = core n"
  "ns_do_exclude_chan a n = Some n' \<Longrightarrow> core n' = core n"
proof -
  assume "ns_do_exclude_user a n = Some n'"
  then obtain n1 where n1: "upd_client a (\<lambda>c. c\<lparr>c_flags := clear_flag (c_flags c) NS_FLAG_EXCLUDED\<rparr>) n = Some n1"
    "n1 = n' \<or> upd_client a (\<lambda>c. c\<lparr>c_flags := set_flag (c_flags c) NS_FLAG_EXCLUDED\<rparr>) n1 = Some n'"
    by (auto simp: ns_do_exclude_user_def bind_eq_Some_conv Let_def split: if_splits)
  then show "core n' = core n" using core_upd_client [OF n1(1)] core_upd_client [of a _ n1 n'] by auto
qed (auto simp: ns_do_exclude_server_def ns_do_exclude_chan_def bind_eq_Some_conv elim!: core_upd_client core_upd_chan)

section \<open>Entering and leaving a channel\<close>

lemma dom_uname: "dom (\<lambda>a. map_option fst (V a)) = dom V"
  by auto

text \<open>A change of membership keeps the names, who is away, and the tables.\<close>

lemma net_ok_relate:
  assumes "net_ok N n" "uname (uview n') = uname (uview n)" "cname (cview n') = cname (cview n)"
    and "away_users (uview n') = away_users (uview n)" "members_ok (uview n') (cview n')"
    and "userhash n' = userhash n" "channelhash n' = channelhash n" "next_addr n' = next_addr n"
    and "usercount n' = usercount n" "channelcount n' = channelcount n" "awaycount n' = awaycount n"
    and "sview n' = sview n" "serverhash n' = serverhash n" "servercount n' = servercount n"
  shows "net_ok N n'"
proof -
  have "servers_ok N n'"
  proof (rule servers_ok_keep [OF assms(1,12-14)])
    fix a assume "uview n' a \<noteq> None"
    then have "uname (uview n') a \<noteq> None" by simp
    then show "uview n a \<noteq> None \<or> sview n a = None" using fun_cong [OF assms(2), of a] by (cases "uview n a") auto
  qed (simp add: assms(8))
  moreover have "dom (uview n') = dom (uview n)" "dom (cview n') = dom (cview n)"
    using arg_cong [OF assms(2), of dom] arg_cong [OF assms(3), of dom] by (simp_all only: dom_uname)
  ultimately show ?thesis using assms by (simp only: net_ok_def)
qed

lemma channel_unique:
  assumes "named N b h (cname C)" "C c = Some (x, y)" "C c' = Some (x, z)"
  shows "c = c'"
  using named_unique [OF assms(1), of c x c' x] assms(2,3) by (simp add: irc_key_def)

lemma enter_members:
  assumes ok: "members_ok U C" and nmd: "named N b h (cname C)"
    and a: "U a = Some (nm, cs, aw)" and c: "C c = Some (x, ms, k)" and new: "a \<notin> set ms"
  shows "members_ok (U(a := Some (nm, cs @ [x], aw))) (C(c := Some (x, ms @ [a], k + 1)))"
proof -
  have d: "distinct ms" "k = of_nat (length ms)" "distinct cs"
    using members_okD [OF ok] a c by blast+
  have xcs: "x \<notin> set cs"
  proof
    assume "x \<in> set cs"
    then obtain c' ms' k' where "C c' = Some (x, ms', k')" "a \<in> set ms'" using members_okD(2) [OF ok a] by blast
    with channel_unique [OF nmd c, of c'] c new show False by auto
  qed
  let ?U = "U(a := Some (nm, cs @ [x], aw))" and ?C = "C(c := Some (x, ms @ [a], k + 1))"
  show ?thesis
    unfolding members_ok_def
  proof (intro conjI allI impI)
    fix b nm' cs' aw' assume b: "?U b = Some (nm', cs', aw')"
    show "distinct cs'" using b d(3) xcs members_okD(1) [OF ok] by (auto split: if_splits)
    show "\<forall>y\<in>set cs'. \<exists>e ms' k'. ?C e = Some (y, ms', k') \<and> b \<in> set ms'"
    proof
      fix y assume y: "y \<in> set cs'"
      show "\<exists>e ms' k'. ?C e = Some (y, ms', k') \<and> b \<in> set ms'"
      proof (cases "b = a \<and> y = x")
        case True
        then show ?thesis by (intro exI [of _ c]) auto
      next
        case False
        then obtain cs0 where "U b = Some (nm', cs0, aw')" "y \<in> set cs0" using b y a by (auto split: if_splits)
        then obtain e ms' k' where "C e = Some (y, ms', k')" "b \<in> set ms'" using members_okD(2) [OF ok] by blast
        then show ?thesis using c by (intro exI [of _ e]) auto
      qed
    qed
  next
    fix e y ms' k' assume e: "?C e = Some (y, ms', k')"
    show "distinct ms'" "k' = of_nat (length ms')"
      using e d new members_okD(3,4) [OF ok, of e] by (auto split: if_splits)
    show "\<forall>b\<in>set ms'. \<exists>nm' cs' aw'. ?U b = Some (nm', cs', aw') \<and> y \<in> set cs'"
    proof
      fix b assume b: "b \<in> set ms'"
      show "\<exists>nm' cs' aw'. ?U b = Some (nm', cs', aw') \<and> y \<in> set cs'"
      proof (cases "e = c \<and> b = a")
        case False
        then obtain ms0 k0 where "C e = Some (y, ms0, k0)" "b \<in> set ms0" using e b c by (auto split: if_splits)
        then obtain nm' cs' aw' where "U b = Some (nm', cs', aw')" "y \<in> set cs'" using members_okD(5) [OF ok] by blast
        then show ?thesis using a by (cases "b = a") auto
      qed (use e in auto)
    qed
  qed
qed

lemma leave_members:
  assumes ok: "members_ok U C" and nmd: "named N b h (cname C)"
    and a: "U a = Some (nm, cs, aw)" and c: "C c = Some (x, ms, k)"
  shows "members_ok (U(a := Some (nm, remove1 x cs, aw))) (C(c := Some (x, remove1 a ms, of_nat (length (remove1 a ms)))))"
proof -
  have d: "distinct ms" "k = of_nat (length ms)" "distinct cs"
    using members_okD [OF ok] a c by blast+
  show ?thesis
    unfolding members_ok_def
  proof (intro conjI allI impI)
    fix b nm' cs' aw' assume b: "(U(a := Some (nm, remove1 x cs, aw))) b = Some (nm', cs', aw')"
    show "distinct cs'" using b d(3) members_okD(1) [OF ok] by (auto split: if_splits)
    show "\<forall>y\<in>set cs'. \<exists>e ms' k'. (C(c := Some (x, remove1 a ms, of_nat (length (remove1 a ms))))) e = Some (y, ms', k') \<and>
        b \<in> set ms'"
    proof
      fix y assume y: "y \<in> set cs'"
      obtain cs0 where cs0: "U b = Some (nm', cs0, aw')" "y \<in> set cs0" "b = a \<Longrightarrow> y \<noteq> x"
        using b y a d(3) by (auto split: if_splits)
      then obtain e ms' k' where e: "C e = Some (y, ms', k')" "b \<in> set ms'" using members_okD(2) [OF ok] by blast
      show "\<exists>e ms' k'. (C(c := Some (x, remove1 a ms, of_nat (length (remove1 a ms))))) e = Some (y, ms', k') \<and> b \<in> set ms'"
        using e cs0(3) c by (cases "b = a"; intro exI [of _ e]) auto
    qed
  next
    fix e y ms' k' assume e: "(C(c := Some (x, remove1 a ms, of_nat (length (remove1 a ms))))) e = Some (y, ms', k')"
    show "distinct ms'" "k' = of_nat (length ms')" using e d members_okD(3,4) [OF ok, of e] by (auto split: if_splits)
    show "\<forall>b\<in>set ms'. \<exists>nm' cs' aw'. (U(a := Some (nm, remove1 x cs, aw))) b = Some (nm', cs', aw') \<and> y \<in> set cs'"
    proof
      fix b assume b: "b \<in> set ms'"
      obtain ms0 k0 where ms0: "C e = Some (y, ms0, k0)" "b \<in> set ms0" "e = c \<Longrightarrow> b \<noteq> a"
        using e b c d(1) by (auto split: if_splits)
      then obtain nm' cs' aw' where u: "U b = Some (nm', cs', aw')" "y \<in> set cs'" using members_okD(5) [OF ok] by blast
      have "b = a \<Longrightarrow> y \<noteq> x" using ms0 channel_unique [OF nmd c, of e] by blast
      then show "\<exists>nm' cs' aw'. (U(a := Some (nm, remove1 x cs, aw))) b = Some (nm', cs', aw') \<and> y \<in> set cs'"
        using u a by (cases "b = a") auto
    qed
  qed
qed

text \<open>The searches by name find the member meant.\<close>

lemma uviewE:
  assumes "uview n a = Some (nm, cs, aw)"
  obtains c u where "clients n a = Some c" "c_user c = Some u" "user_of n a = Some u"
    "c_name c = nm" "u_chans u = cs" "u_is_away u = aw"
  using assms by (auto simp: uview_def user_of_def bind_eq_Some_conv)

lemma cviewE:
  assumes "cview n c = Some (x, ms, k)"
  obtains ch where "channels n c = Some ch" "ch_name ch = x" "map cm_u (ch_members ch) = ms" "ch_users ch = k"
  using assms by (auto simp: cview_def)

lemma find_member_eq:
  assumes nmd: "named N b h (uname (uview n))" "coherent N" and a: "uview n a = Some (nm, cs, aw)"
    and ms: "\<forall>m\<in>set ms. uview n (cm_u m) \<noteq> None"
  shows "find_member n nm ms = Some (List.find (\<lambda>m. cm_u m = a) ms) \<and>
    remove_member n nm ms = Some (remove_first (\<lambda>m. cm_u m = a) ms) \<and>
    member_modes n nm f ms = Some (update_first (\<lambda>m. cm_u m = a) (\<lambda>m. m\<lparr>cm_modes := f (cm_modes m)\<rparr>) ms)"
  using ms
proof (induction ms)
  case (Cons m ms)
  obtain x cs' aw' where m: "uview n (cm_u m) = Some (x, cs', aw')" using Cons.prems by auto
  then obtain c where c: "clients n (cm_u m) = Some c" "c_name c = x" by (elim uviewE)
  have "irc_eq x nm \<longleftrightarrow> cm_u m = a" using named_unique_eq [OF nmd, of "cm_u m" x a nm] m a by simp
  with c Cons show ?case by simp
qed simp

lemma find_member_None: "List.find (\<lambda>m. cm_u m = a) ms = None \<longleftrightarrow> a \<notin> set (map cm_u ms)"
  by (auto simp: find_None_iff)

lemma map_remove_first_member: "map cm_u (remove_first (\<lambda>m. cm_u m = a) ms) = remove1 a (map cm_u ms)"
  by (induction ms) auto

lemma remove_first_name:
  assumes "\<forall>y\<in>set cs. irc_eq y x \<longleftrightarrow> y = x"
  shows "remove_first (\<lambda>y. irc_eq y x) cs = remove1 x cs"
  using assms by (induction cs) auto

lemma members_bound:
  assumes "net_ok N n" "cview n c = Some (x, ms, k)"
  shows "length ms < 2 ^ 32"
proof -
  have m: "members_ok (uview n) (cview n)" using assms(1) by (rule net_okD)
  have "set ms \<subseteq> dom (uview n)" using members_okD(5) [OF m assms(2)] by blast
  then have "card (set ms) \<le> card (dom (uview n))"
    using named_dom_finite [OF net_okD(1) [OF assms(1)]] by (rule card_mono [rotated])
  moreover have "card (set ms) = length ms" using members_okD(3) [OF m assms(2)] by (rule distinct_card)
  ultimately show ?thesis using assms(1) by (simp add: net_ok_def)
qed

lemma chans_bound:
  assumes "net_ok N n" "uview n a = Some (nm, cs, aw)"
  shows "length cs \<le> next_addr n"
proof -
  note m = net_okD(3) [OF assms(1)] and nmd = net_okD(2) [OF assms(1)]
  have "set cs \<subseteq> (\<lambda>c. the (cname (cview n) c)) ` {..<next_addr n}"
  proof
    fix x assume "x \<in> set cs"
    then obtain c ms k where "cview n c = Some (x, ms, k)" using members_okD(2) [OF m assms(2)] by blast
    moreover from this have "c < next_addr n" using namedD(6) [OF nmd, of c x] by simp
    ultimately show "x \<in> (\<lambda>c. the (cname (cview n) c)) ` {..<next_addr n}" by (intro image_eqI [of _ _ c]) auto
  qed
  then have "card (set cs) \<le> next_addr n" using surj_card_le [of "{..<next_addr n}"] by simp
  then show ?thesis using members_okD(1) [OF m assms(2)] by (simp add: distinct_card)
qed

lemma not_full: "length xs < 2 ^ 61 \<Longrightarrow> \<not> full xs"
proof
  assume len: "length xs < 2 ^ 61" and "full xs"
  then have "unat (of_nat (length xs) :: ulong) = unat (- 1 :: ulong)" by (simp add: full_def COUNT_MAX_def)
  moreover have "unat (of_nat (length xs) :: ulong) = length xs"
    using len by (simp add: unat_of_nat)
  ultimately show False using len by (simp add: unsigned_minus_1_eq_mask mask_eq_exp_minus_1)
qed

text \<open>Only users and channels change.\<close>

definition same_rest :: "net \<Rightarrow> net \<Rightarrow> bool" where
  "same_rest n n' \<longleftrightarrow> n' = n\<lparr>clients := clients n', channels := channels n'\<rparr> \<and> sview n' = sview n"

lemma same_restD:
  assumes "same_rest n n'"
  shows "userhash n' = userhash n" "serverhash n' = serverhash n" "channelhash n' = channelhash n"
    "bothash n' = bothash n" "bots n' = bots n" "next_addr n' = next_addr n" "usercount n' = usercount n"
    "channelcount n' = channelcount n" "awaycount n' = awaycount n" "trace n' = trace n" "servercount n' = servercount n"
    "sview n' = sview n"
proof -
  obtain A B where "n' = n\<lparr>clients := A, channels := B\<rparr>" using assms unfolding same_rest_def by blast
  then show "userhash n' = userhash n" "serverhash n' = serverhash n" "channelhash n' = channelhash n"
    "bothash n' = bothash n" "bots n' = bots n" "next_addr n' = next_addr n" "usercount n' = usercount n"
    "channelcount n' = channelcount n" "awaycount n' = awaycount n" "trace n' = trace n" "servercount n' = servercount n"
    by simp_all
qed (use assms in \<open>simp add: same_rest_def\<close>)

lemma same_rest_refl [simp]: "same_rest n n"
  by (simp add: same_rest_def)

lemma same_rest_trans:
  assumes "same_rest a b" "same_rest b c"
  shows "same_rest a c"
proof -
  obtain A B where "b = a\<lparr>clients := A, channels := B\<rparr>" using assms(1) unfolding same_rest_def by metis
  moreover obtain A' B' where "c = b\<lparr>clients := A', channels := B'\<rparr>" using assms(2) unfolding same_rest_def by metis
  ultimately show ?thesis using same_restD(12) [OF assms(1)] same_restD(12) [OF assms(2)] by (simp add: same_rest_def)
qed

lemma upd_chans_view:
  assumes "uview n a = Some (nm, cs, aw)"
  shows "\<exists>n'. upd_user a (\<lambda>r. r\<lparr>u_chans := g (u_chans r)\<rparr>) n = Some n' \<and> cview n' = cview n \<and>
    uview n' = (uview n)(a := Some (nm, g cs, aw)) \<and> same_rest n n'"
  using assms
  by (elim uviewE) (auto simp: upd_user_def upd_client_def user_of_def uview_def cview_def sview_def fun_eq_iff same_rest_def)

lemma upd_chan_view:
  assumes "cview n c = Some (x, ms, k)"
  shows "\<exists>n'. upd_chan c f n = Some n' \<and> uview n' = uview n \<and>
    (\<exists>ch. channels n c = Some ch \<and> ch_name ch = x \<and> map cm_u (ch_members ch) = ms \<and> ch_users ch = k \<and>
      cview n' = (cview n)(c := Some (ch_name (f ch), map cm_u (ch_members (f ch)), ch_users (f ch)))) \<and>
    same_rest n n'"
  using assms
  by (elim cviewE) (auto simp: upd_chan_def uview_def cview_def sview_def fun_eq_iff same_rest_def)

lemma fun_upd_name:
  "V a = Some (x, y) \<Longrightarrow> (\<lambda>b. map_option fst ((V(a := Some (x, z))) b)) = (\<lambda>b. map_option fst (V b))"
  by auto

lemma away_users_upd: "U a = Some (nm, cs, aw) \<Longrightarrow> away_users (U(a := Some (nm, cs', aw))) = away_users U"
  by (auto simp: away_users_def)

lemma leave_channel:
  assumes ok: "net_ok N n" and N: "coherent N"
    and a: "uview n a = Some (nm, cs, aw)" and c: "cview n c = Some (x, ms, k)"
  shows "\<exists>n1 n2. del_user_channel c a n = Some n1 \<and> del_channel_member c a n1 = Some n2 \<and> net_ok N n2 \<and>
    uview n2 = (uview n)(a := Some (nm, remove1 x cs, aw)) \<and>
    cview n2 = (cview n)(c := Some (x, remove1 a ms, of_nat (length (remove1 a ms)))) \<and>
    same_rest n n2"
proof -
  note nmd = net_okD(2) [OF ok] and m = net_okD(3) [OF ok]
  have names: "\<forall>y\<in>set cs. irc_eq y x \<longleftrightarrow> y = x"
  proof
    fix y assume "y \<in> set cs"
    then obtain e ms' k' where e: "cview n e = Some (y, ms', k')" using members_okD(2) [OF m a] by blast
    then show "irc_eq y x \<longleftrightarrow> y = x"
      using named_unique_eq [OF nmd N, of e y c x] c by auto
  qed
  obtain ch where ch: "channels n c = Some ch" "ch_name ch = x" using c by (elim cviewE)
  obtain n1 where n1: "upd_user a (\<lambda>r. r\<lparr>u_chans := remove_first (\<lambda>y. irc_eq y x) (u_chans r)\<rparr>) n = Some n1"
    "cview n1 = cview n" "uview n1 = (uview n)(a := Some (nm, remove_first (\<lambda>y. irc_eq y x) cs, aw))"
    "same_rest n n1"
    using upd_chans_view [OF a, of "remove_first (\<lambda>y. irc_eq y x)"] by blast
  have u1: "uview n1 = (uview n)(a := Some (nm, remove1 x cs, aw))"
    using n1(3) remove_first_name [OF names] by simp
  have c1: "cview n1 c = Some (x, ms, k)" using n1(2) c by simp
  obtain ch1 where ch1: "channels n1 c = Some ch1" "ch_name ch1 = x" "map cm_u (ch_members ch1) = ms" "ch_users ch1 = k"
    using c1 by (elim cviewE)
  have nmd1: "named N (next_addr n) (userhash n) (uname (uview n1))"
    using net_okD(1) [OF ok] fun_upd_name [of "uview n", OF a] u1 by simp
  have a1: "uview n1 a = Some (nm, remove1 x cs, aw)" using u1 by simp
  obtain cl where cl: "clients n1 a = Some cl" "c_name cl = nm" using a1 by (elim uviewE)
  have mem: "\<forall>m\<in>set (ch_members ch1). uview n1 (cm_u m) \<noteq> None"
    using members_okD(5) [OF m c] ch1(3) u1 by fastforce
  note find = find_member_eq [OF nmd1 N a1 mem]
  have k: "k = of_nat (length ms)" "distinct ms" using members_okD [OF m] c by blast+
  have "\<exists>n2. del_channel_member c a n1 = Some n2 \<and> uview n2 = uview n1 \<and>
      cview n2 = (cview n)(c := Some (x, remove1 a ms, of_nat (length (remove1 a ms)))) \<and>
      same_rest n1 n2"
  proof (cases "a \<in> set ms")
    case False
    then have "find_member n1 nm (ch_members ch1) = Some None"
      using find find_member_None [of a "ch_members ch1"] ch1(3) by metis
    then have "del_channel_member c a n1 = Some n1"
      using ch1(1) cl by (simp add: del_channel_member_def)
    moreover have "(cview n)(c := Some (x, remove1 a ms, of_nat (length (remove1 a ms)))) = cview n"
      using False k c by (simp add: remove1_idem fun_upd_idem)
    ultimately show ?thesis using n1(2) by simp
  next
    case True
    then have f: "find_member n1 nm (ch_members ch1) \<noteq> Some None"
      using find find_member_None [of a "ch_members ch1"] ch1(3) by auto
    have "k > 0"
    proof -
      have "length ms > 0" "length ms < 2 ^ 32" using True members_bound [OF ok c] by (auto simp: length_pos_if_in_set)
      then have "unat k = length ms" using k(1) by (simp add: unat_of_nat)
      then show ?thesis using \<open>length ms > 0\<close> by (simp add: word_greater_zero_iff unat_eq_zero [symmetric])
    qed
    moreover have "k - 1 = of_nat (length (remove1 a ms))"
      using True k(1) by (cases "length ms") (simp_all add: length_remove1)
    ultimately show ?thesis
      using upd_chan_view [OF c1, of "\<lambda>ch. ch\<lparr>ch_members := remove_first (\<lambda>m. cm_u m = a) (ch_members ch1),
          ch_users := (if ch_users ch > 0 then ch_users ch - 1 else ch_users ch)\<rparr>"] f find ch1 cl n1(2)
      by (auto simp: del_channel_member_def map_remove_first_member)
  qed
  then obtain n2 where n2: "del_channel_member c a n1 = Some n2" "uview n2 = uview n1"
      "cview n2 = (cview n)(c := Some (x, remove1 a ms, of_nat (length (remove1 a ms))))" "same_rest n1 n2"
    by blast
  have frame: "same_rest n n2" using n1(4) n2(4) by (rule same_rest_trans)
  have "net_ok N n2"
  proof (rule net_ok_relate [OF ok])
    show "members_ok (uview n2) (cview n2)" using leave_members [OF m nmd a c] n2(2,3) u1 by simp
    show "uname (uview n2) = uname (uview n)" using fun_upd_name [of "uview n", OF a] n2(2) u1 by simp
    show "cname (cview n2) = cname (cview n)" using fun_upd_name [of "cview n", OF c] n2(3) by simp
    show "away_users (uview n2) = away_users (uview n)" using away_users_upd [of "uview n", OF a] n2(2) u1 by simp
  qed (rule same_restD [OF frame])+
  then show ?thesis
    using n1(1) n2 u1 ch frame by (auto simp: del_user_channel_def)
qed

definition room :: "net \<Rightarrow> bool" where
  "room n \<longleftrightarrow> next_addr n < 2 ^ 60 \<and> Suc (card (dom (uview n))) < 2 ^ 32"

lemma FindUser_obj: "net_ok N n \<Longrightarrow> FindUser n nick = Some (case obj (userhash n) nick of None \<Rightarrow> 0 | Some a \<Rightarrow> a)"
  unfolding FindUser_def by (rule find_in_obj [OF namedD(1)]) (rule net_okD)

lemma FindChannel_obj:
  "net_ok N n \<Longrightarrow> FindChannel n chan = Some (case obj (channelhash n) chan of None \<Rightarrow> 0 | Some a \<Rightarrow> a)"
  unfolding FindChannel_def by (rule find_in_obj [OF namedD(1)]) (rule net_okD)

text \<open>A found user is in the view, under a name the search cannot tell from the one looked for.\<close>

lemma FindUser_view:
  assumes "net_ok N n" "FindUser n nick = Some a" "a \<noteq> 0"
  obtains nm cs aw where "uview n a = Some (nm, cs, aw)" "irc_key nm nick"
proof -
  have "obj (userhash n) nick = Some a" using FindUser_obj [OF assms(1), of nick] assms(2,3) by (auto split: option.splits)
  then obtain nm where "uname (uview n) a = Some nm" "irc_key nm nick"
    using namedD(2) [OF net_okD(1) [OF assms(1)]] by blast
  then show thesis using that by auto
qed

lemma FindChannel_view:
  assumes "net_ok N n" "FindChannel n chan = Some c" "c \<noteq> 0"
  obtains x ms k where "cview n c = Some (x, ms, k)" "irc_key x chan"
proof -
  have "obj (channelhash n) chan = Some c"
    using FindChannel_obj [OF assms(1), of chan] assms(2,3) by (auto split: option.splits)
  then obtain x where "cname (cview n) c = Some x" "irc_key x chan"
    using namedD(2) [OF net_okD(2) [OF assms(1)]] by blast
  then show thesis using that by auto
qed

lemma FindUser_iff:
  assumes "net_ok N n" "a \<noteq> 0"
  shows "FindUser n nick = Some a \<longleftrightarrow> (\<exists>nm cs aw. uview n a = Some (nm, cs, aw) \<and> irc_key nm nick)"
proof
  assume "\<exists>nm cs aw. uview n a = Some (nm, cs, aw) \<and> irc_key nm nick"
  then obtain nm where nm: "uname (uview n) a = Some nm" "irc_key nm nick" by auto
  then have "obj (userhash n) nick = Some a"
    using namedD(3) [OF net_okD(1) [OF assms(1)] nm(1)] obj_same [OF namedD(1) [OF net_okD(1) [OF assms(1)]] nm(2)] by simp
  then show "FindUser n nick = Some a" using FindUser_obj [OF assms(1)] by simp
qed (use FindUser_view [OF assms(1) _ assms(2)] in metis)

lemma core_ok: "core n' = core n \<Longrightarrow> net_ok N n \<Longrightarrow> net_ok N n'"
  by (erule net_ok_cong [THEN iffD2])

lemma IsMe_total: "clients n a = Some c \<Longrightarrow> \<exists>b. IsMe n a = Some b"
  by (auto simp: IsMe_def client_flag_def flags_of_def)

text \<open>Joining: nothing for a member, else both lists grow by one.\<close>

lemma join_member_view:
  assumes ok: "net_ok N n" and N: "coherent N" and small: "next_addr n < 2 ^ 61"
    and a: "uview n a = Some (nm, cs, aw)" "FindUser n nick = Some a" and c: "cview n c = Some (x, ms, k)"
  shows "\<exists>n'. join_member E nick a c n = Some n' \<and> net_ok N n' \<and> next_addr n' = next_addr n \<and>
    uview n' = (if a \<in> set ms then uview n else (uview n)(a := Some (nm, cs @ [x], aw))) \<and>
    cview n' = (if a \<in> set ms then cview n else (cview n)(c := Some (x, ms @ [a], k + 1)))"
proof -
  note nmd = net_okD(2) [OF ok] and m = net_okD(3) [OF ok]
  obtain ch where ch: "channels n c = Some ch" "ch_name ch = x" "map cm_u (ch_members ch) = ms" using c by (elim cviewE)
  obtain cl where cl: "clients n a = Some cl" "c_name cl = nm" using a(1) by (elim uviewE)
  have mem: "\<forall>m\<in>set (ch_members ch). uview n (cm_u m) \<noteq> None" using members_okD(5) [OF m c] ch(3) by fastforce
  note find = find_member_eq [OF net_okD(1) [OF ok] N a(1) mem]
  show ?thesis
  proof (cases "a \<in> set ms")
    case True
    then have "List.find (\<lambda>m. cm_u m = a) (ch_members ch) \<noteq> None"
      using find_member_None [of a "ch_members ch"] ch(3) by simp
    then have "join_member E nick a c n = Some n" using ch cl find by (simp add: join_member_def)
    then show ?thesis using True ok by simp
  next
    case False
    then have f: "find_member n nm (ch_members ch) = Some None"
      using find find_member_None [of a "ch_members ch"] ch(3) by simp
    have "length (ch_members ch) < 2 ^ 61" using members_bound [OF ok c] ch(3) by auto
    then have nf: "\<not> full (ch_members ch)" by (rule not_full)
    obtain n1 where n1: "add_member E c a n = Some n1" "uview n1 = uview n"
      "cview n1 = (cview n)(c := Some (x, ms @ [a], k + 1))" "same_rest n n1"
      using upd_chan_view [OF c, of "\<lambda>ch. ch\<lparr>ch_members := ch_members ch @ [\<lparr>cm_u = a, cm_tsjoin = me_now E, cm_modes = 0\<rparr>],
        ch_users := ch_users ch + 1\<rparr>"] by (auto simp: add_member_def)
    have a1: "uview n1 a = Some (nm, cs, aw)" using n1(2) a(1) by simp
    obtain r where r: "user_of n1 a = Some r" "u_chans r = cs" using a1 by (elim uviewE)
    have nf2: "\<not> full (u_chans r)" using chans_bound [OF ok a(1)] small r by (intro not_full) simp
    obtain n2 where n2: "upd_user a (\<lambda>r. r\<lparr>u_chans := u_chans r @ [x]\<rparr>) n1 = Some n2" "cview n2 = cview n1"
      "uview n2 = (uview n)(a := Some (nm, cs @ [x], aw))" "same_rest n1 n2"
      using upd_chans_view [OF a1, of "\<lambda>l. l @ [x]"] n1(2) by auto
    have frame: "same_rest n n2" using n1(4) n2(4) by (rule same_rest_trans)
    have ok2: "net_ok N n2"
    proof (rule net_ok_relate [OF ok])
      show "members_ok (uview n2) (cview n2)" using enter_members [OF m nmd a(1) c False] n2(2,3) n1(3) by simp
      show "uname (uview n2) = uname (uview n)" using fun_upd_name [of "uview n", OF a(1)] n2(3) by simp
      show "cname (cview n2) = cname (cview n)" using fun_upd_name [of "cview n", OF c] n1(3) n2(2) by simp
      show "away_users (uview n2) = away_users (uview n)" using away_users_upd [of "uview n", OF a(1)] n2(3) by simp
    qed (rule same_restD [OF frame])+
    obtain c2 where "clients n2 a = Some c2" using n2(3) by (metis fun_upd_same uviewE)
    then obtain me where me: "IsMe n2 a = Some me" using IsMe_total by blast
    have c2: "cview n2 c = Some (x, ms @ [a], k + 1)" using n2(2) n1(3) by simp
    obtain n3 where n3: "(if me then upd_chan c (\<lambda>ch. ch\<lparr>ch_neousers := ch_neousers ch + 1\<rparr>) n2 else Some n2) = Some n3"
      using upd_chan_view [OF c2, of "\<lambda>ch. ch\<lparr>ch_neousers := ch_neousers ch + 1\<rparr>"] by (cases me) auto
    then have core: "core n3 = core n2"
      using core_upd_chan [of c "\<lambda>ch. ch\<lparr>ch_neousers := ch_neousers ch + 1\<rparr>" n2 n3] by (cases me) auto
    define n4 where "n4 = SendAllModuleEvent EVENT_JOIN (no_params\<lparr>cp_source := a, cp_channel := c\<rparr>) n3"
    have core4: "core n4 = core n2" using core by (simp add: n4_def)
    have "join_member E nick a c n = Some n4"
      using ch cl f nf a(2) n1(1) r nf2 n2(1) me n3 by (simp add: join_member_def n4_def)
    moreover have "net_ok N n4" using core4 ok2 by (rule core_ok)
    ultimately show ?thesis
      using False core4 n1(3) n2(2,3) same_restD(6) [OF frame] by (simp add: core_eq_iff)
  qed
qed

section \<open>New and deleted channels\<close>

lemma uview_simps [simp]:
  "uview (n\<lparr>channels := x1\<rparr>) = uview n" "uview (n\<lparr>bots := x2\<rparr>) = uview n" "uview (n\<lparr>userhash := h\<rparr>) = uview n"
  "uview (n\<lparr>serverhash := h\<rparr>) = uview n" "uview (n\<lparr>channelhash := h\<rparr>) = uview n" "uview (n\<lparr>bothash := h\<rparr>) = uview n"
  "uview (n\<lparr>next_addr := b\<rparr>) = uview n" "uview (n\<lparr>usercount := k\<rparr>) = uview n" "uview (n\<lparr>awaycount := k\<rparr>) = uview n"
  "uview (n\<lparr>channelcount := k\<rparr>) = uview n" "uview (n\<lparr>servercount := k\<rparr>) = uview n"
  "uview (n\<lparr>savekicker := s\<rparr>) = uview n" "uview (n\<lparr>savekickreason := s\<rparr>) = uview n" "uview (n\<lparr>trace := tr\<rparr>) = uview n"
  by (simp_all add: uview_def fun_eq_iff)

lemma cview_simps [simp]:
  "cview (n\<lparr>clients := x1\<rparr>) = cview n" "cview (n\<lparr>bots := x2\<rparr>) = cview n" "cview (n\<lparr>userhash := h\<rparr>) = cview n"
  "cview (n\<lparr>serverhash := h\<rparr>) = cview n" "cview (n\<lparr>channelhash := h\<rparr>) = cview n" "cview (n\<lparr>bothash := h\<rparr>) = cview n"
  "cview (n\<lparr>next_addr := b\<rparr>) = cview n" "cview (n\<lparr>usercount := k\<rparr>) = cview n" "cview (n\<lparr>awaycount := k\<rparr>) = cview n"
  "cview (n\<lparr>channelcount := k\<rparr>) = cview n" "cview (n\<lparr>servercount := k\<rparr>) = cview n"
  "cview (n\<lparr>savekicker := s\<rparr>) = cview n" "cview (n\<lparr>savekickreason := s\<rparr>) = cview n" "cview (n\<lparr>trace := tr\<rparr>) = cview n"
  by (simp_all add: cview_def fun_eq_iff)

lemma sview_simps [simp]:
  "sview (n\<lparr>channels := x1\<rparr>) = sview n" "sview (n\<lparr>bots := x2\<rparr>) = sview n" "sview (n\<lparr>userhash := h\<rparr>) = sview n"
  "sview (n\<lparr>serverhash := h\<rparr>) = sview n" "sview (n\<lparr>channelhash := h\<rparr>) = sview n" "sview (n\<lparr>bothash := h\<rparr>) = sview n"
  "sview (n\<lparr>next_addr := b\<rparr>) = sview n" "sview (n\<lparr>usercount := k\<rparr>) = sview n" "sview (n\<lparr>awaycount := k\<rparr>) = sview n"
  "sview (n\<lparr>channelcount := k\<rparr>) = sview n" "sview (n\<lparr>servercount := k\<rparr>) = sview n"
  "sview (n\<lparr>savekicker := s\<rparr>) = sview n" "sview (n\<lparr>savekickreason := s\<rparr>) = sview n" "sview (n\<lparr>trace := tr\<rparr>) = sview n"
  by (simp_all add: sview_def fun_eq_iff)

lemma sview_client:
  "sview (n\<lparr>clients := (clients n)(a := c)\<rparr>) = (sview n)(a := do { c \<leftarrow> c; _ \<leftarrow> c_server c; Some (c_name c) })"
  by (simp add: sview_def fun_eq_iff)

lemma uview_client:
  "uview (n\<lparr>clients := (clients n)(a := c)\<rparr>) = (uview n)(a := do { c \<leftarrow> c; u \<leftarrow> c_user c; Some (c_name c, u_chans u, u_is_away u) })"
  by (simp add: uview_def fun_eq_iff)

lemma cview_channel:
  "cview (n\<lparr>channels := (channels n)(c := ch)\<rparr>) =
    (cview n)(c := map_option (\<lambda>ch. (ch_name ch, map cm_u (ch_members ch), ch_users ch)) ch)"
  by (simp add: cview_def fun_eq_iff)

lemma uname_upd:
  "(\<lambda>b. map_option fst ((V(a := v)) b)) = (\<lambda>b. map_option fst (V b))(a := map_option fst v)"
  by auto

lemma card_dom_new: "finite (dom V) \<Longrightarrow> V a = None \<Longrightarrow> card (dom (V(a := Some v))) = Suc (card (dom V))"
  by (simp add: domIff)

lemma members_new_chan: "members_ok U C \<Longrightarrow> C c = None \<Longrightarrow> members_ok U (C(c := Some (x, [], 0)))"
  unfolding members_ok_def
proof (intro conjI allI impI, goal_cases)
  case (2 a nm cs aw)
  then show ?case by (auto, metis option.distinct(1))
qed (auto split: if_splits)

lemma fresh_views: "net_ok N n \<Longrightarrow> uview n (next_addr n) = None" "net_ok N n \<Longrightarrow> cview n (next_addr n) = None"
    "net_ok N n \<Longrightarrow> sview n (next_addr n) = None"
  using namedD(6) [OF net_okD(1), of N n "next_addr n"] namedD(6) [OF net_okD(2), of N n "next_addr n"]
    namedD(6) [OF servers_okD(1) [OF net_okD(5)], of N n "next_addr n"]
  by (fastforce simp: not_None_eq [symmetric])+

lemma new_chan_view:
  assumes ok: "net_ok N n" and small: "next_addr n < 2 ^ 60" and x: "strlcpy_str MAXCHANLEN chan \<in> N"
    and new: "new_chan E chan n = Some (c, n')" "c \<noteq> 0"
  shows "c = next_addr n \<and> net_ok N n' \<and> next_addr n' = next_addr n + 2 \<and> uview n' = uview n \<and>
    cview n' = (cview n)(c := Some (strlcpy_str MAXCHANLEN chan, [], 0))"
proof -
  let ?x = "strlcpy_str MAXCHANLEN chan" and ?c = "next_addr n"
  obtain t n3 n4 where t: "hnode_create_insert (Suc ?c) (channelhash n) ?c ?x = Some t"
    and n3: "upd_chan ?c (\<lambda>ch. ch\<lparr>ch_creationtime := me_now E\<rparr>)
       (n\<lparr>channels := (channels n)(?c \<mapsto> new_channel E chan), next_addr := Suc (Suc ?c), channelhash := t\<rparr>) = Some n3"
    and n4: "ns_do_exclude_chan ?c n3 = Some n4" and c: "c = ?c"
    and n': "n' = SendAllModuleEvent EVENT_NEWCHAN (no_params\<lparr>cp_channel := ?c\<rparr>) (n4\<lparr>channelcount := channelcount n4 + 1\<rparr>)"
    using new by (auto simp: new_chan_def alloc_def Let_def bind_eq_Some_conv split: if_splits)
  have core3: "core n3 = core (n\<lparr>channels := (channels n)(?c \<mapsto> new_channel E chan), next_addr := Suc (Suc ?c), channelhash := t\<rparr>)"
    by (rule core_upd_chan [OF n3]) simp
  have core4: "core n4 = core n3" using n4 by (rule core_exclude)
  have core': "core n' = core (n4\<lparr>channelcount := channelcount n4 + 1\<rparr>)" by (simp add: n')
  have v: "uview n' = uview n" "cview n' = (cview n)(?c := Some (?x, [], 0))"
    "userhash n' = userhash n" "channelhash n' = t" "next_addr n' = ?c + 2" "usercount n' = usercount n"
    "channelcount n' = channelcount n + 1" "awaycount n' = awaycount n" "sview n' = sview n" "serverhash n' = serverhash n"
    "servercount n' = servercount n"
    using core3 core4 core' by (simp_all add: core_eq_iff cview_channel new_channel_def)
  note fresh = fresh_views(2) [OF ok] and nmd = net_okD(2) [OF ok]
  have "named N (Suc (Suc ?c)) t ((cname (cview n))(?c := Some ?x))"
    by (rule named_put [OF nmd t]) (use small fresh x ok in \<open>auto simp: net_ok_def\<close>)
  then have nmd': "named N (next_addr n') (channelhash n') (cname (cview n'))"
    using v uname_upd [of "cview n" ?c "Some (?x, [], 0)"] by simp
  moreover have "named N (next_addr n') (userhash n') (uname (uview n'))"
    using named_mono [OF net_okD(1) [OF ok], of "?c + 2"] v by simp
  moreover have "members_ok (uview n') (cview n')"
    using members_new_chan [OF net_okD(3) [OF ok] fresh] v by simp
  moreover have "card (dom (cview n')) = Suc (card (dom (cview n)))"
    using card_dom_new [OF named_dom_finite [OF nmd] fresh] v by simp
  moreover have "servers_ok N n'" by (rule servers_ok_keep [OF ok]) (use v in \<open>auto split: if_splits\<close>)
  ultimately have "net_ok N n'" using ok v unfolding net_ok_def by simp
  then show ?thesis using c v by simp
qed

lemma card_dom_del: "finite (dom V) \<Longrightarrow> V a \<noteq> None \<Longrightarrow> Suc (card (dom (V(a := None)))) = card (dom V)"
  using card_Suc_Diff1 [of "dom V" a] by (simp add: domIff dom_fun_upd)

lemma members_del_chan: "members_ok U C \<Longrightarrow> C c = Some (x, [], k) \<Longrightarrow> members_ok U (C(c := None))"
  unfolding members_ok_def
proof (intro conjI allI impI, goal_cases)
  case (2 a nm cs aw)
  show ?case
  proof
    fix y assume "y \<in> set cs"
    then obtain e ms k' where e: "C e = Some (y, ms, k')" "a \<in> set ms" using 2 by blast
    then have "e \<noteq> c" using 2(2) by auto
    then show "\<exists>e ms k. (C(c := None)) e = Some (y, ms, k) \<and> a \<in> set ms" using e by auto
  qed
qed (auto split: if_splits)

text \<open>Only a channel without members can be deleted.\<close>

lemma del_chan_view:
  assumes ok: "net_ok N n" and del: "del_chan c n = Some n'"
  shows "net_ok N n' \<and> next_addr n' = next_addr n \<and> uview n' = uview n \<and> cview n' = (cview n)(c := None) \<and>
    serverhash n' = serverhash n"
proof -
  note nmd = net_okD(2) [OF ok]
  obtain ch r where ch: "channels n c = Some ch" and r: "hash_lookup (channelhash n) (ch_name ch) = Some r"
    using del by (auto simp: del_chan_def bind_eq_Some_conv)
  have c: "cview n c = Some (ch_name ch, map cm_u (ch_members ch), ch_users ch)" using ch by (simp add: cview_def)
  have "obj (channelhash n) (ch_name ch) = Some c" using namedD(3) [OF nmd, of c "ch_name ch"] c by simp
  then obtain nd where nd: "r = Some nd" "hn_data nd = c"
    using obj_lookup [OF namedD(1) [OF nmd], of "ch_name ch"] r by (cases r) auto
  obtain t where t: "hash_delete (channelhash n) nd = Some t" "ch_members ch = []"
    and n': "n' = free_chan c ((SendAllModuleEvent EVENT_DELCHAN (no_params\<lparr>cp_channel := c\<rparr>)
      (n\<lparr>channelcount := channelcount n - 1\<rparr>))\<lparr>channelhash := t\<rparr>)"
    using del ch r nd(1)
    by (auto simp: del_chan_def bind_eq_Some_conv Let_def hash_delete_destroy_node_def SendAllModuleEvent_def emit_def)
  have v: "uview n' = uview n" "cview n' = (cview n)(c := None)"
    "userhash n' = userhash n" "channelhash n' = t" "next_addr n' = next_addr n" "usercount n' = usercount n"
    "channelcount n' = channelcount n - 1" "awaycount n' = awaycount n" "sview n' = sview n" "serverhash n' = serverhash n"
    "servercount n' = servercount n"
    using n' by (simp_all add: free_chan_def SendAllModuleEvent_def emit_def cview_def fun_eq_iff)
  have "named N (next_addr n) t ((cname (cview n))(c := None))"
    using named_del [OF nmd, of "ch_name ch" nd t] r nd t by simp
  then have "named N (next_addr n') (channelhash n') (cname (cview n'))"
    using v uname_upd [of "cview n" c None] by simp
  moreover have "members_ok (uview n') (cview n')"
    using members_del_chan [OF net_okD(3) [OF ok]] c t(2) v by simp
  moreover have "Suc (card (dom (cview n'))) = card (dom (cview n))"
    using card_dom_del [OF named_dom_finite [OF nmd], of c] c v by simp
  then have "channelcount n - 1 = of_nat (card (dom (cview n')))"
    using ok unfolding net_ok_def by (metis add_diff_cancel_left' of_nat_Suc)
  moreover have "servers_ok N n'" by (rule servers_ok_keep [OF ok]) (use v in \<open>auto split: if_splits\<close>)
  ultimately have "net_ok N n'" using ok v unfolding net_ok_def by simp
  then show ?thesis using v by simp
qed

section \<open>Users coming and going\<close>

lemma members_new_user: "members_ok U C \<Longrightarrow> U a = None \<Longrightarrow> members_ok (U(a := Some (nm, [], aw))) C"
  unfolding members_ok_def
proof (intro conjI allI impI, goal_cases)
  case (5 c x ms k)
  then show ?case by (metis fun_upd_other option.distinct(1))
qed (auto split: if_splits)

lemma away_users_new: "U a = None \<Longrightarrow> away_users (U(a := Some (nm, cs, False))) = away_users U"
  by (auto simp: away_users_def)

lemma new_user_view:
  assumes ok: "net_ok N n" and small: "room n" and nick: "strlcpy_str MAXNICK nick \<in> N"
    and new: "new_user nick n = Some (a, n')" "a \<noteq> 0"
  shows "a = next_addr n \<and> net_ok N n' \<and> next_addr n' = next_addr n + 2 \<and> cview n' = cview n \<and>
    uview n' = (uview n)(a := Some (strlcpy_str MAXNICK nick, [], False))"
proof -
  let ?x = "strlcpy_str MAXNICK nick" and ?a = "next_addr n"
  let ?c = "(blank_client ?x)\<lparr>c_user := Some new_user_rec\<rparr>"
  obtain t where t: "hnode_create_insert (Suc ?a) (userhash n) ?a ?x = Some t" and a: "a = ?a"
    and n': "n' = n\<lparr>clients := (clients n)(?a \<mapsto> ?c), next_addr := Suc (Suc ?a), userhash := t, usercount := usercount n + 1\<rparr>"
    using new by (auto simp: new_user_def alloc_def Let_def bind_eq_Some_conv split: if_splits)
  note fresh = fresh_views(1) [OF ok] and nmd = net_okD(1) [OF ok]
  have v: "uview n' = (uview n)(?a := Some (?x, [], False))" "cview n' = cview n"
    "userhash n' = t" "channelhash n' = channelhash n" "next_addr n' = ?a + 2" "usercount n' = usercount n + 1"
    "channelcount n' = channelcount n" "awaycount n' = awaycount n" "serverhash n' = serverhash n"
    "servercount n' = servercount n" "sview n' = sview n"
    using n' fresh_views(3) [OF ok] by (simp_all add: sview_client fun_upd_idem uview_def fun_eq_iff blank_client_def new_user_rec_def)
  have "named N (Suc (Suc ?a)) t ((uname (uview n))(?a := Some ?x))"
    by (rule named_put [OF nmd t]) (use small fresh nick ok in \<open>auto simp: net_ok_def room_def\<close>)
  then have "named N (next_addr n') (userhash n') (uname (uview n'))"
    using v uname_upd [of "uview n" ?a "Some (?x, [], False)"] by simp
  moreover have "named N (next_addr n') (channelhash n') (cname (cview n'))"
    using named_mono [OF net_okD(2) [OF ok], of "?a + 2"] v by simp
  moreover have "members_ok (uview n') (cview n')"
    using members_new_user [OF net_okD(3) [OF ok] fresh] v by simp
  moreover have "card (dom (uview n')) = Suc (card (dom (uview n)))"
    using card_dom_new [OF named_dom_finite [OF nmd] fresh] v by simp
  moreover have "away_users (uview n') = away_users (uview n)" using away_users_new [of "uview n"] fresh v by simp
  moreover have "servers_ok N n'" by (rule servers_ok_keep [OF ok]) (use v fresh_views(3) [OF ok] in \<open>auto split: if_splits\<close>)
  ultimately have "net_ok N n'" using ok small v unfolding net_ok_def room_def by simp
  then show ?thesis using a v by simp
qed

lemma members_del_user: "members_ok U C \<Longrightarrow> U a = Some (nm, [], aw) \<Longrightarrow> members_ok (U(a := None)) C"
  unfolding members_ok_def
proof (intro conjI allI impI, goal_cases)
  case (5 c x ms k)
  show ?case
  proof
    fix b assume "b \<in> set ms"
    then obtain nm' cs' aw' where b: "U b = Some (nm', cs', aw')" "x \<in> set cs'" using 5 by blast
    then have "b \<noteq> a" using 5(2) by auto
    then show "\<exists>nm cs aw. (U(a := None)) b = Some (nm, cs, aw) \<and> x \<in> set cs" using b by auto
  qed
qed (auto split: if_splits)

lemma core_DelBot: "DelBot nick n = Some (r, n') \<Longrightarrow> core n' = core n"
  by (auto simp: DelBot_def bind_eq_Some_conv core_def uview_def [abs_def] cview_def [abs_def] sview_def [abs_def] split: option.splits)

lemma count_pred: "w = of_nat m \<Longrightarrow> Suc k = m \<Longrightarrow> (w :: uint) - 1 = of_nat k"
  by (metis add_diff_cancel_left' of_nat_Suc)

lemma deluserE:
  assumes "deluser a n = Some n'" "clients n a = Some c" "hash_lookup (userhash n) (c_name c) = Some (Some nd)"
  obtains n1 t ur n3 away n4 where "core n1 = core n"
    and "hash_delete (userhash n1) nd = Some t"
    and "user_of (n1\<lparr>userhash := t\<rparr>) a = Some ur" "u_chans ur = []"
    and "core n3 = core (n1\<lparr>userhash := t\<rparr>)"
    and "IsAway n3 a = Some away"
    and "core n4 = core (if away then n3\<lparr>awaycount := awaycount n3 - 1\<rparr> else n3)"
    and "n' = (free_client a n4)\<lparr>usercount := usercount n4 - 1\<rparr>"
proof -
  obtain me n1 t ur n3 away n4 where
    n1: "(if me then do { (_, n) \<leftarrow> DelBot (c_name c) n; Some n } else Some n) = Some n1"
    and t: "hash_delete (userhash n1) nd = Some t"
    and ur: "user_of (n1\<lparr>userhash := t\<rparr>) a = Some ur" "u_chans ur = []"
    and n3: "(if c_uplink c \<noteq> 0 then upd_server (c_uplink c) (\<lambda>s. s\<lparr>sv_users := sv_users s - 1\<rparr>) (n1\<lparr>userhash := t\<rparr>)
        else Some (n1\<lparr>userhash := t\<rparr>)) = Some n3"
    and away: "IsAway n3 a = Some away"
    and n4: "(if away
        then if c_uplink c \<noteq> 0
             then upd_server (c_uplink c) (\<lambda>s. s\<lparr>sv_awaycount := sv_awaycount s - 1\<rparr>) (n3\<lparr>awaycount := awaycount n3 - 1\<rparr>)
             else Some (n3\<lparr>awaycount := awaycount n3 - 1\<rparr>)
        else Some n3) = Some n4"
    and n': "n' = (free_client a n4)\<lparr>usercount := usercount n4 - 1\<rparr>"
    using assms
    by (clarsimp simp: deluser_def Let_def bind_eq_Some_conv hash_delete_destroy_node_def split del: if_split
      cong: if_cong)
  show thesis
  proof (rule that [OF _ t ur _ away _ n'])
    show "core n1 = core n" using n1 core_DelBot by (auto simp: bind_eq_Some_conv split: if_splits)
    show "core n3 = core (n1\<lparr>userhash := t\<rparr>)" using n3 core_upd_server by (auto split: if_splits)
    show "core n4 = core (if away then n3\<lparr>awaycount := awaycount n3 - 1\<rparr> else n3)"
      using n4 core_upd_server by (auto split: if_splits)
  qed
qed

lemma deluser_view:
  assumes ok: "net_ok N n" and a: "uview n a = Some (nm, cs, aw)" and del: "deluser a n = Some n'"
  shows "cs = [] \<and> net_ok N n' \<and> next_addr n' = next_addr n \<and> cview n' = cview n \<and> uview n' = (uview n)(a := None) \<and>
    serverhash n' = serverhash n"
proof -
  note nmd = net_okD(1) [OF ok]
  obtain c where c: "clients n a = Some c" "c_name c = nm" using a by (elim uviewE)
  have "obj (userhash n) nm = Some a" using namedD(3) [OF nmd, of a nm] a by simp
  then obtain nd where nd: "hash_lookup (userhash n) nm = Some (Some nd)" "hn_data nd = a"
    by (rule obj_node [OF namedD(1) [OF nmd]])
  have nd': "hash_lookup (userhash n) (c_name c) = Some (Some nd)" using nd(1) c(2) by simp
  obtain n1 t ur n3 away n4 where core1: "core n1 = core n" and t: "hash_delete (userhash n1) nd = Some t"
    and ur: "user_of (n1\<lparr>userhash := t\<rparr>) a = Some ur" "u_chans ur = []"
    and core3: "core n3 = core (n1\<lparr>userhash := t\<rparr>)" and away: "IsAway n3 a = Some away"
    and core4': "core n4 = core (if away then n3\<lparr>awaycount := awaycount n3 - 1\<rparr> else n3)"
    and n': "n' = (free_client a n4)\<lparr>usercount := usercount n4 - 1\<rparr>"
    by (rule deluserE [OF del c(1) nd'])
  have view3: "uview n3 = uview n" using core3 core1 by (simp add: core_eq_iff)
  have "uview (n1\<lparr>userhash := t\<rparr>) a = Some (nm, cs, aw)" using core1 a by (simp add: core_eq_iff)
  then have cs: "cs = []" using ur by (elim uviewE) auto
  have "uview n3 a = Some (nm, cs, aw)" using view3 a by simp
  moreover have "a \<noteq> 0" using namedD(5) [OF nmd, of a nm] a by simp
  ultimately have aw: "away = aw" using away by (elim uviewE) (auto simp: IsAway_def)
  have core4: "core n4 = core (if aw then n3\<lparr>awaycount := awaycount n3 - 1\<rparr> else n3)"
    using core4' aw by simp
  have v: "uview n' = (uview n)(a := None)" "cview n' = cview n"
    "userhash n' = t" "channelhash n' = channelhash n" "next_addr n' = next_addr n" "usercount n' = usercount n - 1"
    "channelcount n' = channelcount n" "awaycount n' = (if aw then awaycount n - 1 else awaycount n)"
    "sview n' = sview n" "serverhash n' = serverhash n" "servercount n' = servercount n"
  proof -
    have u4: "uview n4 = uview n" "cview n4 = cview n" "userhash n4 = t" "channelhash n4 = channelhash n"
      "next_addr n4 = next_addr n" "usercount n4 = usercount n" "channelcount n4 = channelcount n"
      "awaycount n4 = (if aw then awaycount n - 1 else awaycount n)" "sview n4 = sview n" "serverhash n4 = serverhash n"
      "servercount n4 = servercount n"
      using core4 core3 core1 by (cases aw; simp only: core_eq_iff if_True if_False; simp)+
    then show "cview n' = cview n" "userhash n' = t" "channelhash n' = channelhash n" "next_addr n' = next_addr n"
      "usercount n' = usercount n - 1" "channelcount n' = channelcount n"
      "awaycount n' = (if aw then awaycount n - 1 else awaycount n)" "serverhash n' = serverhash n"
      "servercount n' = servercount n"
      by (simp_all add: n' free_client_def)
    have "sview n a = None" using servers_okD(2) [OF net_okD(5) [OF ok]] a by simp
    then show "sview n' = sview n" using u4(9) by (simp add: n' free_client_def sview_client [of n4 a None] fun_upd_idem)
    show "uview n' = (uview n)(a := None)" using u4(1) by (simp add: n' free_client_def uview_client [of n4 a None])
  qed
  have uh: "userhash n1 = userhash n" using core1 by (simp add: core_eq_iff)
  have "named N (next_addr n) t ((uname (uview n))(a := None))"
    using named_del [OF nmd nd(1), of t] t uh nd(2) by simp
  then have "named N (next_addr n') (userhash n') (uname (uview n'))" using v uname_upd [of "uview n" a None] by simp
  moreover have "members_ok (uview n') (cview n')" using members_del_user [OF net_okD(3) [OF ok]] a cs v by simp
  moreover have fin: "finite (dom (uview n))" by (rule named_dom_finite [OF nmd])
  have card: "Suc (card (dom (uview n'))) = card (dom (uview n))" using card_dom_del [OF fin, of a] a v by simp
  then have "usercount n - 1 = of_nat (card (dom (uview n')))"
    using ok unfolding net_ok_def by (metis add_diff_cancel_left' of_nat_Suc)
  moreover have "awaycount n' = of_nat (card (away_users (uview n')))"
  proof -
    have aset: "away_users (uview n') = away_users (uview n) - {a}" "a \<in> away_users (uview n) \<longleftrightarrow> aw"
      using v a by (auto simp: away_users_def)
    have "finite (away_users (uview n))" by (rule finite_subset [OF _ fin]) (auto simp: away_users_def)
    then have "aw \<Longrightarrow> Suc (card (away_users (uview n'))) = card (away_users (uview n))"
      using aset card_Suc_Diff1 by metis
    moreover have aw0: "awaycount n = of_nat (card (away_users (uview n)))" using ok by (simp add: net_ok_def)
    ultimately have "aw \<Longrightarrow> awaycount n - 1 = of_nat (card (away_users (uview n')))" using count_pred by blast
    with aset v(8) aw0 show ?thesis by (cases aw) simp_all
  qed
  moreover have "servers_ok N n'" by (rule servers_ok_keep [OF ok]) (use v in \<open>auto split: if_splits\<close>)
  ultimately have "net_ok N n'" using ok v card unfolding net_ok_def by simp
  then show ?thesis using cs v by simp
qed

section \<open>Changing nick and going away\<close>

lemma members_same_chans:
  assumes ok: "members_ok U C" and a: "U a = Some (nm, cs, aw)"
  shows "members_ok (U(a := Some (nm', cs, aw'))) C"
proof -
  have iff: "(\<exists>nm aw. (U(a := Some (nm', cs, aw'))) b = Some (nm, ds, aw)) \<longleftrightarrow> (\<exists>nm aw. U b = Some (nm, ds, aw))" for b ds
    using a by auto
  show ?thesis
    unfolding members_ok_def
  proof (intro conjI allI impI)
    fix b nm ds aw assume "(U(a := Some (nm', cs, aw'))) b = Some (nm, ds, aw)"
    then obtain nm aw where "U b = Some (nm, ds, aw)" using iff by blast
    then show "distinct ds" "\<forall>x\<in>set ds. \<exists>c ms k. C c = Some (x, ms, k) \<and> b \<in> set ms"
      using members_okD(1,2) [OF ok] by blast+
  next
    fix c x ms k assume c: "C c = Some (x, ms, k)"
    show "distinct ms" "k = of_nat (length ms)" using members_okD(3,4) [OF ok c] by blast+
    show "\<forall>b\<in>set ms. \<exists>nm ds aw. (U(a := Some (nm', cs, aw'))) b = Some (nm, ds, aw) \<and> x \<in> set ds"
    proof
      fix b assume "b \<in> set ms"
      then obtain ds where "\<exists>nm aw. U b = Some (nm, ds, aw)" "x \<in> set ds" using members_okD(5) [OF ok c] by blast
      then show "\<exists>nm ds aw. (U(a := Some (nm', cs, aw'))) b = Some (nm, ds, aw) \<and> x \<in> set ds" using iff by blast
    qed
  qed
qed

lemma core_BotNickChange: "BotNickChange b nick n = Some (r, n') \<Longrightarrow> core n' = core n"
  by (auto simp: BotNickChange_def bind_eq_Some_conv core_def uview_def [abs_def] cview_def [abs_def] sview_def [abs_def] Let_def split: option.splits)

lemma user_of_view: "user_of n a = Some u \<Longrightarrow> \<exists>nm. uview n a = Some (nm, u_chans u, u_is_away u)"
  by (auto simp: user_of_def uview_def bind_eq_Some_conv)

lemma UserNickChange_view:
  assumes ok: "net_ok N n" and small: "next_addr n < 2 ^ 60" and nick: "strlcpy_str MAXNICK newnick \<in> N"
    and found: "FindUser n (strlcpy_str MAXNICK oldnick) = Some a" "a \<noteq> 0"
    and change: "UserNickChange E oldnick newnick ts n = Some n'"
  shows "\<exists>nm cs aw. uview n a = Some (nm, cs, aw) \<and> net_ok N n' \<and> next_addr n' = next_addr n \<and> cview n' = cview n \<and>
    uview n' = (uview n)(a := Some (strlcpy_str MAXNICK newnick, cs, aw))"
proof -
  let ?old = "strlcpy_str MAXNICK oldnick" and ?x = "strlcpy_str MAXNICK newnick"
  note nmd = net_okD(1) [OF ok]
  obtain nm cs aw where a: "uview n a = Some (nm, cs, aw)" using FindUser_view [OF ok found] by metis
  have "obj (userhash n) ?old = Some a" using FindUser_obj [OF ok, of ?old] found by (auto split: option.splits)
  then obtain nd where nd: "hash_lookup (userhash n) ?old = Some (Some nd)" "hn_data nd = a"
    by (rule obj_node [OF namedD(1) [OF nmd]])
  obtain t n1 n2 t2 where t: "hash_delete (userhash n) nd = Some t"
    and n1: "upd_client a (rename_user E newnick ts) (n\<lparr>userhash := t\<rparr>) = Some n1"
    and n2: "ns_do_exclude_user a n1 = Some n2" and t2: "hash_insert (userhash n2) nd ?x = Some t2"
    and n': "core n' = core (n2\<lparr>userhash := t2\<rparr>)"
    using change nd
    by (clarsimp simp: UserNickChange_def Let_def bind_eq_Some_conv hnode_get_def split: if_splits)
      (auto dest: core_BotNickChange)
  have core2: "core n2 = core n1" using n2 by (rule core_exclude)
  obtain c u where c: "clients n a = Some c" "c_user c = Some u" "u_chans u = cs" "u_is_away u = aw"
    using a by (elim uviewE)
  have n1': "n1 = n\<lparr>userhash := t, clients := (clients n)(a \<mapsto> rename_user E newnick ts c)\<rparr>"
    using n1 c(1) by (auto simp: upd_client_def)
  have sserv: "sview n a = None" "c_server c = None"
    using servers_okD(2) [OF net_okD(5) [OF ok], of a] a c by (auto simp: sview_def bind_eq_None_conv)
  have v1: "uview n1 = (uview n)(a := Some (?x, cs, aw))" "cview n1 = cview n" "userhash n1 = t"
    "channelhash n1 = channelhash n" "next_addr n1 = next_addr n" "usercount n1 = usercount n"
    "channelcount n1 = channelcount n" "awaycount n1 = awaycount n" "serverhash n1 = serverhash n"
    "servercount n1 = servercount n"
    using c by (simp_all add: n1' rename_user_def uview_def fun_eq_iff)
  have sv1: "sview n1 = sview n"
    using sserv by (simp add: n1' rename_user_def sview_def fun_eq_iff)
  have v: "uview n' = (uview n)(a := Some (?x, cs, aw))" "cview n' = cview n" "userhash n' = t2"
    "channelhash n' = channelhash n" "next_addr n' = next_addr n" "usercount n' = usercount n"
    "channelcount n' = channelcount n" "awaycount n' = awaycount n" "sview n' = sview n" "serverhash n' = serverhash n"
    "servercount n' = servercount n"
    using n' core2 v1 sv1 by (simp_all add: core_eq_iff)
  have th: "userhash n2 = t" using core2 v1 by (simp add: core_eq_iff)
  note d = obj_del [OF namedD(1) [OF nmd] nd(1), of t]
  have nmd1: "named N (next_addr n) t ((uname (uview n))(a := None))"
    using named_del [OF nmd nd(1), of t] t nd(2) by simp
  have "named N (next_addr n) t2 (((uname (uview n))(a := None))(hn_data nd := Some ?x))"
    by (rule named_insert [OF nmd1])
      (use d t t2 th nd(2) nick small namedD(5,6) [OF nmd, of a nm] a in auto)
  then have "named N (next_addr n') (userhash n') (uname (uview n'))"
    using v nd(2) uname_upd [of "uview n" a "Some (?x, cs, aw)"] by simp
  moreover have "members_ok (uview n') (cview n')" using members_same_chans [OF net_okD(3) [OF ok] a] v by simp
  moreover have "dom (uview n') = dom (uview n)" using v a by auto
  moreover have "away_users (uview n') = away_users (uview n)" using v a by (auto simp: away_users_def)
  moreover have "servers_ok N n'" by (rule servers_ok_keep [OF ok]) (use v a in \<open>auto split: if_splits\<close>)
  ultimately have "net_ok N n'" using ok v unfolding net_ok_def by simp
  then show ?thesis using a v by auto
qed

lemma away_delta_view:
  assumes ok: "net_ok N n" and a: "uview n a = Some (nm, cs, \<not> b)" and away: "away_delta b a n = Some n'"
  shows "net_ok N n' \<and> next_addr n' = next_addr n \<and> cview n' = cview n \<and> uview n' = (uview n)(a := Some (nm, cs, b))"
proof -
  obtain c u where c: "clients n a = Some c" "c_user c = Some u" "c_name c = nm" "u_chans u = cs" using a by (elim uviewE)
  obtain n1 where n1: "upd_user a (\<lambda>r. r\<lparr>u_is_away := b\<rparr>) n = Some n1"
    using away by (auto simp: away_delta_def bind_eq_Some_conv)
  then have core: "core n' = core (n1\<lparr>awaycount := (if b then awaycount n1 + 1 else awaycount n1 - 1)\<rparr>)"
    using away by (auto simp: away_delta_def bind_eq_Some_conv Let_def dest!: core_upd_server)
  have "n1 = n\<lparr>clients := (clients n)(a \<mapsto> c\<lparr>c_user := Some (u\<lparr>u_is_away := b\<rparr>)\<rparr>)\<rparr>"
    using n1 c by (auto simp: upd_user_def upd_client_def user_of_def bind_eq_Some_conv)
  then have v: "uview n' = (uview n)(a := Some (nm, cs, b))" "cview n' = cview n" "userhash n' = userhash n"
    "channelhash n' = channelhash n" "next_addr n' = next_addr n" "usercount n' = usercount n"
    "channelcount n' = channelcount n" "awaycount n' = (if b then awaycount n + 1 else awaycount n - 1)"
    "sview n' = sview n" "serverhash n' = serverhash n" "servercount n' = servercount n"
    using core c by (simp_all add: core_eq_iff sview_def uview_def fun_eq_iff)
  note nmd = net_okD(1) [OF ok]
  have "named N (next_addr n') (userhash n') (uname (uview n'))"
    using nmd v fun_upd_name [of "uview n", OF a] by simp
  moreover have "members_ok (uview n') (cview n')" using members_same_chans [OF net_okD(3) [OF ok] a] v by simp
  moreover have "dom (uview n') = dom (uview n)" using v a by auto
  moreover have "awaycount n' = of_nat (card (away_users (uview n')))"
  proof -
    have fin: "finite (away_users (uview n))"
      by (rule finite_subset [OF _ named_dom_finite [OF nmd]]) (auto simp: away_users_def)
    have aw0: "awaycount n = of_nat (card (away_users (uview n)))" using ok by (simp add: net_ok_def)
    show ?thesis
    proof (cases b)
      case True
      then have "away_users (uview n') = insert a (away_users (uview n))" "a \<notin> away_users (uview n)"
        using v a by (auto simp: away_users_def)
      then show ?thesis using True aw0 v fin by simp
    next
      case False
      then have "away_users (uview n') = away_users (uview n) - {a}" "a \<in> away_users (uview n)"
        using v a by (auto simp: away_users_def)
      then have "Suc (card (away_users (uview n'))) = card (away_users (uview n))"
        using card_Suc_Diff1 [OF fin] by simp
      then show ?thesis using False v count_pred [OF aw0] by simp
    qed
  qed
  moreover have "servers_ok N n'" by (rule servers_ok_keep [OF ok]) (use v a in \<open>auto split: if_splits\<close>)
  ultimately have "net_ok N n'" using ok v unfolding net_ok_def by simp
  then show ?thesis using v by simp
qed

end
