(* ===== verification/NetOps.thy ===== *)
theory NetOps
  imports NetState
begin

text \<open>
  The handlers of the core as steps of one state machine, and the properties of its reachable
  states: the tables, the member lists and the counters agree whatever sequence of lines arrives.
\<close>

section \<open>Parting\<close>

text \<open>
  What a part can do: users stay, under their names, on a subset of their channels; the table
  of servers stays as it is.
\<close>

definition shrinks :: "net \<Rightarrow> net \<Rightarrow> bool" where
  "shrinks n n' \<longleftrightarrow> next_addr n' = next_addr n \<and> serverhash n' = serverhash n \<and> dom (uview n') = dom (uview n) \<and>
     (\<forall>a nm cs aw. uview n a = Some (nm, cs, aw) \<longrightarrow> (\<exists>cs'. uview n' a = Some (nm, cs', aw) \<and> set cs' \<subseteq> set cs))"

lemma shrinks_refl [simp]: "shrinks n n"
  by (auto simp: shrinks_def)

lemma shrinks_trans: "shrinks n n' \<Longrightarrow> shrinks n' n'' \<Longrightarrow> shrinks n n''"
  unfolding shrinks_def
proof (intro conjI allI impI, goal_cases)
  case (4 a nm cs aw)
  then obtain cs' where cs': "uview n' a = Some (nm, cs', aw)" "set cs' \<subseteq> set cs" by blast
  then obtain cs'' where "uview n'' a = Some (nm, cs'', aw)" "set cs'' \<subseteq> set cs'" using 4 by blast
  with cs' show ?case by blast
qed simp_all

lemma shrinks_core: "core n' = core n \<Longrightarrow> shrinks n n'"
  by (auto simp: shrinks_def core_eq_iff)

lemma shrinks_eq: "next_addr n' = next_addr n \<Longrightarrow> serverhash n' = serverhash n \<Longrightarrow> uview n' = uview n \<Longrightarrow> shrinks n n'"
  by (auto simp: shrinks_def)

text \<open>No channel is without a member, the one being left excepted.\<close>

definition peopled_but :: "addr \<Rightarrow> net \<Rightarrow> bool" where
  "peopled_but d n \<longleftrightarrow> (\<forall>c x ms k. cview n c = Some (x, ms, k) \<longrightarrow> c \<noteq> d \<longrightarrow> ms \<noteq> [])"

definition good :: "string set \<Rightarrow> net \<Rightarrow> bool" where
  "good N n \<longleftrightarrow> net_ok N n \<and> peopled_but 0 n"

lemma good_core: "good N n \<Longrightarrow> core n' = core n \<Longrightarrow> good N n'"
  unfolding good_def peopled_but_def using core_ok by (auto simp: core_eq_iff)

lemma good_same_chans: "good N n \<Longrightarrow> net_ok N n' \<Longrightarrow> cview n' = cview n \<Longrightarrow> good N n'"
  by (simp add: good_def peopled_but_def)

lemma good_ok: "good N n \<Longrightarrow> net_ok N n"
  by (simp add: good_def)

text \<open>What every part keeps.\<close>

definition keeps :: "string set \<Rightarrow> net \<Rightarrow> net \<Rightarrow> bool" where
  "keeps N n n' \<longleftrightarrow> good N n' \<and> shrinks n n'"

lemma keeps_core: "good N n \<Longrightarrow> core n' = core n \<Longrightarrow> keeps N n n'"
  using good_core shrinks_core unfolding keeps_def by blast

lemma keeps_trans: "keeps N n n' \<Longrightarrow> keeps N n' n'' \<Longrightarrow> keeps N n n''"
  unfolding keeps_def using shrinks_trans by blast

lemma keeps_good: "keeps N n n' \<Longrightarrow> good N n'"
  by (simp add: keeps_def)

lemma keeps_refl: "good N n \<Longrightarrow> keeps N n n"
  by (simp add: keeps_def)

definition part_keeps :: "string set \<Rightarrow> part_fun \<Rightarrow> bool" where
  "part_keeps N part \<longleftrightarrow> (\<forall>u chan reason n n'. good N n \<longrightarrow> part u chan reason n = Some n' \<longrightarrow> keeps N n n')"

lemma scan_table_keeps:
  assumes step: "\<And>a n stop n'. P n \<Longrightarrow> step a n = Some (stop, n') \<Longrightarrow> P n'"
  shows "P n \<Longrightarrow> scan_table tbl step k scan n = Some n' \<Longrightarrow> P n'"
proof (induction k arbitrary: scan n)
  case (Suc k)
  then obtain r scan' where r: "hash_scan_next (tbl n) scan = Some (r, scan')"
    by (auto simp: bind_eq_Some_conv)
  show ?case
  proof (cases r)
    case (Some nd)
    then obtain stop n1 where n1: "step (hnode_get nd) n = Some (stop, n1)"
      "(if stop then Some n1 else scan_table tbl step k scan' n1) = Some n'"
      using Suc.prems(2) r by (auto simp: bind_eq_Some_conv)
    then have "P n1" using step Suc.prems(1) by blast
    then show ?thesis using n1(2) Suc.IH by (auto split: if_splits)
  qed (use Suc.prems r in simp)
qed simp

lemma core_send_to_bot: "send_to_bot ev p u n = Some n' \<Longrightarrow> core n' = core n"
  by (auto simp: send_to_bot_def bind_eq_Some_conv)

lemma core_zombie_kick: "zombie_kick c u n = Some n' \<Longrightarrow> core n' = core n"
proof -
  assume "zombie_kick c u n = Some n'"
  then obtain n1 where n1: "upd_client u (\<lambda>r. r\<lparr>c_flags := clear_flag (c_flags r) CLIENT_FLAG_ZOMBIE\<rparr>) n = Some n1"
    and n': "core n' = core n1"
    by (auto simp: zombie_kick_def bind_eq_Some_conv Let_def dest!: core_send_to_bot split: if_splits)
  have "core n1 = core n" by (rule core_upd_client [OF n1]) simp
  with n' show ?thesis by simp
qed

lemma irc_part_keeps:
  assumes part: "part_keeps N part" and ok: "good N n" and res: "irc_part E part b chan q n = Some (r, n')"
  shows "keeps N n n'"
proof (cases "can_send_part E")
  case True
  obtain c where c: "FindChannel n chan = Some c" using res True by (auto simp: irc_part_def bind_eq_Some_conv)
  obtain bt where bt: "bots n b = Some bt" using res True by (auto simp: irc_part_def bind_eq_Some_conv)
  obtain n1 where n1: "(if has (b_flags bt) BOT_FLAG_PERSIST
       then upd_chan c (\<lambda>ch. ch\<lparr>ch_persistentusers := ch_persistentusers ch - 1\<rparr>) n else Some n) = Some n1"
    using res True c bt by (clarsimp simp: irc_part_def bind_eq_Some_conv split del: if_split)
  obtain u where u: "clients n1 (b_u bt) = Some u"
    using res True c bt n1 by (clarsimp simp: irc_part_def bind_eq_Some_conv split del: if_split)
  define x where "x = Send ''PART'' [c_name u, chan, case q of None \<Rightarrow> '''' | Some q \<Rightarrow> q]"
  have n': "part (b_u bt) chan q (emit x n1) = Some n'"
    using res True c bt n1 u by (clarsimp simp: irc_part_def x_def bind_eq_Some_conv Let_def split del: if_split)
  have "core n1 = core n" using n1 by (auto split: if_splits elim!: core_upd_chan)
  then have core: "core (emit x n1) = core n" by simp
  show ?thesis using part n' good_core [OF ok core] keeps_core [OF ok core] keeps_trans unfolding part_keeps_def by blast
qed (use ok res keeps_refl in \<open>auto simp: irc_part_def\<close>)

lemma handle_dead_channel_keeps:
  assumes part: "part_keeps N part" and ok: "good N n" and res: "handle_dead_channel E part c n = Some n'"
  shows "keeps N n n'"
proof -
  have step: "\<And>b m stop m'. keeps N n m \<Longrightarrow> dead_channel_bot E part c b m = Some (stop, m') \<Longrightarrow> keeps N n m'"
  proof -
    fix b m stop m' assume k0: "keeps N n m" and st: "dead_channel_bot E part c b m = Some (stop, m')"
    obtain bt u hit ch where hit: "bots m b = Some bt" "user_of m (b_u bt) = Some u" "on_channel m c (u_chans u) = Some hit"
      and rest: "if hit then channels m c = Some ch else m' = m"
      using st by (auto simp: dead_channel_bot_def bind_eq_Some_conv split: if_splits)
    show "keeps N n m'"
    proof (cases hit)
      case True
      then obtain r m1 where m1: "irc_part E part b (ch_name ch) None m = Some (r, m1)" and "core m' = core m1"
        using st hit rest by (auto simp: dead_channel_bot_def bind_eq_Some_conv)
      have "keeps N m m1" by (rule irc_part_keeps [OF part keeps_good [OF k0] m1])
      then show ?thesis using k0 keeps_core [OF keeps_good \<open>core m' = core m1\<close>] keeps_trans by blast
    qed (use rest k0 in simp)
  qed
  obtain k scan where "n' = n \<or> scan_table bothash (dead_channel_bot E part c) k scan n = Some n'"
    using res by (auto simp: handle_dead_channel_def bind_eq_Some_conv split: if_splits)
  then show ?thesis
  proof
    assume "scan_table bothash (dead_channel_bot E part c) k scan n = Some n'"
    then show ?thesis by (rule scan_table_keeps [where P = "keeps N n", rotated 2]) (erule (1) step, rule keeps_refl [OF ok])
  qed (simp add: keeps_refl [OF ok])
qed

lemma CheckEmptyChannel_keeps:
  assumes part: "part_keeps N part" and ok: "net_ok N n" and others: "peopled_but c n"
    and res: "CheckEmptyChannel E part c n = Some n'"
  shows "keeps N n n'"
proof -
  obtain ch where ch: "channels n c = Some ch" using res by (auto simp: CheckEmptyChannel_def bind_eq_Some_conv)
  have c: "cview n c = Some (ch_name ch, map cm_u (ch_members ch), ch_users ch)" using ch by (simp add: cview_def)
  show ?thesis
  proof (cases "ch_users ch = 0")
    case True
    then have "del_chan c n = Some n'" using res ch by (simp add: CheckEmptyChannel_def)
    from del_chan_view [OF ok this] others show ?thesis
      by (auto simp: keeps_def good_def peopled_but_def intro: shrinks_eq split: if_splits)
  next
    case False
    then have "ch_members ch \<noteq> []" using members_okD(4) [OF net_okD(3) [OF ok] c] by auto
    then have good: "good N n" using ok others c unfolding good_def peopled_but_def by (metis list.map_disc_iff old.prod.inject option.inject)
    then show ?thesis
      using handle_dead_channel_keeps [OF part good] keeps_refl [OF good] res ch False
      by (auto simp: CheckEmptyChannel_def split: if_splits)
  qed
qed

lemma leave_keeps:
  assumes ok: "good N n" and N: "coherent N" and c: "cview n c = Some (x, ms, k)"
    and n1: "del_user_channel c u n = Some n1" and n2: "del_channel_member c u n1 = Some n2"
  shows "net_ok N n2" "shrinks n n2" "peopled_but c n2"
proof -
  obtain r where "user_of n u = Some r" using n1 by (auto simp: del_user_channel_def upd_user_def bind_eq_Some_conv)
  then obtain nm cs aw where u: "uview n u = Some (nm, cs, aw)" by (auto dest: user_of_view)
  obtain m1 m2 where m: "del_user_channel c u n = Some m1" "del_channel_member c u m1 = Some m2" "net_ok N m2"
    "uview m2 = (uview n)(u := Some (nm, remove1 x cs, aw))" "same_rest n m2"
    "cview m2 = (cview n)(c := Some (x, remove1 u ms, of_nat (length (remove1 u ms))))"
    using leave_channel [OF good_ok [OF ok] N u c] by blast
  then have eq: "m2 = n2" using n1 n2 by simp
  show "net_ok N n2" using m(3) eq by simp
  show "shrinks n n2" using m(4) u same_restD(2,6) [OF m(5)] set_remove1_subset [of x cs] eq by (auto simp: shrinks_def)
  have nz: "d \<noteq> 0" if "cview n d = Some (y, ds, j)" for d y ds j
    using namedD(5) [OF net_okD(2) [OF good_ok [OF ok]], of d y] that by simp
  show "peopled_but c n2"
    unfolding peopled_but_def
  proof (intro allI impI)
    fix d y ds j assume "cview n2 d = Some (y, ds, j)" "d \<noteq> c"
    then have "cview n d = Some (y, ds, j)" using m(6) eq by simp
    with nz ok show "ds \<noteq> []" unfolding good_def peopled_but_def by blast
  qed
qed

lemma peopled_core: "core n' = core n \<Longrightarrow> peopled_but c n \<Longrightarrow> peopled_but c n'"
  by (simp add: core_eq_iff peopled_but_def)

lemma part_body_keeps:
  assumes part: "part_keeps N part" and N: "coherent N" and ok: "good N n" and res: "part_body E part u chan reason n = Some n'"
  shows "keeps N n n'"
proof -
  obtain cl c where cl: "clients n u = Some cl" and c: "FindChannel n chan = Some c"
    using res by (auto simp: part_body_def bind_eq_Some_conv)
  show ?thesis
  proof (cases "c = 0")
    case True
    then show ?thesis using res cl c keeps_refl [OF ok] by (simp add: part_body_def)
  next
    case False
    define p where "p = no_params\<lparr>cp_channel := c, cp_source := u, cp_param := reason\<rparr>"
    obtain n1 n2 n3 me n4 where n1: "del_user_channel c u n = Some n1" and n2: "del_channel_member c u n1 = Some n2"
      and n3: "(if has (c_flags cl) CLIENT_FLAG_ZOMBIE then zombie_kick c u n2 else Some n2) = Some n3"
      and n4: "(if me then do { n \<leftarrow> send_to_bot EVENT_PARTBOT p u (SendAllModuleEvent EVENT_PART p n3);
          upd_chan c (\<lambda>ch. ch\<lparr>ch_neousers := ch_neousers ch - 1\<rparr>) n }
        else Some (SendAllModuleEvent EVENT_PART p n3)) = Some n4"
      and n': "CheckEmptyChannel E part c n4 = Some n'"
      using res cl c False
      by (clarsimp simp: part_body_def bind_eq_Some_conv Let_def p_def [symmetric] split del: if_split)
    have c4: "core n4 = core n3"
      using n4 by (auto simp: bind_eq_Some_conv split: if_splits dest!: core_send_to_bot) (drule core_upd_chan; simp)
    obtain x ms k where x: "cview n c = Some (x, ms, k)" using FindChannel_view [OF good_ok [OF ok] c False] by metis
    note k = leave_keeps [OF ok N x n1 n2]
    have core: "core n4 = core n2" using n3 c4 core_zombie_kick by (auto split: if_splits)
    have "keeps N n4 n'"
      by (rule CheckEmptyChannel_keeps [OF part core_ok [OF core k(1)] peopled_core [OF core k(3)] n'])
    then show ?thesis using shrinks_trans [OF k(2)] shrinks_trans [OF shrinks_core [OF core]] by (auto simp: keeps_def)
  qed
qed

lemma part_depth_keeps: "coherent N \<Longrightarrow> part_keeps N (part_depth E k)"
proof (induction k)
  case 0
  show ?case by (simp add: part_keeps_def)
next
  case (Suc k)
  then show ?case using part_body_keeps unfolding part_keeps_def by (metis part_depth.simps(2))
qed

lemma PartChannel_keeps: "coherent N \<Longrightarrow> good N n \<Longrightarrow> PartChannel E u chan reason n = Some n' \<Longrightarrow> keeps N n n'"
  using part_depth_keeps unfolding PartChannel_def part_keeps_def by blast

lemma part_each_keeps:
  "coherent N \<Longrightarrow> good N n \<Longrightarrow> part_each E u reason xs n = Some n' \<Longrightarrow> keeps N n n'"
proof (induction E u reason xs n rule: part_each.induct)
  case (1 E u reason n)
  then show ?case by (simp add: keeps_refl)
next
  case (2 E u reason x xs n)
  obtain r n1 where r: "user_of n u = Some r" "x \<in> set (u_chans r)" and n1: "PartChannel E u x reason n = Some n1"
    and n': "part_each E u reason xs n1 = Some n'"
    using "2.prems"(3) by (auto simp: bind_eq_Some_conv)
  have k: "keeps N n n1" by (rule PartChannel_keeps [OF "2.prems"(1,2) n1])
  have "keeps N n1 n'" using "2.IH" [OF r(1) _ n1 "2.prems"(1) keeps_good [OF k] n'] r(2) by simp
  with k show ?case by (rule keeps_trans)
qed

lemma PartAllChannels_keeps:
  "coherent N \<Longrightarrow> good N n \<Longrightarrow> PartAllChannels E u reason n = Some n' \<Longrightarrow> keeps N n n'"
  by (auto simp: PartAllChannels_def bind_eq_Some_conv Let_def elim: part_each_keeps)

section \<open>The other handlers\<close>

lemma KickChannel_good:
  assumes N: "coherent N" and ok: "good N n" and res: "KickChannel E kickby chan kicked why n = Some n'"
  shows "good N n'"
proof -
  obtain u c where u: "FindUser n kicked = Some u" and c: "u \<noteq> 0 \<Longrightarrow> FindChannel n chan = Some c"
    using res by (auto simp: KickChannel_def bind_eq_Some_conv split: if_splits)
  consider "u = 0 \<or> c = 0" | "u \<noteq> 0" "c \<noteq> 0" "has (ircd_protocol E) PROTOCOL_KICKPART"
    | "u \<noteq> 0" "c \<noteq> 0" "\<not> has (ircd_protocol E) PROTOCOL_KICKPART" by blast
  then show ?thesis
  proof cases
    case 1
    then have "n' = n" using res u c by (cases "u = 0") (auto simp: KickChannel_def)
    then show ?thesis using ok by simp
  next
    case 2
    then obtain n1 a b where n1: "upd_client u (\<lambda>r. r\<lparr>c_flags := set_flag (c_flags r) CLIENT_FLAG_ZOMBIE\<rparr>) n = Some n1"
      and n': "n' = n1\<lparr>savekicker := a, savekickreason := b\<rparr>"
      using res u c by (auto simp: KickChannel_def bind_eq_Some_conv)
    have "core n1 = core n" by (rule core_upd_client [OF n1]) simp
    then have "core n' = core n" by (simp add: n' core_eq_iff)
    then show ?thesis by (rule good_core [OF ok])
  next
    case 3
    obtain n1 n2 s0 src where n1: "del_user_channel c u n = Some n1" and n2: "del_channel_member c u n1 = Some n2"
      and s0: "FindUser n2 kickby = Some s0" "(if s0 = 0 then FindServer n2 kickby else Some s0) = Some src"
      using res u c 3 by (clarsimp simp: KickChannel_def bind_eq_Some_conv Let_def split del: if_split)
    define p where "p = no_params\<lparr>cp_target := u, cp_channel := c, cp_source := src, cp_param := why\<rparr>"
    define n3 where "n3 = SendAllModuleEvent EVENT_KICK p n2"
    obtain me where me: "IsMe n3 u = Some me"
      using res u c 3 n1 n2 s0
      by (clarsimp simp: KickChannel_def bind_eq_Some_conv Let_def p_def n3_def split del: if_split)
    obtain n4 where core: "core n4 = core n3" and n': "CheckEmptyChannel E (part_depth E (part_fuel n4)) c n4 = Some n'"
      using res u c 3 n1 n2 s0 me
      by (cases me) (auto simp: KickChannel_def bind_eq_Some_conv p_def [symmetric] n3_def [symmetric] Let_def
        dest!: core_send_to_bot)
    have core: "core n4 = core n2" using core by (simp add: n3_def)
    obtain x ms k where x: "cview n c = Some (x, ms, k)" using FindChannel_view [OF good_ok [OF ok] c [OF 3(1)] 3(2)] by metis
    note k = leave_keeps [OF ok N x n1 n2]
    show ?thesis
      by (rule keeps_good [OF CheckEmptyChannel_keeps [OF part_depth_keeps [OF N] core_ok [OF core k(1)] peopled_core [OF core k(3)] n']])
  qed
qed

lemma found_or_new_chan:
  assumes ok: "good N n" and small: "room n" and x: "strlcpy_str MAXCHANLEN chan \<in> N" and c0: "FindChannel n chan = Some c0"
    and c: "(if c0 = 0 then new_chan E chan n else Some (c0, n)) = Some (c, n1)" "c \<noteq> 0"
  shows "net_ok N n1 \<and> next_addr n1 \<le> next_addr n + 2 \<and> uview n1 = uview n \<and> peopled_but c n1 \<and>
    (\<exists>x ms k. cview n1 c = Some (x, ms, k))"
proof -
  have nz: "d \<noteq> 0" if "cview n d = Some (y, ds, j)" for d y ds j
    using namedD(5) [OF net_okD(2) [OF good_ok [OF ok]], of d y] that by simp
  have others: "peopled_but d n" for d
    using ok nz unfolding good_def peopled_but_def by blast
  show ?thesis
  proof (cases "c0 = 0")
    case True
    then have "new_chan E chan n = Some (c, n1)" using c by simp
    from new_chan_view [OF good_ok [OF ok] _ x this c(2)] small
    have v: "net_ok N n1" "next_addr n1 = next_addr n + 2" "uview n1 = uview n"
      "cview n1 = (cview n)(c := Some (strlcpy_str MAXCHANLEN chan, [], 0))"
      by (simp_all add: room_def)
    have "peopled_but c n1" using others [of c] v(4) by (simp add: peopled_but_def)
    then show ?thesis using v by simp
  next
    case False
    then have "c0 = c" "n1 = n" using c by simp_all
    moreover obtain x ms k where "cview n c0 = Some (x, ms, k)" using FindChannel_view [OF good_ok [OF ok] c0 False] by metis
    ultimately show ?thesis using good_ok [OF ok] others by simp
  qed
qed

text \<open>Joining allocates two objects at most, and no user comes or goes.\<close>

lemma JoinChannel_grows:
  assumes N: "coherent N" and ok: "good N n" and small: "room n" and x: "strlcpy_str MAXCHANLEN chan \<in> N"
    and res: "JoinChannel E nick chan n = Some n'"
  shows "good N n' \<and> next_addr n' \<le> next_addr n + 2 \<and> dom (uview n') = dom (uview n)"
proof -
  obtain u where u: "FindUser n nick = Some u" using res by (auto simp: JoinChannel_def bind_eq_Some_conv)
  consider "u = 0" | "u \<noteq> 0" "irc_eq ''0'' chan" | "u \<noteq> 0" "\<not> irc_eq ''0'' chan" by blast
  then show ?thesis
  proof cases
    case 1
    then show ?thesis using res u ok by (simp add: JoinChannel_def)
  next
    case 2
    then have "PartAllChannels E u None n = Some n'" using res u by (simp add: JoinChannel_def)
    from PartAllChannels_keeps [OF N ok this] show ?thesis by (simp add: keeps_def shrinks_def)
  next
    case 3
    then obtain c0 c n1 where c0: "FindChannel n chan = Some c0"
      and c: "(if c0 = 0 then new_chan E chan n else Some (c0, n)) = Some (c, n1)"
      and n': "join_member E nick u c n1 = Some n'"
      using res u by (clarsimp simp: JoinChannel_def bind_eq_Some_conv split del: if_split)
    obtain nm cs aw where a: "uview n u = Some (nm, cs, aw)" "irc_key nm nick" using FindUser_view [OF good_ok [OF ok] u 3(1)] by metis
    have c1: "c \<noteq> 0"
    proof
      assume "c = 0"
      moreover have "next_addr n \<noteq> 0" using net_okD(4) [OF good_ok [OF ok]] by simp
      ultimately have "n1 = n" using c by (auto simp: new_chan_def Let_def alloc_def bind_eq_Some_conv split: if_splits)
      moreover have "channels n 0 = None"
        using namedD(5) [OF net_okD(2) [OF good_ok [OF ok]], of 0] by (cases "channels n 0") (auto simp: cview_def)
      ultimately show False using n' \<open>c = 0\<close> by (simp add: join_member_def)
    qed
    note conj = found_or_new_chan [OF ok small x c0 c c1]
    from conj have n1: "net_ok N n1" "next_addr n1 \<le> next_addr n + 2" "uview n1 = uview n" "peopled_but c n1" by blast+
    obtain x ms k where cx: "cview n1 c = Some (x, ms, k)" using conj by blast
    have a1: "uview n1 u = Some (nm, cs, aw)" using n1(3) a(1) by simp
    have f1: "FindUser n1 nick = Some u" using FindUser_iff [OF n1(1) 3(1)] a1 a(2) by blast
    have "next_addr n1 < 2 ^ 61" using n1(2) small by (simp add: room_def)
    from join_member_view [OF n1(1) N this a1 f1 cx, of E] n'
    have v: "net_ok N n'" "next_addr n' = next_addr n1" "dom (uview n') = dom (uview n1)" "cview n' = (if u \<in> set ms then cview n1 else (cview n1)(c := Some (x, ms @ [u], k + 1)))"
      using a1 by (auto split: if_splits)
    have "ds \<noteq> []" if d: "cview n' d = Some (y, ds, j)" for d y ds j
    proof (cases "d = c")
      case True
      then show ?thesis using v(4) d cx by (cases "u \<in> set ms") auto
    next
      case False
      then have "cview n1 d = Some (y, ds, j)" using v(4) d by (simp split: if_splits)
      then show ?thesis using n1(4) False unfolding peopled_but_def by blast
    qed
    then have "good N n'" using v(1) unfolding good_def peopled_but_def by blast
    then show ?thesis using v(2,3) n1(2,3) by simp
  qed
qed

lemma JoinChannel_good:
  "coherent N \<Longrightarrow> good N n \<Longrightarrow> room n \<Longrightarrow> strlcpy_str MAXCHANLEN chan \<in> N \<Longrightarrow> JoinChannel E nick chan n = Some n' \<Longrightarrow> good N n'"
  using JoinChannel_grows by blast

section \<open>Results of a handler\<close>

text \<open>
  Every result of a handler has the property: a statement about a chain of calls reduces to
  one about its first call. The rules are collected in \<open>results\<close>.
\<close>

definition ends :: "'a option \<Rightarrow> ('a \<Rightarrow> bool) \<Rightarrow> bool" where
  "ends m Q \<longleftrightarrow> (\<forall>r. m = Some r \<longrightarrow> Q r)"

lemma endsD: "ends m Q \<Longrightarrow> m = Some r \<Longrightarrow> Q r"
  by (simp add: ends_def)

lemma ends_rules:
  "Q x \<Longrightarrow> ends (Some x) Q"
  "ends None Q'"
  "ends m1 (\<lambda>x. ends (f x) Q1) \<Longrightarrow> ends (Option.bind m1 f) Q1"
  "(b \<Longrightarrow> ends m2 Q2) \<Longrightarrow> (\<not> b \<Longrightarrow> ends m3 Q2) \<Longrightarrow> ends (if b then m2 else m3) Q2"
  "(\<And>a b. p = (a, b) \<Longrightarrow> ends (g a b) Q3) \<Longrightarrow> ends (case p of (a, b) \<Rightarrow> g a b) Q3"
  "(o1 = None \<Longrightarrow> ends m4 Q4) \<Longrightarrow> (\<And>v. o1 = Some v \<Longrightarrow> ends (h v) Q4) \<Longrightarrow> ends (case o1 of None \<Rightarrow> m4 | Some v \<Rightarrow> h v) Q4"
  by (auto simp: ends_def bind_eq_Some_conv split: if_splits option.splits prod.splits)

lemma ends_any: "(\<And>x. m = Some x \<Longrightarrow> Q x) \<Longrightarrow> ends m Q"
  by (simp add: ends_def)

lemmas ends_reads = ends_any [where m = "clients n a" for n a] ends_any [where m = "channels n c" for n c]
  ends_any [where m = "user_of n a" for n a] ends_any [where m = "bots n a" for n a] ends_any [where m = "FindUser n k" for n k]
  ends_any [where m = "FindChannel n k" for n k] ends_any [where m = "FindServer n k" for n k]
  ends_any [where m = "FindClient n k" for n k] ends_any [where m = "IsMe n a" for n a] ends_any [where m = "IsAway n a" for n a]
  ends_any [where m = "IsSynched n a" for n a] ends_any [where m = "IsExcluded n a" for n a]
  ends_any [where m = "hash_lookup h k" for h k] ends_any [where m = "nassert b" for b]
  ends_any [where m = "reason_from r k" for r k] ends_any [where m = "those xs" for xs] ends_any [where m = "joinbuf av k" for av k]
  ends_any [where m = "arg av i" for av i]

lemma ends_core:
  "(\<And>c. clients n a = Some c \<Longrightarrow> c_name (f c) = c_name c \<and>
      (c_server (f c) = None) = (c_server c = None) \<and>
      map_option (\<lambda>u. (u_chans u, u_is_away u)) (c_user (f c)) = map_option (\<lambda>u. (u_chans u, u_is_away u)) (c_user c)) \<Longrightarrow>
    (\<And>n'. core n' = core n \<Longrightarrow> Q1 n') \<Longrightarrow> ends (upd_client a f n) Q1"
  "(\<And>u. user_of n a = Some u \<Longrightarrow> u_chans (g u) = u_chans u \<and> u_is_away (g u) = u_is_away u) \<Longrightarrow>
    (\<And>n'. core n' = core n \<Longrightarrow> Q2 n') \<Longrightarrow> ends (upd_user a g n) Q2"
  "(\<And>n'. core n' = core n \<Longrightarrow> Q3 n') \<Longrightarrow> ends (upd_server a h n) Q3"
  "(\<And>c. channels n a = Some c \<Longrightarrow>
      ch_name (k c) = ch_name c \<and> map cm_u (ch_members (k c)) = map cm_u (ch_members c) \<and> ch_users (k c) = ch_users c) \<Longrightarrow>
    (\<And>n'. core n' = core n \<Longrightarrow> Q4 n') \<Longrightarrow> ends (upd_chan a k n) Q4"
  "(\<And>n'. core n' = core n \<Longrightarrow> Q5 n') \<Longrightarrow> ends (ns_do_exclude_user a n) Q5"
  "(\<And>n'. core n' = core n \<Longrightarrow> Q6 n') \<Longrightarrow> ends (ns_do_exclude_server a n) Q6"
  "(\<And>n'. core n' = core n \<Longrightarrow> Q7 n') \<Longrightarrow> ends (send_to_bot e p u n) Q7"
  using core_upd_client [of a f n] core_upd_user [of a g n] core_upd_server [of a h n] core_upd_chan [of a k n]
    core_exclude [of a n] core_send_to_bot [of e p u n]
  unfolding ends_def by blast+

lemmas results = ends_rules ends_reads ends_core

lemma ends_mono: "ends m P \<Longrightarrow> (\<And>x. P x \<Longrightarrow> Q x) \<Longrightarrow> ends m Q"
  by (auto simp: ends_def)

lemma ends_more:
  "(\<And>n'. core n' = core n \<Longrightarrow> Q1 n') \<Longrightarrow> ends (netjoin E u up n) Q1"
  "(\<And>r n'. core n' = core n \<Longrightarrow> Q2 (r, n')) \<Longrightarrow> ends (set_nick_base64 nick b64 n) Q2"
  "(\<And>r n'. core n' = core n \<Longrightarrow> Q2 (r, n')) \<Longrightarrow> ends (DelBot nick n) Q2"
  "(\<And>r n'. core n' = core n \<Longrightarrow> Q2 (r, n')) \<Longrightarrow> ends (BotNickChange b nick n) Q2"
proof -
  have "ends (netjoin E u up n) (\<lambda>n'. core n' = core n)" unfolding netjoin_def by (auto intro!: results)
  then show "(\<And>n'. core n' = core n \<Longrightarrow> Q1 n') \<Longrightarrow> ends (netjoin E u up n) Q1" by (rule ends_mono)
  have "ends (set_nick_base64 nick b64 n) (\<lambda>(r, n'). core n' = core n)"
    unfolding set_nick_base64_def by (auto intro!: results)
  then show "(\<And>r n'. core n' = core n \<Longrightarrow> Q2 (r, n')) \<Longrightarrow> ends (set_nick_base64 nick b64 n) Q2" by (rule ends_mono) auto
qed (use core_DelBot core_BotNickChange in \<open>auto simp: ends_def\<close>)

lemmas results' = results ends_more

lemma core_user_ip: "user_ip E name host ip n = (a, n') \<Longrightarrow> core n' = core n"
  by (auto simp: user_ip_def process_ip_def split: option.splits if_splits)

section \<open>Users\<close>

lemma set_umode_view [simp]: "u_chans (set_umode E m modes u) = u_chans u" "u_is_away (set_umode E m modes u) = u_is_away u"
  by (simp_all add: set_umode_def Let_def)

text \<open>Handlers that change neither the tables nor the memberships.\<close>

lemma core_handlers:
  "ends (UserMode E um nick modes n) (\<lambda>n'. core n' = core n)"
  "ends (UserSMode sm nick modes n) (\<lambda>n'. core n' = core n)"
  "ends (SetUserVhost E nick vhost n) (\<lambda>n'. core n' = core n)"
  "ends (SetUserServicesTS E nick ts n) (\<lambda>n'. core n' = core n)"
  "ends (SetUserVersion a v n) (\<lambda>n'. core n' = core n)"
  "ends (lookupnickip E nick ans n) (\<lambda>n'. core n' = core n)"
  "ends (ChannelTopic E chan own tt topic n) (\<lambda>n'. core n' = core n)"
  unfolding UserMode_def UserSMode_def SetUserVhost_def SetUserServicesTS_def SetUserVersion_def lookupnickip_def
    ChannelTopic_def
  by (auto intro!: results)

lemma good_new_user:
  assumes "good N n" "room n" "strlcpy_str MAXNICK nick \<in> N" "new_user nick n = Some (a, n1)" "a \<noteq> 0"
  shows "good N n1" "uview n1 a = Some (strlcpy_str MAXNICK nick, [], False)"
  using new_user_view [OF good_ok [OF assms(1)] assms(2-5)] assms(1) by (simp_all add: good_def peopled_but_def)

lemma new_user_chans:
  "user_of n a = Some r \<Longrightarrow> core n = core n1 \<Longrightarrow> uview n1 a = Some (nm, [], aw) \<Longrightarrow> u_chans r = []"
  by (drule user_of_view) (auto simp: core_eq_iff)

lemma AddUser_good:
  assumes ok: "good N n" and small: "room n" and nick: "strlcpy_str MAXNICK nick \<in> N"
  shows "ends (AddUser E nick usr host realname server ip TS numeric n) (\<lambda>(u, n'). good N n')"
proof -
  have step: "ends m (\<lambda>(u, n'). core n' = core n1) \<Longrightarrow> good N n1 \<Longrightarrow> ends m (\<lambda>(u, n'). good N n')" for m :: "(addr \<times> net) option" and n1
    using good_core by (auto simp: ends_def)
  show ?thesis
    unfolding AddUser_def
  proof (intro ends_rules(1,3,4) ends_reads, goal_cases)
    case (2 u)
    show ?case
    proof (rule ends_any, clarify, intro ends_rules(4), goal_cases)
      case (1 a n1)
      then have "n1 = n" using net_okD(4) [OF good_ok [OF ok]]
        by (auto simp: new_user_def Let_def alloc_def bind_eq_Some_conv split: if_splits)
      then show ?case using ok by (simp add: ends_def)
    next
      case (2 a n1)
      note n1 = good_new_user [OF ok small nick 2(1,2)]
      show ?case
        by (rule step [OF _ n1(1)])
          (auto intro!: results' simp: Let_def fill_user_def option.map_comp o_def
            dest!: core_user_ip new_user_chans [OF _ _ n1(2)])
    qed
  qed (use ok in simp)
qed

text \<open>A user who has parted can be deleted; the events in between change nothing.\<close>

lemma shrinks_user:
  "shrinks n n' \<Longrightarrow> uview n a = Some (nm, cs, aw) \<Longrightarrow> \<exists>cs'. uview n' a = Some (nm, cs', aw)"
  unfolding shrinks_def by blast

lemma deluser_good:
  assumes ok: "good N n" and k: "keeps N n n1" and c: "core n2 = core n1" and a: "uview n a = Some (nm, cs, aw)"
  shows "ends (deluser a n2) (\<lambda>n'. good N n' \<and> serverhash n' = serverhash n)"
proof -
  have g2: "good N n2" using keeps_good [OF k] c by (rule good_core)
  obtain cs' where "uview n1 a = Some (nm, cs', aw)" using shrinks_user a k unfolding keeps_def by blast
  then have a2: "uview n2 a = Some (nm, cs', aw)" using c by (simp add: core_eq_iff)
  have "serverhash n2 = serverhash n" using k c by (simp add: keeps_def shrinks_def core_eq_iff)
  then show ?thesis
    using deluser_view [OF good_ok [OF g2] a2] good_same_chans [OF g2] unfolding ends_def by metis
qed

lemma QuitUser_good:
  assumes N: "coherent N" and ok: "good N n"
  shows "ends (QuitUser E nick reason n) (\<lambda>n'. good N n' \<and> serverhash n' = serverhash n)"
  unfolding QuitUser_def
proof (intro ends_rules(1,3,4) ends_reads, goal_cases)
  case (2 u)
  then obtain nm cs aw where a: "uview n u = Some (nm, cs, aw)" using FindUser_view [OF good_ok [OF ok]] by metis
  show ?case
  proof (rule ends_any)
    fix n1 assume "PartAllChannels E u reason n = Some n1"
    then have k: "keeps N n n1" by (rule PartAllChannels_keeps [OF N ok])
    show "ends (let p = no_params\<lparr>cp_source := u, cp_param := reason\<rparr>; n = SendAllModuleEvent EVENT_QUIT p n1
      in do {
       n \<leftarrow> (case reason of
              Some q \<Rightarrow>
                if local_kill q
                then do {
                  av \<leftarrow> those (split_buf (Some q));
                  killreason \<leftarrow> joinbuf av 5;
                  killer \<leftarrow> (if 4 < length av then FindUser n (av ! 4) else None);
                  Some (if killer \<noteq> 0
                    then SendAllModuleEvent EVENT_LOCALKILL
                           (p\<lparr>cp_source := killer, cp_target := u, cp_param := Some killreason\<rparr>) n
                    else n) }
                else Some n
            | None \<Rightarrow> Some n);
       deluser u n }) (\<lambda>n'. good N n' \<and> serverhash n' = serverhash n)"
      by (auto intro!: results' deluser_good [OF ok k _ a] simp: Let_def)
  qed
qed (use ok in simp)

lemma KillUser_good:
  assumes N: "coherent N" and ok: "good N n"
  shows "ends (KillUser E src nick reason n) (\<lambda>n'. good N n' \<and> serverhash n' = serverhash n)"
  unfolding KillUser_def
proof (intro ends_rules(1,3,4) ends_reads, goal_cases)
  case (2 u)
  then obtain nm cs aw where a: "uview n u = Some (nm, cs, aw)" using FindUser_view [OF good_ok [OF ok]] by metis
  show ?case
    by (rule ends_any, drule PartAllChannels_keeps [OF N ok])
      (auto intro!: results' deluser_good [OF ok _ _ a] simp: Let_def)
qed (use ok in simp)

lemma UserNickChange_good:
  assumes ok: "good N n" and small: "room n" and nick: "strlcpy_str MAXNICK newnick \<in> N"
  shows "ends (UserNickChange E oldnick newnick ts n) (\<lambda>n'. good N n')"
  unfolding ends_def
proof (intro allI impI)
  fix n' assume res: "UserNickChange E oldnick newnick ts n = Some n'"
  let ?old = "strlcpy_str MAXNICK oldnick"
  obtain a where a: "FindUser n ?old = Some a" using FindUser_obj [OF good_ok [OF ok]] by simp
  show "good N n'"
  proof (cases "a = 0")
    case True
    have "obj (userhash n) ?old = None"
    proof (cases "obj (userhash n) ?old")
      case (Some b)
      then obtain nm where "uname (uview n) b = Some nm" using namedD(2) [OF net_okD(1) [OF good_ok [OF ok]]] by blast
      then have "b \<noteq> 0" using namedD(5) [OF net_okD(1) [OF good_ok [OF ok]], of b nm] by simp
      then show ?thesis using Some a True FindUser_obj [OF good_ok [OF ok], of ?old] by simp
    qed
    then have "hash_lookup (userhash n) ?old = Some None"
      using obj_lookup [OF namedD(1) [OF net_okD(1) [OF good_ok [OF ok]]], of ?old] by auto
    then show ?thesis using res ok by (simp add: UserNickChange_def)
  next
    case False
    have "next_addr n < 2 ^ 60" using small by (simp add: room_def)
    from UserNickChange_view [OF good_ok [OF ok] this nick a False res] good_same_chans [OF ok] show ?thesis by blast
  qed
qed

lemma UserAway_good:
  assumes ok: "good N n"
  shows "ends (UserAway nick msg n) (\<lambda>n'. good N n')"
  unfolding ends_def
proof (intro allI impI)
  fix n' assume res: "UserAway nick msg n = Some n'"
  obtain u where u: "FindUser n nick = Some u" using FindUser_obj [OF good_ok [OF ok]] by simp
  show "good N n'"
  proof (cases "u = 0")
    case True
    then show ?thesis using res u ok by (simp add: UserAway_def)
  next
    case False
    obtain nm cs aw where a: "uview n u = Some (nm, cs, aw)" using FindUser_view [OF good_ok [OF ok] u False] by metis
    obtain n1 away n2 where n1: "upd_user u (\<lambda>r. r\<lparr>u_awaymsg := (case msg of None \<Rightarrow> [] | Some m \<Rightarrow> strlcpy_str MAXHOST m)\<rparr>) n = Some n1"
      and away: "IsAway n1 u = Some away"
      and n2: "(if away \<and> msg = None then away_delta False u n1
            else if \<not> away \<and> msg \<noteq> None then away_delta True u n1 else Some n1) = Some n2"
      and n': "n' = SendAllModuleEvent EVENT_AWAY (no_params\<lparr>cp_source := u\<rparr>) n2"
      using res u False by (clarsimp simp: UserAway_def bind_eq_Some_conv split del: if_split)
    have core1: "core n1 = core n" by (rule core_upd_user [OF n1]) simp
    have ok1: "good N n1" using ok core1 by (rule good_core)
    have a1: "uview n1 u = Some (nm, cs, aw)" using a core1 by (simp add: core_eq_iff)
    have aw: "away = aw" using away a1 False by (auto simp: IsAway_def bind_eq_Some_conv dest!: user_of_view)
    have "good N m" if "away_delta b u n1 = Some m" "aw = (\<not> b)" for b m
      using away_delta_view [OF good_ok [OF ok1], of u nm cs b m] that a1 good_same_chans [OF ok1, of m] by auto
    then have "good N n2" using n2 ok1 aw by (auto split: if_splits)
    then show ?thesis by (rule good_core) (simp add: n')
  qed
qed

section \<open>Servers and channel modes\<close>

text \<open>The name of a server gets into the table whole; 0 is the answer of a full table.\<close>

lemma new_server_view:
  assumes ok: "net_ok N n" and small: "next_addr n < 2 ^ 60" and nm: "strlcpy_str MAXHOST name \<in> N"
    and new: "new_server name n = Some (s, n')" "s \<noteq> 0"
  shows "s = next_addr n \<and> net_ok N n' \<and> next_addr n' = next_addr n + 2 \<and> uview n' = uview n \<and> cview n' = cview n \<and>
    sview n' = (sview n)(s := Some (strlcpy_str MAXHOST name))"
proof -
  let ?x = "strlcpy_str MAXHOST name" and ?s = "next_addr n"
  let ?c = "(blank_client ?x)\<lparr>c_server := Some new_server_rec\<rparr>"
  obtain t where t: "hnode_create_insert (Suc ?s) (serverhash n) ?s ?x = Some t" and s: "s = ?s"
    and n': "n' = n\<lparr>clients := (clients n)(?s \<mapsto> ?c), next_addr := Suc (Suc ?s), serverhash := t, servercount := servercount n + 1\<rparr>"
    using new by (auto simp: new_server_def alloc_def Let_def bind_eq_Some_conv split: if_splits)
  note fresh = fresh_views [OF ok] and nmd = servers_okD(1) [OF net_okD(5) [OF ok]]
  have v: "uview n' = uview n" "cview n' = cview n" "sview n' = (sview n)(?s := Some ?x)" "next_addr n' = Suc (Suc ?s)"
    using n' fresh(1) by (auto simp: uview_def sview_def fun_eq_iff blank_client_def)
  have "named N (Suc (Suc ?s)) t ((sview n)(?s := Some ?x))"
    by (rule named_put [OF nmd t]) (use small fresh nm net_okD(4) [OF ok] in auto)
  moreover have "finite (dom (sview n))" by (rule finite_subset [of _ "{..<?s}"]) (auto dest: namedD(6) [OF nmd])
  then have "card (dom (sview n')) = Suc (card (dom (sview n)))" using fresh(3) by (simp add: v(3) domIff)
  moreover have "\<forall>a. sview n' a = None \<or> uview n' a = None"
    using fresh(1) net_okD(5) [OF ok] by (auto simp: v servers_ok_def)
  ultimately have "servers_ok N n'" using net_okD(5) [OF ok] v n' by (simp add: servers_ok_def)
  then have "net_ok N n'"
    using ok v n' named_mono [of N ?s _ _ "Suc (Suc ?s)"] unfolding net_ok_def by simp
  then show ?thesis using s v by simp
qed

lemma new_server_good:
  assumes ok: "good N n" and small: "next_addr n < 2 ^ 60" and nm: "strlcpy_str MAXHOST name \<in> N"
  shows "ends (new_server name n) (\<lambda>(s, n1). good N n1)"
  unfolding ends_def
proof (intro allI impI, clarify)
  fix s n1 assume res: "new_server name n = Some (s, n1)"
  show "good N n1"
  proof (cases "s = 0")
    case True
    then have "n1 = n" using res net_okD(4) [OF good_ok [OF ok]]
      by (auto simp: new_server_def alloc_def Let_def bind_eq_Some_conv split: if_splits)
    then show ?thesis using ok by simp
  next
    case False
    from new_server_view [OF good_ok [OF ok] small nm res False] good_same_chans [OF ok] show ?thesis by blast
  qed
qed

lemma AddServer_good:
  assumes ok: "good N n" and small: "room n" and nm: "strlcpy_str MAXHOST name \<in> N"
  shows "ends (AddServer E name uplink hops numeric info n) (\<lambda>(s, n'). good N n')"
proof -
  have step: "ends m (\<lambda>(u, n'). core n' = core n1) \<Longrightarrow> good N n1 \<Longrightarrow> ends m (\<lambda>(u, n'). good N n')" for m :: "(addr \<times> net) option" and n1
    using good_core by (auto simp: ends_def)
  show ?thesis
    unfolding AddServer_def
  proof (rule ends_rules, rule ends_any, clarify)
    fix s n1 assume "new_server name n = Some (s, n1)"
    then have g: "good N n1" using new_server_good [OF ok _ nm] small by (auto simp: ends_def room_def)
    show "ends (do {
     n \<leftarrow> (case hops of None \<Rightarrow> Some n1 | Some h \<Rightarrow> upd_server s (\<lambda>r. r\<lparr>sv_hops := atoi h\<rparr>) n1);
     n \<leftarrow> (case uplink of None \<Rightarrow> Some n
          | Some up \<Rightarrow> do {
              n \<leftarrow> upd_client s (\<lambda>c. c\<lparr>c_uplinkname := strlcpy_str MAXHOST up\<rparr>) n;
              a \<leftarrow> FindServer n up;
              upd_client s (\<lambda>c. c\<lparr>c_uplink := a\<rparr>) n });
     n \<leftarrow> (case info of None \<Rightarrow> Some n
          | Some i \<Rightarrow> upd_client s (\<lambda>c. c\<lparr>c_info := strlcpy_str MAXREALNAME i\<rparr>) n);
     n \<leftarrow> (case numeric of None \<Rightarrow> Some n | Some k \<Rightarrow> upd_server s (\<lambda>r. r\<lparr>sv_numeric := atoi k\<rparr>) n);
     n \<leftarrow> upd_client s (\<lambda>c. c\<lparr>c_tsconnect := me_now E\<rparr>) n;
     n \<leftarrow> upd_server s (\<lambda>r. r\<lparr>sv_ping := 0\<rparr>) n;
     n \<leftarrow> (if irc_eq name (me_name E)
          then upd_client s (\<lambda>c. c\<lparr>c_flags := set_flag (c_flags c) CLIENT_FLAG_ME\<rparr>) n else Some n);
     n \<leftarrow> ns_do_exclude_server s n;
     n \<leftarrow> (if ircd_protocol E AND PROTOCOL_EOB = 1
          then upd_client s (\<lambda>c. c\<lparr>c_flags := clear_flag (c_flags c) CLIENT_FLAG_SYNCHED\<rparr>) n else Some n);
     Some (s, SendAllModuleEvent EVENT_SERVER (no_params\<lparr>cp_source := s\<rparr>) n) }) (\<lambda>(s, n'). good N n')"
      by (rule step [OF _ g]) (auto intro!: results')
  qed
qed

text \<open>A split: the users of the server quit, the servers behind it go first.\<close>

definition thins :: "string set \<Rightarrow> net \<Rightarrow> net \<Rightarrow> bool" where
  "thins N n n' \<longleftrightarrow> good N n' \<and>
     (\<forall>k nd. hash_lookup (serverhash n') k = Some (Some nd) \<longrightarrow> hash_lookup (serverhash n) k = Some (Some nd))"

lemma thins_refl: "good N n \<Longrightarrow> thins N n n"
  by (simp add: thins_def)

lemma thins_trans: "thins N n n' \<Longrightarrow> thins N n' n'' \<Longrightarrow> thins N n n''"
  by (simp add: thins_def)

lemma thins_good: "thins N n n' \<Longrightarrow> good N n'"
  by (simp add: thins_def)

lemma QuitServerUsers_thins:
  assumes N: "coherent N" and ok: "good N n" and res: "QuitServerUsers E s n = Some n'"
  shows "thins N n n'"
proof -
  have step: "thins N n m'"
    if "thins N n m" "do { c \<leftarrow> clients m u;
        if c_uplink c = s
        then do { sc \<leftarrow> clients m s; m \<leftarrow> QuitUser E (c_name c) (Some (c_name sc)) m; Some (False, m) }
        else Some (False, m) } = Some (stop, m')" for m u stop m'
    using that endsD [OF QuitUser_good [OF N thins_good [OF that(1)]]]
    by (auto simp: bind_eq_Some_conv thins_def split: if_splits)
  show ?thesis
    using res unfolding QuitServerUsers_def scan_users_def
    by (rule scan_table_keeps [where P = "thins N n", rotated 2]) (erule (1) step, rule thins_refl [OF ok])
qed

definition del_thins :: "string set \<Rightarrow> del_fun \<Rightarrow> bool" where
  "del_thins N del \<longleftrightarrow> (\<forall>name reason n n'. good N n \<longrightarrow> del name reason n = Some n' \<longrightarrow> thins N n n')"

lemma del_server_leaves_thins:
  assumes del: "del_thins N del" and ok: "good N n" and res: "del_server_leaves del hub n = Some n'"
  shows "thins N n n'"
proof -
  have step: "thins N n m'"
    if "thins N n m" "do { c \<leftarrow> clients m s;
       h \<leftarrow> clients m hub;
       if irc_eq (c_name h) (c_uplinkname c)
       then do { m \<leftarrow> del (c_name c) (Some (c_name h)) m; Some (False, m) }
       else Some (False, m) } = Some (stop, m')" for m s stop m'
    using that del thins_good [OF that(1)] thins_trans [OF that(1), of m']
    by (auto simp: bind_eq_Some_conv del_thins_def split: if_splits)
  show ?thesis
    using res unfolding del_server_leaves_def scan_servers_def
    by (rule scan_table_keeps [where P = "thins N n", rotated 2]) (erule (1) step, rule thins_refl [OF ok])
qed

text \<open>What is found after a node has left was there before.\<close>

lemma found_after_del:
  assumes ok: "table_ok b h" and found: "hash_lookup h k = Some (Some nd)" and t: "hash_scan_delete h nd = Some t"
    and j: "hash_lookup t j = Some (Some m)"
  shows "hash_lookup h j = Some (Some m)"
proof -
  have inv: "hash_inv h" by (rule table_okD [OF ok])
  have nd: "nd \<in> set (h_nodes h)" using hash_lookup_iff(1) [OF inv] found by (auto simp: holds_def)
  have d: "hash_inv t" "same_key t = same_key h" "add_mset nd (mset (h_nodes t)) = mset (h_nodes h)"
    using hash_scan_delete_inv [OF inv nd] t by auto
  have "set (h_nodes t) \<subseteq> set (h_nodes h)" using arg_cong [OF d(3), of set_mset] by auto
  moreover have "holds t j m" using j hash_lookup_iff(1) [OF d(1)] by blast
  ultimately have "holds h j m" using d(2) by (auto simp: holds_def)
  then show ?thesis using hash_lookup_iff(1) [OF inv] by blast
qed

text \<open>Nodes at one address are one node.\<close>

lemma same_node:
  assumes ok: "table_ok b h" and "hash_lookup h j = Some (Some x)" "hash_lookup h k = Some (Some y)" "hn_id x = hn_id y"
  shows "x = y"
proof -
  have inv: "hash_inv h" by (rule table_okD [OF ok])
  then have "x \<in> set (h_nodes h)" "y \<in> set (h_nodes h)" using hash_lookup_iff(1) [OF inv] assms(2,3) by (auto simp: holds_def)
  moreover have "inj_on hn_id (set (h_nodes h))" using inv by (simp add: hash_inv_def content_def distinct_map)
  ultimately show ?thesis using assms(4) by (simp add: inj_on_eq_iff)
qed

lemma remove_server:
  assumes ok: "good N n" and found: "hash_lookup (serverhash n) k = Some (Some nd)"
    and t: "hash_scan_delete (serverhash n) nd = Some t"
    and n': "n' = free_client (hn_data nd) (n\<lparr>serverhash := t, servercount := servercount n - 1\<rparr>)"
  shows "thins N n n'"
proof -
  let ?s = "hn_data nd"
  note sok = net_okD(5) [OF good_ok [OF ok]] and nmd = servers_okD(1) [OF net_okD(5) [OF good_ok [OF ok]]]
  have tok: "table_ok (next_addr n) (serverhash n)" by (rule namedD [OF nmd])
  note d = obj_del [OF tok found, of t]
  obtain nm where nm: "sview n ?s = Some nm" using namedD(2) [OF nmd d(6)] t by blast
  then have u: "uview n ?s = None" using servers_okD(2) [OF sok, of ?s] by (cases "uview n ?s") auto
  have v: "uview n' = uview n" "cview n' = cview n" "sview n' = (sview n)(?s := None)" "next_addr n' = next_addr n"
    "serverhash n' = t" "servercount n' = servercount n - 1" "userhash n' = userhash n" "channelhash n' = channelhash n"
    "usercount n' = usercount n" "channelcount n' = channelcount n" "awaycount n' = awaycount n"
    using u by (auto simp: n' free_client_def uview_def sview_def fun_eq_iff)
  have "finite (dom (sview n))" by (rule finite_subset [of _ "{..<next_addr n}"]) (auto dest: namedD(6) [OF nmd])
  then have "Suc (card (dom (sview n'))) = card (dom (sview n))" using card_dom_del [of "sview n" ?s] nm v(3) by simp
  then have "servercount n - 1 = of_nat (card (dom (sview n')))"
    using sok count_pred [of "servercount n" "card (dom (sview n))" "card (dom (sview n'))"] by (simp add: servers_ok_def)
  then have "servers_ok N n'"
    using named_del [OF nmd found, of t] t sok v by (auto simp: servers_ok_def)
  then have "net_ok N n'" using good_ok [OF ok] v by (simp add: net_ok_def)
  then have "good N n'" by (rule good_same_chans [OF ok]) (rule v)
  moreover have "hash_lookup (serverhash n) j = Some (Some m)" if "hash_lookup (serverhash n') j = Some (Some m)" for j m
    using found_after_del [OF tok found t] that v(5) by simp
  ultimately show ?thesis by (simp add: thins_def)
qed

lemma del_server_body_thins:
  assumes del: "del_thins N del" and N: "coherent N" and ok: "good N n" and res: "del_server_body E del name reason n = Some n'"
  shows "thins N n n'"
proof -
  obtain r where r: "hash_lookup (serverhash n) name = Some r" using res by (auto simp: del_server_body_def bind_eq_Some_conv)
  show ?thesis
  proof (cases r)
    case None
    then show ?thesis using res r thins_refl [OF ok] by (simp add: del_server_body_def)
  next
    case (Some nd)
    let ?s = "hn_data nd"
    obtain n1 where n1: "(if has (ircd_protocol E) PROTOCOL_NOQUIT
        then do { n \<leftarrow> del_server_leaves del ?s n; QuitServerUsers E ?s n } else Some n) = Some n1"
      using res r Some by (clarsimp simp: del_server_body_def Let_def hnode_get_def bind_eq_Some_conv split del: if_split)
    define n2 where "n2 = SendAllModuleEvent EVENT_SQUIT (no_params\<lparr>cp_source := ?s, cp_param := reason\<rparr>)
      (n1\<lparr>servercount := servercount n1 - 1\<rparr>)"
    obtain t where t: "hash_scan_delete (serverhash n2) nd = Some t" and n': "n' = free_client ?s (n2\<lparr>serverhash := t\<rparr>)"
      using res r Some n1
      by (clarsimp simp: del_server_body_def hnode_get_def bind_eq_Some_conv Let_def n2_def hash_scan_delete_destroy_node_def
        split del: if_split)
    have k1: "thins N n n1"
    proof (cases "has (ircd_protocol E) PROTOCOL_NOQUIT")
      case True
      then obtain m where m: "del_server_leaves del ?s n = Some m" "QuitServerUsers E ?s m = Some n1"
        using n1 by (auto simp: bind_eq_Some_conv)
      have "thins N n m" by (rule del_server_leaves_thins [OF del ok m(1)])
      then show ?thesis using QuitServerUsers_thins [OF N thins_good m(2)] thins_trans by blast
    qed (use n1 thins_refl [OF ok] in simp)
    define n3 where "n3 = n2\<lparr>servercount := servercount n1\<rparr>"
    have "core n3 = core n1" by (simp add: n3_def n2_def SendAllModuleEvent_def emit_def core_eq_iff)
    then have g3: "good N n3" by (rule good_core [OF thins_good [OF k1]])
    have t3: "hash_scan_delete (serverhash n3) nd = Some t" using t by (simp add: n3_def)
    have tok: "table_ok (next_addr n3) (serverhash n3)" by (rule namedD [OF servers_okD(1) [OF net_okD(5) [OF good_ok [OF g3]]]])
    obtain nd' where nd': "hash_lookup (serverhash n3) (hn_key nd) = Some (Some nd')" "hn_id nd' = hn_id nd"
      using t3 by (auto simp: hash_scan_delete_def bind_eq_Some_conv)
    have tok0: "table_ok (next_addr n) (serverhash n)" by (rule namedD [OF servers_okD(1) [OF net_okD(5) [OF good_ok [OF ok]]]])
    have "hash_lookup (serverhash n) (hn_key nd) = Some (Some nd')"
      using nd'(1) k1 \<open>core n3 = core n1\<close> by (simp add: thins_def core_eq_iff)
    then have "nd' = nd" using same_node [OF tok0 _ r [unfolded Some]] nd'(2) by blast
    have "n' = free_client ?s (n3\<lparr>serverhash := t, servercount := servercount n3 - 1\<rparr>)"
      unfolding n' by (rule arg_cong [of _ _ "free_client ?s"], rule net.equality)
        (simp_all add: n3_def n2_def SendAllModuleEvent_def emit_def)
    from remove_server [OF g3 nd'(1) [unfolded \<open>nd' = nd\<close>] t3 this]
    have "thins N n3 n'" .
    moreover have "thins N n n3" using k1 g3 \<open>core n3 = core n1\<close> by (simp add: thins_def core_eq_iff)
    ultimately show ?thesis by (rule thins_trans [rotated])
  qed
qed

lemma DelServer_good:
  assumes N: "coherent N" and ok: "good N n"
  shows "ends (DelServer E name reason n) (\<lambda>n'. good N n')"
proof -
  have "del_thins N (del_server_depth E k)" for k
  proof (induction k)
    case (Suc k)
    then show ?case using del_server_body_thins [OF _ N] unfolding del_thins_def by (metis del_server_depth.simps(2))
  qed (simp add: del_thins_def)
  then show ?thesis using ok thins_good unfolding DelServer_def ends_def del_thins_def by blast
qed

text \<open>The end of a burst changes flags only.\<close>

lemma core_set_synched: "set_synched s n = Some n' \<Longrightarrow> core n' = core n"
proof -
  assume "set_synched s n = Some n'"
  then obtain n1 where n1: "upd_client s (\<lambda>c. c\<lparr>c_flags := set_flag (c_flags c) CLIENT_FLAG_SYNCHED\<rparr>) n = Some n1"
    "SyncServerClients s n1 = Some n'" by (auto simp: set_synched_def bind_eq_Some_conv)
  have "core n1 = core n" by (rule core_upd_client [OF n1(1)]) simp
  moreover have "core n' = core n1"
    using n1(2) unfolding SyncServerClients_def scan_users_def
  proof (rule scan_table_keeps [where P = "\<lambda>m. core m = core n1", rotated 2])
    fix a m stop m' assume m: "core m = core n1" "do { c \<leftarrow> clients m a;
       if c_uplink c = s
       then do { m \<leftarrow> upd_client a (\<lambda>c. c\<lparr>c_flags := clear_flag (c_flags c) NS_FLAGS_NETJOIN\<rparr>) m; Some (False, m) }
       else Some (False, m) } = Some (stop, m')"
    then show "core m' = core n1"
      by (auto simp: bind_eq_Some_conv split: if_splits dest!: core_upd_client)
  qed simp
  ultimately show ?thesis by simp
qed

lemma core_sync_leaf: "sync_server_leaf k hub n = Some n' \<Longrightarrow> core n' = core n"
proof (induction k arbitrary: hub n n')
  case (Suc k)
  from Suc.prems show ?case
    unfolding sync_server_leaf.simps scan_servers_def
  proof (rule scan_table_keeps [where P = "\<lambda>m. core m = core n", rotated 2])
    fix s m stop m' assume m: "core m = core n" "do { h \<leftarrow> clients m hub; c \<leftarrow> clients m s;
       if irc_eq (c_name h) (c_uplinkname c)
       then do { n \<leftarrow> set_synched s m; n \<leftarrow> sync_server_leaf k s n; Some (False, n) }
       else Some (False, m) } = Some (stop, m')"
    then show "core m' = core n"
      by (auto simp: bind_eq_Some_conv split: if_splits dest!: core_set_synched Suc.IH)
  qed simp
qed simp

lemma core_SyncServer: "ends (SyncServer name n) (\<lambda>n'. core n' = core n)"
  by (auto simp: ends_def SyncServer_def bind_eq_Some_conv split: if_splits dest!: core_set_synched core_sync_leaf)

lemma core_set_server_base64: "ends (set_server_base64 name b64 n) (\<lambda>(r, n'). core n' = core n)"
  unfolding set_server_base64_def by (auto intro!: results)

text \<open>Bans take addresses and touch nothing else.\<close>

lemma net_ok_alloc:
  assumes ok: "net_ok N n" and core: "core n' = core (n\<lparr>next_addr := next_addr n'\<rparr>)" and le: "next_addr n \<le> next_addr n'"
  shows "net_ok N n'"
proof -
  have "servers_ok N n'"
    by (rule servers_ok_keep [OF ok]) (use core le in \<open>auto simp: core_eq_iff\<close>)
  moreover have "named N (next_addr n') (userhash n') (uname (uview n'))"
    using named_mono [OF net_okD(1) [OF ok] le] core by (simp add: core_eq_iff)
  moreover have "named N (next_addr n') (channelhash n') (cname (cview n'))"
    using named_mono [OF net_okD(2) [OF ok] le] core by (simp add: core_eq_iff)
  moreover have "0 < next_addr n'" using net_okD(4) [OF ok] le by simp
  ultimately show ?thesis using ok core unfolding net_ok_def core_eq_iff by simp
qed

lemma good_alloc:
  assumes ok: "good N n" and core: "core n' = core (n\<lparr>next_addr := next_addr n'\<rparr>)" and le: "next_addr n \<le> next_addr n'"
  shows "good N n'"
proof (rule good_same_chans [OF ok net_ok_alloc [OF good_ok [OF ok] core le]])
  show "cview n' = cview n" using core unfolding core_eq_iff by simp
qed

lemma core_bans [simp]: "core (n\<lparr>bans := x\<rparr>) = core n" "core (n\<lparr>banhash := t\<rparr>) = core n"
  by (simp_all add: core_def uview_def [abs_def] cview_def [abs_def] sview_def [abs_def])

lemma AddBan_good:
  assumes ok: "good N n"
  shows "ends (AddBan E type usr host msk reason setby tsset tsexpires n) (\<lambda>n'. good N n')"
proof -
  have "good N n1" if n1: "new_ban msk n = Some (b, n1)" for b n1
  proof (cases "b = 0")
    case True
    then have "n1 = n" using n1 net_okD(4) [OF good_ok [OF ok]]
      by (auto simp: new_ban_def alloc_def Let_def bind_eq_Some_conv split: if_splits)
    then show ?thesis using ok by simp
  next
    case False
    then obtain x t where n1': "n1 = n\<lparr>bans := x, next_addr := Suc (Suc (next_addr n)), banhash := t\<rparr>"
      using n1 by (auto simp: new_ban_def alloc_def Let_def bind_eq_Some_conv split: if_splits)
    show ?thesis
      by (rule good_alloc [OF ok])
        (simp_all add: n1' core_def uview_def [abs_def] cview_def [abs_def] sview_def [abs_def])
  qed
  then show ?thesis
    unfolding AddBan_def ends_def by (auto simp: bind_eq_Some_conv Let_def split: if_splits intro: good_core)
qed

lemma core_DelBan: "ends (DelBan msk n) (\<lambda>n'. core n' = core n)"
  unfolding DelBan_def
  by (auto intro!: results ends_any [where m = "hash_delete_destroy_node h nd" for h nd] simp: Let_def)

lemma member_modes_members: "member_modes n nick f ms = Some ms' \<Longrightarrow> map cm_u ms' = map cm_u ms"
  by (induction ms arbitrary: ms') (auto simp: bind_eq_Some_conv split: if_splits)

lemma core_ChanUserMode: "ends (ChanUserMode chan nick add msk n) (\<lambda>n'. core n' = core n)"
proof -
  have "core n' = core n" if "channels n c = Some ch" "member_modes n nick f (ch_members ch) = Some ms"
    "upd_chan c (\<lambda>ch. ch\<lparr>ch_members := ms\<rparr>) n = Some n'" for c ch nick f ms n'
    by (rule core_upd_chan [OF that(3)]) (use that(1,2) member_modes_members in auto)
  then show ?thesis
    unfolding ChanUserMode_def
    by (auto intro!: ends_rules ends_reads ends_any [where m = "member_modes n nk f ms" for nk f ms]
        ends_any [where m = "upd_chan c f n" for c f])
qed

lemma ends_ChanUserMode: "(\<And>n'. core n' = core n \<Longrightarrow> Q n') \<Longrightarrow> ends (ChanUserMode chan nick add msk n) Q"
  using core_ChanUserMode by (rule ends_mono)

lemma core_mode_step: "ends (mode_step T c m add i av n) (\<lambda>(j, n'). core n' = core n)"
  unfolding mode_step_def Let_def by (auto intro!: results ends_ChanUserMode)

lemma core_mode_loop: "mode_loop T c add ms i av n = Some n' \<Longrightarrow> core n' = core n"
proof (induction T c add ms i av n rule: mode_loop.induct)
  case (2 T c add m ms i av n)
  show ?case
  proof (cases "m = CHR ''+'' \<or> m = CHR ''-''")
    case True
    then show ?thesis using 2 by (auto split: if_splits)
  next
    case False
    then obtain j n1 where s: "mode_step T c m add i av n = Some (j, n1)" "mode_loop T c add ms j av n1 = Some n'"
      using "2.prems" by (auto simp: bind_eq_Some_conv)
    have "core n1 = core n" using core_mode_step s(1) unfolding ends_def by blast
    then show ?thesis using "2.IH"(3) [OF _ _ s(1) refl s(2)] False by simp
  qed
qed simp

lemma core_ChanMode: "ends (ChanMode T origin av n) (\<lambda>n'. core n' = core n)"
  unfolding ChanMode_def ChanModeHandler_def
  by (auto intro!: ends_rules ends_reads intro!: ends_any [where m = "mode_loop T c add ms i av n" for c add ms i av n] dest: core_mode_loop)

section \<open>The state machine\<close>

text \<open>
  The part of \<open>InitCore\<close> that sets up the network state: the memory is cleared, then the tables
  are created in the order of the code. The addresses start at 1.
\<close>

definition InitCore :: "net \<Rightarrow> net option" where
  "InitCore n = do {
     n \<leftarrow> InitServers n;
     n \<leftarrow> InitUsers n;
     n \<leftarrow> InitChannels n;
     InitBans n
   }"

text \<open>
  One line handled. The configuration may differ from step to step; the names of new users,
  servers and channels are from \<open>N\<close>.
\<close>

inductive net_step :: "string set \<Rightarrow> net \<Rightarrow> net \<Rightarrow> bool" for N where
  server: "strlcpy_str MAXHOST name \<in> N \<Longrightarrow>
    AddServer E name uplink hops numeric info n = Some (s, n') \<Longrightarrow> net_step N n n'"
| signon: "strlcpy_str MAXNICK nick \<in> N \<Longrightarrow>
    AddUser E nick usr host realname server ip TS numeric n = Some (u, n') \<Longrightarrow> net_step N n n'"
| quit: "QuitUser E nick reason n = Some n' \<Longrightarrow> net_step N n n'"
| kill: "KillUser E src nick reason n = Some n' \<Longrightarrow> net_step N n n'"
| nick: "strlcpy_str MAXNICK newnick \<in> N \<Longrightarrow> UserNickChange E oldnick newnick ts n = Some n' \<Longrightarrow> net_step N n n'"
| away: "UserAway nick msg n = Some n' \<Longrightarrow> net_step N n n'"
| umode: "UserMode E um nick modes n = Some n' \<Longrightarrow> net_step N n n'"
| smode: "UserSMode sm nick modes n = Some n' \<Longrightarrow> net_step N n n'"
| vhost: "SetUserVhost E nick vhost n = Some n' \<Longrightarrow> net_step N n n'"
| svstime: "SetUserServicesTS E nick ts n = Some n' \<Longrightarrow> net_step N n n'"
| version: "SetUserVersion a v n = Some n' \<Longrightarrow> net_step N n n'"
| dns: "lookupnickip E nick answer n = Some n' \<Longrightarrow> net_step N n n'"
| join: "strlcpy_str MAXCHANLEN chan \<in> N \<Longrightarrow> JoinChannel E nick chan n = Some n' \<Longrightarrow> net_step N n n'"
| part: "PartChannel E u chan reason n = Some n' \<Longrightarrow> net_step N n n'"
| kick: "KickChannel E kickby chan kicked why n = Some n' \<Longrightarrow> net_step N n n'"
| topic: "ChannelTopic E chan own tt t n = Some n' \<Longrightarrow> net_step N n n'"
| squit: "DelServer E name reason n = Some n' \<Longrightarrow> net_step N n n'"
| synched: "SyncServer name n = Some n' \<Longrightarrow> net_step N n n'"
| short_name: "set_server_base64 name b64 n = Some (r, n') \<Longrightarrow> net_step N n n'"
| ban: "AddBan E type usr host msk why setby tsset tsexpires n = Some n' \<Longrightarrow> net_step N n n'"
| unban: "DelBan msk n = Some n' \<Longrightarrow> net_step N n n'"
| cmode: "ChanMode T origin av n = Some n' \<Longrightarrow> net_step N n n'"

text \<open>
  The states after any number of lines, as long as fewer than \<open>2 ^ 60\<close> objects have been
  allocated and there are fewer than \<open>2 ^ 32 - 1\<close> users.
\<close>

inductive reachable :: "string set \<Rightarrow> net \<Rightarrow> bool" for N where
  init: "InitCore blank_net = Some n \<Longrightarrow> reachable N n"
| line: "reachable N n \<Longrightarrow> room n \<Longrightarrow> net_step N n n' \<Longrightarrow> reachable N n'"

lemma net_step_good:
  assumes "net_step N n n'" and N: "coherent N" and ok: "good N n" and small: "room n"
  shows "good N n'"
proof -
  have core: "good N n'" if "ends m (\<lambda>n'. core n' = core n)" "m = Some n'" for m n'
    using good_core [OF ok] that by (simp add: ends_def)
  from assms(1) show ?thesis
  proof cases
    case (server name E uplink hops numeric info s)
    then show ?thesis using AddServer_good [OF ok small] unfolding ends_def by fast
  next
    case (signon nick E usr host realname server ip TS numeric u)
    then show ?thesis using AddUser_good [OF ok small] unfolding ends_def by fast
  next
    case (quit E nick reason)
    show ?thesis using endsD [OF QuitUser_good [OF N ok] quit] by simp
  next
    case (kill E src nick reason)
    show ?thesis using endsD [OF KillUser_good [OF N ok] kill] by simp
  next
    case (nick newnick E oldnick ts)
    show ?thesis by (rule endsD [OF UserNickChange_good [OF ok small nick(1)] nick(2)])
  next
    case (away nick msg)
    show ?thesis by (rule endsD [OF UserAway_good [OF ok] away])
  next
    case (join chan E nick)
    show ?thesis by (rule JoinChannel_good [OF N ok small join])
  next
    case (part E u chan reason)
    show ?thesis by (rule keeps_good [OF PartChannel_keeps [OF N ok part]])
  next
    case (kick E kickby chan kicked why)
    show ?thesis by (rule KickChannel_good [OF N ok kick])
  next
    case (cmode T origin av)
    show ?thesis by (rule core [OF core_ChanMode cmode])
  next
    case (squit E name reason)
    show ?thesis by (rule endsD [OF DelServer_good [OF N ok] squit])
  next
    case (synched name)
    show ?thesis by (rule core [OF core_SyncServer synched])
  next
    case (short_name name b64 r)
    then show ?thesis using good_core [OF ok] endsD [OF core_set_server_base64] by fast
  next
    case (ban E type usr host msk why setby tsset tsexpires)
    show ?thesis by (rule endsD [OF AddBan_good [OF ok] ban])
  next
    case (unban msk)
    show ?thesis by (rule core [OF core_DelBan unban])
  next
    case (umode E um nick modes)
    show ?thesis by (rule core [OF core_handlers(1) umode])
  next
    case (smode sm nick modes)
    show ?thesis by (rule core [OF core_handlers(2) smode])
  next
    case (vhost E nick vhost)
    show ?thesis by (rule core [OF core_handlers(3) vhost])
  next
    case (svstime E nick ts)
    show ?thesis by (rule core [OF core_handlers(4) svstime])
  next
    case (version a v)
    show ?thesis by (rule core [OF core_handlers(5) version])
  next
    case (dns E nick answer)
    show ?thesis by (rule core [OF core_handlers(6) dns])
  next
    case (topic E chan own tt t)
    show ?thesis by (rule core [OF core_handlers(7) topic])
  qed
qed

lemma table_ok_create:
  "\<exists>h. hash_create COUNT_MAX hash_comp_default hash_fun_default = Some h \<and> table_ok b h \<and> obj h = (\<lambda>k. None)"
proof -
  obtain h :: "(string, addr) hash_t"
    where h: "hash_create COUNT_MAX hash_comp_default hash_fun_default = Some h" "keyed_by irc_key h" "h_nodes h = []"
    using irc_table_create by blast
  have "h_maxcount h = COUNT_MAX"
    using h(1) by (auto simp: hash_create_def bind_eq_Some_conv Let_def clear_table_def)
  have ok: "table_ok b h" using h \<open>h_maxcount h = COUNT_MAX\<close> by (simp add: table_ok_def)
  have "obj h k = None" for k
    using hash_lookup_iff(2) [OF table_okD(1) [OF ok], of k] obj_lookup [OF ok, of k] h(3) by (auto simp: holds_def)
  with h ok show ?thesis by blast
qed

lemma InitCore_good: "\<exists>n. InitCore blank_net = Some n \<and> good N n"
proof -
  obtain h where h: "hash_create COUNT_MAX hash_comp_default hash_fun_default = Some h" "table_ok 1 h" "obj h = (\<lambda>k. None)"
    using table_ok_create by blast
  define n where "n = blank_net\<lparr>serverhash := h, userhash := h, channelhash := h, banhash := h\<rparr>"
  have "InitCore blank_net = Some n"
    using h(1) by (simp add: InitCore_def InitServers_def InitUsers_def InitChannels_def InitBans_def n_def)
  moreover have "uview n = (\<lambda>a. None)" "cview n = (\<lambda>c. None)" "sview n = (\<lambda>c. None)"
    by (simp_all add: n_def blank_net_def uview_def cview_def sview_def fun_eq_iff)
  then have "good N n"
    using h(2,3) by (simp add: good_def peopled_but_def net_ok_def servers_ok_def named_def members_ok_def away_users_def n_def blank_net_def)
  ultimately show ?thesis by blast
qed

lemma reachable_good: "reachable N n \<Longrightarrow> coherent N \<Longrightarrow> good N n"
proof (induction rule: reachable.induct)
  case (init n)
  then show ?case using InitCore_good by (metis option.inject)
next
  case (line n n')
  then show ?case using net_step_good by blast
qed

end
