(* ===== verification/LineParse.thy ===== *)
theory LineParse
  imports IrcProtocol NetOps
begin

text \<open>
  What a line is cut into: the origin, the command and the arguments are pieces of the line, and a line written
  by the rules of the protocol is read back as it was meant.
\<close>

section \<open>Pieces of a line\<close>

lemma plain_iff: "plain s \<longleftrightarrow> (\<forall>c\<in>set s. plain_byte (byte_of c))"
  by (simp add: plain_def list_all_iff)

lemma plain_subset: "plain s \<Longrightarrow> set t \<subseteq> set s \<Longrightarrow> plain t"
  by (auto simp: plain_iff)

lemma plain_Nil [simp]: "plain []"
  by (simp add: plain_def)

lemma set_c_str: "set (c_str s) \<subseteq> set s - {NUL}"
  by (induction s) auto

lemma length_c_str_le: "length (c_str s) \<le> length s"
  by (induction s) auto

lemma plain_strlcpy [simp]: "plain s \<Longrightarrow> plain (strlcpy_str k s)"
  using set_take_subset [of "k - 1" "c_str s"] set_c_str [of s]
  by (intro plain_subset [of s "strlcpy_str k s"]) (auto simp: strlcpy_str_def)

text \<open>A piece of a line: no other characters, and not longer.\<close>

definition piece :: "string \<Rightarrow> string \<Rightarrow> bool" where
  "piece s t \<longleftrightarrow> set t \<subseteq> set s \<and> length t \<le> length s"

lemma piece_trans: "piece s t \<Longrightarrow> piece t u \<Longrightarrow> piece s u"
  unfolding piece_def by (meson order_trans)

lemma piece_refl [simp]: "piece s s"
  by (simp add: piece_def)

lemma piece_Nil [simp]: "piece s []"
  by (simp add: piece_def)

lemma piece_plain: "piece s t \<Longrightarrow> plain s \<Longrightarrow> plain t"
  unfolding piece_def using plain_subset by blast

text \<open>The array in the course of splitting: the line with some of its characters overwritten by NUL.\<close>

definition cut_array :: "string \<Rightarrow> string \<Rightarrow> bool" where
  "cut_array s m \<longleftrightarrow> length m = Suc (length s) \<and> set m \<subseteq> insert NUL (set s) \<and> last m = NUL"

lemma cut_array_start: "cut_array s (s @ [NUL])"
  by (auto simp: cut_array_def)

lemma cut_array_update:
  assumes "cut_array s m"
  shows "cut_array s (m[i := NUL])"
proof -
  have "last (m[i := NUL]) = NUL"
    using assms by (cases "m = []") (auto simp: cut_array_def last_list_update)
  then show ?thesis using assms set_update_subset_insert [of m i NUL] by (auto simp: cut_array_def)
qed

lemma cut_array_next_word: "cut_array s m \<Longrightarrow> cut_array s (fst (next_word m b))"
  by (auto simp: next_word_def Let_def cut_array_update split: option.splits)

lemma arg_at_piece:
  assumes m: "cut_array s m" and a: "arg_at m i = Some t"
  shows "piece s t"
proof -
  have t: "t = c_str (drop i m)" using a by (simp add: arg_at_def split: if_splits)
  have "set t \<subseteq> set m - {NUL}" using set_c_str [of "drop i m"] set_drop_subset [of i m] t by blast
  then have "set t \<subseteq> set s" using m by (auto simp: cut_array_def)
  moreover have "length t \<le> length s"
  proof -
    have "m = butlast m @ [NUL]" using m by (metis append_butlast_last_id cut_array_def length_0_conv nat.simps(3))
    then have "drop i m = drop i (butlast m) @ drop (i - length (butlast m)) [NUL]" by (metis drop_append)
    moreover have "c_str (xs @ drop k [NUL]) = c_str xs" for xs k by (induction xs) (auto simp: drop_Cons')
    ultimately have "t = c_str (drop i (butlast m))" using t by metis
    then show ?thesis using length_c_str_le [of "drop i (butlast m)"] m by (auto simp: cut_array_def)
  qed
  ultimately show ?thesis by (simp add: piece_def)
qed

lemma split_step_array:
  assumes "cut_array s m" "split_step m b col = (m1, r, col1, ag)"
  shows "cut_array s m1"
proof -
  have "cut_array s (fst (next_word m (Suc b)))" "cut_array s (fst (next_word m b))"
    using cut_array_next_word [OF assms(1)] by blast+
  then show ?thesis using assms(2) by (auto simp: split_step_def Let_def split: prod.splits if_splits)
qed

lemma split_loop_array: "cut_array s m \<Longrightarrow> cut_array s (fst (split_loop m b col as))"
proof (induction m b col as rule: split_loop.induct)
  case (1 m b col as)
  show ?case
  proof (cases "at m b = NUL")
    case True
    then show ?thesis using "1.prems" by (subst split_loop.simps) simp
  next
    case False
    obtain m1 r col1 ag where st: "split_step m b col = (m1, r, col1, ag)" by (cases "split_step m b col")
    then show ?thesis using False "1.IH" [OF False st [symmetric]] split_step_array [OF "1.prems" st]
      by (subst split_loop.simps) simp
  qed
qed

text \<open>Every word takes at least one character of the array.\<close>

lemma split_loop_count: "length (snd (split_loop m b col as)) \<le> length as + (length m - b)"
proof (induction m b col as rule: split_loop.induct)
  case (1 m b col as)
  show ?case
  proof (cases "at m b = NUL")
    case True
    then show ?thesis by (subst split_loop.simps) simp
  next
    case False
    obtain m1 r col1 ag where st: "split_step m b col = (m1, r, col1, ag)" by (cases "split_step m b col")
    have "length m1 - r < length m - b" using split_step_less [OF False st] .
    moreover have "length (snd (split_loop m1 r col1 (as @ [ag]))) \<le> length (as @ [ag]) + (length m1 - r)"
      using "1.IH" [OF False st [symmetric]] by simp
    ultimately show ?thesis using False st by (subst split_loop.simps) simp
  qed
qed

lemma ircsplit_loop_array: "cut_array s m \<Longrightarrow> cut_array s (fst (ircsplit_loop sp m b col as))"
proof (induction sp m b col as rule: ircsplit_loop.induct)
  case (1 sp m b col as)
  show ?case
  proof (cases "at m b = NUL \<or> (at m b = CHR '':'' \<and> col < 1 \<and> sp)")
    case True
    then show ?thesis using "1.prems" by (subst ircsplit_loop.simps) auto
  next
    case False
    obtain m1 r col1 ag where st: "split_step m b col = (m1, r, col1, ag)" by (cases "split_step m b col")
    then show ?thesis using False "1.IH" [OF _ _ st [symmetric]] split_step_array [OF "1.prems" st]
      by (subst ircsplit_loop.simps) auto
  qed
qed

lemma ircsplitbuf_pieces:
  assumes "Some t \<in> set (ircsplitbuf (Some s) sp)"
  shows "piece s t"
proof -
  obtain m as where m: "ircsplit_loop sp (s @ [NUL]) 0 0 [] = (m, as)" by (cases "ircsplit_loop sp (s @ [NUL]) 0 0 []")
  then have "cut_array s m" using ircsplit_loop_array [OF cut_array_start, of s sp 0 0 "[]"] by simp
  then show ?thesis using assms m arg_at_piece by (auto simp: ircsplitbuf_def)
qed

lemma split_buf_pieces:
  assumes "Some t \<in> set (split_buf (Some s))"
  shows "piece s t"
proof -
  let ?b = "if at (s @ [NUL]) 0 = CHR '':'' then 1 else 0"
  obtain m as where m: "split_loop (s @ [NUL]) ?b 0 [] = (m, as)" by (cases "split_loop (s @ [NUL]) ?b 0 []")
  then have "cut_array s m" using split_loop_array [OF cut_array_start, of s ?b 0 "[]"] by simp
  then show ?thesis using assms m arg_at_piece by (auto simp: split_buf_def Let_def)
qed

lemma split_buf_count: "length (split_buf (Some s)) \<le> Suc (length s)"
  using split_loop_count [of "s @ [NUL]" "if at (s @ [NUL]) 0 = CHR '':'' then 1 else 0" 0 "[]"]
  by (auto simp: split_buf_def Let_def split: prod.splits if_splits)

lemma set_dropWhile_subset': "set (dropWhile P s) \<subseteq> set s" "set (takeWhile P s) \<subseteq> set s" "set (tl s) \<subseteq> set s"
  by (auto dest: set_dropWhileD set_takeWhileD list.set_sel(2) [rotated]) (cases s; auto)

lemma piece_dropWhile: "piece s (dropWhile P s)" "piece s (takeWhile P s)" "piece s (tl s)" "piece s (strlcpy_str k s)"
proof -
  show "piece s (strlcpy_str k s)"
    using set_take_subset [of "k - 1" "c_str s"] set_c_str [of s] length_c_str_le [of s]
    by (auto simp: piece_def strlcpy_str_def)
qed (auto simp: piece_def set_dropWhile_subset' length_dropWhile_le length_takeWhile_le)

lemma cut_word_pieces: "cut_word line = Some (w, r) \<Longrightarrow> piece line w \<and> piece line r"
  by (auto simp: cut_word_def piece_dropWhile piece_trans [OF piece_trans [OF piece_dropWhile(1) piece_dropWhile(3)] piece_dropWhile(1)]
      split: if_splits)

lemma moved_rest_piece:
  assumes r: "piece line r"
  shows "piece line (moved_rest line r)"
proof (cases "length r \<le> BUFSIZE")
  case False
  let ?l = "line[length (takeWhile (\<lambda>c. c \<noteq> CHR '' '') line) := NUL]"
  let ?m = "take (BUFSIZE + 1) r @ drop (BUFSIZE + 1) ?l"
  have "set ?m \<subseteq> insert NUL (set line)"
    using r set_take_subset [of "BUFSIZE + 1" r] set_drop_subset [of "BUFSIZE + 1" ?l] set_update_subset_insert [of line _ NUL]
    unfolding piece_def set_append by blast
  then have "set (c_str ?m) \<subseteq> set line" using set_c_str [of ?m] by blast
  moreover have "length ?m \<le> length line"
  proof -
    have "0 < length line" using r False by (auto simp: piece_def)
    then show ?thesis using r False by (simp add: piece_def)
  qed
  then have "length (c_str ?m) \<le> length line" using length_c_str_le order_trans by blast
  ultimately have "piece line (c_str ?m)" unfolding piece_def by blast
  then show ?thesis using False by (simp add: moved_rest_def)
qed (use r in \<open>simp add: moved_rest_def\<close>)

lemma parse_line_pieces:
  assumes "parse_line line = Some p"
  shows "piece line (pl_origin p) \<and> (\<forall>t. Some t \<in> set (pl_args p) \<longrightarrow> piece line t)"
proof -
  obtain k origin rest where o: "take_origin line = Some (k, origin, rest)" and
    p: "p = (let (cmd, args) = split_command rest
             in \<lparr>pl_cmdptr = k, pl_cmd = cmd, pl_origin = origin, pl_args = ircsplitbuf (Some args) True\<rparr>)"
    using assms by (auto simp: parse_line_def bind_eq_Some_conv split: if_splits prod.splits)
  have r: "piece line origin \<and> piece line rest"
  proof (cases "deref line = CHR '':''")
    case True
    then obtain w r where "cut_word line = Some (w, r)" "origin = strlcpy_str 64 (tl w)" "rest = moved_rest line r"
      using o by (auto simp: take_origin_def bind_eq_Some_conv)
    then show ?thesis
      using cut_word_pieces moved_rest_piece piece_trans [OF piece_trans [OF _ piece_dropWhile(3)] piece_dropWhile(4)] by blast
  qed (use o in \<open>simp add: take_origin_def\<close>)
  obtain cmd args where c: "split_command rest = (cmd, args)" by (cases "split_command rest")
  then have "piece rest args" using cut_word_pieces [of rest] by (auto simp: split_command_def split: option.splits)
  then have "piece line t" if "Some t \<in> set (ircsplitbuf (Some args) True)" for t
    using r ircsplitbuf_pieces [OF that] piece_trans by blast
  then show ?thesis using p c r by simp
qed

section \<open>Lines written by the rules\<close>

text \<open>The arguments of a line: words, and perhaps a last argument after a colon, which may hold blanks.\<close>

fun line_args :: "string list \<Rightarrow> string option \<Rightarrow> string" where
  "line_args [] None = []"
| "line_args [] (Some t) = CHR '':'' # t"
| "line_args [w] None = w"
| "line_args (w # v # ws) None = w @ CHR '' '' # line_args (v # ws) None"
| "line_args (w # ws) (Some t) = w @ CHR '' '' # line_args ws (Some t)"

definition line_of :: "string option \<Rightarrow> string \<Rightarrow> string list \<Rightarrow> string option \<Rightarrow> string" where
  "line_of origin cmd ws fin =
     (case origin of None \<Rightarrow> [] | Some a \<Rightarrow> CHR '':'' # a @ '' '') @ cmd @
     (if ws = [] \<and> fin = None then [] else CHR '' '' # line_args ws fin)"

definition given_args :: "string list \<Rightarrow> string option \<Rightarrow> string list" where
  "given_args ws fin = ws @ (case fin of None \<Rightarrow> [] | Some t \<Rightarrow> [t])"

lemma line_args_start:
  assumes "list_all word_ok ws" "ws \<noteq> [] \<or> fin \<noteq> None"
  shows "line_args ws fin \<noteq> [] \<and> \<not> c_isspace (deref (line_args ws fin))"
  using assms by (cases "(ws, fin)" rule: line_args.cases) (auto elim!: word_ok_Cons simp: c_isspace_def)

lemma ircsplit_more:
  assumes d: "drop b m = w @ CHR '' '' # rest @ [NUL]" and w: "word_ok w" and rest: "\<not> c_isspace (deref (rest @ [NUL]))"
    and IH: "\<And>m1 acc. drop (b + length w + 1) m1 = rest @ [NUL] \<Longrightarrow>
      \<exists>m' ps. ircsplit_loop True m1 (b + length w + 1) 0 acc = (m', acc @ ps) \<and> length m' = length m1 \<and>
        take (b + length w + 1) m' = take (b + length w + 1) m1 \<and> map (arg_at m') ps = xs"
  shows "\<exists>m' ps. ircsplit_loop True m b 0 acc = (m', acc @ ps) \<and> length m' = length m \<and>
     take b m' = take b m \<and> map (arg_at m') ps = Some w # xs"
proof -
  let ?m = "m[b + length w := NUL]"
  have d1: "drop (b + length w + 1) ?m = rest @ [NUL]" using drop_further [OF d, of "length w + 1"] by simp
  obtain m' ps where m': "ircsplit_loop True ?m (b + length w + 1) 0 (acc @ [b]) = (m', (acc @ [b]) @ ps)" "length m' = length ?m"
    "take (b + length w + 1) m' = take (b + length w + 1) ?m" "map (arg_at m') ps = xs"
    using IH [OF d1] by blast
  have "split_step m b 0 = (?m, b + length w + 1, 0, b)"
    by (intro split_step_word [OF d w next_word_more [OF d w rest]]) simp
  moreover have "at m b \<noteq> NUL" "at m b \<noteq> CHR '':''" using w d by (auto elim!: word_ok_Cons simp: at_drop)
  ultimately have "ircsplit_loop True m b 0 acc = (m', acc @ b # ps)"
    using m'(1) by (simp add: ircsplit_loop.simps [of _ m b])
  moreover have "arg_at m' b = Some w" using arg_at_cut [OF d _ _ m'(3)] w m'(2) by (simp add: word_ok_def)
  moreover have "take b m' = take b m" using arg_cong [OF m'(3), of "take b"] by (simp add: min_def)
  ultimately show ?thesis using m'(2,4) by auto
qed

lemma ircsplit_loop_args:
  assumes "list_all word_ok ws" "\<And>t. fin = Some t \<Longrightarrow> nul_free t" "drop b m = line_args ws fin @ [NUL]"
  shows "\<exists>m' ps. ircsplit_loop True m b 0 acc = (m', acc @ ps) \<and> length m' = length m \<and>
     take b m' = take b m \<and> map (arg_at m') ps = map Some (given_args ws fin)"
  using assms
proof (induction ws fin arbitrary: m b acc rule: line_args.induct)
  case 1
  then have "at m b = NUL" by (simp add: at_drop)
  then show ?case by (simp add: ircsplit_loop.simps given_args_def)
next
  case (2 t)
  then have d: "drop b m = CHR '':'' # t @ [NUL]" by simp
  then have "at m b = CHR '':''" by (rule at_drop)
  moreover have "drop (b + 1) m = t @ [NUL]" using drop_further [OF d, of 1] by simp
  then have "arg_at m (b + 1) = Some t"
    using 2(2) [of t] drop_Cons_less [of "b + 1" m] by (cases t) (auto simp: arg_at_def c_str_append_stop)
  ultimately show ?case by (simp add: ircsplit_loop.simps given_args_def)
next
  case (3 w)
  then have w: "word_ok w" and d: "drop b m = w @ [NUL]" by simp_all
  then have "drop (b + length w) m = [NUL]" using drop_further [OF d, of "length w"] by simp
  then have stop: "at m (b + length w) = NUL" by (rule at_drop)
  have "split_step m b 0 = (m, b + length w, 0, b)" using split_step_word [OF d w next_word_last [OF d w]] by simp
  moreover have "at m b \<noteq> NUL" "at m b \<noteq> CHR '':''" using w d by (auto elim!: word_ok_Cons simp: at_drop)
  ultimately have "ircsplit_loop True m b 0 acc = (m, acc @ [b])"
    using stop by (simp add: ircsplit_loop.simps [of _ m b] ircsplit_loop.simps [of _ m "b + length w"])
  moreover have "b < length m" using d w by (auto elim!: word_ok_Cons intro: drop_Cons_less)
  ultimately show ?case using d w by (auto simp: arg_at_def c_str_append_stop word_ok_def given_args_def)
next
  case more: (4 w v ws)
  then have w: "word_ok w" and d: "drop b m = w @ CHR '' '' # line_args (v # ws) None @ [NUL]" by simp_all
  have rest: "\<not> c_isspace (deref (line_args (v # ws) None @ [NUL]))"
    using line_args_start [of "v # ws" None] more(2) by (cases "line_args (v # ws) None") auto
  show ?case
    using ircsplit_more [OF d w rest more.IH, of acc] more(2,3) by (simp add: given_args_def)
next
  case more: (5 w ws t)
  then have w: "word_ok w" and d: "drop b m = w @ CHR '' '' # line_args ws (Some t) @ [NUL]" by simp_all
  have rest: "\<not> c_isspace (deref (line_args ws (Some t) @ [NUL]))"
    using line_args_start [of ws "Some t"] more(2) by (cases "line_args ws (Some t)") auto
  show ?case
    using ircsplit_more [OF d w rest more.IH, of acc] more(2,3) by (simp add: given_args_def)
qed

lemma ircsplitbuf_args:
  assumes "list_all word_ok ws" "\<And>t. fin = Some t \<Longrightarrow> nul_free t"
  shows "ircsplitbuf (Some (line_args ws fin)) True = map Some (given_args ws fin)"
proof -
  obtain m' ps where "ircsplit_loop True (line_args ws fin @ [NUL]) 0 0 [] = (m', [] @ ps)"
    "map (arg_at m') ps = map Some (given_args ws fin)"
    using ircsplit_loop_args [OF assms(1), of fin 0 "line_args ws fin @ [NUL]" "[]"] assms(2) by auto
  then show ?thesis by (simp add: ircsplitbuf_def)
qed

lemma cut_word_append:
  assumes "CHR '' '' \<notin> set w" "\<not> c_isspace (deref rest)"
  shows "cut_word (w @ CHR '' '' # rest) = Some (w, rest)"
proof -
  have "takeWhile (\<lambda>c. c \<noteq> CHR '' '') (w @ CHR '' '' # rest) = w" "dropWhile (\<lambda>c. c \<noteq> CHR '' '') (w @ CHR '' '' # rest) = CHR '' '' # rest"
    using assms(1) by (induction w) auto
  moreover have "dropWhile c_isspace rest = rest" using assms(2) by (cases rest) auto
  ultimately show ?thesis by (simp add: cut_word_def)
qed

lemma strlcpy_short: "nul_free s \<Longrightarrow> length s < k \<Longrightarrow> strlcpy_str k s = s"
  by (simp add: strlcpy_str_def)

text \<open>A word that fits the arrays of \<open>parse\<close>.\<close>

definition name_ok :: "string \<Rightarrow> bool" where
  "name_ok w \<longleftrightarrow> nul_free w \<and> CHR '' '' \<notin> set w \<and> length w < 64"

lemma split_command_line:
  assumes "word_ok cmd" "name_ok cmd" "list_all word_ok ws"
  shows "split_command (line_of None cmd ws fin) = (cmd, line_args ws fin)"
proof (cases "ws = [] \<and> fin = None")
  case True
  then show ?thesis using assms(2)
    by (simp add: split_command_def line_of_def cut_word_def name_ok_def strlcpy_short)
next
  case False
  then have "cut_word (line_of None cmd ws fin) = Some (cmd, line_args ws fin)"
    using assms(2) line_args_start [OF assms(3)] by (auto simp: line_of_def name_ok_def intro!: cut_word_append)
  then show ?thesis using assms(2) by (simp add: split_command_def name_ok_def strlcpy_short)
qed

text \<open>C25. A line written by the rules of the protocol is read back as it was meant: \<open>parse\<close> finds the origin, the command
  and the arguments, and a last argument after a colon is one argument with its blanks. The origin and the
  command are shorter than 64 characters, the words do not start with a colon or white space, and the line after an
  origin is not longer than the line buffer.\<close>

theorem parse_line_of:
  assumes "word_ok cmd" "name_ok cmd" and "list_all word_ok ws" and "\<And>t. fin = Some t \<Longrightarrow> nul_free t"
    and "\<And>a. origin = Some a \<Longrightarrow> name_ok a \<and> length (line_of None cmd ws fin) \<le> BUFSIZE"
  shows "parse_line (line_of origin cmd ws fin) =
    Some \<lparr>pl_cmdptr = (if origin = None then 0 else 1), pl_cmd = cmd,
          pl_origin = (case origin of None \<Rightarrow> [] | Some a \<Rightarrow> a), pl_args = map Some (given_args ws fin)\<rparr>"
proof -
  let ?l = "line_of None cmd ws fin"
  have l: "?l \<noteq> []" "deref ?l \<noteq> CHR '':''" "\<not> c_isspace (deref ?l)"
    using assms(1) by (auto elim!: word_ok_Cons simp: line_of_def)
  note split = split_command_line [OF assms(1-3), of fin] ircsplitbuf_args [OF assms(3), of fin, OF assms(4)]
  show ?thesis
  proof (cases origin)
    case None
    then show ?thesis using l split by (simp add: parse_line_def take_origin_def)
  next
    case (Some a)
    then have a: "nul_free a" "CHR '' '' \<notin> set a" "length a < 64" "length ?l \<le> BUFSIZE"
      using assms(5) by (auto simp: name_ok_def)
    have eq: "line_of (Some a) cmd ws fin = (CHR '':'' # a) @ CHR '' '' # ?l" by (simp add: line_of_def)
    have "cut_word (line_of (Some a) cmd ws fin) = Some (CHR '':'' # a, ?l)"
      unfolding eq using a(2) l(3) by (intro cut_word_append) auto
    then have "take_origin (line_of (Some a) cmd ws fin) = Some (1, a, ?l)"
      using a by (simp add: take_origin_def eq moved_rest_def strlcpy_short)
    then show ?thesis using Some l split by (simp add: parse_line_def eq)
  qed
qed

lemma parse_line_of_witness:
  "parse_line '':Fish KICK #neo Cat :out you go'' =
    Some \<lparr>pl_cmdptr = 1, pl_cmd = ''KICK'', pl_origin = ''Fish'', pl_args = [Some ''#neo'', Some ''Cat'', Some ''out you go'']\<rparr>"
proof -
  have "word_ok ''KICK'' \<and> name_ok ''KICK'' \<and> list_all word_ok [''#neo'', ''Cat''] \<and> name_ok ''Fish''" by code_simp
  then have "parse_line (line_of (Some ''Fish'') ''KICK'' [''#neo'', ''Cat''] (Some ''out you go'')) =
      Some \<lparr>pl_cmdptr = 1, pl_cmd = ''KICK'', pl_origin = ''Fish'', pl_args = map Some (given_args [''#neo'', ''Cat''] (Some ''out you go''))\<rparr>"
    by (subst parse_line_of) (auto simp: line_of_def BUFSIZE_def)
  then show ?thesis by (simp add: line_of_def given_args_def)
qed

end
