(* ===== verification/NetTotal.thy ===== *)
theory NetTotal
  imports NetOps
begin

text \<open>
  When a handler returns: in a state of the invariant signing on, linking, joining and changing
  nick never run into a failed assertion or a null pointer, and the state they return is known
  as far as the invariant speaks of it.
\<close>

section \<open>Flags\<close>

lemma has_other: "f AND g = 0 \<Longrightarrow> has (set_flag x f) g = has x g" "f AND g = 0 \<Longrightarrow> has (clear_flag x f) g = has x g"
proof -
  assume 0: "f AND g = 0"
  then have "(x OR f) AND g = x AND g" by (simp add: bit.conj_disj_distrib2)
  then show "has (set_flag x f) g = has x g" by (simp add: has_def set_flag_def)
  have "\<not> (bit f i \<and> bit g i)" for i using 0 bit_and_iff [of f g i] by simp
  then have "(x AND NOT f) AND g = x AND g" by (simp add: bit_eq_iff bit_simps) blast
  then show "has (clear_flag x f) g = has x g" by (simp add: has_def clear_flag_def)
qed

text \<open>The two flags that say who leaves how: the program's own users, and kicked users waiting for their part.\<close>

definition part_flags :: "uint \<Rightarrow> bool \<times> bool" where
  "part_flags fl = (has fl CLIENT_FLAG_ME, has fl CLIENT_FLAG_ZOMBIE)"

lemma part_flags_simps [simp]:
  "part_flags (set_flag x NS_FLAG_EXCLUDED) = part_flags x" "part_flags (clear_flag x NS_FLAG_EXCLUDED) = part_flags x"
  "part_flags (set_flag x NS_FLAGS_NETJOIN) = part_flags x"
  "part_flags (clear_flag x CLIENT_FLAG_SYNCHED) = part_flags x" "part_flags 0 = (False, False)"
  "part_flags (set_flag x CLIENT_FLAG_ME) = (True, snd (part_flags x))"
  by (simp_all add: part_flags_def has_other ns_flags) (simp_all add: has_def set_flag_def bit.conj_disj_distrib2)

lemma exclude_part_flags:
  "ns_do_exclude_user a n = Some n' \<Longrightarrow> map_option part_flags (flags_of n' b) = map_option part_flags (flags_of n b)"
  by (auto simp: ns_do_exclude_user_def upd_client_def bind_eq_Some_conv flags_of_def split: if_splits)

lemma IsMe_part_flags: "map_option part_flags (flags_of n' b) = map_option part_flags (flags_of n b) \<Longrightarrow> IsMe n' b = IsMe n b"
  by (cases "flags_of n b"; cases "flags_of n' b") (auto simp: IsMe_def client_flag_def part_flags_def)

section \<open>Linking a server\<close>

lemma FindServer_obj:
  "net_ok N n \<Longrightarrow> FindServer n name = Some (case obj (serverhash n) name of None \<Rightarrow> 0 | Some a \<Rightarrow> a)"
  unfolding FindServer_def by (rule find_in_obj [OF namedD(1)]) (rule servers_okD, rule net_okD)

lemma FindServer_iff:
  assumes "net_ok N n" "s \<noteq> 0"
  shows "FindServer n name = Some s \<longleftrightarrow> (\<exists>nm. sview n s = Some nm \<and> irc_key nm name)"
proof -
  note nmd = servers_okD(1) [OF net_okD(5) [OF assms(1)]]
  have "FindServer n name = Some s \<longleftrightarrow> obj (serverhash n) name = Some s"
    using FindServer_obj [OF assms(1), of name] assms(2) by (auto split: option.splits)
  then show ?thesis
    using namedD(2,3) [OF nmd] obj_same [OF namedD(1) [OF nmd]] by metis
qed

lemma FindServer_none: "net_ok N n \<Longrightarrow> sview n = (\<lambda>a. None) \<Longrightarrow> FindServer n name = Some 0"
  using FindServer_obj [of N n name] namedD(2) [OF servers_okD(1) [OF net_okD(5)], of N n name]
  by (cases "obj (serverhash n) name") auto

lemma FindChannel_iff:
  assumes "net_ok N n" "c \<noteq> 0"
  shows "FindChannel n chan = Some c \<longleftrightarrow> (\<exists>x ms k. cview n c = Some (x, ms, k) \<and> irc_key x chan)"
proof
  assume "\<exists>x ms k. cview n c = Some (x, ms, k) \<and> irc_key x chan"
  then obtain x where x: "cname (cview n) c = Some x" "irc_key x chan" by auto
  then have "obj (channelhash n) chan = Some c"
    using namedD(3) [OF net_okD(2) [OF assms(1)] x(1)] obj_same [OF namedD(1) [OF net_okD(2) [OF assms(1)]] x(2)] by simp
  then show "FindChannel n chan = Some c" using FindChannel_obj [OF assms(1)] by simp
qed (use FindChannel_view [OF assms(1) _ assms(2)] in metis)

lemma FindExclude_total: "list_all exclude_ok es \<Longrightarrow> nul_free s \<Longrightarrow> \<exists>r. FindExclude es ty s = Some r"
  by (induction es) (use matches_total in \<open>fastforce+\<close>)

text \<open>A name no object has is free for a new one.\<close>

lemma put_free:
  assumes nmd: "named N b h name" and free: "find_in h k = Some 0" and b: "0 < b" "b \<le> a" "a < 2 ^ 61"
  shows "\<exists>t. hnode_create_insert a h v k = Some t"
proof -
  have "obj h k = None"
  proof (cases "obj h k")
    case (Some x)
    then have "x = 0" using free find_in_obj [OF namedD(1) [OF nmd], of k] by simp
    then show ?thesis using Some namedD(2,5) [OF nmd] by blast
  qed simp
  then show ?thesis using obj_put [OF namedD(1) [OF nmd], of k a v] b by auto
qed

lemma AddServer_links:
  assumes ok: "good N n" and small: "room n" and name: "length name < MAXNICK" "nul_free name" "name \<in> N"
    and free: "FindServer n name = Some 0" and ex: "list_all exclude_ok (exclude_list n)"
  shows "\<exists>n'. AddServer E name uplink hops numeric info n = Some (next_addr n, n') \<and> good N n' \<and>
    sview n' = (sview n)(next_addr n := Some name) \<and> uview n' = uview n \<and> cview n' = cview n \<and>
    next_addr n' = next_addr n + 2 \<and> servercount n' = servercount n + 1 \<and> exclude_list n' = exclude_list n \<and>
    map_option part_flags (flags_of n' (next_addr n)) = Some (irc_eq name (me_name E), False)"
proof -
  let ?s = "next_addr n"
  have cut: "strlcpy_str MAXHOST name = name"
    using name by (simp add: strlcpy_str_def MAXNICK_def MAXHOST_def)
  have pos: "0 < ?s" using net_okD(4) [OF good_ok [OF ok]] .
  note nmd = servers_okD(1) [OF net_okD(5) [OF good_ok [OF ok]]]
  obtain t where t: "hnode_create_insert (Suc ?s) (serverhash n) ?s name = Some t"
    using put_free [OF nmd free [unfolded FindServer_def] pos, of "Suc ?s" ?s] small by (auto simp: room_def)
  have nf: "\<not> hash_isfull (serverhash n)"
    by (rule not_full_table [OF namedD(1) [OF nmd]]) (use small in \<open>simp add: room_def\<close>)
  define M where "M c tr = n\<lparr>clients := (clients n)(?s \<mapsto> c), next_addr := Suc (Suc ?s), serverhash := t,
      servercount := servercount n + 1, trace := tr\<rparr>" for c tr
  define c0 where "c0 = (blank_client name)\<lparr>c_server := Some new_server_rec\<rparr>"
  have new: "new_server name n = Some (?s, M c0 (trace n))"
    using nf t name by (simp add: new_server_def alloc_def M_def c0_def cut)
  have upd: "upd_client ?s f (M c tr) = Some (M (f c) tr)" for f c tr
    by (simp add: upd_client_def M_def)
  have updS: "c_server c = Some r \<Longrightarrow> upd_server ?s f (M c tr) = Some (M (c\<lparr>c_server := Some (f r)\<rparr>) tr)" for f c r tr
    by (simp add: upd_server_def server_of_def upd_client_def M_def)
  have M: "clients (M c tr) ?s = Some c" "exclude_list (M c tr) = exclude_list n" "trace (M c tr) = tr"
    "SendAllModuleEvent e p (M c tr) = M c (tr @ [AllModules e p])" for c tr e p
    by (simp_all add: M_def SendAllModuleEvent_def emit_def)
  obtain ups where ups: "FindServer (M c tr) up = Some (ups up)" for c tr up
  proof -
    have "named N (Suc (Suc ?s)) t ((sview n)(?s := Some name))"
      by (rule named_put [OF nmd t]) (use small fresh_views [OF good_ok [OF ok]] name pos in \<open>auto simp: room_def\<close>)
    then show ?thesis using that find_in_obj [OF namedD(1)] by (simp add: FindServer_def M_def)
  qed
  obtain r where r: "FindExclude (exclude_list n) NS_EXCLUDE_SERVER name = Some r" using FindExclude_total [OF ex name(2)] by blast
  define linked where "linked m \<longleftrightarrow> (\<exists>c tr. m = Some (?s, M c tr) \<and> c_user c = None \<and> c_server c \<noteq> None \<and> c_name c = name \<and>
      part_flags (c_flags c) = (irc_eq name (me_name E), False))"
    for m :: "(addr \<times> net) option"
  have fin: "c_user c = None \<Longrightarrow> c_server c \<noteq> None \<Longrightarrow> c_name c = name \<Longrightarrow>
      part_flags (c_flags c) = (irc_eq name (me_name E), False) \<Longrightarrow> linked (Some (?s, M c tr))" for c tr
    unfolding linked_def by blast
  have "linked (AddServer E name uplink hops numeric info n)"
    unfolding AddServer_def ns_do_exclude_server_def
    by (cases hops; cases uplink; cases info; cases numeric; cases r)
      (simp_all add: new upd updS M ups r fin c0_def blank_client_def new_server_rec_def)
  then obtain c tr where res: "AddServer E name uplink hops numeric info n = Some (?s, M c tr)"
    and c: "c_user c = None" "c_server c \<noteq> None" "c_name c = name"
      "part_flags (c_flags c) = (irc_eq name (me_name E), False)" unfolding linked_def by blast
  have g: "good N (M c tr)" using endsD [OF AddServer_good [OF ok small] res] cut name(3) by simp
  have "uview (M c tr) = uview n" "sview (M c tr) = (sview n)(?s := Some name)" "cview (M c tr) = cview n"
    using c fresh_views [OF good_ok [OF ok]] by (auto simp: M_def uview_def sview_def cview_def fun_eq_iff)
  then show ?thesis using res g c(4) by (simp add: M_def flags_of_def)
qed

section \<open>Signing on\<close>

lemma userhost_nul_free [simp]: "nul_free (userhost_mask a b c)"
  by (simp add: userhost_mask_def)

lemma user_ip_trace: "\<exists>ip tr. user_ip E name host ip0 n = (ip, n\<lparr>trace := tr\<rparr>)"
proof -
  have "\<exists>tr. n = n\<lparr>trace := tr\<rparr>" by (rule exI [of _ "trace n"]) simp
  then show ?thesis by (auto simp: user_ip_def process_ip_def emit_def split: option.splits)
qed

text \<open>A new user on a known server, with a nick that is free and short enough to be kept whole.\<close>

lemma AddUser_signs_on:
  assumes ok: "good N n" and small: "room n" and nick: "length nick < MAXNICK" "nul_free nick" "nick \<in> N"
    and free: "FindUser n nick = Some 0" and up: "FindServer n server = Some up" "up \<noteq> 0"
    and ex: "list_all exclude_ok (exclude_list n)"
  shows "\<exists>n'. AddUser E nick usr host realname server ip TS numeric n = Some (next_addr n, n') \<and> good N n' \<and>
    uview n' = (uview n)(next_addr n := Some (nick, [], False)) \<and> cview n' = cview n \<and> sview n' = sview n \<and>
    next_addr n' = next_addr n + 2 \<and> usercount n' = usercount n + 1 \<and> awaycount n' = awaycount n \<and>
    serverhash n' = serverhash n \<and> exclude_list n' = exclude_list n \<and>
    (\<exists>c s s'. clients n' (next_addr n) = Some c \<and> c_uplink c = up \<and> server_of n up = Some s \<and>
      server_of n' up = Some s' \<and> sv_users s' = sv_users s + 1) \<and>
    map_option part_flags (flags_of n' (next_addr n)) = map_option (\<lambda>fl. (has fl CLIENT_FLAG_ME, False)) (flags_of n up) \<and>
    (\<exists>c r. clients n' (next_addr n) = Some c \<and> c_user c = Some r \<and> nul_free (u_hostname r) \<and> nul_free (c_hostip c))"
proof -
  let ?a = "next_addr n"
  have cut: "strlcpy_str MAXNICK nick = nick" using nick by (simp add: strlcpy_str_def)
  note nok = good_ok [OF ok]
  have pos: "0 < ?a" using net_okD(4) [OF nok] .
  note nmd = net_okD(1) [OF nok]
  obtain t where t: "hnode_create_insert (Suc ?a) (userhash n) ?a nick = Some t"
    using put_free [OF nmd free [unfolded FindUser_def] pos, of "Suc ?a" ?a] small by (auto simp: room_def)
  have nf: "\<not> hash_isfull (userhash n)"
    by (rule not_full_table [OF namedD(1) [OF nmd]]) (use small in \<open>simp add: room_def\<close>)
  obtain sn where "sview n up = Some sn" using FindServer_iff [OF nok up(2)] up(1) by blast
  then obtain s0 sv0 where s0: "clients n up = Some s0" "c_server s0 = Some sv0" "c_name s0 = sn"
    by (auto simp: sview_def bind_eq_Some_conv)
  have "uview n up = None" using servers_okD(2) [OF net_okD(5) [OF nok], of up] \<open>sview n up = Some sn\<close> by (cases "uview n up") auto
  then have s0u: "c_user s0 = None" using s0 by (auto simp: uview_def bind_eq_None_conv)
  have other: "up \<noteq> ?a" using \<open>sview n up = Some sn\<close> fresh_views(3) [OF nok] by auto
  define M where "M c s tr = n\<lparr>clients := (clients n)(?a \<mapsto> c, up \<mapsto> s), next_addr := Suc (Suc ?a), userhash := t,
      usercount := usercount n + 1, trace := tr\<rparr>" for c s tr
  define c0 where "c0 = (blank_client nick)\<lparr>c_user := Some new_user_rec\<rparr>"
  have new: "new_user nick n = Some (?a, M c0 s0 (trace n))"
    using nf t other s0(1) by (simp add: new_user_def alloc_def M_def c0_def cut fun_upd_idem)
  have upd: "upd_client ?a f (M c s tr) = Some (M (f c) s tr)" for f c s tr
    using other by (simp add: upd_client_def M_def fun_upd_twist)
  have set: "(M c s tr)\<lparr>clients := (clients (M c s tr))(?a \<mapsto> c')\<rparr> = M c' s tr" for c c' s tr
    by (rule net.equality) (use other in \<open>simp_all add: M_def fun_upd_twist\<close>)
  have updU: "c_user c = Some u \<Longrightarrow> upd_user ?a f (M c s tr) = Some (M (c\<lparr>c_user := Some (f u)\<rparr>) s tr)" for f c u s tr
    using upd other by (simp add: upd_user_def user_of_def M_def)
  have updS: "c_server s = Some r \<Longrightarrow> upd_server up f (M c s tr) = Some (M c (s\<lparr>c_server := Some (f r)\<rparr>) tr)" for f r c s tr
    by (simp add: upd_server_def server_of_def upd_client_def M_def)
  have M: "clients (M c s tr) ?a = Some c" "clients (M c s tr) up = Some s" "exclude_list (M c s tr) = exclude_list n"
    "emit x (M c s tr) = M c s (tr @ [x])" "FindServer (M c s tr) server = Some up" for c s tr x
    using other up(1) by (simp_all add: M_def emit_def FindServer_def)
  have ev: "SendAllModuleEvent e p (M c s tr) = M c s (tr @ [AllModules e p])" for e p c s tr
    by (simp add: SendAllModuleEvent_def M)
  have flags: "IsMe (M c s tr) up = Some (has (c_flags s) CLIENT_FLAG_ME)" "IsMe (M c s tr) ?a = Some (has (c_flags c) CLIENT_FLAG_ME)"
    "IsExcluded (M c s tr) ?a = Some (has (c_flags c) NS_FLAG_EXCLUDED)" for c s tr
    using pos up(2) by (simp_all add: IsMe_def IsExcluded_def client_flag_def flags_of_def M)
  have join: "\<exists>fl. netjoin E ?a up (M c s tr) = Some (M (c\<lparr>c_flags := fl\<rparr>) s tr) \<and> part_flags fl = part_flags (c_flags c)" for c s tr
  proof -
    have "\<exists>fl. M c s tr = M (c\<lparr>c_flags := fl\<rparr>) s tr \<and> part_flags fl = part_flags (c_flags c)" by (rule exI [of _ "c_flags c"]) simp
    then show ?thesis using up(2)
      by (auto simp: netjoin_def M upd IsSynched_def client_flag_def flags_of_def)
  qed
  have excl: "\<exists>fl. ns_do_exclude_user ?a (M c s tr) = Some (M (c\<lparr>c_flags := fl\<rparr>) s tr)"
    if "c_user c = Some u" "c_uplink c = up" "nul_free (u_hostname u)" "nul_free (c_hostip c)" "nul_free (u_userhostmask u)" for c u s tr
    using ns_do_exclude_user_total [of "M c s tr" ?a c u s] ex that by (auto simp: M set)
  have b64: "set_nick_base64 nick b (M c s tr) = Some (NS_SUCCESS, M (c\<lparr>c_name64 := strlcpy_str B64SIZE b\<rparr>) s tr)" for b c s tr
  proof -
    have "named N (Suc (Suc ?a)) t ((uname (uview n))(?a := Some nick))"
      by (rule named_put [OF nmd t]) (use small fresh_views [OF nok] nick pos in \<open>auto simp: room_def\<close>)
    then have "find_in t nick = Some ?a"
      using find_in_obj [OF namedD(1)] namedD(3) [of N "Suc (Suc ?a)" t "(uname (uview n))(?a := Some nick)" ?a nick] by simp
    then have "FindUser (M c s tr) nick = Some ?a" by (simp add: FindUser_def M_def)
    then show ?thesis using pos by (simp add: set_nick_base64_def upd)
  qed
  obtain ipa tr0 where ipa: "user_ip E nick host ip (M c0 s0 (trace n)) = (ipa, M c0 s0 tr0)"
  proof -
    obtain ipa tr where "user_ip E nick host ip (M c0 s0 (trace n)) = (ipa, (M c0 s0 (trace n))\<lparr>trace := tr\<rparr>)"
      using user_ip_trace by blast
    then show ?thesis using that by (simp add: M_def)
  qed
  define c1 where "c1 = (fill_user E nick usr host realname TS c0)\<lparr>c_uplink := up\<rparr>"
  define s1 where "s1 = s0\<lparr>c_server := Some (sv0\<lparr>sv_users := sv_users sv0 + 1\<rparr>)\<rparr>"
  obtain f1 where f1: "netjoin E ?a up (M c1 s1 tr0) = Some (M (c1\<lparr>c_flags := f1\<rparr>) s1 tr0)"
    "part_flags f1 = part_flags (c_flags c1)" using join by blast
  obtain u1 where u1: "c_user c1 = Some u1" "nul_free (u_hostname u1)" "nul_free (u_userhostmask u1)" "u_is_away u1 = False"
    by (simp add: c1_def fill_user_def c0_def new_user_rec_def)
  define c2 where "c2 = c1\<lparr>c_flags := f1, c_user := Some (u1\<lparr>u_tslastmsg := me_now E, u_chans := []\<rparr>), c_ip := c_htonl E ipa,
    c_hostip := strlcpy_str HOSTIPLEN (c_inet_ntoa E (c_htonl E ipa))\<rparr>"
  define c3 where "c3 = (if has (c_flags s0) CLIENT_FLAG_ME then c2\<lparr>c_flags := set_flag (c_flags c2) CLIENT_FLAG_ME\<rparr> else c2)"
  have c3: "c_user c3 = Some (u1\<lparr>u_tslastmsg := me_now E, u_chans := []\<rparr>)" "c_uplink c3 = up" "nul_free (c_hostip c3)"
    "c_name c3 = nick" "c_server c3 = None" "part_flags (c_flags c3) = (has (c_flags s0) CLIENT_FLAG_ME, False)"
    using f1(2) by (simp_all add: part_flags_def [of 0] has_def [of 0] c3_def c2_def c1_def fill_user_def c0_def blank_client_def)
  obtain f2 where f2: "ns_do_exclude_user ?a (M c3 s1 tr0) = Some (M (c3\<lparr>c_flags := f2\<rparr>) s1 tr0)"
    using excl [OF c3(1,2) _ c3(3)] u1 by auto
  have f2p: "part_flags f2 = (has (c_flags s0) CLIENT_FLAG_ME, False)"
    using exclude_part_flags [OF f2, of ?a] c3(6) by (simp add: flags_of_def M)
  define good_end where "good_end m \<longleftrightarrow> (\<exists>c tr. m = Some (?a, M c s1 tr) \<and> c_user c = c_user c3 \<and> c_server c = None \<and>
      c_name c = nick \<and> c_uplink c = up \<and> c_flags c = f2 \<and> nul_free (c_hostip c))" for m :: "(addr \<times> net) option"
  have fin: "c_user c = c_user c3 \<Longrightarrow> c_server c = None \<Longrightarrow> c_name c = nick \<Longrightarrow> c_uplink c = up \<Longrightarrow> c_flags c = f2 \<Longrightarrow>
      nul_free (c_hostip c) \<Longrightarrow> good_end (Some (?a, M c s1 tr))" for c tr
    unfolding good_end_def by blast
  have me: "(if has (c_flags s1) CLIENT_FLAG_ME
      then upd_client ?a (\<lambda>c. c\<lparr>c_flags := set_flag (c_flags c) CLIENT_FLAG_ME\<rparr>) (M c2 s1 tr0) else Some (M c2 s1 tr0)) =
    Some (M c3 s1 tr0)"
    by (simp add: s1_def c3_def upd)
  have "AddUser E nick usr host realname server ip TS numeric n = (let n = M (c3\<lparr>c_flags := f2\<rparr>) s1 tr0 in do {
         n \<leftarrow> (case numeric of
                Some num \<Rightarrow>
                  if has (ircd_protocol E) PROTOCOL_B64NICK
                  then do { c \<leftarrow> clients n ?a; (_, n) \<leftarrow> set_nick_base64 (c_name c) num n; Some n } else Some n
              | None \<Rightarrow> Some n);
         let p = no_params\<lparr>cp_source := ?a\<rparr>;
         let n = SendAllModuleEvent EVENT_SIGNON p n;
         let n = (if me_want_nickip E \<and> ipa \<noteq> 0 then SendAllModuleEvent EVENT_NICKIP p n else n);
         ex \<leftarrow> IsExcluded n ?a;
         me \<leftarrow> IsMe n ?a;
         c \<leftarrow> clients n ?a;
         Some (?a, if me_synched E \<and> me_versionscan E \<and> \<not> ex \<and> \<not> me then emit (Send ''VERSION'' [c_name c]) n else n) })"
    unfolding AddUser_def
    by (simp add: free new pos [THEN gr_implies_not0] cut ipa upd updU updS M flags f1 me f2 s0 u1 c1_def [symmetric]
      s1_def [symmetric] c2_def [symmetric] Let_def split del: if_split)
  also have "good_end \<dots>"
    by (cases numeric) (simp_all add: M ev flags b64 c3 fin Let_def)
  finally obtain c tr where res: "AddUser E nick usr host realname server ip TS numeric n = Some (?a, M c s1 tr)"
    and c: "c_user c = c_user c3" "c_server c = None" "c_name c = nick" "c_uplink c = up" "c_flags c = f2" "nul_free (c_hostip c)" unfolding good_end_def by blast
  have g: "good N (M c s1 tr)" using endsD [OF AddUser_good [OF ok small] res] cut nick(3) by simp
  have "uview (M c s1 tr) = (uview n)(?a := Some (nick, [], False))" "sview (M c s1 tr) = sview n" "cview (M c s1 tr) = cview n"
    using c c3(1) u1(4) s0 s0u other fresh_views [OF nok]
    by (auto simp: M_def s1_def uview_def sview_def cview_def fun_eq_iff)
  moreover have "map_option part_flags (flags_of (M c s1 tr) ?a) = map_option (\<lambda>fl. (has fl CLIENT_FLAG_ME, False)) (flags_of n up)"
    using c(5) f2p s0(1) by (simp add: flags_of_def M)
  moreover have "\<exists>r. c_user c = Some r \<and> nul_free (u_hostname r)" using c(1) c3(1) u1(2) by simp
  moreover have "server_of n up = Some sv0" "server_of (M c s1 tr) up = Some (sv0\<lparr>sv_users := sv_users sv0 + 1\<rparr>)"
    using s0 by (simp_all add: server_of_def M s1_def)
  ultimately show ?thesis using res g c by (auto simp: M) (auto simp: M_def)
qed

section \<open>Joining\<close>

lemma new_chan_total:
  assumes ok: "good N n" and small: "room n" and chan: "length chan < MAXCHANLEN" "nul_free chan" "chan \<in> N"
    and free: "FindChannel n chan = Some 0" and ex: "list_all exclude_ok (exclude_list n)"
  shows "\<exists>n'. new_chan E chan n = Some (next_addr n, n')"
proof -
  let ?c = "next_addr n"
  have cut: "strlcpy_str MAXCHANLEN chan = chan" using chan by (simp add: strlcpy_str_def)
  note nok = good_ok [OF ok]
  have pos: "0 < ?c" using net_okD(4) [OF nok] .
  note nmd = net_okD(2) [OF nok]
  obtain t where t: "hnode_create_insert (Suc ?c) (channelhash n) ?c chan = Some t"
    using put_free [OF nmd free [unfolded FindChannel_def] pos, of "Suc ?c" ?c] small by (auto simp: room_def)
  have nf: "\<not> hash_isfull (channelhash n)"
    by (rule not_full_table [OF namedD(1) [OF nmd]]) (use small in \<open>simp add: room_def\<close>)
  obtain r where "FindExclude (exclude_list n) NS_EXCLUDE_CHANNEL chan = Some r" using FindExclude_total [OF ex chan(2)] by blast
  then show ?thesis
    using nf t by (auto simp: new_chan_def alloc_def Let_def cut upd_chan_def ns_do_exclude_chan_def new_channel_def)
qed

lemma JoinChannel_joins:
  assumes N: "coherent N" and ok: "good N n" and small: "room n"
    and chan: "length chan < MAXCHANLEN" "nul_free chan" "chan \<in> N" "\<not> irc_eq ''0'' chan"
    and ex: "list_all exclude_ok (exclude_list n)" and u: "FindUser n nick = Some u" "uview n u = Some (nm, cs, aw)"
  shows "\<exists>n' c x ms ms'. JoinChannel E nick chan n = Some n' \<and> good N n' \<and> next_addr n' \<le> next_addr n + 2 \<and>
    FindChannel n' chan = Some c \<and> c \<noteq> 0 \<and>
    (if FindChannel n chan = Some c then (\<exists>k. cview n c = Some (x, ms, k)) else x = chan \<and> ms = [] \<and> FindChannel n chan = Some 0 \<and> cview n c = None) \<and>
    ms' = (if u \<in> set ms then ms else ms @ [u]) \<and>
    cview n' = (cview n)(c := Some (x, ms', of_nat (length ms'))) \<and>
    uview n' = (if u \<in> set ms then uview n else (uview n)(u := Some (nm, cs @ [x], aw)))"
proof -
  note nok = good_ok [OF ok]
  have u0: "u \<noteq> 0" using namedD(5) [OF net_okD(1) [OF nok], of u nm] u(2) by simp
  have cut: "strlcpy_str MAXCHANLEN chan = chan" using chan by (simp add: strlcpy_str_def)
  obtain c0 where c0: "FindChannel n chan = Some c0" using FindChannel_obj [OF nok] by simp
  obtain c n1 where c: "(if c0 = 0 then new_chan E chan n else Some (c0, n)) = Some (c, n1)" "c \<noteq> 0"
    using new_chan_total [OF ok small chan(1-3) _ ex, of E] c0 net_okD(4) [OF nok] by (cases "c0 = 0") auto
  obtain x ms where n1: "net_ok N n1" "next_addr n1 \<le> next_addr n + 2" "uview n1 = uview n" "irc_key x chan"
    "cview n1 = (cview n)(c := Some (x, ms, of_nat (length ms)))"
    "if c0 = c then (\<exists>k. cview n c = Some (x, ms, k)) else x = chan \<and> ms = [] \<and> c0 = 0 \<and> cview n c = None"
  proof (cases "c0 = 0")
    case True
    then have "new_chan E chan n = Some (c, n1)" using c by simp
    from new_chan_view [OF nok _ _ this c(2)] small chan(3) cut that [of chan "[]"] True c(2) fresh_views(2) [OF nok] show ?thesis
      by (simp add: room_def irc_key_def)
  next
    case False
    then have eq: "c = c0" "n1 = n" using c by auto
    obtain x ms k where x: "cview n c0 = Some (x, ms, k)" "irc_key x chan" using FindChannel_view [OF nok c0 False] .
    have "k = of_nat (length ms)" by (rule members_okD(4) [OF net_okD(3) [OF nok] x(1)])
    then show ?thesis using that [of x ms] x nok eq by (simp add: fun_upd_idem)
  qed
  have cx: "cview n1 c = Some (x, ms, of_nat (length ms))" using n1(5) by simp
  have f1: "FindUser n1 nick = Some u" using FindUser_iff [OF n1(1) u0] FindUser_iff [OF nok u0] u n1(3) by simp
  have "next_addr n1 < 2 ^ 61" using n1(2) small by (simp add: room_def)
  from join_member_view [OF n1(1) N this _ f1 cx, of nm cs aw E] u(2) n1(3)
  obtain n' where n': "join_member E nick u c n1 = Some n'" "net_ok N n'" "next_addr n' = next_addr n1"
    "uview n' = (if u \<in> set ms then uview n else (uview n)(u := Some (nm, cs @ [x], aw)))"
    "cview n' = (if u \<in> set ms then cview n1 else (cview n1)(c := Some (x, ms @ [u], of_nat (length ms) + 1)))"
    by auto
  have res: "JoinChannel E nick chan n = Some n'" using u u0 chan(4) c0 c(1) n'(1) by (simp add: JoinChannel_def)
  have g: "good N n'" using JoinChannel_good [OF N ok small _ res] cut chan(3) by simp
  define ms' where "ms' = (if u \<in> set ms then ms else ms @ [u])"
  have cv: "cview n' = (cview n)(c := Some (x, ms', of_nat (length ms')))"
    using n'(5) n1(5) by (simp add: ms'_def add.commute)
  then have "FindChannel n' chan = Some c" using FindChannel_iff [OF n'(2) c(2)] n1(4) by auto
  moreover have "if FindChannel n chan = Some c then (\<exists>k. cview n c = Some (x, ms, k))
      else x = chan \<and> ms = [] \<and> FindChannel n chan = Some 0 \<and> cview n c = None"
    using n1(6) c0 by (cases "c0 = c") auto
  moreover have "next_addr n' \<le> next_addr n + 2" using n1(2) n'(3) by simp
  ultimately show ?thesis
    using res g cv n'(4) c(2)
    by (rule_tac x = n' in exI, rule_tac x = c in exI, rule_tac x = x in exI, rule_tac x = ms in exI, rule_tac x = ms' in exI)
      (auto simp: ms'_def)
qed

text \<open>A join leaves the flags alone, and only the program's own users are counted as such.\<close>

definition own_users :: "net \<Rightarrow> addr \<Rightarrow> uint option" where
  "own_users n c = map_option ch_neousers (channels n c)"

lemma JoinChannel_frame:
  assumes u: "FindUser n nick = Some u" "IsMe n u = Some False" and chan: "\<not> irc_eq ''0'' chan"
    and res: "JoinChannel E nick chan n = Some n'"
  shows "flags_of n' b = flags_of n b" "exclude_list n' = exclude_list n"
    "own_users n' c = own_users n c \<or> own_users n' c = Some 0"
proof -
  define same where "same m \<longleftrightarrow> flags_of m = flags_of n \<and> exclude_list m = exclude_list n \<and>
    (\<forall>c. own_users m c = own_users n c \<or> own_users m c = Some 0)" for m
  have updc: "same m \<Longrightarrow> upd_chan d f m = Some m' \<Longrightarrow> (\<And>ch. ch_neousers (f ch) = ch_neousers ch) \<Longrightarrow> same m'" for d f m m'
  proof -
    assume a: "same m" "upd_chan d f m = Some m'" "\<And>ch. ch_neousers (f ch) = ch_neousers ch"
    then have "flags_of m' = flags_of m" "exclude_list m' = exclude_list m" "own_users m' = own_users m"
      by (auto simp: upd_chan_def bind_eq_Some_conv flags_of_def own_users_def fun_eq_iff)
    then show "same m'" using a(1) by (simp add: same_def)
  qed
  have updu: "same m \<Longrightarrow> upd_user d f m = Some m' \<Longrightarrow> same m'" for d f m m'
  proof -
    assume a: "same m" "upd_user d f m = Some m'"
    then have "flags_of m' = flags_of m" "exclude_list m' = exclude_list m" "own_users m' = own_users m"
      by (auto simp: upd_user_def upd_client_def user_of_def bind_eq_Some_conv flags_of_def own_users_def fun_eq_iff)
    then show "same m'" using a(1) by (simp add: same_def)
  qed
  have new: "same m" if "new_chan E chan n = Some (d, m)" for d m
    using that
    by (auto simp: new_chan_def alloc_def Let_def bind_eq_Some_conv ns_do_exclude_chan_def upd_chan_def same_def
      flags_of_def [abs_def] own_users_def SendAllModuleEvent_def emit_def new_channel_def split: if_splits)
  have me: "IsMe m u = Some False" if "same m" for m
    using u(2) that by (cases "u = 0") (simp_all add: IsMe_def client_flag_def same_def)
  have ev: "same (SendAllModuleEvent e p m) = same m" for e p m
    by (simp add: same_def SendAllModuleEvent_def emit_def flags_of_def [abs_def] own_users_def)
  have "same n'"
  proof (cases "u = 0")
    case True
    then have "n' = n" using res u by (simp add: JoinChannel_def)
    then show ?thesis by (simp add: same_def)
  next
    case False
    have "same n" by (simp add: same_def)
    then obtain d n1 where n1: "same n1" "join_member E nick u d n1 = Some n'"
      using res u chan new False by (auto simp: JoinChannel_def bind_eq_Some_conv split: if_splits)
    then show ?thesis
      by (auto simp: join_member_def add_member_def bind_eq_Some_conv ev me split: if_splits
        dest!: updc [rotated] updu [rotated])
  qed
  then show "flags_of n' b = flags_of n b" "exclude_list n' = exclude_list n"
    "own_users n' c = own_users n c \<or> own_users n' c = Some 0" by (simp_all add: same_def)
qed

section \<open>Parting, changing nick, going away\<close>

lemma flags_upd_user:
  "upd_user a g n = Some n' \<Longrightarrow> flags_of n' b = flags_of n b \<and> channels n' = channels n"
  by (auto simp: upd_user_def upd_client_def user_of_def flags_of_def bind_eq_Some_conv)

lemma flags_upd_chan:
  "upd_chan c g n = Some n' \<Longrightarrow> flags_of n' b = flags_of n b \<and>
    (\<exists>ch. channels n c = Some ch \<and> channels n' = (channels n)(c \<mapsto> g ch))"
  by (auto simp: upd_chan_def flags_of_def bind_eq_Some_conv)

lemma leave_frame:
  assumes "del_user_channel c u n = Some n1" "del_channel_member c u n1 = Some n2"
  shows "flags_of n2 b = flags_of n b"
    "channels n c = Some ch \<Longrightarrow> \<exists>ch'. channels n2 c = Some ch' \<and> ch_neousers ch' = ch_neousers ch"
proof -
  have 1: "flags_of n1 b = flags_of n b" "channels n1 = channels n"
    using assms(1) by (auto simp: del_user_channel_def bind_eq_Some_conv dest: flags_upd_user)
  obtain g where 2: "n2 = n1 \<or> upd_chan c g n1 = Some n2" "\<And>ch. ch_neousers (g ch) = ch_neousers ch"
  proof -
    have *: "n2 = n1 \<or> (\<exists>ms. upd_chan c (\<lambda>ch. ch\<lparr>ch_members := ms,
        ch_users := (if ch_users ch > 0 then ch_users ch - 1 else ch_users ch)\<rparr>) n1 = Some n2)"
      using assms(2) by (auto simp: del_channel_member_def bind_eq_Some_conv split: if_splits)
    show ?thesis
      by (rule disjE [OF *]) (auto intro!: that)
  qed
  from 2(1) have "flags_of n2 b = flags_of n b \<and> (channels n c = Some ch \<longrightarrow> (\<exists>ch'. channels n2 c = Some ch' \<and> ch_neousers ch' = ch_neousers ch))"
  proof
    assume "upd_chan c g n1 = Some n2"
    from flags_upd_chan [OF this, of b] 1 2(2) show ?thesis by auto
  qed (use 1 in simp)
  then show "flags_of n2 b = flags_of n b"
    "channels n c = Some ch \<Longrightarrow> \<exists>ch'. channels n2 c = Some ch' \<and> ch_neousers ch' = ch_neousers ch" by blast+
qed

lemma del_chan_total:
  assumes ok: "net_ok N n" and ch: "channels n c = Some ch" "ch_members ch = []"
  shows "\<exists>n'. del_chan c n = Some n'"
proof -
  note nmd = net_okD(2) [OF ok]
  have "obj (channelhash n) (ch_name ch) = Some c" using namedD(3) [OF nmd, of c "ch_name ch"] ch by (simp add: cview_def)
  then obtain nd where nd: "hash_lookup (channelhash n) (ch_name ch) = Some (Some nd)"
    by (rule obj_node [OF namedD(1) [OF nmd]])
  then show ?thesis
    using ch del_total(1) [OF namedD(1) [OF nmd] nd]
    by (auto simp: del_chan_def Let_def SendAllModuleEvent_def emit_def hash_delete_destroy_node_def)
qed

text \<open>A user other than a bot leaves a channel on which there are no bots.\<close>

lemma PartChannel_parts:
  assumes N: "coherent N" and ok: "good N n" and a: "uview n u = Some (nm, cs, aw)" and f: "flags_of n u = Some fl"
    and plain: "\<not> has fl CLIENT_FLAG_ZOMBIE" "\<not> has fl CLIENT_FLAG_ME"
    and c: "FindChannel n chan = Some c" "channels n c = Some ch" "ch_neousers ch = 0"
  shows "\<exists>n'. PartChannel E u chan reason n = Some n' \<and> good N n' \<and>
    uview n' = (uview n)(u := Some (nm, remove1 (ch_name ch) cs, aw)) \<and>
    cview n' = (cview n)(c := (let ms = remove1 u (map cm_u (ch_members ch)) in
      if ms = [] then None else Some (ch_name ch, ms, of_nat (length ms))))"
proof -
  note nok = good_ok [OF ok]
  obtain cl where cl: "clients n u = Some cl" "c_flags cl = fl" using f by (auto simp: flags_of_def)
  let ?x = "ch_name ch" and ?ms = "map cm_u (ch_members ch)"
  have cv: "cview n c = Some (?x, ?ms, ch_users ch)" using c(2) by (simp add: cview_def)
  have c0: "c \<noteq> 0" using namedD(5) [OF net_okD(2) [OF nok], of c ?x] cv by simp
  have u0: "u \<noteq> 0" using namedD(5) [OF net_okD(1) [OF nok], of u nm] a by simp
  obtain n1 n2 where n12: "del_user_channel c u n = Some n1" "del_channel_member c u n1 = Some n2" "net_ok N n2"
    "uview n2 = (uview n)(u := Some (nm, remove1 ?x cs, aw))"
    "cview n2 = (cview n)(c := Some (?x, remove1 u ?ms, of_nat (length (remove1 u ?ms))))" "same_rest n n2"
    using leave_channel [OF nok N a cv] by blast
  define n3 where "n3 = SendAllModuleEvent EVENT_PART (no_params\<lparr>cp_channel := c, cp_source := u, cp_param := reason\<rparr>) n2"
  have core3: "core n3 = core n2" and ch3: "channels n3 = channels n2" and fl3: "flags_of n3 u = flags_of n2 u"
    by (simp_all add: n3_def SendAllModuleEvent_def emit_def flags_of_def core_eq_iff)
  have ok3: "net_ok N n3" using core3 n12(3) by (rule core_ok)
  obtain ch' where ch': "channels n3 c = Some ch'" "ch_neousers ch' = 0"
    using leave_frame(2) [OF n12(1,2) c(2)] c(3) ch3 by auto
  have v3: "ch_name ch' = ?x" "map cm_u (ch_members ch') = remove1 u ?ms" "ch_users ch' = of_nat (length (remove1 u ?ms))"
    using n12(5) core3 ch'(1) by (auto simp: core_eq_iff cview_def dest: fun_cong [of _ _ c])
  have me: "IsMe n3 u = Some False"
    using leave_frame(1) [OF n12(1,2), of u] fl3 f plain(2) u0 by (simp add: IsMe_def client_flag_def)
  have part: "PartChannel E u chan reason n = CheckEmptyChannel E (part_depth E (Suc (sum_list (map (\<lambda>nd. bot_chans n (hn_data nd)) (h_nodes (bothash n)))))) c n3"
    using cl plain c(1) c0 n12(1,2) me by (simp add: PartChannel_def part_fuel_def part_body_def n3_def)
  show ?thesis
  proof (cases "remove1 u ?ms = []")
    case True
    then have empty: "ch_members ch' = []" "ch_users ch' = 0" using v3 by simp_all
    then obtain n' where n': "del_chan c n3 = Some n'" using del_chan_total [OF ok3 ch'(1)] by blast
    then have "PartChannel E u chan reason n = Some n'" using part ch'(1) empty by (simp add: CheckEmptyChannel_def)
    moreover from this have "good N n'" using PartChannel_keeps [OF N ok] keeps_good by blast
    ultimately show ?thesis
      using del_chan_view [OF ok3 n'] core3 n12(4,5) True by (simp add: core_eq_iff Let_def)
  next
    case False
    have "length (remove1 u ?ms) < 2 ^ 32" using members_bound [OF ok3, of c] ch'(1) v3 by (simp add: cview_def)
    then have "ch_users ch' \<noteq> 0" using False v3(3) unat_of_nat [where 'a = 32, of "length (remove1 u ?ms)"] by auto
    then have "PartChannel E u chan reason n = Some n3" using part ch' by (simp add: CheckEmptyChannel_def)
    moreover from this have "good N n3" using PartChannel_keeps [OF N ok] keeps_good by blast
    ultimately show ?thesis using core3 n12(4,5) False by (simp add: core_eq_iff Let_def)
  qed
qed

lemma FindUser_none: "net_ok N n \<Longrightarrow> FindUser n nick = Some 0 \<longleftrightarrow> (\<forall>a nm cs aw. uview n a = Some (nm, cs, aw) \<longrightarrow> \<not> irc_key nm nick)"
proof -
  assume ok: "net_ok N n"
  obtain a where a: "FindUser n nick = Some a" using FindUser_obj [OF ok] by blast
  have nz: "b \<noteq> 0" if "uview n b = Some (nm, cs, aw)" for b nm cs aw
    using namedD(5) [OF net_okD(1) [OF ok], of b nm] that by simp
  show ?thesis
  proof (cases "a = 0")
    case True
    then show ?thesis using a FindUser_iff [OF ok nz] by (metis option.inject nz)
  next
    case False
    then show ?thesis using a FindUser_view [OF ok a False] by (metis option.inject)
  qed
qed

lemma UserNickChange_renames:
  assumes ok: "good N n" and small: "room n" and new: "length newnick < MAXNICK" "nul_free newnick" "newnick \<in> N"
    and u: "FindUser n (strlcpy_str MAXNICK oldnick) = Some u" "uview n u = Some (nm, cs, aw)"
    and free: "\<forall>b. FindUser n newnick = Some b \<longrightarrow> b = 0 \<or> b = u" and ex: "list_all exclude_ok (exclude_list n)"
    and c: "clients n u = Some c" "c_user c = Some r" "clients n (c_uplink c) = Some up" "\<not> has (c_flags c) CLIENT_FLAG_ME"
    and strings: "nul_free (u_hostname r)" "nul_free (c_hostip c)"
  shows "\<exists>n'. UserNickChange E oldnick newnick ts n = Some n' \<and> good N n' \<and> next_addr n' = next_addr n \<and>
    uview n' = (uview n)(u := Some (newnick, cs, aw)) \<and> cview n' = cview n \<and> FindUser n' newnick = Some u \<and>
    (\<not> irc_key nm newnick \<longrightarrow> FindUser n' nm = Some 0)"
proof -
  let ?old = "strlcpy_str MAXNICK oldnick"
  note nok = good_ok [OF ok] and nmd = net_okD(1) [OF good_ok [OF ok]]
  have cut: "strlcpy_str MAXNICK newnick = newnick" using new by (simp add: strlcpy_str_def)
  have u0: "u \<noteq> 0" using namedD(5) [OF nmd, of u nm] u(2) by simp
  have "obj (userhash n) ?old = Some u" using FindUser_obj [OF nok, of ?old] u(1) u0 by (auto split: option.splits)
  then obtain nd where nd: "hash_lookup (userhash n) ?old = Some (Some nd)" "hn_data nd = u"
    by (rule obj_node [OF namedD(1) [OF nmd]])
  obtain t where t: "hash_delete (userhash n) nd = Some t" using del_total(1) [OF namedD(1) [OF nmd] nd(1)] by blast
  note d = obj_del [OF namedD(1) [OF nmd] nd(1), of t]
  have "obj (userhash n) newnick = None \<or> obj (userhash n) newnick = Some u"
    using free FindUser_obj [OF nok, of newnick] namedD(2) [OF nmd, of newnick] namedD(5) [OF nmd] by (cases "obj (userhash n) newnick") force+
  moreover have "irc_key ?old newnick" if "obj (userhash n) newnick = Some u"
    using namedD(2) [OF nmd that] namedD(2) [OF nmd \<open>obj (userhash n) ?old = Some u\<close>] irc_key_trans irc_key_sym by (metis option.inject)
  ultimately have "obj t newnick = None" using d(2) t by auto
  then obtain t2 where t2: "hash_insert t nd newnick = Some t2"
    using obj_insert [of "next_addr n" t newnick nd "next_addr n"] d t small by (auto simp: room_def)
  define n1 where "n1 = n\<lparr>userhash := t, clients := (clients n)(u \<mapsto> rename_user E newnick ts c)\<rparr>"
  have up1: "\<exists>up. clients n1 (c_uplink (rename_user E newnick ts c)) = Some up" using c(3) by (simp add: n1_def rename_user_def)
  have c1: "clients n1 u = Some (rename_user E newnick ts c)" by (simp add: n1_def)
  obtain r1 where r1: "c_user (rename_user E newnick ts c) = Some r1" "u_hostname r1 = u_hostname r" "nul_free (u_userhostmask r1)"
    using c(2) by (simp add: rename_user_def)
  obtain up1 where up1: "clients n1 (c_uplink (rename_user E newnick ts c)) = Some up1" using up1 by blast
  obtain fl where fl: "ns_do_exclude_user u n1 = Some (n1\<lparr>clients := (clients n1)(u \<mapsto> (rename_user E newnick ts c)\<lparr>c_flags := fl\<rparr>)\<rparr>)"
    using ns_do_exclude_user_total [OF _ c1 r1(1) up1] ex strings r1(2,3) by (auto simp: n1_def rename_user_def)
  define n2 where "n2 = n1\<lparr>clients := (clients n1)(u \<mapsto> (rename_user E newnick ts c)\<lparr>c_flags := fl\<rparr>)\<rparr>"
  have "IsMe n1 u = Some False"
    using c(4) u0 by (simp add: n1_def IsMe_def client_flag_def flags_of_def rename_user_def)
  then have me: "IsMe n2 u = Some False" using IsMe_part_flags [OF exclude_part_flags [OF fl]] n2_def by simp
  define n3 where "n3 = SendAllModuleEvent EVENT_NICK (no_params\<lparr>cp_source := u, cp_param := Some ?old\<rparr>) (n2\<lparr>userhash := t2\<rparr>)"
  have me3: "IsMe n3 u = Some False"
    using me u0 by (simp add: n3_def SendAllModuleEvent_def emit_def IsMe_def client_flag_def flags_of_def)
  have step: "upd_client u (rename_user E newnick ts) (n\<lparr>userhash := t\<rparr>) = Some n1"
    using c(1) by (simp add: n1_def upd_client_def)
  have uh: "userhash n2 = t" by (simp add: n2_def n1_def)
  have res: "UserNickChange E oldnick newnick ts n = Some n3"
    using nd t c(1,2) step fl [folded n2_def] t2 cut me3 uh
    by (simp add: UserNickChange_def hnode_get_def user_of_def n3_def Let_def)
  have g: "good N n3" using endsD [OF UserNickChange_good [OF ok small] res] cut new(3) by simp
  have v: "uview n3 = (uview n)(u := Some (newnick, cs, aw))" "cview n3 = cview n" "next_addr n3 = next_addr n"
    using UserNickChange_view [OF nok _ _ u(1) u0 res] small cut new(3) u(2) by (auto simp: room_def)
  have "FindUser n3 newnick = Some u" using FindUser_iff [OF good_ok [OF g] u0] v(1) by (simp add: irc_key_def)
  moreover have "FindUser n3 nm = Some 0" if "\<not> irc_key nm newnick"
    unfolding FindUser_none [OF good_ok [OF g]]
  proof (intro allI impI)
    fix b x xs away assume "uview n3 b = Some (x, xs, away)"
    then have "x = newnick \<or> b \<noteq> u \<and> uname (uview n) b = Some x" using v(1) by (auto split: if_splits)
    then show "\<not> irc_key x nm"
      using that named_unique [OF nmd, of b x u nm] u(2) irc_key_sym by auto
  qed
  ultimately show ?thesis using res g v by blast
qed

text \<open>Going away and coming back.\<close>

lemma UserAway_marks:
  assumes ok: "good N n" and u: "FindUser n nick = Some u" "uview n u = Some (nm, cs, aw)"
    and c: "clients n u = Some c" "server_of n (c_uplink c) = Some s"
  shows "\<exists>n'. UserAway nick msg n = Some n' \<and> good N n' \<and> cview n' = cview n \<and>
    uview n' = (uview n)(u := Some (nm, cs, msg \<noteq> None)) \<and>
    awaycount n' = awaycount n + (if msg \<noteq> None \<and> \<not> aw then 1 else if msg = None \<and> aw then - 1 else 0)"
proof -
  let ?m = "case msg of None \<Rightarrow> [] | Some m \<Rightarrow> strlcpy_str MAXHOST m"
  note nok = good_ok [OF ok]
  have u0: "u \<noteq> 0" using namedD(5) [OF net_okD(1) [OF nok], of u nm] u(2) by simp
  obtain r where r: "c_user c = Some r" "u_chans r = cs" "u_is_away r = aw" "c_name c = nm"
    using u(2) c(1) by (elim uviewE) auto
  have "c_server c = None" using servers_okD(2) [OF net_okD(5) [OF nok], of u] u(2) c(1) by (auto simp: sview_def bind_eq_None_conv)
  then have other: "c_uplink c \<noteq> u" using c by (auto simp: server_of_def)
  define c1 where "c1 = c\<lparr>c_user := Some (r\<lparr>u_awaymsg := ?m\<rparr>)\<rparr>"
  define n1 where "n1 = n\<lparr>clients := (clients n)(u \<mapsto> c1)\<rparr>"
  have n1: "upd_user u (\<lambda>r. r\<lparr>u_awaymsg := ?m\<rparr>) n = Some n1"
    using c(1) r(1) by (simp add: upd_user_def user_of_def upd_client_def n1_def c1_def)
  have away: "IsAway n1 u = Some aw" using u0 r(3) by (simp add: IsAway_def user_of_def n1_def c1_def)
  have core1: "core n1 = core n" by (rule core_upd_user [OF n1]) simp
  have delta: "\<exists>m. away_delta b u n1 = Some m \<and> awaycount m = (if b then awaycount n + 1 else awaycount n - 1)" for b
    using c(2) other
    by (auto simp: away_delta_def upd_user_def upd_client_def user_of_def upd_server_def server_of_def n1_def c1_def
      bind_eq_Some_conv)
  obtain n2 where n2: "(if aw \<and> msg = None then away_delta False u n1
      else if \<not> aw \<and> msg \<noteq> None then away_delta True u n1 else Some n1) = Some n2"
    and cnt: "awaycount n2 = awaycount n + (if msg \<noteq> None \<and> \<not> aw then 1 else if msg = None \<and> aw then - 1 else 0)"
  proof (cases "aw \<longleftrightarrow> msg = None")
    case True
    then show ?thesis using delta [of "\<not> aw"] that by (cases aw) auto
  next
    case False
    then show ?thesis using core1 that [of n1] by (auto simp: core_eq_iff)
  qed
  have v2: "uview n2 = (uview n)(u := Some (nm, cs, msg \<noteq> None))" "cview n2 = cview n"
  proof -
    have "uview n1 u = Some (nm, cs, aw)" using u(2) core1 by (simp add: core_eq_iff)
    then have "uview m = (uview n)(u := Some (nm, cs, b)) \<and> cview m = cview n" if "away_delta b u n1 = Some m" "aw = (\<not> b)" for b m
      using away_delta_view [OF core_ok [OF core1 nok], of u nm cs b m] that core1 by (simp add: core_eq_iff)
    then show "uview n2 = (uview n)(u := Some (nm, cs, msg \<noteq> None))" "cview n2 = cview n"
      using n2 core1 u(2) by (auto simp: core_eq_iff fun_upd_idem split: if_splits)
  qed
  define n3 where "n3 = SendAllModuleEvent EVENT_AWAY (no_params\<lparr>cp_source := u\<rparr>) n2"
  have res: "UserAway nick msg n = Some n3"
    using u(1) u0 n1 away n2 by (simp add: UserAway_def n3_def split del: if_split)
  have core3: "core n3 = core n2" by (simp add: n3_def)
  show ?thesis
    using res endsD [OF UserAway_good [OF ok] res] v2 cnt core3 by (auto simp: core_eq_iff)
qed

end
