(* ===== verification/NetProps.thy ===== *)
theory NetProps
  imports NetTotal
begin

text \<open>
  The properties of the network state: what holds in every reachable state, and what the
  handlers do there. A run of three lines (a server links, a user signs on, the user
  joins a channel) gives the states of the witnesses.
\<close>

section \<open>A run\<close>

abbreviation plain_names :: "string set" where
  "plain_names \<equiv> Collect plain"

lemma sample_names [simp]: "plain ''hub.net''" "plain ''Fish''" "plain ''Cat''" "plain ''#neo''"
  by (simp_all add: plain_def plain_byte_def)

lemma InitCore_blank:
  "InitCore blank_net = Some n \<Longrightarrow> uview n = (\<lambda>a. None) \<and> cview n = (\<lambda>c. None) \<and> sview n = (\<lambda>s. None) \<and> next_addr n = 1 \<and>
    exclude_list n = []"
  by (auto simp: InitCore_def InitServers_def InitUsers_def InitChannels_def InitBans_def bind_eq_Some_conv blank_net_def
    uview_def cview_def sview_def fun_eq_iff)

lemma uview_iff: "(\<exists>cs aw. uview n a = Some (nm, cs, aw)) \<longleftrightarrow> (\<exists>c. clients n a = Some c \<and> c_user c \<noteq> None \<and> c_name c = nm)"
  by (auto simp: uview_def bind_eq_Some_conv)

lemma dom_uview: "dom (uview n) = {a. user_of n a \<noteq> None}" "dom (cview n) = {c. channels n c \<noteq> None}"
  "dom (sview n) = {s. server_of n s \<noteq> None}" "away_users (uview n) = {a. \<exists>r. user_of n a = Some r \<and> u_is_away r}"
  by (auto simp: uview_def cview_def sview_def user_of_def server_of_def away_users_def bind_eq_Some_conv)

lemma sample_linked:
  "\<exists>n. reachable plain_names n \<and> uview n = (\<lambda>a. None) \<and> cview n = (\<lambda>c. None) \<and> sview n = [1 \<mapsto> ''hub.net''] \<and> next_addr n = 3 \<and>
    exclude_list n = [] \<and> IsMe n 1 = Some False"
proof -
  obtain n0 where n0: "InitCore blank_net = Some n0" "good plain_names n0" using InitCore_good by blast
  note b = InitCore_blank [OF n0(1)]
  have r: "reachable plain_names n0" using n0(1) by (rule reachable.init)
  have room: "room n0" using b by (simp add: room_def)
  have free: "FindServer n0 ''hub.net'' = Some 0" using FindServer_none [OF good_ok [OF n0(2)]] b by simp
  have cut: "strlcpy_str MAXHOST ''hub.net'' = ''hub.net''" by (simp add: strlcpy_str_def MAXHOST_def)
  from AddServer_links [OF n0(2) room _ _ _ free, of sample_env None None None None] b
  obtain n1 where n1: "AddServer sample_env ''hub.net'' None None None None n0 = Some (1, n1)"
    "sview n1 = [1 \<mapsto> ''hub.net'']" "uview n1 = (\<lambda>a. None)" "cview n1 = (\<lambda>c. None)" "next_addr n1 = 3" "exclude_list n1 = []"
    "map_option part_flags (flags_of n1 1) = Some (irc_eq ''hub.net'' (me_name sample_env), False)"
    by (auto simp: MAXNICK_def)
  have "\<not> irc_eq ''hub.net'' (me_name sample_env)" by code_simp
  then have "IsMe n1 1 = Some False" using n1(7) by (auto simp: IsMe_def client_flag_def part_flags_def)
  moreover have "reachable plain_names n1"
    by (rule reachable.line [OF r room]) (rule net_step.server [OF _ n1(1)], simp add: cut)
  ultimately show ?thesis using n1 by blast
qed

lemma sample_user_on:
  "\<exists>n c. reachable plain_names n \<and> room n \<and> uview n = [3 \<mapsto> (''Fish'', [], False)] \<and> cview n = (\<lambda>c. None) \<and>
    sview n = [1 \<mapsto> ''hub.net''] \<and> next_addr n = 5 \<and> exclude_list n = [] \<and> clients n 3 = Some c \<and> c_uplink c = 1 \<and>
    server_of n 1 \<noteq> None \<and> map_option part_flags (flags_of n 3) = Some (False, False) \<and>
    (\<exists>r. c_user c = Some r \<and> nul_free (u_hostname r)) \<and> nul_free (c_hostip c)"
proof -
  obtain n where n: "reachable plain_names n" "uview n = (\<lambda>a. None)" "cview n = (\<lambda>c. None)" "sview n = [1 \<mapsto> ''hub.net'']"
    "next_addr n = 3" "exclude_list n = []" "IsMe n 1 = Some False" using sample_linked by blast
  have g: "good plain_names n" using reachable_good [OF n(1) coherent_plain] .
  have room: "room n" using n by (simp add: room_def)
  have free: "FindUser n ''Fish'' = Some 0" unfolding FindUser_none [OF good_ok [OF g]] using n(2) by simp
  have up: "FindServer n ''hub.net'' = Some 1" using FindServer_iff [OF good_ok [OF g]] n(4) by (simp add: irc_key_def)
  have cut: "strlcpy_str MAXNICK ''Fish'' = ''Fish''" by (simp add: strlcpy_str_def MAXNICK_def)
  from AddUser_signs_on [OF g room _ _ _ free up, where E = sample_env and usr = "''fish''" and host = "''a.net''"
      and realname = "''Fish''" and ip = None and TS = None and numeric = None] n
  obtain n' where n': "AddUser sample_env ''Fish'' ''fish'' ''a.net'' ''Fish'' ''hub.net'' None None None n = Some (3, n')"
    "uview n' = [3 \<mapsto> (''Fish'', [], False)]" "cview n' = (\<lambda>c. None)" "sview n' = [1 \<mapsto> ''hub.net'']" "next_addr n' = 5"
    "exclude_list n' = []" "\<exists>c. clients n' 3 = Some c \<and> c_uplink c = 1 \<and>
      (\<exists>r. c_user c = Some r \<and> nul_free (u_hostname r)) \<and> nul_free (c_hostip c)" "server_of n' 1 \<noteq> None"
    "map_option part_flags (flags_of n' 3) = map_option (\<lambda>fl. (has fl CLIENT_FLAG_ME, False)) (flags_of n 1)"
    by (auto simp: MAXNICK_def)
  have "map_option part_flags (flags_of n' 3) = Some (False, False)"
    using n'(9) n(7) by (cases "flags_of n 1") (auto simp: IsMe_def client_flag_def)
  moreover have "reachable plain_names n'"
    by (rule reachable.line [OF n(1) room]) (rule net_step.signon [OF _ n'(1)], simp add: cut)
  moreover have "room n'" using n' by (simp add: room_def)
  ultimately show ?thesis using n' by blast
qed

lemma sample_joined:
  "\<exists>n d. reachable plain_names n \<and> room n \<and> exclude_list n = [] \<and> uview n = [3 \<mapsto> (''Fish'', [''#neo''], False)] \<and> cview n = [d \<mapsto> (''#neo'', [3], 1)] \<and>
    FindUser n ''Fish'' = Some 3 \<and> FindChannel n ''#neo'' = Some d \<and>
    map_option part_flags (flags_of n 3) = Some (False, False) \<and> own_users n d = Some 0"
proof -
  obtain n c where n: "reachable plain_names n" "room n" "uview n = [3 \<mapsto> (''Fish'', [], False)]" "cview n = (\<lambda>c. None)"
    "sview n = [1 \<mapsto> ''hub.net'']" "next_addr n = 5" "exclude_list n = []" "clients n 3 = Some c" "c_uplink c = 1"
    "server_of n 1 \<noteq> None" "map_option part_flags (flags_of n 3) = Some (False, False)"
    using sample_user_on by blast
  have g: "good plain_names n" using reachable_good [OF n(1) coherent_plain] .
  have u: "FindUser n ''Fish'' = Some 3" using FindUser_iff [OF good_ok [OF g]] n(3) by (auto simp: irc_key_def)
  have none: "FindChannel n ''#neo'' = Some 0"
    using FindChannel_obj [OF good_ok [OF g], of "''#neo''"] namedD(2) [OF net_okD(2) [OF good_ok [OF g]], of "''#neo''"] n(4)
    by (cases "obj (channelhash n) ''#neo''") auto
  have no0: "\<not> irc_eq ''0'' ''#neo''" by code_simp
  have cut: "strlcpy_str MAXCHANLEN ''#neo'' = ''#neo''" by (simp add: strlcpy_str_def MAXCHANLEN_def)
  from JoinChannel_joins [OF coherent_plain g n(2) _ _ _ no0 _ u, of "''Fish''" "[]" False sample_env] n(3,7)
  obtain n' d x ms ms' where n': "JoinChannel sample_env ''Fish'' ''#neo'' n = Some n'" "next_addr n' \<le> next_addr n + 2"
    "d \<noteq> 0" "if FindChannel n ''#neo'' = Some d then (\<exists>k. cview n d = Some (x, ms, k)) else x = ''#neo'' \<and> ms = [] \<and> FindChannel n ''#neo'' = Some 0 \<and> cview n d = None"
    "ms' = (if 3 \<in> set ms then ms else ms @ [3])" "cview n' = (cview n)(d := Some (x, ms', of_nat (length ms')))"
    "uview n' = (if 3 \<in> set ms then uview n else (uview n)(3 := Some (''Fish'', [] @ [x], False)))"
    by (auto simp: MAXCHANLEN_def)
  have x: "x = ''#neo''" "ms = []" "ms' = [3]" using n'(3-5) none by auto
  have me: "IsMe n 3 = Some False"
    using n(11) by (cases "flags_of n 3") (auto simp: IsMe_def client_flag_def part_flags_def)
  note fr = JoinChannel_frame [OF u me no0 n'(1)]
  have v: "uview n' = [3 \<mapsto> (''Fish'', [''#neo''], False)]" "cview n' = [d \<mapsto> (''#neo'', [3], 1)]"
    using n'(6,7) n(3,4) x by simp_all
  have r: "reachable plain_names n'"
    by (rule reachable.line [OF n(1,2)]) (rule net_step.join [OF _ n'(1)], simp add: cut)
  have g': "good plain_names n'" using reachable_good [OF r coherent_plain] .
  have room: "room n'" using v n'(2) n(2,6) by (simp add: room_def)
  have "own_users n' d \<noteq> None" using fun_cong [OF v(2), of d] by (auto simp: own_users_def cview_def)
  moreover have "own_users n d = None" using fun_cong [OF n(4), of d] by (simp add: own_users_def cview_def)
  ultimately have "own_users n' d = Some 0" using fr(3) [of d] by auto
  moreover have "FindUser n' ''Fish'' = Some 3" "FindChannel n' ''#neo'' = Some d"
    using FindUser_iff [OF good_ok [OF g']] FindChannel_iff [OF good_ok [OF g'] n'(3)] v by (auto simp: irc_key_def)
  moreover have "map_option part_flags (flags_of n' 3) = Some (False, False)" using fr(1) n(11) by simp
  ultimately show ?thesis using v r room fr(2) n(7) by auto
qed

lemma sample_objects:
  "\<exists>n d cl r ch. reachable plain_names n \<and> room n \<and> exclude_list n = [] \<and>
    FindUser n ''Fish'' = Some 3 \<and> clients n 3 = Some cl \<and> c_user cl = Some r \<and> c_name cl = ''Fish'' \<and> user_of n 3 = Some r \<and>
    u_chans r = [''#neo''] \<and> \<not> u_is_away r \<and> flags_of n 3 = Some (c_flags cl) \<and> part_flags (c_flags cl) = (False, False) \<and>
    FindChannel n ''#neo'' = Some d \<and> channels n d = Some ch \<and> ch_name ch = ''#neo'' \<and> map cm_u (ch_members ch) = [3] \<and>
    ch_neousers ch = 0 \<and> {a. user_of n a \<noteq> None} = {3} \<and> {c. channels n c \<noteq> None} = {d}"
proof -
  obtain n d where n: "reachable plain_names n" "room n" "exclude_list n = []" "uview n = [3 \<mapsto> (''Fish'', [''#neo''], False)]"
    "cview n = [d \<mapsto> (''#neo'', [3], 1)]" "FindUser n ''Fish'' = Some 3" "FindChannel n ''#neo'' = Some d"
    "map_option part_flags (flags_of n 3) = Some (False, False)" "own_users n d = Some 0"
    using sample_joined by blast
  have "uview n 3 = Some (''Fish'', [''#neo''], False)" "cview n d = Some (''#neo'', [3], 1)" using n(4,5) by simp_all
  then obtain cl r ch where "clients n 3 = Some cl" "c_user cl = Some r" "c_name cl = ''Fish''" "u_chans r = [''#neo'']" "\<not> u_is_away r"
    and ch: "channels n d = Some ch" "ch_name ch = ''#neo''" "map cm_u (ch_members ch) = [3]"
    by (elim uviewE cviewE) auto
  moreover have "user_of n 3 = Some r" "flags_of n 3 = Some (c_flags cl)" "part_flags (c_flags cl) = (False, False)"
    using calculation(1,2) n(8) by (simp_all add: user_of_def flags_of_def)
  moreover have "ch_neousers ch = 0" using n(9) ch(1) by (simp add: own_users_def)
  moreover have "{a. user_of n a \<noteq> None} = {3}" "{c. channels n c \<noteq> None} = {d}"
    using dom_uview(1,2) [of n] n(4,5) by auto
  ultimately show ?thesis using n(1-3,6,7)
    by (rule_tac x = n in exI, rule_tac x = d in exI, rule_tac x = cl in exI, rule_tac x = r in exI, rule_tac x = ch in exI)
      (intro conjI)
qed

section \<open>What holds in every reachable state\<close>

lemma good_memberships:
  assumes "good N n" and "user_of n u = Some r" "channels n c = Some ch"
  shows "(ch_name ch \<in> set (u_chans r) \<longleftrightarrow> (\<exists>m\<in>set (ch_members ch). cm_u m = u)) \<and>
    distinct (u_chans r) \<and> distinct (map cm_u (ch_members ch))"
proof -
  have ok: "net_ok N n" using good_ok [OF assms(1)] .
  note m = net_okD(3) [OF ok]
  obtain nm where u: "uview n u = Some (nm, u_chans r, u_is_away r)" using user_of_view [OF assms(2)] by blast
  have c: "cview n c = Some (ch_name ch, map cm_u (ch_members ch), ch_users ch)" using assms(3) by (simp add: cview_def)
  have "ch_name ch \<in> set (u_chans r) \<longleftrightarrow> u \<in> set (map cm_u (ch_members ch))"
  proof
    assume "ch_name ch \<in> set (u_chans r)"
    then obtain c' ms k where c': "cview n c' = Some (ch_name ch, ms, k)" "u \<in> set ms" using members_okD(2) [OF m u] by blast
    then have "c' = c" using channel_unique [OF net_okD(2) [OF ok] _ c] by blast
    then show "u \<in> set (map cm_u (ch_members ch))" using c c' by simp
  next
    assume "u \<in> set (map cm_u (ch_members ch))"
    then show "ch_name ch \<in> set (u_chans r)" using members_okD(5) [OF m c, of u] u by auto
  qed
  then show ?thesis using members_okD(1) [OF m u] members_okD(3) [OF m c] by auto
qed

lemma good_no_dangling:
  assumes "good N n"
  shows "(\<forall>c ch m. channels n c = Some ch \<longrightarrow> m \<in> set (ch_members ch) \<longrightarrow> user_of n (cm_u m) \<noteq> None) \<and>
    (\<forall>u r x. user_of n u = Some r \<longrightarrow> x \<in> set (u_chans r) \<longrightarrow>
      (\<exists>c ch. FindChannel n x = Some c \<and> channels n c = Some ch \<and> ch_name ch = x))"
proof (intro conjI allI impI)
  have ok: "net_ok N n" using good_ok [OF assms] .
  note m = net_okD(3) [OF ok]
  fix c ch mb assume "channels n c = Some ch" "mb \<in> set (ch_members ch)"
  then have "uview n (cm_u mb) \<noteq> None" using members_okD(5) [OF m, of c "ch_name ch" "map cm_u (ch_members ch)" "ch_users ch" "cm_u mb"]
    by (auto simp: cview_def)
  then show "user_of n (cm_u mb) \<noteq> None" using dom_uview(1) [of n] by blast
next
  have ok: "net_ok N n" using good_ok [OF assms] .
  note m = net_okD(3) [OF ok]
  fix u r x assume "user_of n u = Some r" "x \<in> set (u_chans r)"
  then obtain c ms k where c: "cview n c = Some (x, ms, k)" using members_okD(2) [OF m] user_of_view by metis
  then have "c \<noteq> 0" using namedD(5) [OF net_okD(2) [OF ok], of c x] by simp
  then have "FindChannel n x = Some c" using FindChannel_iff [OF ok] c by (auto simp: irc_key_def)
  then show "\<exists>c ch. FindChannel n x = Some c \<and> channels n c = Some ch \<and> ch_name ch = x" using c by (auto simp: cview_def)
qed

lemma good_counters:
  assumes "good N n"
  shows "usercount n = of_nat (card {a. user_of n a \<noteq> None}) \<and>
    awaycount n = of_nat (card {a. \<exists>r. user_of n a = Some r \<and> u_is_away r}) \<and>
    servercount n = of_nat (card {s. server_of n s \<noteq> None}) \<and>
    channelcount n = of_nat (card {c. channels n c \<noteq> None}) \<and>
    (\<forall>c ch. channels n c = Some ch \<longrightarrow> unat (ch_users ch) = length (ch_members ch) \<and> ch_members ch \<noteq> [])"
proof (intro conjI allI impI)
  note ok = good_ok [OF assms]
  show "usercount n = of_nat (card {a. user_of n a \<noteq> None})"
    "awaycount n = of_nat (card {a. \<exists>r. user_of n a = Some r \<and> u_is_away r})"
    "servercount n = of_nat (card {s. server_of n s \<noteq> None})"
    "channelcount n = of_nat (card {c. channels n c \<noteq> None})"
    using ok unfolding net_ok_def servers_ok_def dom_uview by blast+
  fix c ch assume "channels n c = Some ch"
  then have c: "cview n c = Some (ch_name ch, map cm_u (ch_members ch), ch_users ch)" by (simp add: cview_def)
  then have "c \<noteq> 0" using namedD(5) [OF net_okD(2) [OF ok], of c "ch_name ch"] by simp
  then show "ch_members ch \<noteq> []" using assms c unfolding good_def peopled_but_def by (metis list.map_disc_iff)
  have "length (ch_members ch) < 2 ^ 32" using members_bound [OF ok c] by simp
  then show "unat (ch_users ch) = length (ch_members ch)"
    using members_okD(4) [OF net_okD(3) [OF ok] c] by (simp add: unat_of_nat)
qed

text \<open>C2. In every state reachable with names from a set in which no two compare equal and hash apart (as a bracket and a brace would), a
  user's channel list and a channel's member list say the same: the channel's name is on the list of the user exactly when
  the user is among the members of the channel, and neither list holds anything twice.\<close>

theorem reachable_memberships:
  assumes "coherent N" "reachable N n" and "user_of n u = Some r" "channels n c = Some ch"
  shows "(ch_name ch \<in> set (u_chans r) \<longleftrightarrow> (\<exists>m\<in>set (ch_members ch). cm_u m = u)) \<and>
    distinct (u_chans r) \<and> distinct (map cm_u (ch_members ch))"
  using good_memberships [OF reachable_good [OF assms(2,1)] assms(3,4)] .

lemma reachable_memberships_witness:
  "\<exists>n r c ch. user_of n 3 = Some r \<and> channels n c = Some ch \<and> ch_name ch \<in> set (u_chans r) \<and> (\<exists>m\<in>set (ch_members ch). cm_u m = 3)"
proof -
  obtain n d r ch where "reachable plain_names n" "user_of n 3 = Some r" "u_chans r = [''#neo'']" "channels n d = Some ch"
    "ch_name ch = ''#neo''"
    using sample_objects by blast
  then show ?thesis using reachable_memberships [OF coherent_plain, of n 3 r d ch] by (metis list.set_intros(1))
qed

text \<open>C3. No state reachable with names from a set in which no two compare equal and hash apart has a dangling reference between users
  and channels: every member of a channel is a client that is a user, and every name on a user's channel list is the name of
  a channel, which the table of channels finds under it.\<close>

theorem reachable_no_dangling:
  assumes "coherent N" "reachable N n"
  shows "(\<forall>c ch m. channels n c = Some ch \<longrightarrow> m \<in> set (ch_members ch) \<longrightarrow> user_of n (cm_u m) \<noteq> None) \<and>
    (\<forall>u r x. user_of n u = Some r \<longrightarrow> x \<in> set (u_chans r) \<longrightarrow>
      (\<exists>c ch. FindChannel n x = Some c \<and> channels n c = Some ch \<and> ch_name ch = x))"
  using good_no_dangling [OF reachable_good [OF assms(2,1)]] .

lemma reachable_no_dangling_witness:
  "\<exists>n r. user_of n 3 = Some r \<and> u_chans r = [''#neo''] \<and> (\<exists>c ch. FindChannel n ''#neo'' = Some c \<and> channels n c = Some ch)"
proof -
  obtain n r where n: "reachable plain_names n" "user_of n 3 = Some r" "u_chans r = [''#neo'']"
    using sample_objects by blast
  then show ?thesis using reachable_no_dangling [OF coherent_plain n(1)] by (metis list.set_intros(1))
qed

text \<open>C4. In every state reachable with names from a set in which no two compare equal and hash apart, \<open>FindUser\<close>, \<open>FindServer\<close> and
  \<open>FindChannel\<close> return, and find exactly the live object whose name compares equal to the key and hashes like it: the user,
  server or channel found is the only one.\<close>

theorem reachable_lookups:
  assumes "coherent N" "reachable N n"
  shows "(\<exists>a. FindUser n k = Some a \<and> (\<forall>b. b \<noteq> 0 \<longrightarrow> b = a \<longleftrightarrow> (\<exists>c. clients n b = Some c \<and> c_user c \<noteq> None \<and> irc_key (c_name c) k))) \<and>
    (\<exists>s. FindServer n k = Some s \<and> (\<forall>b. b \<noteq> 0 \<longrightarrow> b = s \<longleftrightarrow> (\<exists>c. clients n b = Some c \<and> c_server c \<noteq> None \<and> irc_key (c_name c) k))) \<and>
    (\<exists>d. FindChannel n k = Some d \<and> (\<forall>b. b \<noteq> 0 \<longrightarrow> b = d \<longleftrightarrow> (\<exists>ch. channels n b = Some ch \<and> irc_key (ch_name ch) k)))"
proof (intro conjI)
  have ok: "net_ok N n" using good_ok reachable_good assms by blast
  obtain a where a: "FindUser n k = Some a" using FindUser_obj [OF ok] by blast
  have "b = a \<longleftrightarrow> (\<exists>c. clients n b = Some c \<and> c_user c \<noteq> None \<and> irc_key (c_name c) k)" if "b \<noteq> 0" for b
    using FindUser_iff [OF ok that, of k] a uview_iff [of n b] by auto
  with a show "\<exists>a. FindUser n k = Some a \<and> (\<forall>b. b \<noteq> 0 \<longrightarrow> b = a \<longleftrightarrow> (\<exists>c. clients n b = Some c \<and> c_user c \<noteq> None \<and> irc_key (c_name c) k))"
    by blast
  obtain s where s: "FindServer n k = Some s" using FindServer_obj [OF ok] by blast
  have "b = s \<longleftrightarrow> (\<exists>c. clients n b = Some c \<and> c_server c \<noteq> None \<and> irc_key (c_name c) k)" if "b \<noteq> 0" for b
    using FindServer_iff [OF ok that, of k] s by (auto simp: sview_def bind_eq_Some_conv)
  with s show "\<exists>s. FindServer n k = Some s \<and> (\<forall>b. b \<noteq> 0 \<longrightarrow> b = s \<longleftrightarrow> (\<exists>c. clients n b = Some c \<and> c_server c \<noteq> None \<and> irc_key (c_name c) k))"
    by blast
  obtain d where d: "FindChannel n k = Some d" using FindChannel_obj [OF ok] by blast
  have "b = d \<longleftrightarrow> (\<exists>ch. channels n b = Some ch \<and> irc_key (ch_name ch) k)" if "b \<noteq> 0" for b
    using FindChannel_iff [OF ok that, of k] d by (auto simp: cview_def)
  with d show "\<exists>d. FindChannel n k = Some d \<and> (\<forall>b. b \<noteq> 0 \<longrightarrow> b = d \<longleftrightarrow> (\<exists>ch. channels n b = Some ch \<and> irc_key (ch_name ch) k))"
    by blast
qed

lemma reachable_lookups_witness:
  "\<exists>n. FindUser n ''Fish'' = Some 3 \<and> (\<exists>c. clients n 3 = Some c \<and> c_user c \<noteq> None \<and> irc_key (c_name c) ''Fish'')"
proof -
  obtain n where n: "reachable plain_names n" "FindUser n ''Fish'' = Some 3" using sample_objects by blast
  obtain a where "FindUser n ''Fish'' = Some a" "\<forall>b. b \<noteq> 0 \<longrightarrow> b = a \<longleftrightarrow>
      (\<exists>c. clients n b = Some c \<and> c_user c \<noteq> None \<and> irc_key (c_name c) ''Fish'')"
    using reachable_lookups [OF coherent_plain n(1), of "''Fish''"] by blast
  then show ?thesis using n(2) by (metis option.inject zero_neq_numeral)
qed

text \<open>C5. In every state reachable with names from a set in which no two compare equal and hash apart the counters are exact:
  \<open>usercount\<close>, \<open>awaycount\<close>, \<open>servercount\<close> and \<open>channelcount\<close> are the numbers of users, of users who are away, of servers and of
  channels, the \<open>users\<close> of a channel is the length of its member list, and no channel is empty.\<close>

theorem reachable_counters:
  assumes "coherent N" "reachable N n"
  shows "usercount n = of_nat (card {a. user_of n a \<noteq> None}) \<and>
    awaycount n = of_nat (card {a. \<exists>r. user_of n a = Some r \<and> u_is_away r}) \<and>
    servercount n = of_nat (card {s. server_of n s \<noteq> None}) \<and>
    channelcount n = of_nat (card {c. channels n c \<noteq> None}) \<and>
    (\<forall>c ch. channels n c = Some ch \<longrightarrow> unat (ch_users ch) = length (ch_members ch) \<and> ch_members ch \<noteq> [])"
  using good_counters [OF reachable_good [OF assms(2,1)]] .

lemma reachable_counters_witness:
  "\<exists>n. {a. user_of n a \<noteq> None} = {3} \<and> usercount n = 1 \<and> channelcount n = 1"
proof -
  obtain n d where n: "reachable plain_names n" "{a. user_of n a \<noteq> None} = {3}" "{c. channels n c \<noteq> None} = {d}"
    using sample_objects by blast
  show ?thesis using reachable_counters [OF coherent_plain n(1)] n(2,3) by (intro exI [of _ n]) simp
qed

section \<open>What the handlers do in a reachable state\<close>

text \<open>Who is a member, as the question is asked.\<close>

lemma IsChannelMember_view:
  assumes ok: "net_ok N n" and N: "coherent N" and u: "uview n u = Some (nm, cs, aw)" and c: "cview n c = Some (x, ms, k)"
  shows "IsChannelMember c u n = Some (if u \<in> set ms then NS_TRUE else NS_FALSE)"
proof -
  obtain ch where ch: "channels n c = Some ch" "map cm_u (ch_members ch) = ms" using c by (elim cviewE)
  obtain cl where cl: "clients n u = Some cl" "c_name cl = nm" using u by (elim uviewE)
  have mem: "\<forall>m\<in>set (ch_members ch). uview n (cm_u m) \<noteq> None"
    using members_okD(5) [OF net_okD(3) [OF ok] c] ch(2) by fastforce
  have "u \<noteq> 0" "c \<noteq> 0"
    using namedD(5) [OF net_okD(1) [OF ok], of u nm] namedD(5) [OF net_okD(2) [OF ok], of c x] u c by simp_all
  then show ?thesis
    using find_member_eq [OF net_okD(1) [OF ok] N u mem] find_member_None [of u "ch_members ch"] ch cl
    by (auto simp: IsChannelMember_def)
qed

text \<open>A second join of the same channel changes nothing.\<close>

lemma join_again:
  assumes ok: "net_ok N n" and N: "coherent N" and u: "uview n u = Some (nm, cs, aw)" "FindUser n nick = Some u"
    and c: "cview n c = Some (x, ms, k)" "FindChannel n chan = Some c" and member: "u \<in> set ms" and chan: "\<not> irc_eq ''0'' chan"
  shows "JoinChannel E nick chan n = Some n"
proof -
  obtain ch where ch: "channels n c = Some ch" "map cm_u (ch_members ch) = ms" using c(1) by (elim cviewE)
  obtain cl where cl: "clients n u = Some cl" "c_name cl = nm" using u(1) by (elim uviewE)
  have mem: "\<forall>m\<in>set (ch_members ch). uview n (cm_u m) \<noteq> None"
    using members_okD(5) [OF net_okD(3) [OF ok] c(1)] ch(2) by fastforce
  have "u \<noteq> 0" "c \<noteq> 0"
    using namedD(5) [OF net_okD(1) [OF ok], of u nm] namedD(5) [OF net_okD(2) [OF ok], of c x] u c by simp_all
  moreover have "List.find (\<lambda>m. cm_u m = u) (ch_members ch) \<noteq> None"
    using member find_member_None [of u "ch_members ch"] ch(2) by simp
  ultimately show ?thesis
    using find_member_eq [OF net_okD(1) [OF ok] N u(1) mem] u(2) c(2) ch cl chan by (simp add: JoinChannel_def join_member_def)
qed

text \<open>The view of a user and of a channel in terms of the objects.\<close>

lemma user_viewI: "clients n u = Some cl \<Longrightarrow> c_user cl = Some r \<Longrightarrow> uview n u = Some (c_name cl, u_chans r, u_is_away r)"
  by (simp add: uview_def)

lemma user_viewE:
  assumes "uview n u = Some (nm, cs, aw)"
  obtains cl r where "clients n u = Some cl" "c_user cl = Some r" "c_name cl = nm" "u_chans r = cs" "u_is_away r = aw"
  using assms by (elim uviewE)

text \<open>C6. Signing on: in a state reachable with names from a set in which no two compare equal and hash apart, with room for two more
  objects and a well formed exclusion list, a user with a free nick of that set that fits its buffer, on a known server, is
  always entered. \<open>AddUser\<close> returns a new user whom \<open>FindUser\<close> finds, on no channel, not away,
  linked to the server, whose user count goes up by one like the global one; nobody else changes.\<close>

theorem AddUser_enters:
  assumes "coherent N" "reachable N n" "room n" and "length nick < MAXNICK" "nul_free nick" "nick \<in> N"
    and "FindUser n nick = Some 0" "FindServer n server = Some up" "up \<noteq> 0" "list_all exclude_ok (exclude_list n)"
  shows "\<exists>u n' cl r s s'. AddUser E nick usr host realname server ip TS numeric n = Some (u, n') \<and> reachable N n' \<and>
    u \<noteq> 0 \<and> FindUser n' nick = Some u \<and> clients n' u = Some cl \<and> c_user cl = Some r \<and> c_name cl = nick \<and>
    u_chans r = [] \<and> \<not> u_is_away r \<and> c_uplink cl = up \<and> usercount n' = usercount n + 1 \<and>
    server_of n up = Some s \<and> server_of n' up = Some s' \<and> sv_users s' = sv_users s + 1 \<and>
    (\<forall>v. v \<noteq> u \<longrightarrow> uview n' v = uview n v) \<and> cview n' = cview n"
proof -
  have g: "good N n" using reachable_good assms(1,2) by blast
  let ?u = "next_addr n"
  obtain n' where n': "AddUser E nick usr host realname server ip TS numeric n = Some (?u, n')" "good N n'"
    "uview n' = (uview n)(?u := Some (nick, [], False))" "cview n' = cview n" "usercount n' = usercount n + 1"
    "\<exists>c s s'. clients n' ?u = Some c \<and> c_uplink c = up \<and> server_of n up = Some s \<and> server_of n' up = Some s' \<and>
      sv_users s' = sv_users s + 1"
    using AddUser_signs_on [OF g assms(3-10), of E usr host realname ip TS numeric] by blast
  have u0: "?u \<noteq> 0" using net_okD(4) [OF good_ok [OF g]] by simp
  obtain cl r where cl: "clients n' ?u = Some cl" "c_user cl = Some r" "c_name cl = nick" "u_chans r = []" "u_is_away r = False"
    using user_viewE [of n' ?u nick "[]" False] n'(3) by auto
  have "FindUser n' nick = Some ?u" using FindUser_iff [OF good_ok [OF n'(2)] u0] n'(3) by (auto simp: irc_key_def)
  moreover have "reachable N n'"
    by (rule reachable.line [OF assms(2,3)], rule net_step.signon [OF _ n'(1)]) (use assms(4-6) in \<open>simp add: strlcpy_str_def\<close>)
  ultimately show ?thesis using n' cl u0 by fastforce
qed

lemma AddUser_enters_witness:
  "\<exists>n u n' cl. AddUser sample_env ''Fish'' ''fish'' ''a.net'' ''Fish'' ''hub.net'' None None None n = Some (u, n') \<and>
    FindUser n' ''Fish'' = Some u \<and> clients n' u = Some cl \<and> c_uplink cl = 1"
proof -
  obtain n where n: "reachable plain_names n" "uview n = (\<lambda>a. None)" "sview n = [1 \<mapsto> ''hub.net'']" "next_addr n = 3" "exclude_list n = []"
    using sample_linked by blast
  note ok = good_ok [OF reachable_good [OF n(1) coherent_plain]]
  have "room n" "FindUser n ''Fish'' = Some 0" "FindServer n ''hub.net'' = Some 1"
    using n FindUser_none [OF ok] FindServer_iff [OF ok] by (auto simp: room_def irc_key_def)
  from AddUser_enters [OF coherent_plain n(1) this(1) _ _ _ this(2,3), where E = sample_env and usr = "''fish''"
      and host = "''a.net''" and realname = "''Fish''" and ip = None and TS = None and numeric = None] n(5)
  show ?thesis by (auto simp: MAXNICK_def)
qed

text \<open>C7. Joining: in a state reachable with names from a set in which no two compare equal and hash apart (a nick equal up to brackets to a
  member's would be taken for the member), with room for two more objects and a well formed exclusion list, a
  join by a known user always returns, for a channel name of that set that fits its buffer and is not 0. The channel is
  found afterwards and has the user as a member, created if there was none; a member list grows
  at its end, never twice by the same user, and joining again changes nothing at all.\<close>

theorem JoinChannel_enters:
  assumes "coherent N" "reachable N n" "room n" and "length chan < MAXCHANLEN" "nul_free chan" "chan \<in> N" "\<not> irc_eq ''0'' chan"
    and "list_all exclude_ok (exclude_list n)" and "FindUser n nick = Some u" "u \<noteq> 0"
  shows "\<exists>n' c ch r. JoinChannel E nick chan n = Some n' \<and> reachable N n' \<and> FindChannel n' chan = Some c \<and>
    channels n' c = Some ch \<and> user_of n' u = Some r \<and> IsChannelMember c u n' = Some NS_TRUE \<and> ch_name ch \<in> set (u_chans r) \<and>
    (\<exists>old. map cm_u (ch_members ch) = (if u \<in> set old then old else old @ [u]) \<and>
      (\<forall>ch0. FindChannel n chan = Some c \<longrightarrow> channels n c = Some ch0 \<longrightarrow> old = map cm_u (ch_members ch0)) \<and>
      (FindChannel n chan = Some 0 \<longrightarrow> old = [])) \<and>
    (\<forall>d. d \<noteq> c \<longrightarrow> cview n' d = cview n d) \<and> (\<forall>v. v \<noteq> u \<longrightarrow> uview n' v = uview n v) \<and>
    JoinChannel E nick chan n' = Some n'"
proof -
  have g: "good N n" using reachable_good assms(1,2) by blast
  obtain nm cs aw where u: "uview n u = Some (nm, cs, aw)" "irc_key nm nick"
    using FindUser_view [OF good_ok [OF g] assms(9,10)] by metis
  obtain n' c x ms ms' where n': "JoinChannel E nick chan n = Some n'" "good N n'" "FindChannel n' chan = Some c" "c \<noteq> 0"
    "if FindChannel n chan = Some c then (\<exists>k. cview n c = Some (x, ms, k)) else x = chan \<and> ms = [] \<and> FindChannel n chan = Some 0 \<and> cview n c = None"
    "ms' = (if u \<in> set ms then ms else ms @ [u])" "cview n' = (cview n)(c := Some (x, ms', of_nat (length ms')))"
    "uview n' = (if u \<in> set ms then uview n else (uview n)(u := Some (nm, cs @ [x], aw)))"
    using JoinChannel_joins [OF assms(1) g assms(3-9) u(1), of E] by auto
  note ok = good_ok [OF n'(2)]
  have cx: "cview n' c = Some (x, ms', of_nat (length ms'))" and um: "u \<in> set ms'" using n'(6,7) by simp_all
  obtain ch where ch: "channels n' c = Some ch" "ch_name ch = x" "map cm_u (ch_members ch) = ms'" using cx by (elim cviewE)
  obtain cs' where u': "uview n' u = Some (nm, cs', aw)" using n'(8) u(1) by (auto split: if_splits)
  obtain cl r where r: "clients n' u = Some cl" "c_user cl = Some r" "u_chans r = cs'" using u' by (elim uviewE)
  have x: "x \<in> set cs'" using members_okD(5) [OF net_okD(3) [OF ok] cx um] u' by auto
  have member: "IsChannelMember c u n' = Some NS_TRUE" using IsChannelMember_view [OF ok assms(1) u' cx] um by simp
  have "FindUser n' nick = Some u" using FindUser_iff [OF ok assms(10)] u' u(2) by blast
  then have again: "JoinChannel E nick chan n' = Some n'" by (rule join_again [OF ok assms(1) u' _ cx n'(3) um assms(7)])
  have re: "reachable N n'"
    by (rule reachable.line [OF assms(2,3)], rule net_step.join [OF _ n'(1)]) (use assms(4-6) in \<open>simp add: strlcpy_str_def\<close>)
  have old: "ms = map cm_u (ch_members ch0)" if "FindChannel n chan = Some c" "channels n c = Some ch0" for ch0
    using n'(5) that by (auto simp: cview_def)
  have new: "ms = []" if "FindChannel n chan = Some 0" using n'(4,5) that by auto
  have "(\<forall>d. d \<noteq> c \<longrightarrow> cview n' d = cview n d) \<and> (\<forall>v. v \<noteq> u \<longrightarrow> uview n' v = uview n v)" using n'(7,8) by auto
  then show ?thesis
    using n'(1,3,6) ch r x member again re old new
    by (rule_tac x = n' in exI, rule_tac x = c in exI, rule_tac x = ch in exI, rule_tac x = r in exI) (auto simp: user_of_def)
qed

lemma JoinChannel_enters_witness:
  "\<exists>n n' c. JoinChannel sample_env ''Fish'' ''#neo'' n = Some n' \<and> FindChannel n' ''#neo'' = Some c \<and> IsChannelMember c 3 n' = Some NS_TRUE"
proof -
  obtain n c where n: "reachable plain_names n" "room n" "uview n = [3 \<mapsto> (''Fish'', [], False)]" "exclude_list n = []"
    using sample_user_on by blast
  note ok = good_ok [OF reachable_good [OF n(1) coherent_plain]]
  have u: "FindUser n ''Fish'' = Some 3" using FindUser_iff [OF ok] n(3) by (auto simp: irc_key_def)
  have no0: "\<not> irc_eq ''0'' ''#neo''" by code_simp
  from JoinChannel_enters [OF coherent_plain n(1,2) _ _ _ no0 _ u, of sample_env] n(4)
  show ?thesis by (auto simp: MAXCHANLEN_def)
qed

text \<open>C8. A join followed by a part of the same channel gives back what was there: in a state reachable with names from a set in which
  no two compare equal and hash apart, with room for two more objects and a well formed exclusion list, for a user of the
  network who is neither a bot of the program nor waiting for a kick, and was not on the channel, and for a channel
  without bots whose name is of that set, fits its buffer and is not 0, both calls return and afterwards every user is on the
  channels of before, every channel has its members of before, and a channel the join created is gone.\<close>

theorem join_part_roundtrip:
  assumes "coherent N" "reachable N n" "room n" and "length chan < MAXCHANLEN" "nul_free chan" "chan \<in> N" "\<not> irc_eq ''0'' chan"
    and "list_all exclude_ok (exclude_list n)" and "FindUser n nick = Some u" "u \<noteq> 0"
    and "flags_of n u = Some fl" "\<not> has fl CLIENT_FLAG_ME" "\<not> has fl CLIENT_FLAG_ZOMBIE"
    and "\<forall>c ch. FindChannel n chan = Some c \<longrightarrow> channels n c = Some ch \<longrightarrow> ch_neousers ch = 0 \<and> u \<notin> set (map cm_u (ch_members ch))"
  shows "\<exists>n1 n2. JoinChannel E nick chan n = Some n1 \<and> PartChannel E u chan reason n1 = Some n2 \<and>
    uview n2 = uview n \<and> cview n2 = cview n \<and> (\<forall>k. FindChannel n2 k = FindChannel n k)"
proof -
  have g: "good N n" using reachable_good assms(1,2) by blast
  obtain nm cs aw where u: "uview n u = Some (nm, cs, aw)" "irc_key nm nick"
    using FindUser_view [OF good_ok [OF g] assms(9,10)] by metis
  obtain n1 c x ms ms' where n1: "JoinChannel E nick chan n = Some n1" "good N n1" "FindChannel n1 chan = Some c" "c \<noteq> 0"
    "if FindChannel n chan = Some c then (\<exists>k. cview n c = Some (x, ms, k)) else x = chan \<and> ms = [] \<and> FindChannel n chan = Some 0 \<and> cview n c = None"
    "ms' = (if u \<in> set ms then ms else ms @ [u])" "cview n1 = (cview n)(c := Some (x, ms', of_nat (length ms')))"
    "uview n1 = (if u \<in> set ms then uview n else (uview n)(u := Some (nm, cs @ [x], aw)))"
    using JoinChannel_joins [OF assms(1) g assms(3-9) u(1), of E] by auto
  have new: "u \<notin> set ms"
    using n1(5) assms(14) by (auto simp: cview_def split: if_splits)
  have me: "IsMe n u = Some False" using assms(10-12) by (simp add: IsMe_def client_flag_def)
  note fr = JoinChannel_frame [OF assms(9) me assms(7) n1(1)]
  obtain ch where ch: "channels n1 c = Some ch" "ch_name ch = x" "map cm_u (ch_members ch) = ms @ [u]"
    using n1(6,7) new cviewE [of n1 c x "ms @ [u]"] by (metis fun_upd_same)
  have u1: "uview n1 u = Some (nm, cs @ [x], aw)" using n1(8) new by simp
  have x: "x \<notin> set cs" using members_okD(1) [OF net_okD(3) [OF good_ok [OF n1(2)]] u1] by simp
  have restored: "(cview n)(c := if ms = [] then None else Some (x, ms, of_nat (length ms))) = cview n"
  proof (cases "FindChannel n chan = Some c")
    case True
    then obtain k where k: "cview n c = Some (x, ms, k)" using n1(5) by auto
    then have "ms \<noteq> []" using g n1(4) unfolding good_def peopled_but_def by blast
    then show ?thesis using k members_okD(4) [OF net_okD(3) [OF good_ok [OF g]] k] by (simp add: fun_upd_idem)
  qed (use n1(5) in \<open>simp add: fun_upd_idem\<close>)
  have own: "ch_neousers ch = 0"
  proof (cases "FindChannel n chan = Some c")
    case True
    then obtain ch0 where "channels n c = Some ch0" using n1(5) by (auto simp: cview_def)
    then have "own_users n c = Some 0" using True assms(14) by (simp add: own_users_def)
    then show ?thesis using fr(3) [of c] ch(1) by (auto simp: own_users_def)
  next
    case False
    then have "own_users n c = None" using n1(5) by (simp add: own_users_def cview_def)
    then show ?thesis using fr(3) [of c] ch(1) by (auto simp: own_users_def)
  qed
  have fl: "flags_of n1 u = Some fl" using fr(1) assms(11) by simp
  obtain n2 where n2: "PartChannel E u chan reason n1 = Some n2" "good N n2"
    "uview n2 = (uview n1)(u := Some (nm, remove1 (ch_name ch) (cs @ [x]), aw))"
    "cview n2 = (cview n1)(c := (let ms = remove1 u (map cm_u (ch_members ch)) in
      if ms = [] then None else Some (ch_name ch, ms, of_nat (length ms))))"
    using PartChannel_parts [OF assms(1) n1(2) u1 fl assms(13,12) n1(3) ch(1) own] by blast
  have cs: "remove1 x (cs @ [x]) = cs" and ms: "remove1 u (ms @ [u]) = ms" using x new by (simp_all add: remove1_append)
  have v: "uview n2 = uview n" "cview n2 = cview n"
    using n2(3,4) n1(7,8) new u(1) ch(2,3) cs ms restored by (cases "ms = []"; simp add: fun_upd_idem Let_def)+
  have "FindChannel n2 k = FindChannel n k" for k
  proof -
    obtain a b where ab: "FindChannel n2 k = Some a" "FindChannel n k = Some b"
      using FindChannel_obj [OF good_ok [OF n2(2)]] FindChannel_obj [OF good_ok [OF g]] by simp
    have "d = a \<longleftrightarrow> d = b" if "d \<noteq> 0" for d
      using FindChannel_iff [OF good_ok [OF n2(2)] that, of k] FindChannel_iff [OF good_ok [OF g] that, of k] v(2) ab
      by (simp add: eq_commute [of d])
    then have "a = b" by (cases "a = 0"; cases "b = 0") auto
    with ab show ?thesis by simp
  qed
  then show ?thesis using n1(1) n2(1) v by blast
qed

lemma join_part_roundtrip_witness:
  "\<exists>n n1 n2. JoinChannel sample_env ''Fish'' ''#neo'' n = Some n1 \<and> PartChannel sample_env 3 ''#neo'' None n1 = Some n2 \<and>
    cview n2 = cview n"
proof -
  obtain n where n: "reachable plain_names n" "room n" "uview n = [3 \<mapsto> (''Fish'', [], False)]" "cview n = (\<lambda>c. None)"
    "exclude_list n = []" "map_option part_flags (flags_of n 3) = Some (False, False)"
    using sample_user_on by blast
  note ok = good_ok [OF reachable_good [OF n(1) coherent_plain]]
  have u: "FindUser n ''Fish'' = Some 3" using FindUser_iff [OF ok] n(3) by (auto simp: irc_key_def)
  have no0: "\<not> irc_eq ''0'' ''#neo''" by code_simp
  obtain fl where fl: "flags_of n 3 = Some fl" "\<not> has fl CLIENT_FLAG_ME" "\<not> has fl CLIENT_FLAG_ZOMBIE"
    using n(6) by (auto simp: part_flags_def)
  have none: "channels n c = None" for c using fun_cong [OF n(4), of c] by (simp add: cview_def)
  from join_part_roundtrip [OF coherent_plain n(1,2) _ _ _ no0 _ u _ fl, of sample_env None] n(5) none
  show ?thesis by (auto simp: MAXCHANLEN_def)
qed

text \<open>C9. A change of nick: in a state reachable with names from a set in which no two compare equal and hash apart, for a user of the
  network who is not a bot and whose server is still known (after a server split without QUIT lines it is not, and the exclusion
  check follows a freed record), with a well formed exclusion list, a change to a nick of that set that fits its buffer and that
  nobody else has (another case of the own nick included) always succeeds. The new nick then finds the
  user, the old one finds nobody unless the two compare equal, and the channels, the members and everybody else stay as
  they were.\<close>

theorem UserNickChange_moves:
  assumes "coherent N" "reachable N n" "room n" and "length newnick < MAXNICK" "nul_free newnick" "newnick \<in> N"
    and "FindUser n (strlcpy_str MAXNICK oldnick) = Some u" "clients n u = Some cl" "c_user cl = Some r"
    and "\<forall>b. FindUser n newnick = Some b \<longrightarrow> b = 0 \<or> b = u" and "list_all exclude_ok (exclude_list n)"
    and "clients n (c_uplink cl) \<noteq> None" "\<not> has (c_flags cl) CLIENT_FLAG_ME" "nul_free (u_hostname r)" "nul_free (c_hostip cl)"
  shows "\<exists>n' cl' r'. UserNickChange E oldnick newnick ts n = Some n' \<and> reachable N n' \<and> FindUser n' newnick = Some u \<and>
    (\<not> irc_key (c_name cl) newnick \<longrightarrow> FindUser n' (c_name cl) = Some 0) \<and>
    clients n' u = Some cl' \<and> c_user cl' = Some r' \<and> c_name cl' = newnick \<and> u_chans r' = u_chans r \<and>
    cview n' = cview n \<and> (\<forall>v. v \<noteq> u \<longrightarrow> uview n' v = uview n v)"
proof -
  have g: "good N n" using reachable_good assms(1,2) by blast
  have u: "uview n u = Some (c_name cl, u_chans r, u_is_away r)" using assms(8,9) by (rule user_viewI)
  obtain up where up: "clients n (c_uplink cl) = Some up" using assms(12) by blast
  obtain n' where n': "UserNickChange E oldnick newnick ts n = Some n'" "good N n'" "FindUser n' newnick = Some u"
    "uview n' = (uview n)(u := Some (newnick, u_chans r, u_is_away r))" "cview n' = cview n"
    "\<not> irc_key (c_name cl) newnick \<longrightarrow> FindUser n' (c_name cl) = Some 0"
    using UserNickChange_renames [OF g assms(3-7) u assms(10,11,8,9) up assms(13-15), of E ts] by blast
  have "uview n' u = Some (newnick, u_chans r, u_is_away r)" using n'(4) by simp
  then obtain cl' r' where "clients n' u = Some cl'" "c_user cl' = Some r'" "c_name cl' = newnick" "u_chans r' = u_chans r"
    by (rule user_viewE)
  moreover have "reachable N n'"
    by (rule reachable.line [OF assms(2,3)], rule net_step.nick [OF _ n'(1)]) (use assms(4-6) in \<open>simp add: strlcpy_str_def\<close>)
  moreover have "\<forall>v. v \<noteq> u \<longrightarrow> uview n' v = uview n v" using n'(4) by simp
  ultimately show ?thesis using n' by blast
qed

lemma UserNickChange_moves_witness:
  "\<exists>n n'. FindUser n ''Fish'' = Some 3 \<and> UserNickChange sample_env ''Fish'' ''Cat'' None n = Some n' \<and>
    FindUser n' ''Cat'' = Some 3 \<and> FindUser n' ''Fish'' = Some 0"
proof -
  obtain n c r where n: "reachable plain_names n" "room n" "uview n = [3 \<mapsto> (''Fish'', [], False)]" "exclude_list n = []"
    "clients n 3 = Some c" "c_user c = Some r" "c_uplink c = 1" "server_of n 1 \<noteq> None"
    "map_option part_flags (flags_of n 3) = Some (False, False)" "nul_free (u_hostname r)" "nul_free (c_hostip c)"
    using sample_user_on by blast
  note ok = good_ok [OF reachable_good [OF n(1) coherent_plain]]
  have u: "FindUser n (strlcpy_str MAXNICK ''Fish'') = Some 3" "FindUser n ''Fish'' = Some 3"
    using FindUser_iff [OF ok] n(3) by (auto simp: irc_key_def strlcpy_str_def MAXNICK_def)
  have differ: "\<not> irc_eq ''Fish'' ''Cat''" by code_simp
  then have free: "FindUser n ''Cat'' = Some 0" unfolding FindUser_none [OF ok] using n(3) by (simp add: irc_key_def)
  have name: "c_name c = ''Fish''" using fun_cong [OF n(3), of 3] n(5) by (auto simp: uview_def bind_eq_Some_conv)
  have up: "clients n (c_uplink c) \<noteq> None" using n(7,8) by (auto simp: server_of_def bind_eq_Some_conv)
  have me: "\<not> has (c_flags c) CLIENT_FLAG_ME" using n(5,9) by (simp add: flags_of_def part_flags_def)
  have "\<forall>b. FindUser n ''Cat'' = Some b \<longrightarrow> b = 0 \<or> b = 3" using free by simp
  from UserNickChange_moves [OF coherent_plain n(1,2) _ _ _ u(1) n(5,6) this _ up me n(10,11), of sample_env None] n(4) name differ u(2)
  show ?thesis by (auto simp: MAXNICK_def irc_key_def)
qed

text \<open>C10. Away: in a state reachable with names from a set in which no two compare equal and hash apart \<open>UserAway\<close> with a message marks the user away, without one it marks
  the user present; the global counter of away users moves by one exactly when the mark changes, and nothing else the lists
  and tables hold changes. (The user's server must still exist.)\<close>

theorem UserAway_counts:
  assumes "coherent N" "reachable N n" and "FindUser n nick = Some u" "clients n u = Some cl" "c_user cl = Some r"
    and "server_of n (c_uplink cl) \<noteq> None"
  shows "\<exists>n' r'. UserAway nick msg n = Some n' \<and> user_of n' u = Some r' \<and> (u_is_away r' \<longleftrightarrow> msg \<noteq> None) \<and>
    u_chans r' = u_chans r \<and> cview n' = cview n \<and> (\<forall>v. v \<noteq> u \<longrightarrow> uview n' v = uview n v) \<and>
    awaycount n' = awaycount n + (if msg \<noteq> None \<and> \<not> u_is_away r then 1 else if msg = None \<and> u_is_away r then - 1 else 0)"
proof -
  have g: "good N n" using reachable_good assms(1,2) by blast
  obtain s where s: "server_of n (c_uplink cl) = Some s" using assms(6) by blast
  obtain n' where n': "UserAway nick msg n = Some n'" "cview n' = cview n"
    "uview n' = (uview n)(u := Some (c_name cl, u_chans r, msg \<noteq> None))"
    "awaycount n' = awaycount n + (if msg \<noteq> None \<and> \<not> u_is_away r then 1 else if msg = None \<and> u_is_away r then - 1 else 0)"
    using UserAway_marks [OF g assms(3) user_viewI [OF assms(4,5)] assms(4) s, of msg] by blast
  have "uview n' u = Some (c_name cl, u_chans r, msg \<noteq> None)" using n'(3) by simp
  then obtain cl' r' where "clients n' u = Some cl'" "c_user cl' = Some r'" "u_chans r' = u_chans r" "u_is_away r' = (msg \<noteq> None)"
    by (rule user_viewE)
  moreover have "\<forall>v. v \<noteq> u \<longrightarrow> uview n' v = uview n v" using n'(3) by simp
  ultimately show ?thesis using n' by (intro exI [of _ n'] exI [of _ r']) (simp add: user_of_def)
qed

lemma UserAway_counts_witness:
  "\<exists>n n' r'. UserAway ''Fish'' (Some ''lunch'') n = Some n' \<and> user_of n' 3 = Some r' \<and> u_is_away r' \<and> awaycount n' = awaycount n + 1"
proof -
  obtain n c where n: "reachable plain_names n" "uview n = [3 \<mapsto> (''Fish'', [], False)]" "clients n 3 = Some c" "c_uplink c = 1"
    "server_of n 1 \<noteq> None"
    using sample_user_on by blast
  note ok = good_ok [OF reachable_good [OF n(1) coherent_plain]]
  have u: "FindUser n ''Fish'' = Some 3" using FindUser_iff [OF ok] n(2) by (auto simp: irc_key_def)
  obtain r where r: "c_user c = Some r" "\<not> u_is_away r" using fun_cong [OF n(2), of 3] n(3) by (auto simp: uview_def bind_eq_Some_conv)
  show ?thesis using UserAway_counts [OF coherent_plain n(1) u n(3) r(1), of "Some ''lunch''"] n(4,5) r(2) by auto
qed

end
