(* ===== verification/LineProps.thy ===== *)
theory LineProps
  imports LineParse Unreal32 NetProps
begin

text \<open>
  What the lines of an Unreal server do to the network state, from the text of the line on: the arguments are
  pieces of the line, every handler keeps the invariant of the network, and so does a session of any length.
\<close>

section \<open>Handlers\<close>

definition args_ok :: "nat \<Rightarrow> args \<Rightarrow> bool" where
  "args_ok k av \<longleftrightarrow> (\<forall>t. Some t \<in> set av \<longrightarrow> plain t \<and> length t \<le> k)"

text \<open>Room for a line of \<open>k\<close> characters: no line can join more channels than it has characters.\<close>

definition spare :: "nat \<Rightarrow> net \<Rightarrow> bool" where
  "spare k n \<longleftrightarrow> next_addr n + 2 * Suc k < 2 ^ 60 \<and> Suc (card (dom (uview n))) < 2 ^ 32"

lemma spare_room: "spare k n \<Longrightarrow> room n"
  by (simp add: spare_def room_def)

abbreviation sound :: "net \<Rightarrow> bool" where "sound \<equiv> good (Collect plain)"

text \<open>A handler that ends in a sound state, if it ends.\<close>

definition safe :: "handler \<Rightarrow> bool" where
  "safe h \<longleftrightarrow> (\<forall>k R E origin av srv s. plain origin \<longrightarrow> args_ok k av \<longrightarrow> sound (i_net s) \<longrightarrow> spare k (i_net s) \<longrightarrow>
     ends (h R E origin av srv s) (\<lambda>s'. sound (i_net s')))"

lemma safeI:
  "(\<And>k R E origin av srv s. plain origin \<Longrightarrow> args_ok k av \<Longrightarrow> sound (i_net s) \<Longrightarrow> spare k (i_net s) \<Longrightarrow>
     ends (h R E origin av srv s) (\<lambda>s'. sound (i_net s'))) \<Longrightarrow> safe h"
  by (simp add: safe_def)

lemma ends_bind: "(\<And>x. m = Some x \<Longrightarrow> ends (f x) Q) \<Longrightarrow> ends (Option.bind m f) Q"
  by (auto simp: ends_def bind_eq_Some_conv)

lemma ends_net: "ends (f (i_net s)) sound \<Longrightarrow> ends (on_net f s) (\<lambda>s'. sound (i_net s'))"
  by (auto simp: ends_def on_net_def bind_eq_Some_conv)

lemma argv_text_ok:
  assumes "args_ok k av" "argv_text av i = Some t"
  shows "plain t" "length t \<le> k"
proof -
  have "Some t \<in> set av" using assms(2) by (auto simp: argv_text_def argv_def in_set_conv_nth bind_eq_Some_conv split: if_splits)
  then show "plain t" "length t \<le> k" using assms(1) by (auto simp: args_ok_def)
qed

lemma argv_ok: "args_ok k av \<Longrightarrow> argv av i = Some (Some t) \<Longrightarrow> plain t \<and> length t \<le> k"
  using argv_text_ok [of k av i t] by (simp add: argv_text_def)

lemma last_arg_ok: "args_ok k av \<Longrightarrow> last_arg av = Some t \<Longrightarrow> plain t \<and> length t \<le> k"
  unfolding args_ok_def last_arg_def by (metis last_in_set option.distinct(1))

text \<open>One step of the network is sound; what does not touch the core of the state is.\<close>

lemma step_sound: "sound n \<Longrightarrow> spare k n \<Longrightarrow> net_step (Collect plain) n n' \<Longrightarrow> sound n'"
  using net_step_good coherent_plain spare_room by blast

lemma core_sound: "sound n \<Longrightarrow> ends m (\<lambda>n'. core n' = core n) \<Longrightarrow> ends m sound"
  using good_core by (auto simp: ends_def)

text \<open>What the lines ask of the core keeps the state sound.\<close>

lemma sound_emit [simp]: "sound (emit x n) = sound n" "sound (SendAllModuleEvent e p n) = sound n"
  by (auto intro: good_core)

lemma sound_oper_message: "sound n \<Longrightarrow> ends (do_oper_message e origin m n) sound"
  unfolding do_oper_message_def by (rule ends_bind) (simp add: ends_def)

lemma step_ends: "sound n \<Longrightarrow> spare k n \<Longrightarrow> (\<And>n'. m = Some n' \<Longrightarrow> net_step (Collect plain) n n') \<Longrightarrow> ends m sound"
  using step_sound by (auto simp: ends_def)

lemma sound_steps:
  assumes "sound n" "spare k n"
  shows "ends (QuitUser E nick why n) sound" "ends (KickChannel E kicker chan kicked why2 n) sound"
    "ends (PartChannel E u chan why n) sound" "ends (ChannelTopic E chan own ts topic n) sound"
    "ends (UserAway nick why n) sound" "ends (KillUser E src nick why3 n) sound" "ends (DelServer E name why n) sound"
    "ends (ChanMode T origin av n) sound" "ends (SyncServer name n) sound" "ends (DelBan msk n) sound"
    "ends (AddBan E type usr host msk why3 setby tsset tsexpires n) sound"
    "ends (UserMode E um nick modes n) sound" "ends (UserSMode sm nick modes n) sound" "ends (SetUserVhost E nick v n) sound"
    "ends (SetUserServicesTS E nick t n) sound"
  by (rule step_ends [OF assms], erule net_step.intros)+

lemma sound_names:
  assumes "sound n" "spare k n" "plain name"
  shows "ends (AddServer E name up hops num info n) (\<lambda>(s, n'). sound n')"
    "ends (AddUser E name usr host rn server ip TS num2 n) (\<lambda>(u, n'). sound n')"
    "ends (UserNickChange E old name ts n) sound"
proof -
  have N: "strlcpy_str j name \<in> Collect plain" for j using plain_strlcpy [OF assms(3)] by simp
  show "ends (UserNickChange E old name ts n) sound"
    by (rule step_ends [OF assms(1,2)]) (rule net_step.nick [OF N])
  show "ends (AddServer E name up hops num info n) (\<lambda>(s, n'). sound n')"
    using step_sound [OF assms(1,2) net_step.server [OF N]] by (auto simp: ends_def)
  show "ends (AddUser E name usr host rn server ip TS num2 n) (\<lambda>(u, n'). sound n')"
    using step_sound [OF assms(1,2) net_step.signon [OF N]] by (auto simp: ends_def)
qed

lemma core_fields: "ends (set_field f b nick t n) (\<lambda>n'. core n' = core n)"
  if "\<And>t r. u_chans (f t r) = u_chans r \<and> u_is_away (f t r) = u_is_away r"
  unfolding set_field_def by (auto intro!: results ends_any [where m = "strlcpy_field a b t" for a b t] simp: that)

lemma sound_fields:
  assumes "sound n"
  shows "ends (do_swhois nick t n) sound" "ends (do_sethost nick t n) sound" "ends (do_chghost nick t n) sound"
    "ends (do_setident nick t n) sound" "ends (do_setname nick t n) sound"
  unfolding do_swhois_def do_sethost_def do_chghost_def do_setident_def
  by (rule core_sound [OF assms core_fields], simp)+
     (auto simp: do_setname_def intro!: core_sound [OF assms] results ends_any [where m = "strlcpy_field a b t" for a b t])

lemma sound_mode_user: "sound n \<Longrightarrow> ends (do_mode_user R E nick modes n) sound"
  unfolding do_mode_user_def
  by (auto intro!: ends_rules ends_any [where m = "FindUser n a" for n a] ends_any [where m = "UmodeStringToMask T s" for T s]
      core_sound core_handlers)

lemma sound_smode: "sound n \<Longrightarrow> ends (do_smode R nick modes n) sound"
  unfolding do_smode_def
  by (auto intro!: ends_rules ends_any [where m = "FindUser n a" for n a] ends_any [where m = "SmodeStringToMask T s" for T s]
      core_sound core_handlers)

lemma sound_svsmode: "sound n \<Longrightarrow> ends (do_svsmode_user R E nick modes ts n) sound"
  unfolding do_svsmode_user_def
  by (auto intro!: ends_rules ends_mono [OF core_sound [OF _ core_handlers(4)]] sound_mode_user)

lemma sound_nick:
  assumes "sound n" "spare k n" "\<And>x. nick = Some x \<Longrightarrow> plain x"
  shows "ends (do_nick R E nick TS usr host server ip modes vhost rn num sm n) sound"
proof -
  have 1: "ends (case sm of None \<Rightarrow> Some n | Some m \<Rightarrow> do_smode R x m n) sound" if "sound n" for x n
    using that sound_smode by (auto intro!: ends_rules)
  have 2: "ends (do { n \<leftarrow> (case vhost of None \<Rightarrow> Some n | Some v \<Rightarrow> SetUserVhost E x v n);
       case sm of None \<Rightarrow> Some n | Some m \<Rightarrow> do_smode R x m n }) sound" if "sound n" for x n
    using that by (auto intro!: ends_rules 1 ends_mono [OF core_sound [OF that core_handlers(3)]])
  have 3: "ends (do { n \<leftarrow> (case modes of None \<Rightarrow> Some n | Some m \<Rightarrow> do_mode_user R E x m n);
       n \<leftarrow> (case vhost of None \<Rightarrow> Some n | Some v \<Rightarrow> SetUserVhost E x v n);
       case sm of None \<Rightarrow> Some n | Some m \<Rightarrow> do_smode R x m n }) sound" if "sound n" for x n
    using that by (auto intro!: ends_rules 2 ends_mono [OF sound_mode_user [OF that]])
  show ?thesis
  proof (cases nick)
    case (Some x)
    show ?thesis unfolding do_nick_def Some option.case
      by (rule ends_bind, rule ends_bind, rule ends_bind, rule ends_bind, rule ends_rules(3),
          rule ends_mono [OF sound_names(2) [OF assms(1,2) assms(3) [OF Some]]]) (auto intro: 3)
  qed (use assms(1) in \<open>simp add: do_nick_def ends_rules\<close>)
qed

section \<open>Joining many channels\<close>

text \<open>Room for joining \<open>k\<close> more channels.\<close>

definition room_for :: "nat \<Rightarrow> net \<Rightarrow> bool" where
  "room_for k n \<longleftrightarrow> next_addr n + 2 * k < 2 ^ 60 \<and> Suc (card (dom (uview n))) < 2 ^ 32"

lemma spare_room_for: "spare k n \<Longrightarrow> j \<le> Suc k \<Longrightarrow> room_for j n"
  by (simp add: spare_def room_for_def)

lemma room_for_core: "core n' = core n \<Longrightarrow> room_for k n' = room_for k n"
  by (simp add: room_for_def core_eq_iff)

lemma join_sound:
  assumes "sound n" "room_for (Suc k) n" "plain chan"
  shows "ends (JoinChannel E nick chan n) (\<lambda>n'. sound n' \<and> room_for k n')"
proof -
  have room: "room n" using assms(2) by (simp add: room_def room_for_def)
  have N: "strlcpy_str MAXCHANLEN chan \<in> Collect plain" using plain_strlcpy [OF assms(3)] by simp
  show ?thesis
    using JoinChannel_grows [OF coherent_plain assms(1) room N, of E nick] assms(2)
    by (auto simp: ends_def room_for_def)
qed

lemma join_each_sound:
  "sound n \<Longrightarrow> room_for (length cs) n \<Longrightarrow> list_all plain cs \<Longrightarrow> ends (join_each E nick cs n) sound"
proof (induction cs arbitrary: n)
  case (Cons c cs)
  then show ?case
    by (auto intro!: ends_rules ends_mono [OF join_sound [of n "length cs"]])
qed (simp add: ends_rules)

lemma channel_names_pieces: "length (channel_names t) \<le> length t \<and> (\<forall>c\<in>set (channel_names t). piece t c)"
proof (induction t rule: channel_names.induct)
  case (1 t)
  show ?case
  proof (cases "t = []")
    case False
    let ?r = "dropWhile (\<lambda>c. c \<noteq> CHR '','') t"
    have "length (tl ?r) < length t"
      using False length_dropWhile_le [of "\<lambda>c. c \<noteq> CHR '',''" t] by (cases t) (auto split: if_splits)
    moreover have "piece t (tl ?r)" using piece_trans [OF piece_dropWhile(1) piece_dropWhile(3)] .
    ultimately show ?thesis
      using 1 [OF False refl refl] False piece_dropWhile(2) piece_trans
      by (subst (1 2) channel_names.simps) (fastforce simp: Let_def)
  qed (simp add: channel_names.simps)
qed

lemma do_join_sound:
  assumes "sound n" "spare k n" "plain chans" "length chans \<le> k"
  shows "ends (do_join E nick chans n) sound"
proof -
  have "list_all plain (channel_names chans)"
    using channel_names_pieces [of chans] piece_plain assms(3) by (auto simp: list_all_iff)
  moreover have "room_for (length (channel_names chans)) n"
    using channel_names_pieces [of chans] assms(4) by (intro spare_room_for [OF assms(2)]) linarith
  ultimately show ?thesis unfolding do_join_def using join_each_sound [OF assms(1)] by blast
qed

lemma sjoin_one_sound:
  assumes "sound n" "room_for (Suc k) n" "plain chan"
  shows "ends (sjoin_one E T sj3 chan w n) (\<lambda>n'. sound n' \<and> room_for k n')"
proof -
  have r: "room_for k n" using assms(2) by (simp add: room_for_def)
  have mode: "ends (ChanUserMode chan nick True m n') (\<lambda>n'. sound n' \<and> room_for k n')" if "sound n' \<and> room_for k n'" for m nick n'
    by (rule ends_mono [OF core_ChanUserMode]) (use that good_core room_for_core in blast)
  have "ends (do { (msk, nick) \<leftarrow> prefix_mask T 0 w; n \<leftarrow> JoinChannel E (strlcpy_str MAXNICK nick) chan n;
      ChanUserMode chan (strlcpy_str MAXNICK nick) True msk n }) (\<lambda>n'. sound n' \<and> room_for k n')"
    by (rule ends_bind, rule ends_rules(5), rule ends_rules(3), rule ends_mono [OF join_sound [OF assms]], erule mode)
  then show ?thesis using assms(1) r by (simp add: sjoin_one_def Let_def ends_rules)
qed

lemma sjoin_loop_sound:
  "sound n \<Longrightarrow> room_for (length ws) n \<Longrightarrow> plain chan \<Longrightarrow> ends (sjoin_loop E T sj3 chan ws n) sound"
proof (induction ws arbitrary: n)
  case (Cons w ws)
  then show ?case unfolding sjoin_loop.simps
    by (intro ends_bind ends_rules(3) ends_mono [OF sjoin_one_sound [of n "length ws"]]) auto
qed (simp add: ends_rules)

lemma sjoin_modes_sound:
  assumes "sound (i_net s)"
  shows "ends (sjoin_modes R ts chan modes av nicks s) (\<lambda>s'. sound (i_net s'))"
proof -
  have "ends (ChanModeHandler (rc_modes R) c modes 3 av n) sound" if "sound n" for c av n
    using that good_core core_mode_loop unfolding ends_def ChanModeHandler_def by blast
  then have m: "ends (do { n \<leftarrow> upd_chan c (\<lambda>ch. ch\<lparr>ch_creationtime := atoi ts\<rparr>) (i_net s); ChanModeHandler (rc_modes R) c modes 3 av n }) sound"
    for c av
    using good_core [OF assms] by (intro ends_rules(3) results) auto
  show ?thesis unfolding sjoin_modes_def
    by (rule ends_bind, rule ends_rules(4), simp add: ends_def assms, rule ends_bind, rule ends_net, rule m)
qed

lemma do_sjoin_sound:
  assumes s: "sound (i_net s)" "spare k (i_net s)" and "args_ok k av" "plain chan" "\<And>m. modes = Some m \<Longrightarrow> plain m"
  shows "ends (do_sjoin R E ts chan modes nick av s) (\<lambda>s'. sound (i_net s'))"
proof (cases modes)
  case (Some m)
  have "ends (JoinChannel (link_env E s) nick m (i_net s)) sound"
    by (rule ends_mono [OF join_sound [OF s(1) spare_room_for [OF s(2), of "Suc 0"] assms(5) [OF Some]]]) auto
  moreover have "ends (sjoin_loop (link_env E s) (rc_modes R) (proto s PROTOCOL_SJ3) chan (split_buf (Some x)) (i_net s)) sound"
    if x: "last_arg av = Some x" for x
  proof -
    have "length (split_buf (Some x)) \<le> Suc k" using split_buf_count [of x] last_arg_ok [OF assms(3) x] by linarith
    then show ?thesis by (intro sjoin_loop_sound s(1) assms(4) spare_room_for [OF s(2)])
  qed
  ultimately show ?thesis
    unfolding do_sjoin_def Some option.case Let_def
    by (intro ends_rules(4) ends_net ends_bind ends_rules(3) ends_mono [OF ends_net sjoin_modes_sound]) auto
qed (simp add: do_sjoin_def ends_rules)

section \<open>Every handler\<close>

lemma ends_Some: "Q x \<Longrightarrow> ends (Some x) Q" and ends_None [simp]: "ends None Q"
  by (simp_all add: ends_def)

lemmas ends_if = ends_rules(4)

lemma safe_message: "safe m_globops" "safe m_wallops" "safe m_chatops"
  unfolding m_globops_def m_wallops_def m_chatops_def do_globops_def do_wallops_def do_chatops_def
  by (intro safeI ends_bind ends_net sound_oper_message, assumption)+

lemma safe_idle: "safe m_error" "safe m_ignorecommand" "safe m_smo"
  by (intro safeI, simp add: m_error_def m_ignorecommand_def m_smo_def ends_def)+

lemma safe_protoctl: "safe m_protoctl"
  by (intro safeI) (auto simp: m_protoctl_def do_protocol_def on_srv_def ends_def bind_eq_Some_conv)

lemma do_ping_sound: "sound (i_net s) \<Longrightarrow> ends (do_ping E origin s) (\<lambda>s'. sound (i_net s'))"
  by (simp add: do_ping_def on_net_def ends_def Let_def)

lemma do_pong_sound: "sound (i_net s) \<Longrightarrow> ends (do_pong E origin s) (\<lambda>s'. sound (i_net s'))"
proof -
  assume s: "sound (i_net s)"
  have server: "ends (on_net (upd_server a f) s) (\<lambda>s. sound (i_net s))" if "sound (i_net s)" for a f s
    by (rule ends_net, rule core_sound [OF that]) (auto intro!: results)
  have ev: "ends (on_net (\<lambda>n. Some (SendAllModuleEvent e p n)) s) (\<lambda>s. sound (i_net s))" if "sound (i_net s)" for e p s
    using that by (simp add: on_net_def ends_def)
  show ?thesis unfolding do_pong_def Let_def
    apply (rule ends_bind, rule ends_if, rule ends_Some, rule s)
    apply (rule ends_rules(3), rule ends_mono [OF server], simp add: s)
    apply (rule ends_rules(3), rule ends_if, rule ends_mono [OF server], assumption)
     apply (rule ends_bind, rule ends_rules(3), rule ends_if, rule ends_bind, rule ends_Some, rule ev, simp)
     apply (rule ends_Some, rule ev, assumption)
    apply (rule ends_Some, rule ends_bind, rule ends_rules(3), rule ends_if, rule ends_bind, rule ends_Some, rule ev, simp)
    apply (rule ends_Some, rule ev, assumption)
    done
qed

lemma safe_ping_pong: "safe m_ping" "safe m_pong"
  unfolding m_ping_def m_pong_def by (intro safeI ends_if ends_bind do_ping_sound do_pong_sound, assumption+)+

lemma safe_leaving: "safe m_quit" "safe m_part" "safe m_svspart" "safe m_kick" "safe m_kill" "safe m_svskill" "safe m_squit"
  unfolding m_quit_def m_part_def m_svspart_def m_kick_def m_kill_def m_svskill_def m_squit_def do_part_def
  by (intro safeI ends_if ends_bind ends_net sound_steps, assumption+)+

lemma safe_join: "safe m_join" "safe m_svsjoin"
  unfolding m_join_def m_svsjoin_def
  by (intro safeI ends_bind ends_net do_join_sound; (assumption | erule (1) argv_text_ok))+

lemma safe_modes: "safe m_topic" "safe m_away" "safe m_mode" "safe m_svsmode" "safe m_umode2"
  unfolding m_topic_def m_away_def m_mode_def m_svsmode_def m_umode2_def
  by (intro safeI ends_if ends_bind ends_net sound_steps sound_mode_user sound_svsmode; assumption)+

lemma safe_fields: "safe m_setname" "safe m_chgname" "safe m_sethost" "safe m_chghost" "safe m_setident" "safe m_chgident"
    "safe m_swhois"
  unfolding m_setname_def m_chgname_def m_sethost_def m_chghost_def m_setident_def m_chgident_def m_swhois_def
    field_of_origin_def [abs_def] field_of_arg_def [abs_def]
  by (intro safeI ends_bind ends_net sound_fields; assumption)+

lemma safe_renames: "safe m_svsnick"
  unfolding m_svsnick_def
  by (intro safeI ends_bind ends_net sound_names; (assumption | erule (1) argv_text_ok))

lemma safe_servers: "safe m_server" "safe m_eos" "safe m_svinfo"
proof -
  have "ends (do_server E name up hops num info srv n) sound" if "sound n" "spare k n" "plain name" for E name up hops num info srv n k
    unfolding do_server_def
    by (rule ends_rules(3), rule ends_if; rule ends_mono [OF sound_names(1) [OF that]]) (auto simp: ends_def)
  then show "safe m_server" unfolding m_server_def
    by (intro safeI ends_bind ends_net; (assumption | erule (1) argv_text_ok | blast intro: argv_text_ok))
  have "ends (do_eos name n) sound" if "sound n" "spare k n" for name n k
    unfolding do_eos_def by (rule ends_bind, rule ends_if, rule ends_Some, rule that, rule ends_bind, rule sound_steps(9) [OF that])
  then show "safe m_eos" unfolding m_eos_def by (intro safeI ends_net)
  show "safe m_svinfo" unfolding m_svinfo_def do_svinfo_def by (intro safeI ends_net ends_Some) simp
qed

lemma safe_bans: "safe m_tkl"
proof (rule safeI)
  fix k R E origin av srv and s :: irc
  assume s: "sound (i_net s)" "spare k (i_net s)"
  have "ends (do_tkl E add type usr host setby expire tsset reason n) sound" if "n = i_net s" for add type usr host setby expire tsset reason n
    unfolding do_tkl_def Let_def that by (rule ends_if; rule sound_steps [OF s])
  then show "ends (m_tkl R E origin av srv s) (\<lambda>s'. sound (i_net s'))"
    unfolding m_tkl_def by (intro ends_bind ends_if ends_net) simp_all
qed

lemma safe_nick: "safe m_nick"
  unfolding m_nick_def Let_def
  by (intro safeI ends_if ends_bind ends_net sound_nick sound_names;
      (assumption | erule (1) argv_text_ok | simp add: argv_ok))

lemma safe_sjoin: "safe m_sjoin"
proof (rule safeI)
  fix k R E origin av srv and s :: irc
  assume s: "args_ok k av" "sound (i_net s)" "spare k (i_net s)"
  show "ends (m_sjoin R E origin av srv s) (\<lambda>s'. sound (i_net s'))"
    unfolding m_sjoin_def
    by (intro ends_bind do_sjoin_sound [OF s(2,3,1)])
       (use argv_text_ok [OF s(1)] argv_ok [OF s(1)] in \<open>auto split: if_splits\<close>)
qed

lemma safe_numerics: "safe m_numeric351" "safe m_numeric242"
proof -
  have 1: "ends (upd_client a (\<lambda>c. c\<lparr>c_version := v\<rparr>) n) sound" if "sound n" for a v n
    by (rule core_sound [OF that]) (auto intro!: results)
  show "safe m_numeric351" unfolding m_numeric351_def
    by (intro safeI ends_bind ends_if ends_net 1; (rule ends_Some)?; assumption)
  have 2: "ends (upd_server a f n) sound" if "sound n" for a f n
    by (rule core_sound [OF that]) (auto intro!: results)
  have 3: "ends (case o' of None \<Rightarrow> Some s | Some secs \<Rightarrow> on_net (upd_server a (f secs)) s) (\<lambda>s. sound (i_net s))"
    if "sound (i_net s)" for o' s a and f :: "int \<Rightarrow> server \<Rightarrow> server"
    using that by (cases o') (auto intro: ends_Some ends_net 2)
  show "safe m_numeric242" unfolding m_numeric242_def
    by (intro safeI ends_bind ends_if 3; (rule ends_Some)?; assumption)
qed

section \<open>Dispatch\<close>

text \<open>The commands that are handed on to parts outside the model: messages to bots, and the start of the services bot.\<close>

definition core_command :: "string \<Rightarrow> bool" where
  "core_command cmd \<longleftrightarrow> \<not> list_ex (\<lambda>x. irc_eq x cmd) [''PRIVMSG'', ''!'', ''NOTICE'', ''B'', ''NETINFO'', ''AO'']"

lemmas safe_handlers = safe_message safe_idle safe_protoctl safe_ping_pong safe_leaving safe_join safe_modes safe_fields
  safe_renames safe_servers safe_bans safe_nick safe_sjoin safe_numerics

lemma safe_unreal: "list_all (\<lambda>(m, h). safe h) unreal_handlers"
  by (simp add: unreal_handlers_def safe_handlers)

lemma safe_intrinsic:
  "list_all (\<lambda>(m, h). safe h \<or> m \<in> {''PRIVATE'', ''NOTICE'', ''NETINFO'', ''SNETINFO'', ''EOB''}) intrinsic_cmd_list"
  by (simp add: intrinsic_cmd_list_def safe_handlers)

lemma safe_numeric_list: "list_all (\<lambda>(m, h). safe h) numeric_cmd_list"
  by (simp add: numeric_cmd_list_def safe_handlers)

lemma unreal_names:
  "unreal_MSG ''PRIVATE'' = Some ''PRIVMSG''" "unreal_TOK ''PRIVATE'' = Some ''!''"
  "unreal_MSG ''NOTICE'' = Some ''NOTICE''" "unreal_TOK ''NOTICE'' = Some ''B''"
  "unreal_MSG ''NETINFO'' = Some ''NETINFO''" "unreal_TOK ''NETINFO'' = Some ''AO''"
  "unreal_MSG ''SNETINFO'' = None" "unreal_MSG ''EOB'' = None"
  by code_simp+

lemma find_in_set: "List.find P xs = Some x \<Longrightarrow> x \<in> set xs \<and> P x"
  by (induction xs) (auto split: if_splits)

lemma find_handler_safe:
  assumes "find_handler unreal32 tokens cmd = Some h" and cmd: "core_command cmd"
  shows "safe h"
proof -
  have core: "\<not> irc_eq ''PRIVMSG'' cmd" "\<not> irc_eq ''!'' cmd" "\<not> irc_eq ''NOTICE'' cmd" "\<not> irc_eq ''B'' cmd"
      "\<not> irc_eq ''NETINFO'' cmd" "\<not> irc_eq ''AO'' cmd"
    using cmd by (simp_all add: core_command_def)
  consider name tok where "(name, tok, Some h) \<in> set (pm_cmd_list unreal32)"
    | m where "(m, h) \<in> set intrinsic_cmd_list" "intrinsic_matches unreal32 tokens cmd (m, h)"
    | name where "(name, h) \<in> set numeric_cmd_list"
  proof (cases "List.find (module_matches tokens cmd) (pm_cmd_list unreal32)")
    case None
    show ?thesis
    proof (cases "List.find (intrinsic_matches unreal32 tokens cmd) intrinsic_cmd_list")
      case None': None
      obtain x where "List.find (\<lambda>(name, h). irc_eq name cmd) numeric_cmd_list = Some x" "h = snd x"
        using assms(1) None None' by (auto simp: find_handler_def)
      then show ?thesis using that(3) [of "fst x"] find_in_set by fastforce
    next
      case (Some x)
      then have "h = snd x" using assms(1) None by (simp add: find_handler_def split: prod.splits)
      then show ?thesis using that(2) [of "fst x"] find_in_set [OF Some] by simp
    qed
  next
    case (Some x)
    then have "snd (snd x) = Some h" using assms(1) by (simp add: find_handler_def split: prod.splits)
    then show ?thesis using that(1) [of "fst x" "fst (snd x)"] find_in_set [OF Some] by (metis prod.collapse)
  qed
  then show ?thesis
  proof cases
    case 1
    then show ?thesis using safe_unreal by (auto simp: unreal32_def list_all_iff)
  next
    case 2
    obtain name where name: "unreal_MSG m = Some name"
      "irc_eq name cmd \<or> (\<exists>tok. unreal_TOK m = Some tok \<and> irc_eq tok cmd)"
      using 2(2) by (auto simp: intrinsic_matches_def unreal32_def split: option.splits)
    have "m \<notin> {''PRIVATE'', ''NOTICE'', ''NETINFO'', ''SNETINFO'', ''EOB''}"
    proof
      assume "m \<in> {''PRIVATE'', ''NOTICE'', ''NETINFO'', ''SNETINFO'', ''EOB''}"
      then show False using name core by (elim insertE emptyE) (auto simp: unreal_names)
    qed
    then show ?thesis using safe_intrinsic 2(1) by (auto simp: list_all_iff)
  next
    case 3
    then show ?thesis using safe_numeric_list by (auto simp: list_all_iff)
  qed
qed

lemma parse_sound:
  assumes "sound (i_net s)" "plain line" "spare (length line) (i_net s)"
    and "\<And>p. parse_line line = Some p \<Longrightarrow> core_command (pl_cmd p)"
    and "parse unreal32 R E line s = Some (r, s')"
  shows "sound (i_net s')"
proof (cases "parse_line line")
  case (Some p)
  note pieces = parse_line_pieces [OF Some]
  have o: "plain (pl_origin p)" using pieces piece_plain assms(2) by blast
  have a: "args_ok (length line) (pl_args p)" using pieces piece_plain assms(2) by (auto simp: args_ok_def piece_def)
  show ?thesis
  proof (cases "find_handler unreal32 (proto s PROTOCOL_TOKEN) (pl_cmd p)")
    case None
    then show ?thesis using assms(1,5) Some by (simp add: parse_def process_ircd_cmd_def)
  next
    case h: (Some h)
    have "ends (h R E (pl_origin p) (pl_args p) (pl_cmdptr p) s) (\<lambda>s'. sound (i_net s'))"
      using find_handler_safe [OF h assms(4) [OF Some]] o a assms(1,3) unfolding safe_def by blast
    then show ?thesis using assms(5) Some h by (auto simp: parse_def process_ircd_cmd_def ends_def bind_eq_Some_conv)
  qed
qed (use assms(1,5) in \<open>simp add: parse_def\<close>)

end
