(* ===== verification/Sessions.thy ===== *)
theory Sessions
  imports LineProps
begin

text \<open>
  The sessions with an Unreal server: the runs of the core from \<open>InitCore\<close> on, a line at a time, and
  what holds after every line.
\<close>

section \<open>Sessions\<close>

text \<open>
  The states the core goes through on a link with an Unreal server: \<open>InitCore\<close>, and then one line after the
  other. The lines hold no letter that the table hashes and compares differently, the commands handed on to
  parts outside the model are left out, and there is room in the tables for what one line can bring in.
\<close>

inductive session :: "recv \<Rightarrow> env \<Rightarrow> irc \<Rightarrow> bool" for R :: recv and E :: env where
  start: "InitCore blank_net = Some n \<Longrightarrow> i_net s = n \<Longrightarrow> session R E s"
| line: "session R E s \<Longrightarrow> plain l \<Longrightarrow> spare (length l) (i_net s) \<Longrightarrow>
    (\<And>p. parse_line l = Some p \<Longrightarrow> core_command (pl_cmd p)) \<Longrightarrow>
    parse unreal32 R E l s = Some (r, s') \<Longrightarrow> session R E s'"

lemma session_sound: "session R E s \<Longrightarrow> sound (i_net s)"
proof (induction rule: session.induct)
  case (start n s)
  then show ?case using InitCore_good by (metis option.inject)
next
  case (line s l r s')
  then show ?case using parse_sound by blast
qed

section \<open>A session\<close>

text \<open>The commands as they are named, and the first that matches.\<close>

lemma unreal_commands:
  "map fst (pm_cmd_list unreal32) = [''SERVER'', ''UMODE2'', ''SVSMODE'', ''SVS2MODE'', ''NICK'', ''SJOIN'', ''SWHOIS'', ''SMO'', ''EOS'', ''TKL'', ''SVSKILL'']"
proof -
  have "map fst (pm_cmd_list unreal32) = map (\<lambda>m. the (unreal_MSG m)) (map fst unreal_handlers)"
    unfolding unreal32_def by (simp only: protocol_module.simps map_map) (simp only: o_def case_prod_beta fst_conv)
  also have "map fst unreal_handlers = [''SERVER'', ''UMODE2'', ''SVSMODE'', ''SVS2MODE'', ''NICK'', ''SJOIN'', ''SWHOIS'', ''SMO'', ''EOS'', ''TKL'', ''SVSKILL'']"
    by (simp add: unreal_handlers_def)
  also have "map (\<lambda>m. the (unreal_MSG m)) \<dots> = \<dots>" by code_simp
  finally show ?thesis .
qed

lemma module_find:
  assumes "length (takeWhile (\<lambda>n. \<not> irc_eq n cmd) (map fst (pm_cmd_list P))) = i"
  shows "List.find (module_matches False cmd) (pm_cmd_list P) = (if i < length (pm_cmd_list P) then Some (pm_cmd_list P ! i) else None)"
proof -
  have m: "module_matches False cmd = (\<lambda>c. irc_eq (fst c) cmd)" by (auto simp: module_matches_def fun_eq_iff)
  have "length (takeWhile (\<lambda>n. \<not> irc_eq n cmd) (map fst xs)) = i \<Longrightarrow>
      List.find (\<lambda>c. irc_eq (fst c) cmd) xs = (if i < length xs then Some (xs ! i) else None)" for xs :: "irc_cmd list" and i
    by (induction xs arbitrary: i) (auto simp: nth_Cons' split: if_splits)
  then show ?thesis using assms unfolding m by blast
qed
lemma sample_handlers:
  "find_handler unreal32 False ''SERVER'' = Some m_server" "find_handler unreal32 False ''NICK'' = Some m_nick"
proof -
  have l: "length (pm_cmd_list unreal32) = 11" using arg_cong [OF unreal_commands, of length] by simp
  have "length (takeWhile (\<lambda>n. \<not> irc_eq n ''SERVER'') (map fst (pm_cmd_list unreal32))) = 0"
    "length (takeWhile (\<lambda>n. \<not> irc_eq n ''NICK'') (map fst (pm_cmd_list unreal32))) = 4"
    unfolding unreal_commands by code_simp+
  note found = this [THEN module_find]
  have "snd (snd (pm_cmd_list unreal32 ! 0)) = Some m_server" "snd (snd (pm_cmd_list unreal32 ! 4)) = Some m_nick"
    unfolding unreal32_def unreal_handlers_def protocol_module.simps by (simp_all only: list.map case_prod_conv) simp_all
  then show "find_handler unreal32 False ''SERVER'' = Some m_server" "find_handler unreal32 False ''NICK'' = Some m_nick"
    using found l by (auto simp: find_handler_def split: prod.splits)
qed

text \<open>A server links and a user signs on.\<close>

lemma FindServer_emit [simp]: "FindServer (emit x n) k = FindServer n k" and FindUser_emit [simp]: "FindUser (emit x n) k = FindUser n k"
  by (simp_all add: FindServer_def FindUser_def emit_def)

lemma emit_views [simp]: "uview (emit x n) = uview n" "cview (emit x n) = cview n" "sview (emit x n) = sview n"
    "next_addr (emit x n) = next_addr n" "exclude_list (emit x n) = exclude_list n"
  by (simp_all add: emit_def uview_def [abs_def] cview_def [abs_def] sview_def [abs_def])

definition sample_recv :: recv where
  "sample_recv = \<lparr>rc_options = unreal_options, rc_modes = static_mode_tables, rc_synched = True, rc_start_services_bot = Some,
     rc_private = (\<lambda>_ _. Some), rc_chan_private = (\<lambda>_ _. Some), rc_notice = (\<lambda>_ _. Some), rc_chan_notice = (\<lambda>_ _. Some)\<rparr>"

lemma sample_linked_session:
  "\<exists>s. session sample_recv sample_env s \<and> srv_protocol (ircd_srv s) = unreal_required \<and> uview (i_net s) = (\<lambda>a. None) \<and>
    sview (i_net s) = [1 \<mapsto> ''hub.net''] \<and> next_addr (i_net s) = 3 \<and> exclude_list (i_net s) = []"
proof -
  obtain n0 where n0: "InitCore blank_net = Some n0" "sound n0" using InitCore_good by blast
  note b = InitCore_blank [OF n0(1)]
  define s0 where "s0 = \<lparr>i_net = n0, ircd_srv = \<lparr>srv_burst = 0, srv_uprot = 0, srv_modex = 0, srv_nicklen = 0, srv_gc = 0,
     srv_cloak = [], srv_maxglobalcnt = 0, srv_tsendsync = 0, srv_protocol = unreal_required\<rparr>, me_netname = [], me_uplink = [],
     me_ulag = 0, me_tslastping = 0, me_s = 0\<rparr>"
  have s0: "session sample_recv sample_env s0" using n0(1) by (intro session.start) (simp_all add: s0_def)
  let ?l = "''SERVER hub.net 1 :U2309-0 Hub''"
  have p: "parse_line ?l = Some \<lparr>pl_cmdptr = 0, pl_cmd = ''SERVER'', pl_origin = [],
      pl_args = [Some ''hub.net'', Some ''1'', Some ''U2309-0 Hub'']\<rparr>" by code_simp
  have free: "FindServer n0 ''hub.net'' = Some 0" using FindServer_none [OF good_ok [OF n0(2)]] b by simp
  have room: "room n0" using b by (simp add: room_def)
  from AddServer_links [OF n0(2) room _ _ _ free, of "link_env sample_env s0" "Some (me_name sample_env)" "Some ''1''" None "Some ''Hub''"] b
  obtain n1 where n1: "AddServer (link_env sample_env s0) ''hub.net'' (Some (me_name sample_env)) (Some ''1'') None (Some ''Hub'') n0 = Some (1, n1)"
    "sview n1 = [1 \<mapsto> ''hub.net'']" "uview n1 = (\<lambda>a. None)" "next_addr n1 = 3" "exclude_list n1 = []"
    by (auto simp: MAXNICK_def)
  let ?n = "emit (Send ''VERSION'' [me_name sample_env, ''hub.net'']) n1"
  have tok: "\<not> proto s0 PROTOCOL_TOKEN" by (simp add: proto_def s0_def unreal_required_def protocol_flags has_def)
  have "m_server sample_recv sample_env [] [Some ''hub.net'', Some ''1'', Some ''U2309-0 Hub''] 0 s0 = Some (s0\<lparr>i_net := ?n\<rparr>)"
    using n1(1) by (simp add: m_server_def last_arg_def server_description_def argv_text_def argv_def on_net_def do_server_def s0_def link_env_def)
  then have "parse unreal32 sample_recv sample_env ?l s0 = Some (NS_SUCCESS, s0\<lparr>i_net := ?n\<rparr>)"
    using tok sample_handlers(1) by (simp add: parse_def p process_ircd_cmd_def)
  moreover have "plain ?l" "core_command ''SERVER''" by code_simp+
  moreover have "spare (length ?l) (i_net s0)" using b by (simp add: spare_def s0_def)
  ultimately have "session sample_recv sample_env (s0\<lparr>i_net := ?n\<rparr>)"
    using session.line [OF s0, of ?l] p by simp
  then show ?thesis using n1 by (intro exI [of _ "s0\<lparr>i_net := ?n\<rparr>"]) (simp add: s0_def)
qed

lemma sample_session:
  "\<exists>s. session sample_recv sample_env s \<and> uview (i_net s) = [3 \<mapsto> (''Fish'', [], False)]"
proof -
  obtain s where s: "session sample_recv sample_env s" "srv_protocol (ircd_srv s) = unreal_required" "uview (i_net s) = (\<lambda>a. None)"
    "sview (i_net s) = [1 \<mapsto> ''hub.net'']" "next_addr (i_net s) = 3" "exclude_list (i_net s) = []"
    using sample_linked_session by blast
  let ?l = "''NICK Fish 1 100 fish a.net hub.net 0 0 0 :Fish'' "
  have p: "parse_line ?l = Some \<lparr>pl_cmdptr = 0, pl_cmd = ''NICK'', pl_origin = [],
      pl_args = map Some [''Fish'', ''1'', ''100'', ''fish'', ''a.net'', ''hub.net'', ''0'', ''0'', ''0'', ''Fish'']\<rparr>" by code_simp
  note g = session_sound [OF s(1)]
  have room: "room (i_net s)" using s by (simp add: room_def)
  have free: "FindUser (i_net s) ''Fish'' = Some 0" unfolding FindUser_none [OF good_ok [OF g]] using s(3) by simp
  have up: "FindServer (i_net s) ''hub.net'' = Some 1" using FindServer_iff [OF good_ok [OF g]] s(4) by (simp add: irc_key_def)
  from AddUser_signs_on [OF g room _ _ _ free up, where E = "link_env sample_env s" and usr = "''fish''" and host = "''a.net''"
      and realname = "''Fish''" and ip = None and TS = "Some ''100''" and numeric = None] s
  obtain n where n: "AddUser (link_env sample_env s) ''Fish'' ''fish'' ''a.net'' ''Fish'' ''hub.net'' None (Some ''100'') None (i_net s) = Some (3, n)"
    "uview n = [3 \<mapsto> (''Fish'', [], False)]"
    by (auto simp: MAXNICK_def)
  have opt: "\<not> proto s PROTOCOL_TOKEN" "\<not> proto s PROTOCOL_NICKv2"
    using s(2) by (simp_all add: proto_def unreal_required_def protocol_flags has_def)
  have "m_nick sample_recv sample_env [] (map Some [''Fish'', ''1'', ''100'', ''fish'', ''a.net'', ''hub.net'', ''0'', ''0'', ''0'', ''Fish'']) 0 s =
      Some (s\<lparr>i_net := n\<rparr>)"
    using n(1) opt by (simp add: m_nick_def argv_def on_net_def do_nick_def)
  then have "parse unreal32 sample_recv sample_env ?l s = Some (NS_SUCCESS, s\<lparr>i_net := n\<rparr>)"
    using opt sample_handlers(2) by (simp add: parse_def p process_ircd_cmd_def)
  moreover have "plain ?l" "core_command ''NICK''" by code_simp+
  moreover have "spare (length ?l) (i_net s)" using s by (simp add: spare_def)
  ultimately have "session sample_recv sample_env (s\<lparr>i_net := n\<rparr>)"
    using session.line [OF s(1), of ?l] p by simp
  then show ?thesis using n(2) by (intro exI [of _ "s\<lparr>i_net := n\<rparr>"]) simp
qed

section \<open>What holds after every line\<close>

text \<open>C1. The lines of an Unreal server keep the network consistent, as long as the core does not stop: a session starts with the core and adds
  line after line, none with a bracket, backslash, brace or bar (the letters the tables hash and compare differently), each
  with room in the tables for what it can bring in, and without the commands that are handed on to parts outside the model
  (messages to bots). After every line users and channels agree on who is where, no list names a user or a channel that does
  not exist, no channel is empty, and the counters of users, servers and channels are exact.\<close>

theorem session_consistent:
  assumes "session R E s"
  defines "n \<equiv> i_net s"
  shows "(\<forall>u r c ch. user_of n u = Some r \<longrightarrow> channels n c = Some ch \<longrightarrow>
      (ch_name ch \<in> set (u_chans r) \<longleftrightarrow> (\<exists>m\<in>set (ch_members ch). cm_u m = u)) \<and>
      distinct (u_chans r) \<and> distinct (map cm_u (ch_members ch))) \<and>
    (\<forall>c ch m. channels n c = Some ch \<longrightarrow> m \<in> set (ch_members ch) \<longrightarrow> user_of n (cm_u m) \<noteq> None) \<and>
    (\<forall>u r x. user_of n u = Some r \<longrightarrow> x \<in> set (u_chans r) \<longrightarrow>
      (\<exists>c ch. FindChannel n x = Some c \<and> channels n c = Some ch \<and> ch_name ch = x)) \<and>
    usercount n = of_nat (card {a. user_of n a \<noteq> None}) \<and>
    servercount n = of_nat (card {a. server_of n a \<noteq> None}) \<and>
    channelcount n = of_nat (card {c. channels n c \<noteq> None}) \<and>
    (\<forall>c ch. channels n c = Some ch \<longrightarrow> unat (ch_users ch) = length (ch_members ch) \<and> ch_members ch \<noteq> [])"
proof -
  have g: "sound n" unfolding n_def using session_sound [OF assms(1)] .
  show ?thesis using good_memberships [OF g] good_no_dangling [OF g] good_counters [OF g] by blast
qed

lemma session_consistent_witness:
  "\<exists>s. session sample_recv sample_env s \<and> {a. user_of (i_net s) a \<noteq> None} = {3} \<and> usercount (i_net s) = 1"
proof -
  obtain s where s: "session sample_recv sample_env s" "uview (i_net s) = [3 \<mapsto> (''Fish'', [], False)]"
    using sample_session by blast
  have "{a. user_of (i_net s) a \<noteq> None} = {3}" using dom_uview(1) [of "i_net s"] s(2) by auto
  then show ?thesis using session_consistent [OF s(1)] s(1) by (intro exI [of _ s]) simp
qed

end
