(* ===== verification/Auth.thy ===== *)
theory Auth
  imports Users Match
begin

text \<open>
  \<^verbatim>\<open>src/auth.c\<close> and the flood check of \<^verbatim>\<open>src/bots.c\<close>: who may use the services. The level of a user is worked out
  once, from the masks of the service root and from the authentication modules, and kept in the user record
  until a change of modes. The modules are not under the model: what their functions answer for a
  client is given with the configuration.
\<close>

section \<open>Configuration\<close>

definition NS_ULEVEL_ROOT :: int where "NS_ULEVEL_ROOT = 200"
definition NS_ULEVEL_ADMIN :: int where "NS_ULEVEL_ADMIN = 185"
definition NS_ULEVEL_OPER :: int where "NS_ULEVEL_OPER = 50"
definition NS_ULEVEL_LOCOPER :: int where "NS_ULEVEL_LOCOPER = 40"

lemmas ulevels = NS_ULEVEL_ROOT_def NS_ULEVEL_ADMIN_def NS_ULEVEL_OPER_def NS_ULEVEL_LOCOPER_def

text \<open>A module: is it flagged as an authentication module, and the function it has for it.\<close>

record auth_module =
  am_auth :: bool
  am_userauth :: "(client \<Rightarrow> int) option"

text \<open>
  The part of \<^verbatim>\<open>nsconfig\<close> the services look at, the loaded modules in the order of their table, and the senders
  the protocol module has.
\<close>

record config =
  root_nick :: string
  root_user :: string
  root_host :: string
  nc_onlyopers :: bool
  nc_msgsampletime :: time_t
  nc_msgthreshold :: uint
  nc_cmdchar :: char
  nc_modules :: "auth_module list"
  ns_bot_name :: string
  can_svskill :: bool
  can_kill :: bool

section \<open>The level of a user\<close>

text \<open>Every test is made only when the one before it succeeded.\<close>

definition also_matches :: "string \<Rightarrow> string \<Rightarrow> bool option \<Rightarrow> bool option" where
  "also_matches mk name tested = do { b \<leftarrow> tested; if b then map_option (\<lambda>v. v \<noteq> 0) (match mk name) else Some False }"

definition IsServiceRoot :: "config \<Rightarrow> client \<Rightarrow> user \<Rightarrow> bool option" where
  "IsServiceRoot C c r = do {
     b \<leftarrow> also_matches (root_user C) (u_username r) (also_matches (root_nick C) (c_name c) (Some True));
     h \<leftarrow> also_matches (root_host C) (u_hostname r) (Some b);
     if b \<and> \<not> h then also_matches (root_host C) (c_hostip c) (Some b) else Some h
   }"

definition ModuleAuthHandler :: "client \<Rightarrow> auth_module \<Rightarrow> int \<Rightarrow> int" where
  "ModuleAuthHandler c m auth =
     (case am_userauth m of
        Some f \<Rightarrow> if am_auth m \<and> f c > auth then f c else auth
      | None \<Rightarrow> auth)"

definition AuthUser :: "config \<Rightarrow> client \<Rightarrow> user \<Rightarrow> int option" where
  "AuthUser C c r = do {
     root \<leftarrow> IsServiceRoot C c r;
     Some (if root then NS_ULEVEL_ROOT else fold (ModuleAuthHandler c) (nc_modules C) 0)
   }"

text \<open>The level in the record, or -1 when it has to be worked out. The client of a server has no user record.\<close>

definition UserLevel :: "config \<Rightarrow> addr \<Rightarrow> net \<Rightarrow> (int \<times> net) option" where
  "UserLevel C a n = do {
     c \<leftarrow> clients n a;
     r \<leftarrow> c_user c;
     if u_ulevel r \<noteq> -1 then Some (u_ulevel r, n)
     else do {
       l \<leftarrow> AuthUser C c r;
       n \<leftarrow> upd_user a (\<lambda>r. r\<lparr>u_ulevel := l\<rparr>) n;
       Some (l, n) }
   }"

text \<open>The LEVEL command: the level is worked out afresh.\<close>

definition cmd_level :: "config \<Rightarrow> addr \<Rightarrow> string list \<Rightarrow> net \<Rightarrow> (int \<times> net) option" where
  "cmd_level C source av n =
     (case av of
        [] \<Rightarrow> do {
          n \<leftarrow> upd_user source (\<lambda>r. r\<lparr>u_ulevel := -1\<rparr>) n;
          (_, n) \<leftarrow> UserLevel C source n;
          Some (NS_SUCCESS, n) }
      | nick # _ \<Rightarrow> do {
          a \<leftarrow> FindUser n nick;
          if a = 0 then Some (NS_FAILURE, n)
          else do {
            n \<leftarrow> upd_user a (\<lambda>r. r\<lparr>u_ulevel := -1\<rparr>) n;
            (_, n) \<leftarrow> UserLevel C a n;
            Some (NS_SUCCESS, n) } })"

section \<open>Floods\<close>

text \<open>\<open>irc_svskill\<close>: where the IRC server has no such line the user is killed and the core forgets the user.\<close>

definition irc_svskill :: "config \<Rightarrow> env \<Rightarrow> addr \<Rightarrow> net \<Rightarrow> (int \<times> net) option" where
  "irc_svskill C E a n = do {
     c \<leftarrow> clients n a;
     let why = strlcpy_str BUFSIZE (me_name E @ ''!'' @ ns_bot_name C @ '' (Flooding Services)'');
     if can_svskill C then Some (NS_SUCCESS, emit (Send ''SVSKILL'' [me_name E, c_name c, why]) n)
     else if can_kill C
     then do {
       n \<leftarrow> QuitUser E (c_name c) (Some why) (emit (Send ''KILL'' [me_name E, c_name c, why]) n);
       Some (NS_SUCCESS, n) }
     else Some (NS_FAILURE, n)
   }"

definition is_flood :: "config \<Rightarrow> env \<Rightarrow> addr \<Rightarrow> net \<Rightarrow> (bool \<times> net) option" where
  "is_flood C E a n = do {
     (level, n) \<leftarrow> UserLevel C a n;
     if level \<ge> NS_ULEVEL_OPER then Some (False, n)
     else do {
       r \<leftarrow> user_of n a;
       if me_now E - u_tslastmsg r > nc_msgsampletime C
       then do { n \<leftarrow> upd_user a (\<lambda>r. r\<lparr>u_tslastmsg := me_now E, u_flood := 0\<rparr>) n; Some (False, n) }
       else if u_flood r \<ge> nc_msgthreshold C
       then do { (_, n) \<leftarrow> irc_svskill C E a n; Some (True, n) }
       else do { n \<leftarrow> upd_user a (\<lambda>r. r\<lparr>u_flood := u_flood r + 1\<rparr>) n; Some (False, n) } }
   }"

end
