(* ===== verification/Services.thy ===== *)
theory Services
  imports Auth Validate
begin

text \<open>
  The state of the services: what a bot offers (its commands and settings, found through hash tables), the variables
  the settings stand for and the configuration database of the modules. The functions that modules
  hang into commands and settings are not under the model: a command or setting holds a number, and \<open>hooks\<close>
  says what the function with that number does.
\<close>

section \<open>Objects\<close>

definition CMD_FLAG_PRIVMSGONLY :: uint where "CMD_FLAG_PRIVMSGONLY = 0x00000001"
definition CMD_FLAG_CHANONLY :: uint where "CMD_FLAG_CHANONLY = 0x00000002"
definition BOT_FLAG_ONLY_OPERS :: uint where "BOT_FLAG_ONLY_OPERS = 0x00000001"
definition BOT_FLAG_RESTRICT_OPERS :: uint where "BOT_FLAG_RESTRICT_OPERS = 0x00000002"
definition BOT_FLAG_DEAF :: uint where "BOT_FLAG_DEAF = 0x00000004"
definition BOT_FLAG_ROOT :: uint where "BOT_FLAG_ROOT = 0x00000008"

lemmas svc_flags = CMD_FLAG_PRIVMSGONLY_def CMD_FLAG_CHANONLY_def BOT_FLAG_ONLY_OPERS_def BOT_FLAG_RESTRICT_OPERS_def
  BOT_FLAG_DEAF_def BOT_FLAG_ROOT_def

definition NS_ERR_NO_PERMISSION :: int where "NS_ERR_NO_PERMISSION = 0x8000006"
definition NS_ERR_UNKNOWN_COMMAND :: int where "NS_ERR_UNKNOWN_COMMAND = 0x8000007"
definition NS_ERR_UNKNOWN_OPTION :: int where "NS_ERR_UNKNOWN_OPTION = 0x8000008"

record bot_cmd =
  bc_cmd :: "string option"
  bc_handler :: "nat option"
  bc_minparams :: int
  bc_ulevel :: int
  bc_helptext :: bool
  bc_flags :: uint
  bc_modptr :: addr

datatype set_type = SET_TYPE_NONE | SET_TYPE_BOOLEAN | SET_TYPE_INT | SET_TYPE_STRING | SET_TYPE_MSG | SET_TYPE_NICK
  | SET_TYPE_USER | SET_TYPE_HOST | SET_TYPE_REALNAME | SET_TYPE_CHANNEL | SET_TYPE_IPV4 | SET_TYPE_CUSTOM

datatype set_reason = SET_LOAD | SET_LIST | SET_CHANGE | SET_VALIDATE

record bot_setting =
  st_option :: string
  st_varptr :: addr
  st_type :: set_type
  st_min :: int
  st_max :: int
  st_ulevel :: int
  st_handler :: "nat option"

datatype setting_value = IntVal int | StrVal string

text \<open>What a bot offers besides the \<open>bot\<close> record of the network.\<close>

record bot_services =
  bs_botcmds :: "(string, addr) hash_t option"
  bs_botsettings :: "(string, addr) hash_t option"
  bs_set_ulevel :: int
  bs_authcb :: "(client \<Rightarrow> int) option"

text \<open>A DCC client copies the client it is for and so shares its user record, whose address is \<open>dc_user\<close>.\<close>

record dcc_client =
  dc_user :: addr
  dc_name :: string
  dc_ip :: uint
  dc_port :: int
  dc_connected :: bool

record services =
  s_net :: net
  s_bot :: "addr \<Rightarrow> bot_services option"
  s_cmd :: "addr \<Rightarrow> bot_cmd option"
  s_setting :: "addr \<Rightarrow> bot_setting option"
  s_var :: "addr \<Rightarrow> setting_value option"
  s_conf :: "addr \<times> string \<Rightarrow> setting_value option"
  s_dcc_client :: "addr \<Rightarrow> dcc_client option"
  s_dcclist :: "addr list"

text \<open>The rest of \<^verbatim>\<open>CmdParams\<close>: the message, the command and its parameters.\<close>

record call =
  ca_source :: addr
  ca_bot :: addr
  ca_channel :: addr
  ca_param :: string
  ca_cmd :: "string option"
  ca_av :: "string list"

text \<open>
  The functions of the modules, by number, the C library routine on addresses that SET uses, and whether a connection
  to an address and port is made. A level above \<open>NS_ULEVEL_ROOT\<close> is the address of an integer:
  \<open>hk_level\<close> reads it. \<open>hk_pointer_text\<close> is the text one sees when the bytes of a stored pointer
  are read as a C string.
\<close>

record hooks =
  hk_cmd :: "nat \<Rightarrow> call \<Rightarrow> services \<Rightarrow> (int \<times> services) option"
  hk_set :: "nat \<Rightarrow> set_reason \<Rightarrow> call \<Rightarrow> services \<Rightarrow> (int \<times> services) option"
  hk_level :: "int \<Rightarrow> int option"
  c_inet_addr :: "string \<Rightarrow> uint"
  hk_connect :: "uint \<Rightarrow> int \<Rightarrow> bool"
  hk_pointer_text :: "addr \<Rightarrow> string"

definition on_core :: "(net \<Rightarrow> ('a \<times> net) option) \<Rightarrow> services \<Rightarrow> ('a \<times> services) option" where
  "on_core f s = do { (x, n) \<leftarrow> f (s_net s); Some (x, s\<lparr>s_net := n\<rparr>) }"

definition upd_bot :: "addr \<Rightarrow> (bot_services \<Rightarrow> bot_services) \<Rightarrow> services \<Rightarrow> services option" where
  "upd_bot b f s = do { x \<leftarrow> s_bot s b; Some (s\<lparr>s_bot := (s_bot s)(b \<mapsto> f x)\<rparr>) }"

text \<open>A new table with the node of an entry in it.\<close>

definition new_table :: "services \<Rightarrow> (string, addr) hash_t option" where
  "new_table s = hash_create COUNT_MAX hash_comp_default hash_fun_default"

definition put_entry :: "(string, addr) hash_t \<Rightarrow> addr \<Rightarrow> string \<Rightarrow> services \<Rightarrow> ((string, addr) hash_t \<times> services) option" where
  "put_entry h x key s = (
     let (a, n) = alloc (s_net s) in do {
       h \<leftarrow> hnode_create_insert a h x key;
       Some (h, s\<lparr>s_net := n\<rparr>) })"

section \<open>The level of a caller\<close>

definition calc_cmd_ulevel :: "hooks \<Rightarrow> bot_cmd \<Rightarrow> int option" where
  "calc_cmd_ulevel H c = (if bc_ulevel c > NS_ULEVEL_ROOT then hk_level H (bc_ulevel c) else Some (bc_ulevel c))"

text \<open>Below a local operator the module of the bot may vouch for the user.\<close>

definition getuserlevel :: "config \<Rightarrow> call \<Rightarrow> services \<Rightarrow> (int \<times> services) option" where
  "getuserlevel C p s = do {
     (ulevel, s) \<leftarrow> on_core (UserLevel C (ca_source p)) s;
     if ulevel < NS_ULEVEL_LOCOPER
     then do {
       b \<leftarrow> s_bot s (ca_bot p);
       c \<leftarrow> clients (s_net s) (ca_source p);
       Some (case bs_authcb b of None \<Rightarrow> ulevel | Some f \<Rightarrow> if f c > ulevel then f c else ulevel, s) }
     else Some (ulevel, s)
   }"

end
