(* ===== verification/Settings.thy ===== *)
theory Settings
  imports Services
begin

text \<open>
  \<^verbatim>\<open>src/settings.c\<close>: the settings of a bot and the SET command. A setting stands for a variable of a module or
  of the core; a change is checked by the type of the setting, by the limits and by the function of the module,
  stored in the variable and written to the configuration of the module whose bot is asked. The
  replies are text for the user and are left out.
\<close>

section \<open>The types of settings\<close>

definition store_setting :: "addr \<Rightarrow> bot_setting \<Rightarrow> setting_value \<Rightarrow> setting_value \<Rightarrow> services \<Rightarrow> services" where
  "store_setting m st v stored s =
     s\<lparr>s_var := (s_var s)(st_varptr st \<mapsto> v), s_conf := (s_conf s)((m, st_option st) \<mapsto> stored)\<rparr>"

text \<open>
  The text goes into the variable as far as it fits, the terminator included; \<open>st_max\<close> bytes of it go into the
  configuration. A negative size is no size.
\<close>

definition store_text :: "addr \<Rightarrow> bot_setting \<Rightarrow> string \<Rightarrow> services \<Rightarrow> (int \<times> services) option" where
  "store_text m st text s =
     (if st_max st < 0 then None
      else do {
        v \<leftarrow> (if st_max st = 0 then s_var s (st_varptr st) else Some (StrVal (strlcpy_str (nat (st_max st)) text)));
        Some (NS_SUCCESS, store_setting m st v (StrVal (take (nat (st_max st)) (c_str text))) s) })"

text \<open>The module may refuse the new value.\<close>

definition validated :: "hooks \<Rightarrow> call \<Rightarrow> bot_setting \<Rightarrow> (services \<Rightarrow> (int \<times> services) option) \<Rightarrow> services \<Rightarrow> (int \<times> services) option" where
  "validated H p st f s =
     (case st_handler st of
        None \<Rightarrow> f s
      | Some h \<Rightarrow> do {
          (r, s) \<leftarrow> hk_set H h SET_VALIDATE p s;
          if r \<noteq> NS_SUCCESS then Some (NS_FAILURE, s) else f s })"

definition param1 :: "call \<Rightarrow> string option" where
  "param1 p = (if 1 < length (ca_av p) then Some (ca_av p ! 1) else None)"

definition bot_cmd_set_boolean :: "hooks \<Rightarrow> addr \<Rightarrow> call \<Rightarrow> bot_setting \<Rightarrow> services \<Rightarrow> (int \<times> services) option" where
  "bot_cmd_set_boolean H m p st s = do {
     a \<leftarrow> param1 p;
     if irc_eq a ''ON'' then validated H p st (\<lambda>s. Some (NS_SUCCESS, store_setting m st (IntVal 1) (IntVal 1) s)) s
     else if irc_eq a ''OFF'' then validated H p st (\<lambda>s. Some (NS_SUCCESS, store_setting m st (IntVal 0) (IntVal 0) s)) s
     else Some (NS_ERR_SYNTAX_ERROR, s)
   }"

text \<open>A limit of -1 is none. A text that is no number counts as 0 and is refused.\<close>

definition bot_cmd_set_int :: "hooks \<Rightarrow> addr \<Rightarrow> call \<Rightarrow> bot_setting \<Rightarrow> services \<Rightarrow> (int \<times> services) option" where
  "bot_cmd_set_int H m p st s = do {
     a \<leftarrow> param1 p;
     let intval = atoi a;
     if intval = 0 \<and> \<not> irc_eq a ''0'' then Some (NS_ERR_SYNTAX_ERROR, s)
     else if st_min st \<noteq> -1 \<and> intval < st_min st \<or> st_max st \<noteq> -1 \<and> intval > st_max st then Some (NS_ERR_SYNTAX_ERROR, s)
     else validated H p st (\<lambda>s. Some (NS_SUCCESS, store_setting m st (IntVal intval) (IntVal intval) s)) s
   }"

definition bot_cmd_set_string :: "hooks \<Rightarrow> addr \<Rightarrow> call \<Rightarrow> bot_setting \<Rightarrow> services \<Rightarrow> (int \<times> services) option" where
  "bot_cmd_set_string H m p st s = do { a \<leftarrow> param1 p; validated H p st (store_text m st a) s }"

definition bot_cmd_set_channel :: "hooks \<Rightarrow> addr \<Rightarrow> call \<Rightarrow> bot_setting \<Rightarrow> services \<Rightarrow> (int \<times> services) option" where
  "bot_cmd_set_channel H m p st s = do {
     a \<leftarrow> param1 p;
     if ValidateChannel (Some a) = NS_FAILURE then Some (NS_ERR_SYNTAX_ERROR, s)
     else validated H p st (store_text m st a) s
   }"

definition bot_cmd_set_msg :: "addr \<Rightarrow> call \<Rightarrow> bot_setting \<Rightarrow> services \<Rightarrow> (int \<times> services) option" where
  "bot_cmd_set_msg m p st s = do { buf \<leftarrow> joinbuf (ca_av p) 1; store_text m st buf s }"

definition bot_cmd_set_nick :: "addr \<Rightarrow> call \<Rightarrow> bot_setting \<Rightarrow> services \<Rightarrow> (int \<times> services) option" where
  "bot_cmd_set_nick m p st s = do {
     a \<leftarrow> param1 p;
     if ValidateNick (Some a) = NS_FAILURE then Some (NS_ERR_SYNTAX_ERROR, s) else store_text m st a s
   }"

definition bot_cmd_set_user :: "addr \<Rightarrow> call \<Rightarrow> bot_setting \<Rightarrow> services \<Rightarrow> (int \<times> services) option" where
  "bot_cmd_set_user m p st s = do {
     a \<leftarrow> param1 p;
     if ValidateUser (Some a) = NS_FAILURE then Some (NS_ERR_SYNTAX_ERROR, s) else store_text m st a s
   }"

definition bot_cmd_set_host :: "addr \<Rightarrow> call \<Rightarrow> bot_setting \<Rightarrow> services \<Rightarrow> (int \<times> services) option" where
  "bot_cmd_set_host m p st s = do {
     a \<leftarrow> param1 p;
     if CHR ''.'' \<notin> set a \<or> ValidateHost (Some a) = NS_FAILURE then Some (NS_ERR_SYNTAX_ERROR, s) else store_text m st a s
   }"

definition bot_cmd_set_realname :: "addr \<Rightarrow> call \<Rightarrow> bot_setting \<Rightarrow> services \<Rightarrow> (int \<times> services) option" where
  "bot_cmd_set_realname m p st s = do { buf \<leftarrow> joinbuf (ca_av p) 1; store_text m st buf s }"

text \<open>The check asks whether \<^verbatim>\<open>inet_addr\<close> is 0, its answer for 0.0.0.0; for a malformed address it answers -1.\<close>

definition bot_cmd_set_ipv4 :: "hooks \<Rightarrow> addr \<Rightarrow> call \<Rightarrow> bot_setting \<Rightarrow> services \<Rightarrow> (int \<times> services) option" where
  "bot_cmd_set_ipv4 H m p st s = do {
     a \<leftarrow> param1 p;
     if c_inet_addr H a = 0 then Some (NS_ERR_SYNTAX_ERROR, s) else store_text m st a s
   }"

definition bot_cmd_set_custom :: "hooks \<Rightarrow> call \<Rightarrow> bot_setting \<Rightarrow> services \<Rightarrow> (int \<times> services) option" where
  "bot_cmd_set_custom H p st s =
     (case st_handler st of None \<Rightarrow> Some (NS_FAILURE, s) | Some h \<Rightarrow> hk_set H h SET_CHANGE p s)"

text \<open>The table of the functions; the type -1 is an index before it.\<close>

fun bot_cmd_set_handlers :: "hooks \<Rightarrow> addr \<Rightarrow> call \<Rightarrow> bot_setting \<Rightarrow> set_type \<Rightarrow> services \<Rightarrow> (int \<times> services) option" where
  "bot_cmd_set_handlers H m p st SET_TYPE_NONE s = None"
| "bot_cmd_set_handlers H m p st SET_TYPE_BOOLEAN s = bot_cmd_set_boolean H m p st s"
| "bot_cmd_set_handlers H m p st SET_TYPE_INT s = bot_cmd_set_int H m p st s"
| "bot_cmd_set_handlers H m p st SET_TYPE_STRING s = bot_cmd_set_string H m p st s"
| "bot_cmd_set_handlers H m p st SET_TYPE_MSG s = bot_cmd_set_msg m p st s"
| "bot_cmd_set_handlers H m p st SET_TYPE_NICK s = bot_cmd_set_nick m p st s"
| "bot_cmd_set_handlers H m p st SET_TYPE_USER s = bot_cmd_set_user m p st s"
| "bot_cmd_set_handlers H m p st SET_TYPE_HOST s = bot_cmd_set_host m p st s"
| "bot_cmd_set_handlers H m p st SET_TYPE_REALNAME s = bot_cmd_set_realname m p st s"
| "bot_cmd_set_handlers H m p st SET_TYPE_CHANNEL s = bot_cmd_set_channel H m p st s"
| "bot_cmd_set_handlers H m p st SET_TYPE_IPV4 s = bot_cmd_set_ipv4 H m p st s"
| "bot_cmd_set_handlers H m p st SET_TYPE_CUSTOM s = bot_cmd_set_custom H p st s"

section \<open>The SET command\<close>

text \<open>Listing the settings runs the functions of the custom ones the user may see.\<close>

fun list_settings :: "hooks \<Rightarrow> call \<Rightarrow> int \<Rightarrow> addr list \<Rightarrow> services \<Rightarrow> services option" where
  "list_settings H p userlevel [] s = Some s"
| "list_settings H p userlevel (a # as) s = do {
     st \<leftarrow> s_setting s a;
     s \<leftarrow> (if userlevel \<ge> st_ulevel st \<and> st_type st = SET_TYPE_CUSTOM
          then (case st_handler st of None \<Rightarrow> Some s | Some h \<Rightarrow> map_option snd (hk_set H h SET_LIST p s))
          else Some s);
     list_settings H p userlevel as s
   }"

definition bot_cmd_set_list :: "config \<Rightarrow> hooks \<Rightarrow> call \<Rightarrow> services \<Rightarrow> services option" where
  "bot_cmd_set_list C H p s = do {
     (userlevel, s) \<leftarrow> getuserlevel C p s;
     b \<leftarrow> s_bot s (ca_bot p);
     h \<leftarrow> bs_botsettings b;
     nodes \<leftarrow> hash_scan h;
     list_settings H p userlevel (map hnode_get nodes) s
   }"

definition change_setting :: "hooks \<Rightarrow> addr \<Rightarrow> call \<Rightarrow> bot_setting \<Rightarrow> services \<Rightarrow> (int \<times> services) option" where
  "change_setting H m p st s = do {
     (r, s) \<leftarrow> bot_cmd_set_handlers H m p st (st_type st) s;
     if r \<noteq> NS_SUCCESS then Some (NS_FAILURE, s)
     else do {
       s \<leftarrow> (case st_handler st of
              Some h \<Rightarrow> if st_type st = SET_TYPE_CUSTOM then Some s else map_option snd (hk_set H h SET_CHANGE p s)
            | None \<Rightarrow> Some s);
       Some (NS_SUCCESS, s) }
   }"

definition bot_cmd_set :: "config \<Rightarrow> hooks \<Rightarrow> addr \<Rightarrow> call \<Rightarrow> services \<Rightarrow> (int \<times> services) option" where
  "bot_cmd_set C H m p s =
     (case ca_av p of
        [] \<Rightarrow> Some (NS_ERR_SYNTAX_ERROR, s)
      | opt # rest \<Rightarrow> do {
          (userlevel, s) \<leftarrow> getuserlevel C p s;
          b \<leftarrow> s_bot s (ca_bot p);
          if userlevel < bs_set_ulevel b then Some (NS_ERR_NO_PERMISSION, s)
          else if irc_eq opt ''LIST'' then do { s \<leftarrow> bot_cmd_set_list C H p s; Some (NS_SUCCESS, s) }
          else if rest = [] then Some (NS_ERR_SYNTAX_ERROR, s)
          else do {
            h \<leftarrow> bs_botsettings b;
            found \<leftarrow> hnode_find h opt;
            case found of
              None \<Rightarrow> Some (NS_ERR_UNKNOWN_OPTION, s)
            | Some a \<Rightarrow> do {
                st \<leftarrow> s_setting s a;
                if userlevel < st_ulevel st then Some (NS_ERR_NO_PERMISSION, s)
                else change_setting H m p st s } } })"

section \<open>The table of settings\<close>

definition add_bot_setting :: "(string, addr) hash_t \<Rightarrow> addr \<Rightarrow> services \<Rightarrow> ((string, addr) hash_t \<times> services) option" where
  "add_bot_setting h a s = do { st \<leftarrow> s_setting s a; put_entry h a (st_option st) s }"

definition del_bot_setting :: "(string, addr) hash_t \<Rightarrow> addr \<Rightarrow> services \<Rightarrow> (string, addr) hash_t option" where
  "del_bot_setting h a s = do {
     st \<leftarrow> s_setting s a;
     r \<leftarrow> hash_lookup h (st_option st);
     case r of None \<Rightarrow> Some h | Some nd \<Rightarrow> hash_delete_destroy_node h nd
   }"

fun add_settings :: "(string, addr) hash_t \<Rightarrow> int \<Rightarrow> addr list \<Rightarrow> services \<Rightarrow> ((string, addr) hash_t \<times> int \<times> services) option" where
  "add_settings h level [] s = Some (h, level, s)"
| "add_settings h level (a # as) s = do {
     st \<leftarrow> s_setting s a;
     let level = (if st_ulevel st < level then st_ulevel st else level);
     (h, s) \<leftarrow> add_bot_setting h a s;
     add_settings h level as s
   }"

text \<open>The level of SET is worked out from the settings of this call alone.\<close>

definition add_bot_setting_list :: "addr \<Rightarrow> addr list option \<Rightarrow> services \<Rightarrow> (int \<times> services) option" where
  "add_bot_setting_list b settings s =
     (case settings of
        None \<Rightarrow> Some (NS_FAILURE, s)
      | Some as \<Rightarrow> do {
          x \<leftarrow> s_bot s b;
          h \<leftarrow> (case bs_botsettings x of Some h \<Rightarrow> Some h | None \<Rightarrow> new_table s);
          (h, level, s) \<leftarrow> add_settings h NS_ULEVEL_ROOT as s;
          s \<leftarrow> upd_bot b (\<lambda>x. x\<lparr>bs_botsettings := Some h, bs_set_ulevel := level\<rparr>) s;
          Some (NS_SUCCESS, s) })"

fun del_settings :: "(string, addr) hash_t \<Rightarrow> addr list \<Rightarrow> services \<Rightarrow> (string, addr) hash_t option" where
  "del_settings h [] s = Some h"
| "del_settings h (a # as) s = do { h \<leftarrow> del_bot_setting h a s; del_settings h as s }"

definition del_bot_setting_list :: "addr \<Rightarrow> addr list \<Rightarrow> services \<Rightarrow> services option" where
  "del_bot_setting_list b as s =
     (if b = 0 then Some s
      else do {
        x \<leftarrow> s_bot s b;
        case bs_botsettings x of
          None \<Rightarrow> Some s
        | Some h \<Rightarrow> do { h \<leftarrow> del_settings h as s; upd_bot b (\<lambda>x. x\<lparr>bs_botsettings := Some h\<rparr>) s } })"

definition del_all_bot_settings :: "addr \<Rightarrow> services \<Rightarrow> services option" where
  "del_all_bot_settings b s = do {
     x \<leftarrow> s_bot s b;
     case bs_botsettings x of
       None \<Rightarrow> Some s
     | Some h \<Rightarrow> do {
         h \<leftarrow> free_nodes_loop h (hash_scan_begin 0 h);
         _ \<leftarrow> hash_destroy h;
         upd_bot b (\<lambda>x. x\<lparr>bs_botsettings := None\<rparr>) s }
   }"

end
