(* ===== verification/Commands.thy ===== *)
theory Commands
  imports Settings
begin

text \<open>
  \<^verbatim>\<open>src/commands.c\<close>: the commands of a bot and their execution. A table leads from the name of a command to its record;
  the commands every bot has (SET, LEVELS and those that only answer) come after those of the table.
\<close>

section \<open>The table of commands\<close>

text \<open>The key under which the configuration of a module keeps the level of a command.\<close>

definition confcmd :: "string \<Rightarrow> string" where
  "confcmd name = strlcpy_str 32 (''command'' @ name)"

definition upd_cmd :: "addr \<Rightarrow> (bot_cmd \<Rightarrow> bot_cmd) \<Rightarrow> services \<Rightarrow> services option" where
  "upd_cmd a f s = do { c \<leftarrow> s_cmd s a; Some (s\<lparr>s_cmd := (s_cmd s)(a \<mapsto> f c)\<rparr>) }"

text \<open>\<open>m\<close> is the module that runs. A level in its configuration replaces the one of the record.\<close>

definition stored_level :: "addr \<Rightarrow> (string, addr) hash_t \<Rightarrow> string \<Rightarrow> services \<Rightarrow> services option" where
  "stored_level m h name s =
     (case s_conf s (m, confcmd name) of
        None \<Rightarrow> Some s
      | Some (StrVal _) \<Rightarrow> None
      | Some (IntVal l) \<Rightarrow> do {
          found \<leftarrow> hnode_find h name;
          e \<leftarrow> found;
          upd_cmd e (\<lambda>c. c\<lparr>bc_ulevel := l\<rparr>) s })"

definition add_bot_cmd :: "addr \<Rightarrow> (string, addr) hash_t \<Rightarrow> addr \<Rightarrow> services \<Rightarrow> (int \<times> (string, addr) hash_t \<times> services) option" where
  "add_bot_cmd m h a s = do {
     c \<leftarrow> s_cmd s a;
     case bc_cmd c of
       None \<Rightarrow> Some (NS_FAILURE, h, s)
     | Some name \<Rightarrow> do {
         r \<leftarrow> hash_lookup h name;
         if r \<noteq> None \<or> bc_handler c = None \<or> \<not> bc_helptext c then Some (NS_FAILURE, h, s)
         else do {
           (h, s) \<leftarrow> put_entry h a name s;
           s \<leftarrow> upd_cmd a (\<lambda>c. c\<lparr>bc_modptr := m\<rparr>) s;
           s \<leftarrow> stored_level m h name s;
           Some (NS_SUCCESS, h, s) } }
   }"

definition find_bot_cmd :: "addr \<Rightarrow> string \<Rightarrow> services \<Rightarrow> addr option" where
  "find_bot_cmd b cmd s = do {
     x \<leftarrow> s_bot s b;
     case bs_botcmds x of None \<Rightarrow> Some 0 | Some h \<Rightarrow> find_in h cmd
   }"

definition del_bot_cmd :: "(string, addr) hash_t \<Rightarrow> addr \<Rightarrow> services \<Rightarrow> (string, addr) hash_t option" where
  "del_bot_cmd h a s = do {
     c \<leftarrow> s_cmd s a;
     name \<leftarrow> bc_cmd c;
     r \<leftarrow> hash_lookup h name;
     case r of None \<Rightarrow> Some h | Some nd \<Rightarrow> hash_delete_destroy_node h nd
   }"

text \<open>A list of commands is an array; \<open>as\<close> are the addresses of its records before the closing one.\<close>

fun add_cmds :: "addr \<Rightarrow> (string, addr) hash_t \<Rightarrow> addr list \<Rightarrow> services \<Rightarrow> ((string, addr) hash_t \<times> services) option" where
  "add_cmds m h [] s = Some (h, s)"
| "add_cmds m h (a # as) s = do { (_, h, s) \<leftarrow> add_bot_cmd m h a s; add_cmds m h as s }"

definition add_bot_cmd_list :: "addr \<Rightarrow> addr \<Rightarrow> addr list option \<Rightarrow> services \<Rightarrow> (int \<times> services) option" where
  "add_bot_cmd_list m b cmds s =
     (case cmds of
        None \<Rightarrow> Some (NS_FAILURE, s)
      | Some as \<Rightarrow> do {
          x \<leftarrow> s_bot s b;
          h \<leftarrow> (case bs_botcmds x of Some h \<Rightarrow> Some h | None \<Rightarrow> new_table s);
          (h, s) \<leftarrow> add_cmds m h as s;
          s \<leftarrow> upd_bot b (\<lambda>x. x\<lparr>bs_botcmds := Some h\<rparr>) s;
          Some (NS_SUCCESS, s) })"

fun del_cmds :: "(string, addr) hash_t \<Rightarrow> addr list \<Rightarrow> services \<Rightarrow> (string, addr) hash_t option" where
  "del_cmds h [] s = Some h"
| "del_cmds h (a # as) s = do { h \<leftarrow> del_bot_cmd h a s; del_cmds h as s }"

definition del_bot_cmd_list :: "addr \<Rightarrow> addr list \<Rightarrow> services \<Rightarrow> services option" where
  "del_bot_cmd_list b as s =
     (if b = 0 then Some s
      else do {
        x \<leftarrow> s_bot s b;
        case bs_botcmds x of
          None \<Rightarrow> Some s
        | Some h \<Rightarrow> do { h \<leftarrow> del_cmds h as s; upd_bot b (\<lambda>x. x\<lparr>bs_botcmds := Some h\<rparr>) s } })"

definition del_all_bot_cmds :: "addr \<Rightarrow> services \<Rightarrow> services option" where
  "del_all_bot_cmds b s = do {
     x \<leftarrow> s_bot s b;
     case bs_botcmds x of
       None \<Rightarrow> Some s
     | Some h \<Rightarrow> do {
         h \<leftarrow> free_nodes_loop h (hash_scan_begin 0 h);
         _ \<leftarrow> hash_destroy h;
         upd_bot b (\<lambda>x. x\<lparr>bs_botcmds := None\<rparr>) s }
   }"

section \<open>The LEVELS command\<close>

text \<open>\<open>m\<close> is the module of the bot: its configuration takes the new level.\<close>

definition bot_cmd_levels :: "config \<Rightarrow> addr \<Rightarrow> call \<Rightarrow> services \<Rightarrow> (int \<times> services) option" where
  "bot_cmd_levels C m p s = do {
     b \<leftarrow> s_bot s (ca_bot p);
     case ca_av p of
       [] \<Rightarrow> Some (NS_ERR_NEED_MORE_PARAMS, s)
     | cmd # rest \<Rightarrow>
         (case bs_botcmds b of
            None \<Rightarrow> Some (NS_SUCCESS, s)
          | Some h \<Rightarrow>
              if irc_eq cmd ''LIST'' then Some (NS_SUCCESS, s)
              else (case rest of
                 [] \<Rightarrow> Some (NS_ERR_NEED_MORE_PARAMS, s)
               | level # _ \<Rightarrow> do {
                   (userlevel, s) \<leftarrow> getuserlevel C p s;
                   if userlevel < NS_ULEVEL_ROOT then Some (NS_ERR_NO_PERMISSION, s)
                   else do {
                     found \<leftarrow> hnode_find h cmd;
                     case found of
                       None \<Rightarrow> Some (NS_ERR_SYNTAX_ERROR, s)
                     | Some a \<Rightarrow>
                         if 0 \<le> atoi level \<and> atoi level \<le> NS_ULEVEL_ROOT
                         then do {
                           s \<leftarrow> upd_cmd a (\<lambda>c. c\<lparr>bc_ulevel := atoi level\<rparr>) s;
                           c \<leftarrow> s_cmd s a;
                           name \<leftarrow> bc_cmd c;
                           Some (NS_SUCCESS, s\<lparr>s_conf := (s_conf s)((m, confcmd name) \<mapsto> IntVal (atoi level))\<rparr>) }
                         else Some (NS_ERR_SYNTAX_ERROR, s) } }))
   }"

section \<open>Running a command\<close>

text \<open>
  The commands a bot has of its own. HELP, VERSION, ABOUT and CREDITS only answer. What the function returns only
  chooses the answer.
\<close>

definition run_intrinsic_cmds :: "config \<Rightarrow> hooks \<Rightarrow> string \<Rightarrow> call \<Rightarrow> services \<Rightarrow> (int \<times> services) option" where
  "run_intrinsic_cmds C H cmd p s = do {
     b \<leftarrow> bots (s_net s) (ca_bot p);
     x \<leftarrow> s_bot s (ca_bot p);
     if bs_botsettings x \<noteq> None \<and> irc_eq cmd ''SET''
     then do { (_, s) \<leftarrow> bot_cmd_set C H (b_module b) p s; Some (NS_SUCCESS, s) }
     else if irc_eq cmd ''LEVELS''
     then (if has (b_flags b) BOT_FLAG_ROOT
           then do { (_, s) \<leftarrow> bot_cmd_levels C (b_module b) p s; Some (NS_SUCCESS, s) }
           else Some (NS_FAILURE, s))
     else if \<exists>name \<in> set [''HELP'', ''VERSION'', ''ABOUT'', ''CREDITS'']. irc_eq cmd name then Some (NS_SUCCESS, s)
     else Some (NS_FAILURE, s)
   }"

definition only_opers :: "config \<Rightarrow> bot \<Rightarrow> int \<Rightarrow> bool" where
  "only_opers C b userlevel \<longleftrightarrow>
     has (b_flags b) BOT_FLAG_RESTRICT_OPERS \<and> userlevel < NS_ULEVEL_OPER \<or>
     has (b_flags b) BOT_FLAG_ONLY_OPERS \<and> nc_onlyopers C \<and> userlevel < NS_ULEVEL_OPER"

text \<open>A command of the table: it runs when the way it came, the level of the caller and the parameters allow it.\<close>

definition run_listed_cmd :: "hooks \<Rightarrow> bool \<Rightarrow> int \<Rightarrow> addr \<Rightarrow> call \<Rightarrow> services \<Rightarrow> (int \<times> services) option" where
  "run_listed_cmd H ischancmd userlevel a p s = do {
     c \<leftarrow> s_cmd s a;
     if ischancmd \<and> has (bc_flags c) CMD_FLAG_PRIVMSGONLY \<or> \<not> ischancmd \<and> has (bc_flags c) CMD_FLAG_CHANONLY
     then Some (NS_FAILURE, s)
     else do {
       cmdlevel \<leftarrow> calc_cmd_ulevel H c;
       if userlevel < cmdlevel \<or> int (length (ca_av p)) < bc_minparams c then Some (NS_SUCCESS, s)
       else do {
         h \<leftarrow> bc_handler c;
         (_, s) \<leftarrow> hk_cmd H h p s;
         Some (NS_SUCCESS, s) } }
   }"

text \<open>The message, cut to the size of the buffer, split into the command and its parameters.\<close>

definition split_call :: "call \<Rightarrow> call option" where
  "split_call p = do {
     av \<leftarrow> those (split_buf (Some (strlcpy_str BUFSIZE (ca_param p))));
     Some (case av of [] \<Rightarrow> p\<lparr>ca_cmd := None, ca_av := []\<rparr> | cmd # rest \<Rightarrow> p\<lparr>ca_cmd := Some cmd, ca_av := rest\<rparr>)
   }"

definition run_bot_cmd :: "config \<Rightarrow> hooks \<Rightarrow> bool \<Rightarrow> call \<Rightarrow> services \<Rightarrow> (int \<times> services) option" where
  "run_bot_cmd C H ischancmd p s = do {
     p \<leftarrow> split_call p;
     (userlevel, s) \<leftarrow> getuserlevel C p s;
     b \<leftarrow> bots (s_net s) (ca_bot p);
     x \<leftarrow> s_bot s (ca_bot p);
     case ca_cmd p of
       None \<Rightarrow> Some (NS_FAILURE, s)
     | Some cmd \<Rightarrow>
         if only_opers C b userlevel then Some (NS_SUCCESS, s)
         else (case bs_botcmds x of
            None \<Rightarrow> Some (NS_FAILURE, s)
          | Some h \<Rightarrow> do {
              found \<leftarrow> hnode_find h cmd;
              case found of
                Some a \<Rightarrow> run_listed_cmd H ischancmd userlevel a p s
              | None \<Rightarrow> run_intrinsic_cmds C H cmd p s })
   }"

section \<open>Valid users\<close>

definition FindValidUser :: "net \<Rightarrow> string \<Rightarrow> addr option" where
  "FindValidUser n target_nick = do {
     u \<leftarrow> FindUser n target_nick;
     if u = 0 then Some 0
     else do { me \<leftarrow> IsMe n u; Some (if me then 0 else u) }
   }"

end
