(* ===== verification/Ctcp.thy ===== *)
theory Ctcp
  imports Commands
begin

text \<open>
  \<^verbatim>\<open>src/ctcp.c\<close> and \<^verbatim>\<open>src/dcc.c\<close>: messages between control characters, sent to a bot as a private message (a request)
  or a notice (a reply), and the DCC connections a request may open. What a module does with them is its
  business: the core sends it an event.
\<close>

definition call_params :: "call \<Rightarrow> addr \<Rightarrow> string \<Rightarrow> cmdparams" where
  "call_params p target param =
     no_params\<lparr>cp_source := ca_source p, cp_target := target, cp_bot := ca_bot p, cp_channel := ca_channel p, cp_param := Some param\<rparr>"

text \<open>An event to the module of the bot that is called.\<close>

definition to_module :: "event_kind \<Rightarrow> call \<Rightarrow> addr \<Rightarrow> string \<Rightarrow> services \<Rightarrow> services option" where
  "to_module e p target param s = do {
     b \<leftarrow> bots (s_net s) (ca_bot p);
     Some (s\<lparr>s_net := SendModuleEvent e (call_params p target param) (b_module b) (s_net s)\<rparr>)
   }"

definition to_all :: "event_kind \<Rightarrow> call \<Rightarrow> addr \<Rightarrow> string \<Rightarrow> services \<Rightarrow> services" where
  "to_all e p target param s = s\<lparr>s_net := SendAllModuleEvent e (call_params p target param) (s_net s)\<rparr>"

section \<open>DCC clients\<close>

text \<open>The client that asked is copied; the list of clients never fills.\<close>

definition AddDCCClient :: "call \<Rightarrow> services \<Rightarrow> (addr \<times> services) option" where
  "AddDCCClient p s = do {
     c \<leftarrow> clients (s_net s) (ca_source p);
     let (a, n) = alloc (s_net s);
     Some (a, s\<lparr>s_net := n, s_dcclist := s_dcclist s @ [a],
       s_dcc_client := (s_dcc_client s)(a \<mapsto> \<lparr>dc_user = ca_source p, dc_name = c_name c, dc_ip = c_ip c, dc_port = 0, dc_connected = False\<rparr>)\<rparr>)
   }"

text \<open>
  The search compares the name with the data of the nodes, read as text. The data is a client, whose first field
  is the pointer to the user record.
\<close>

fun dcc_find :: "hooks \<Rightarrow> services \<Rightarrow> string \<Rightarrow> addr list \<Rightarrow> addr option option" where
  "dcc_find H s name [] = Some None"
| "dcc_find H s name (a # as) = do {
     d \<leftarrow> s_dcc_client s a;
     if irc_eq (hk_pointer_text H (dc_user d)) name then Some (Some a) else dcc_find H s name as
   }"

definition DelDCCClient :: "hooks \<Rightarrow> addr \<Rightarrow> services \<Rightarrow> services option" where
  "DelDCCClient H a s = do {
     d \<leftarrow> s_dcc_client s a;
     found \<leftarrow> dcc_find H s (dc_name d) (s_dcclist s);
     Some (case found of
         None \<Rightarrow> s
       | Some x \<Rightarrow> s\<lparr>s_dcclist := remove1 x (s_dcclist s), s_dcc_client := (s_dcc_client s)(a := None)\<rparr>)
   }"

definition upd_dcc :: "addr \<Rightarrow> (dcc_client \<Rightarrow> dcc_client) \<Rightarrow> services \<Rightarrow> services option" where
  "upd_dcc a f s = do { d \<leftarrow> s_dcc_client s a; Some (s\<lparr>s_dcc_client := (s_dcc_client s)(a \<mapsto> f d)\<rparr>) }"

definition DCCChatConnect :: "hooks \<Rightarrow> addr \<Rightarrow> int \<Rightarrow> services \<Rightarrow> (int \<times> services) option" where
  "DCCChatConnect H a port s = do {
     d \<leftarrow> s_dcc_client s a;
     if hk_connect H (dc_ip d) port
     then do { s \<leftarrow> upd_dcc a (\<lambda>d. d\<lparr>dc_connected := True, dc_port := port\<rparr>) s; Some (NS_SUCCESS, s) }
     else do { s \<leftarrow> DelDCCClient H a s; Some (NS_FAILURE, s) }
   }"

text \<open>The answer of the resolver, if there was one with an address. A client address of 0 is none.\<close>

definition DCCGotAddr :: "hooks \<Rightarrow> addr \<Rightarrow> uint option \<Rightarrow> services \<Rightarrow> services option" where
  "DCCGotAddr H a answer s =
     (case answer of
        None \<Rightarrow> DelDCCClient H a s
      | Some ip \<Rightarrow> do {
          s \<leftarrow> upd_dcc a (\<lambda>d. d\<lparr>dc_ip := ip\<rparr>) s;
          if ip > 0
          then do {
            d \<leftarrow> s_dcc_client s a;
            (r, s) \<leftarrow> DCCChatConnect H a (dc_port d) s;
            if r = NS_SUCCESS then Some s else DelDCCClient H a s }
          else DelDCCClient H a s })"

definition DCCChatStart :: "hooks \<Rightarrow> addr \<Rightarrow> int \<Rightarrow> services \<Rightarrow> (int \<times> services) option" where
  "DCCChatStart H a port s = do {
     s \<leftarrow> upd_dcc a (\<lambda>d. d\<lparr>dc_port := port\<rparr>) s;
     d \<leftarrow> s_dcc_client s a;
     if dc_ip d > 0 then DCCChatConnect H a port s
     else do {
       u \<leftarrow> user_of (s_net s) (dc_user d);
       Some (NS_SUCCESS, s\<lparr>s_net := emit (Send ''DNS'' [u_hostname u]) (s_net s)\<rparr>) }
   }"

definition dcc_req_send :: "call \<Rightarrow> addr \<Rightarrow> string \<Rightarrow> services \<Rightarrow> services option" where
  "dcc_req_send p target param s = to_module EVENT_DCCSEND p target param s"

text \<open>Splitting writes into the message, so the event shows its first word only.\<close>

definition dcc_req_chat :: "config \<Rightarrow> hooks \<Rightarrow> call \<Rightarrow> addr \<Rightarrow> string \<Rightarrow> services \<Rightarrow> services option" where
  "dcc_req_chat C H p target param s = do {
     (userlevel, s) \<leftarrow> on_core (UserLevel C (ca_source p)) s;
     if userlevel < NS_ULEVEL_ROOT then Some s
     else do {
       av \<leftarrow> those (split_buf (Some param));
       s \<leftarrow> (if length av = 3
            then do {
              (a, s) \<leftarrow> AddDCCClient p s;
              (r, s) \<leftarrow> DCCChatStart H a (atoi (av ! 2)) s;
              if r \<noteq> NS_SUCCESS then DelDCCClient H a s else Some s }
            else Some s);
       let (m, _) = split_loop (param @ [NUL]) (if at (param @ [NUL]) 0 = CHR '':'' then 1 else 0) 0 [];
       to_module EVENT_DCCCHAT p target (c_str m) s }
   }"

definition after_word :: "string \<Rightarrow> nat \<Rightarrow> string option" where
  "after_word buf k = (if k + 1 < length buf then Some (drop (k + 1) buf) else None)"

text \<open>The message is a buffer: stepping over the word and the byte after it may leave the text and read what the buffer still holds.\<close>

definition dcc_req :: "config \<Rightarrow> hooks \<Rightarrow> call \<Rightarrow> addr \<Rightarrow> string \<Rightarrow> services \<Rightarrow> services option" where
  "dcc_req C H p target buf s =
     (if ircstrncasecmp (Some ''SEND'') (Some (c_str buf)) 4 = 0
      then do { rest \<leftarrow> after_word buf 4; dcc_req_send p target (c_str rest) s }
      else if ircstrncasecmp (Some ''CHAT'') (Some (c_str buf)) 4 = 0
      then do { rest \<leftarrow> after_word buf 4; dcc_req_chat C H p target (c_str rest) s }
      else Some s)"

section \<open>CTCP\<close>

text \<open>
  \<open>strip_ctcp_codes\<close> closes the gaps in place: the buffer, terminator included, keeps its length, and what was
  beyond the new terminator stays.
\<close>

definition strip_ctcp_codes :: "string \<Rightarrow> string" where
  "strip_ctcp_codes line =
     (let out = filter (\<lambda>c. c \<noteq> CHR 0x01) line @ [NUL] in out @ drop (length out) (line @ [NUL]))"

datatype ctcp_cmd = CTCP_VERSION | CTCP_FINGER | CTCP_ACTION | CTCP_DCC | CTCP_TIME | CTCP_PING

definition ctcp_cmds :: "(string \<times> ctcp_cmd) list" where
  "ctcp_cmds = [(''VERSION'', CTCP_VERSION), (''FINGER'', CTCP_FINGER), (''ACTION'', CTCP_ACTION), (''DCC'', CTCP_DCC),
     (''TIME'', CTCP_TIME), (''PING'', CTCP_PING)]"

text \<open>The first command the text starts with, and the buffer after it.\<close>

fun ctcp_find :: "(string \<times> ctcp_cmd) list \<Rightarrow> string \<Rightarrow> (string \<times> ctcp_cmd) option" where
  "ctcp_find [] buf = None"
| "ctcp_find ((name, k) # cmds) buf =
     (if ircstrncasecmp (Some name) (Some (c_str buf)) (length name) = 0 then Some (name, k) else ctcp_find cmds buf)"

fun req_handler :: "config \<Rightarrow> hooks \<Rightarrow> ctcp_cmd \<Rightarrow> call \<Rightarrow> addr \<Rightarrow> string \<Rightarrow> services \<Rightarrow> services option" where
  "req_handler C H CTCP_VERSION p target buf s = to_module EVENT_CTCPVERSIONREQ p target (c_str buf) s"
| "req_handler C H CTCP_FINGER p target buf s = to_module EVENT_CTCPFINGERREQ p target (c_str buf) s"
| "req_handler C H CTCP_ACTION p target buf s = to_module EVENT_CTCPACTIONREQ p target (c_str buf) s"
| "req_handler C H CTCP_DCC p target buf s = dcc_req C H p target buf s"
| "req_handler C H CTCP_TIME p target buf s = to_module EVENT_CTCPTIMEREQ p target (c_str buf) s"
| "req_handler C H CTCP_PING p target buf s = to_module EVENT_CTCPPINGREQ p target (c_str buf) s"

definition ctcp_rpl_version :: "call \<Rightarrow> addr \<Rightarrow> string \<Rightarrow> services \<Rightarrow> services option" where
  "ctcp_rpl_version p target param s = do {
     s \<leftarrow> to_module EVENT_CTCPVERSIONRPL p target param (to_all EVENT_CTCPVERSIONRPLBC p target param s);
     n \<leftarrow> SetUserVersion (ca_source p) param (s_net s);
     Some (s\<lparr>s_net := n\<rparr>)
   }"

text \<open>There is no function for the reply to ACTION, and the one for DCC does nothing.\<close>

fun rpl_handler :: "ctcp_cmd \<Rightarrow> call \<Rightarrow> addr \<Rightarrow> string \<Rightarrow> services \<Rightarrow> services option" where
  "rpl_handler CTCP_VERSION p target buf s = ctcp_rpl_version p target (c_str buf) s"
| "rpl_handler CTCP_FINGER p target buf s =
     to_module EVENT_CTCPFINGERRPL p target (c_str buf) (to_all EVENT_CTCPFINGERRPLBC p target (c_str buf) s)"
| "rpl_handler CTCP_ACTION p target buf s = Some s"
| "rpl_handler CTCP_DCC p target buf s = Some s"
| "rpl_handler CTCP_TIME p target buf s =
     to_module EVENT_CTCPTIMERPL p target (c_str buf) (to_all EVENT_CTCPTIMERPLBC p target (c_str buf) s)"
| "rpl_handler CTCP_PING p target buf s =
     to_module EVENT_CTCPPINGRPL p target (c_str buf) (to_all EVENT_CTCPPINGRPLBC p target (c_str buf) s)"

text \<open>
  \<open>run\<close> runs the function of a command on the buffer after the word; \<open>unhandled\<close> is the event for a message
  that starts with no command, or without the control character.
\<close>

definition ctcp_dispatch :: "(ctcp_cmd \<Rightarrow> string \<Rightarrow> services \<Rightarrow> services option) \<Rightarrow> event_kind \<Rightarrow> call \<Rightarrow> addr \<Rightarrow> string \<Rightarrow>
    services \<Rightarrow> services option" where
  "ctcp_dispatch run unhandled p target param s =
     (if at (param @ [NUL]) 0 \<noteq> CHR 0x01 then to_module unhandled p target param s
      else (let buf = strip_ctcp_codes param
            in case ctcp_find ctcp_cmds buf of
                 None \<Rightarrow> to_module unhandled p target (c_str buf) s
               | Some (name, k) \<Rightarrow> do { rest \<leftarrow> after_word buf (length name); run k rest s }))"

definition ctcp_private :: "config \<Rightarrow> hooks \<Rightarrow> call \<Rightarrow> addr \<Rightarrow> string \<Rightarrow> services \<Rightarrow> services option" where
  "ctcp_private C H p target param s =
     ctcp_dispatch (\<lambda>k buf. req_handler C H k p target buf) EVENT_CTCPUNHANDLEDREQ p target param s"

definition ctcp_notice :: "call \<Rightarrow> addr \<Rightarrow> string \<Rightarrow> services \<Rightarrow> services option" where
  "ctcp_notice p target param s = ctcp_dispatch (\<lambda>k buf. rpl_handler k p target buf) EVENT_CTCPUNHANDLEDRPL p target param s"

text \<open>Both ignore a message to a channel.\<close>

definition ctcp_cprivate :: "services \<Rightarrow> int \<times> services" where "ctcp_cprivate s = (NS_SUCCESS, s)"
definition ctcp_cnotice :: "services \<Rightarrow> int \<times> services" where "ctcp_cnotice s = (NS_SUCCESS, s)"

end
