(* ===== verification/BotMsg.thy ===== *)
theory BotMsg
  imports Ctcp
begin

text \<open>
  \<^verbatim>\<open>src/bots.c\<close>: messages that reach a bot by its nick, and the search for a free nick when a bot is made.
\<close>

section \<open>Messages\<close>

text \<open>The origin is a user who does not flood, or a server. The address is \<open>cmdparams->source\<close>.\<close>

definition is_valid_origin :: "config \<Rightarrow> env \<Rightarrow> string \<Rightarrow> net \<Rightarrow> (bool \<times> addr \<times> net) option" where
  "is_valid_origin C E origin n = do {
     u \<leftarrow> FindUser n origin;
     if u \<noteq> 0 then do { (fl, n) \<leftarrow> is_flood C E u n; Some (\<not> fl, u, n) }
     else do { sv \<leftarrow> FindServer n origin; Some (sv \<noteq> 0, sv, n) }
   }"

text \<open>The user and the bot it is, 0 for none.\<close>

definition is_valid_target :: "string \<Rightarrow> net \<Rightarrow> (addr \<times> addr) option" where
  "is_valid_target target n = do {
     u \<leftarrow> FindUser n target;
     if u = 0 then Some (0, 0) else do { r \<leftarrow> user_of n u; Some (u, u_bot r) }
   }"

definition IS_CTCP_MSG :: "string \<Rightarrow> bool" where
  "IS_CTCP_MSG msg \<longleftrightarrow> at (msg @ [NUL]) 0 = CHR 0x01"

definition call_of :: "addr \<Rightarrow> addr \<Rightarrow> string \<Rightarrow> call" where
  "call_of source b param = \<lparr>ca_source = source, ca_bot = b, ca_channel = 0, ca_param = param, ca_cmd = None, ca_av = []\<rparr>"

text \<open>What \<open>bot_notice\<close> and \<open>bot_private\<close> share: the message is for a bot and comes from someone allowed to send one.\<close>

definition to_bot :: "config \<Rightarrow> env \<Rightarrow> string \<Rightarrow> string list \<Rightarrow> (call \<Rightarrow> addr \<Rightarrow> services \<Rightarrow> services option) \<Rightarrow> services \<Rightarrow> services option" where
  "to_bot C E origin av act s = do {
     (valid, source, n) \<leftarrow> is_valid_origin C E origin (s_net s);
     let s = s\<lparr>s_net := n\<rparr>;
     if \<not> valid then Some s
     else (case av of
        [] \<Rightarrow> None
      | target # _ \<Rightarrow> do {
          (u, b) \<leftarrow> is_valid_target target n;
          if b = 0 then Some s else act (call_of source b (last av)) u s })
   }"

definition bot_notice :: "config \<Rightarrow> env \<Rightarrow> string \<Rightarrow> string list \<Rightarrow> services \<Rightarrow> services option" where
  "bot_notice C E origin av s =
     to_bot C E origin av (\<lambda>p target s.
       if IS_CTCP_MSG (ca_param p) then ctcp_notice p target (ca_param p) s
       else to_module EVENT_NOTICE p target (ca_param p) s) s"

definition bot_private :: "config \<Rightarrow> hooks \<Rightarrow> env \<Rightarrow> string \<Rightarrow> string list \<Rightarrow> services \<Rightarrow> services option" where
  "bot_private C H E origin av s =
     to_bot C E origin av (\<lambda>p target s.
       if IS_CTCP_MSG (ca_param p) then ctcp_private C H p target (ca_param p) s
       else do {
         (r, s) \<leftarrow> run_bot_cmd C H False p s;
         if r = NS_FAILURE then to_module EVENT_PRIVATE p target (ca_param p) s else Some s }) s"

section \<open>A free nick\<close>

text \<open>The nick and its alternative in \<^verbatim>\<open>BotInfo\<close>. \<open>rnd i\<close> is what the \<open>i\<close>-th call of \<^verbatim>\<open>rand\<close> returns.\<close>

definition NICK_TRIES :: nat where "NICK_TRIES = 5"

text \<open>The characters that still fit are appended to the stub; \<open>k\<close> counts the calls of \<^verbatim>\<open>rand\<close>.\<close>

fun add_chars :: "(nat \<Rightarrow> nat) \<Rightarrow> nat \<Rightarrow> nat \<Rightarrow> nat \<Rightarrow> nat \<Rightarrow> string \<Rightarrow> string \<times> nat" where
  "add_chars rnd m base 0 k buf = (buf, k)"
| "add_chars rnd m base (Suc i) k buf =
     (if length buf + 1 < MAXNICK then add_chars rnd m base i (k + 1) (buf @ [char_of (rnd k mod m + base)])
      else add_chars rnd m base i k buf)"

definition GenerateBotNick :: "(nat \<Rightarrow> nat) \<Rightarrow> net \<Rightarrow> string \<Rightarrow> nat \<Rightarrow> nat \<Rightarrow> nat \<Rightarrow> (int \<times> string \<times> nat) option" where
  "GenerateBotNick rnd n stub alphacount numcount k = (
     let (buf, k) = add_chars rnd 26 97 alphacount k stub;
         (buf, k) = add_chars rnd 10 48 numcount k buf
     in do { u \<leftarrow> FindUser n buf; Some (if u \<noteq> 0 then NS_FAILURE else NS_SUCCESS, buf, k) })"

text \<open>Every round starts again at the end of the stub, with one letter and one digit more than the round before.\<close>

fun nick_rounds :: "(nat \<Rightarrow> nat) \<Rightarrow> net \<Rightarrow> string \<Rightarrow> nat list \<Rightarrow> nat \<Rightarrow> (string option \<times> nat) option" where
  "nick_rounds rnd n stub [] k = Some (None, k)"
| "nick_rounds rnd n stub (i # is) k = do {
     (r, buf, k) \<leftarrow> GenerateBotNick rnd n stub (i + 1) (i + 1) k;
     if r = NS_SUCCESS then Some (Some buf, k) else nick_rounds rnd n stub is k
   }"

definition GetBotNick :: "(nat \<Rightarrow> nat) \<Rightarrow> net \<Rightarrow> string \<Rightarrow> string \<Rightarrow> nat \<Rightarrow> string option option" where
  "GetBotNick rnd n nick altnick k = do {
     u \<leftarrow> FindUser n (strlcpy_str MAXNICK nick);
     if u = 0 then Some (Some (strlcpy_str MAXNICK nick))
     else do {
       v \<leftarrow> (if altnick \<noteq> '''' then FindUser n (strlcpy_str MAXNICK altnick) else Some 1);
       if v = 0 then Some (Some (strlcpy_str MAXNICK altnick))
       else do {
         (r, k) \<leftarrow> nick_rounds rnd n (strlcpy_str MAXNICK nick) [0..<NICK_TRIES] k;
         if r \<noteq> None then Some r
         else if altnick \<noteq> ''''
         then map_option fst (nick_rounds rnd n (strlcpy_str MAXNICK altnick) [0..<NICK_TRIES] k)
         else Some None } }
   }"

text \<open>The record and the table entry of a new bot; the module that runs owns it. The user comes later.\<close>

definition new_bot :: "addr \<Rightarrow> string \<Rightarrow> services \<Rightarrow> (addr \<times> services) option" where
  "new_bot m bot_name s =
     (if hash_isfull (bothash (s_net s)) then Some (0, s)
      else do {
        let (a, n) = alloc (s_net s);
        let name = strlcpy_str MAXNICK bot_name;
        let (node, n) = alloc (n\<lparr>bots := (bots n)(a \<mapsto> \<lparr>b_name = name, b_flags = 0, b_u = 0, b_module = m\<rparr>)\<rparr>);
        t \<leftarrow> hnode_create_insert node (bothash n) a name;
        Some (a, s\<lparr>s_net := n\<lparr>bothash := t\<rparr>, s_bot := (s_bot s)(a \<mapsto>
          \<lparr>bs_botcmds = None, bs_botsettings = None, bs_set_ulevel = NS_ULEVEL_ROOT, bs_authcb = None\<rparr>)\<rparr>) })"

definition FiniBots :: "net \<Rightarrow> unit option" where
  "FiniBots n = hash_destroy (bothash n)"

end
