(* ===== verification/BotChan.thy ===== *)
theory BotChan
  imports BotMsg
begin

text \<open>
  \<^verbatim>\<open>src/bots.c\<close>: messages to a channel. Every bot on the channel that is not deaf gets them, as a command when
  they start with the command character and as an event otherwise. A command may do anything, to
  the tables and lists the walk is on as well: a node that is gone is \<open>None\<close>, and a walk that never ends is
  \<open>None\<close> too.
\<close>

section \<open>One bot\<close>

definition is_valid_target_chan :: "string \<Rightarrow> net \<Rightarrow> addr option" where
  "is_valid_target_chan target n = FindChannel n target"

text \<open>The text after the command character; a message without a character has none.\<close>

definition skip_cmdchar :: "string \<Rightarrow> string option" where
  "skip_cmdchar param = (case param of [] \<Rightarrow> None | _ # cs \<Rightarrow> Some cs)"

text \<open>The bot hears the message: as a command if it is one and the bot has commands, otherwise as an event.\<close>

definition hear :: "config \<Rightarrow> hooks \<Rightarrow> event_kind \<Rightarrow> bool \<Rightarrow> call \<Rightarrow> services \<Rightarrow> services option" where
  "hear C H event cmdflag p s = do {
     (handled, s) \<leftarrow>
       (if cmdflag
        then do {
          text \<leftarrow> skip_cmdchar (ca_param p);
          (r, s) \<leftarrow> run_bot_cmd C H True (p\<lparr>ca_param := text\<rparr>) s;
          if r \<noteq> NS_SUCCESS then Some (False, s)
          else do { x \<leftarrow> s_bot s (ca_bot p); Some (bs_botcmds x \<noteq> None, s) } }
        else Some (False, s));
     if handled then Some s else to_module event p 0 (ca_param p) s
   }"

text \<open>The node after the one with the name; \<open>None\<close> when that one has left the list.\<close>

definition next_chan :: "string list \<Rightarrow> string \<Rightarrow> string option option" where
  "next_chan cs chan = (case dropWhile (\<lambda>x. x \<noteq> chan) cs of [] \<Rightarrow> None | _ # rest \<Rightarrow> Some (case rest of [] \<Rightarrow> None | x # _ \<Rightarrow> Some x))"

definition bot_user :: "addr \<Rightarrow> services \<Rightarrow> user option" where
  "bot_user b s = do { bt \<leftarrow> bots (s_net s) b; user_of (s_net s) (b_u bt) }"

text \<open>The walk over the channels of the bot, from the channel \<open>chan\<close> on.\<close>

partial_function (option) chan_walk :: "config \<Rightarrow> hooks \<Rightarrow> event_kind \<Rightarrow> bool \<Rightarrow> call \<Rightarrow> string \<Rightarrow> services \<Rightarrow> services option" where
  "chan_walk C H event cmdflag p chan s = do {
     ch \<leftarrow> channels (s_net s) (ca_channel p);
     s \<leftarrow> (if irc_eq (ch_name ch) chan then hear C H event cmdflag p s else Some s);
     u \<leftarrow> bot_user (ca_bot p) s;
     nxt \<leftarrow> next_chan (u_chans u) chan;
     case nxt of None \<Rightarrow> Some s | Some chan \<Rightarrow> chan_walk C H event cmdflag p chan s
   }"

definition bot_hears :: "config \<Rightarrow> hooks \<Rightarrow> event_kind \<Rightarrow> bool \<Rightarrow> call \<Rightarrow> services \<Rightarrow> services option" where
  "bot_hears C H event cmdflag p s = do {
     bt \<leftarrow> bots (s_net s) (ca_bot p);
     if has (b_flags bt) BOT_FLAG_DEAF then Some s
     else do {
       ch \<leftarrow> channels (s_net s) (ca_channel p);
       if IsServicesChannel ch then Some s
       else do {
         u \<leftarrow> bot_user (ca_bot p) s;
         case u_chans u of [] \<Rightarrow> Some s | chan # _ \<Rightarrow> chan_walk C H event cmdflag p chan s } }
   }"

section \<open>All bots\<close>

text \<open>The walk over the table of bots, which the step may change.\<close>

partial_function (option) each_bot :: "(addr \<Rightarrow> services \<Rightarrow> services option) \<Rightarrow> hscan_t \<Rightarrow> services \<Rightarrow> services option" where
  "each_bot step scan s = do {
     (r, scan) \<leftarrow> hash_scan_next (bothash (s_net s)) scan;
     case r of None \<Rightarrow> Some s | Some nd \<Rightarrow> do { s \<leftarrow> step (hnode_get nd) s; each_bot step scan s }
   }"

definition bot_chan_event :: "config \<Rightarrow> hooks \<Rightarrow> event_kind \<Rightarrow> call \<Rightarrow> services \<Rightarrow> services option" where
  "bot_chan_event C H event p s =
     (let cmdflag = (at (ca_param p @ [NUL]) 0 = nc_cmdchar C)
      in each_bot (\<lambda>b. bot_hears C H event cmdflag (p\<lparr>ca_bot := b\<rparr>)) (hash_scan_begin 0 (bothash (s_net s))) s)"

text \<open>What \<open>bot_chan_notice\<close> and \<open>bot_chan_private\<close> share.\<close>

definition to_chan :: "config \<Rightarrow> env \<Rightarrow> string \<Rightarrow> string list \<Rightarrow> (call \<Rightarrow> services \<Rightarrow> services option) \<Rightarrow> services \<Rightarrow> services option" where
  "to_chan C E origin av act s = do {
     (valid, source, n) \<leftarrow> is_valid_origin C E origin (s_net s);
     let s = s\<lparr>s_net := n\<rparr>;
     if \<not> valid then Some s
     else (case av of
        [] \<Rightarrow> None
      | target # _ \<Rightarrow> do {
          c \<leftarrow> is_valid_target_chan target n;
          if c = 0 then Some s else act ((call_of source 0 (last av))\<lparr>ca_channel := c\<rparr>) s })
   }"

definition bot_chan_notice :: "config \<Rightarrow> hooks \<Rightarrow> env \<Rightarrow> string \<Rightarrow> string list \<Rightarrow> services \<Rightarrow> services option" where
  "bot_chan_notice C H E origin av s =
     to_chan C E origin av (\<lambda>p s.
       if IS_CTCP_MSG (ca_param p) then Some (snd (ctcp_cnotice s)) else bot_chan_event C H EVENT_CNOTICE p s) s"

definition bot_chan_private :: "config \<Rightarrow> hooks \<Rightarrow> env \<Rightarrow> string \<Rightarrow> string list \<Rightarrow> services \<Rightarrow> services option" where
  "bot_chan_private C H E origin av s =
     to_chan C E origin av (\<lambda>p s.
       if IS_CTCP_MSG (ca_param p) then Some (snd (ctcp_cprivate s)) else bot_chan_event C H EVENT_CPRIVATE p s) s"

end
