(* ===== verification/ServicesProps.thy ===== *)
theory ServicesProps
  imports BotMsg NetProps
begin

text \<open>
  Who may do what with the services: the level of a user and its cache, the flood limit, the guards of commands,
  settings and levels, and what survives a restart.
\<close>

section \<open>Levels\<close>

declare bind_eq_Some_conv [simp]

lemma user_ofI: "clients n a = Some c \<Longrightarrow> c_user c = Some r \<Longrightarrow> user_of n a = Some r"
  by (simp add: user_of_def)

lemma user_of_upd: "upd_user a f n = Some n' \<Longrightarrow> user_of n' a = map_option f (user_of n a)"
  by (auto simp: upd_user_def upd_client_def user_of_def)

lemma upd_user_total: "user_of n a = Some r \<Longrightarrow> \<exists>n'. upd_user a f n = Some n'"
  by (auto simp: upd_user_def upd_client_def user_of_def)

text \<open>A level that is in the record is the level.\<close>

lemma UserLevel_cached: "user_of n a = Some r \<Longrightarrow> u_ulevel r \<noteq> -1 \<Longrightarrow> UserLevel C a n = Some (u_ulevel r, n)"
  by (auto simp: UserLevel_def user_of_def)

lemma fold_auth_ge: "fold (ModuleAuthHandler c) ms l \<ge> l"
proof (induction ms arbitrary: l)
  case (Cons m ms)
  have "l \<le> ModuleAuthHandler c m l" by (auto simp: ModuleAuthHandler_def split: option.split)
  with Cons [of "ModuleAuthHandler c m l"] show ?case by simp
qed simp

lemma fold_auth_less:
  assumes "\<forall>m\<in>set ms. \<forall>f. am_auth m \<longrightarrow> am_userauth m = Some f \<longrightarrow> f c < k" "l < k"
  shows "fold (ModuleAuthHandler c) ms l < k"
  using assms
proof (induction ms arbitrary: l)
  case (Cons m ms)
  have "ModuleAuthHandler c m l < k" using Cons.prems by (auto simp: ModuleAuthHandler_def split: option.split)
  with Cons show ?case by simp
qed simp

lemma AuthUser_ge: "AuthUser C c r = Some l \<Longrightarrow> 0 \<le> l"
  using fold_auth_ge [of 0 c "nc_modules C"] by (auto simp: AuthUser_def NS_ULEVEL_ROOT_def split: if_splits)

lemma UserLevelE:
  assumes "UserLevel C a n = Some (l, n')"
  obtains r where "user_of n a = Some r" "u_ulevel r = l" "n' = n" "l \<noteq> -1"
  | c r where "clients n a = Some c" "c_user c = Some r" "u_ulevel r = -1" "AuthUser C c r = Some l"
      "upd_user a (\<lambda>r. r\<lparr>u_ulevel := l\<rparr>) n = Some n'" "0 \<le> l"
  using assms by (auto simp: UserLevel_def user_of_def split: if_splits dest: AuthUser_ge)

text \<open>Asking again changes nothing, and the level is all that asking may change.\<close>

lemma UserLevel_again:
  assumes "UserLevel C a n = Some (l, n')"
  shows "UserLevel C' a n' = Some (l, n')"
  using assms
proof (rule UserLevelE)
  fix c r assume u: "clients n a = Some c" "c_user c = Some r" "upd_user a (\<lambda>r. r\<lparr>u_ulevel := l\<rparr>) n = Some n'" "0 \<le> l"
  then have "user_of n' a = Some (r\<lparr>u_ulevel := l\<rparr>)" using user_of_upd [OF u(3)] user_ofI [OF u(1,2)] by simp
  from UserLevel_cached [OF this, of C'] u(4) show ?thesis by simp
qed (auto dest: UserLevel_cached)

lemma UserLevel_core: "UserLevel C a n = Some (l, n') \<Longrightarrow> core n' = core n"
  by (erule UserLevelE) (auto elim!: core_upd_user)

text \<open>C13. Nobody gets a level without a reason: when the level of a user has to be worked out, and the masks of the service root
  do not match the user, then the user's level stays below any level that no authentication module grants the user.\<close>

theorem level_needs_a_grant:
  assumes "UserLevel C a n = Some (l, n')" and "clients n a = Some c" "c_user c = Some r" "u_ulevel r = -1"
    and "IsServiceRoot C c r = Some False" and "0 < k"
    and "\<forall>m\<in>set (nc_modules C). \<forall>f. am_auth m \<longrightarrow> am_userauth m = Some f \<longrightarrow> f c < k"
  shows "l < k \<and> UserLevel C' a n' = Some (l, n')"
proof
  have "AuthUser C c r = Some l" using assms(1-4) by (auto simp: UserLevel_def)
  then show "l < k" using fold_auth_less [OF assms(7,6)] assms(5) by (auto simp: AuthUser_def)
  show "UserLevel C' a n' = Some (l, n')" using assms(1) by (rule UserLevel_again)
qed

section \<open>Nick changes\<close>

definition level_of :: "net \<Rightarrow> addr \<Rightarrow> int option" where
  "level_of n a = map_option u_ulevel (user_of n a)"

lemma level_of_tables [simp]:
  "level_of (n\<lparr>userhash := t\<rparr>) a = level_of n a" "level_of (n\<lparr>bothash := t\<rparr>) a = level_of n a"
  "level_of (n\<lparr>bots := bs\<rparr>) a = level_of n a" "level_of (emit x n) a = level_of n a"
  by (simp_all add: level_of_def user_of_def emit_def)

lemma level_of_upd_client:
  assumes "upd_client b f n = Some n'" "\<And>c. map_option u_ulevel (c_user (f c)) = map_option u_ulevel (c_user c)"
  shows "level_of n' a = level_of n a"
proof -
  obtain c where "clients n b = Some c" "n' = n\<lparr>clients := (clients n)(b \<mapsto> f c)\<rparr>" using assms(1) by (auto simp: upd_client_def)
  then show ?thesis using assms(2) [of c] by (auto simp: level_of_def user_of_def)
qed

lemma level_of_flags: "upd_client b (\<lambda>c. c\<lparr>c_flags := g c\<rparr>) n = Some n' \<Longrightarrow> level_of n' a = level_of n a"
  by (erule level_of_upd_client) simp

lemma level_of_rename: "upd_client b (rename_user E nick ts) n = Some n' \<Longrightarrow> level_of n' a = level_of n a"
  by (erule level_of_upd_client) (simp add: rename_user_def option.map_comp comp_def)

lemma level_of_exclude: "ns_do_exclude_user u n = Some n' \<Longrightarrow> level_of n' a = level_of n a"
  by (auto simp: ns_do_exclude_user_def split: if_splits dest!: level_of_flags [where a = a])

lemma level_of_BotNickChange: "BotNickChange b nick n = Some (r, n') \<Longrightarrow> level_of n' a = level_of n a"
  by (auto simp: BotNickChange_def Let_def split: option.splits)

lemma level_of_nick: "UserNickChange E oldnick newnick ts n = Some n' \<Longrightarrow> level_of n' a = level_of n a"
  by (auto simp: UserNickChange_def Let_def SendAllModuleEvent_def split: option.splits if_splits
    dest!: level_of_rename [where a = a] level_of_exclude [where a = a] level_of_BotNickChange [where a = a])

lemma UserLevel_level_of: "UserLevel C a n = Some (l, n') \<Longrightarrow> level_of n' a = Some l \<and> l \<noteq> -1"
  by (erule UserLevelE) (auto simp: level_of_def dest!: user_of_upd user_ofI)

text \<open>C17. The level outlives the reason for it: once the level of a user is worked out, a change of nick keeps it, although the
  masks of the service root and the modules look at the nick.\<close>

theorem nick_change_keeps_level:
  assumes "UserLevel C a n = Some (l, n1)" "UserNickChange E oldnick newnick ts n1 = Some n2"
  shows "UserLevel C' a n2 = Some (l, n2)"
proof -
  have "level_of n1 a = Some l" "l \<noteq> -1" using UserLevel_level_of [OF assms(1)] by simp_all
  then have "level_of n2 a = Some l" using level_of_nick [OF assms(2), of a] by simp
  then obtain r where "user_of n2 a = Some r" "u_ulevel r = l" by (auto simp: level_of_def)
  then show ?thesis using UserLevel_cached [of n2 a r C'] \<open>l \<noteq> -1\<close> by simp
qed

section \<open>Floods\<close>

text \<open>The check for one message after the other, each with its own clock.\<close>

fun floods :: "config \<Rightarrow> env list \<Rightarrow> addr \<Rightarrow> net \<Rightarrow> (bool list \<times> net) option" where
  "floods C [] a n = Some ([], n)"
| "floods C (E # Es) a n = do { (f, n) \<leftarrow> is_flood C E a n; (fs, n) \<leftarrow> floods C Es a n; Some (f # fs, n) }"

lemma floods_append:
  "floods C (Es @ Fs) a n = do { (xs, n) \<leftarrow> floods C Es a n; (ys, n) \<leftarrow> floods C Fs a n; Some (xs @ ys, n) }"
proof (induction Es arbitrary: n)
  case (Cons E Es)
  show ?case by (cases "is_flood C E a n") (auto simp: Cons split: option.split Option.bind_splits)
qed (simp split: Option.bind_split)

text \<open>A user who may send more, in the record: the level is known and low.\<close>

definition limited :: "net \<Rightarrow> addr \<Rightarrow> user \<Rightarrow> bool" where
  "limited n a r \<longleftrightarrow> user_of n a = Some r \<and> u_ulevel r \<noteq> -1 \<and> u_ulevel r < NS_ULEVEL_OPER"

lemma limited_upd:
  assumes "limited n a r" "u_ulevel (f r) = u_ulevel r"
  obtains n' where "upd_user a f n = Some n'" "limited n' a (f r)" "trace n' = trace n"
    "map_option c_name (clients n' a) = map_option c_name (clients n a)"
  using assms by (auto simp: limited_def upd_user_def upd_client_def user_of_def)

lemma is_flood_limited:
  assumes "limited n a r"
  shows "is_flood C E a n =
    (if me_now E - u_tslastmsg r > nc_msgsampletime C
     then do { n \<leftarrow> upd_user a (\<lambda>r. r\<lparr>u_tslastmsg := me_now E, u_flood := 0\<rparr>) n; Some (False, n) }
     else if u_flood r \<ge> nc_msgthreshold C then do { (_, n) \<leftarrow> irc_svskill C E a n; Some (True, n) }
     else do { n \<leftarrow> upd_user a (\<lambda>r. r\<lparr>u_flood := u_flood r + 1\<rparr>) n; Some (False, n) })"
  using assms UserLevel_cached [of n a r C] by (simp add: is_flood_def limited_def)

lemma floods_pass:
  assumes "limited n a r" "\<forall>E\<in>set Es. me_now E - u_tslastmsg r \<le> nc_msgsampletime C"
    and "unat (u_flood r) + length Es \<le> unat (nc_msgthreshold C)"
  shows "\<exists>n' r'. floods C Es a n = Some (replicate (length Es) False, n') \<and> limited n' a r' \<and> trace n' = trace n \<and>
    map_option c_name (clients n' a) = map_option c_name (clients n a) \<and> u_tslastmsg r' = u_tslastmsg r \<and> unat (u_flood r') = unat (u_flood r) + length Es"
  using assms
proof (induction Es arbitrary: n r)
  case (Cons E Es)
  have below: "u_flood r < nc_msgthreshold C" using Cons.prems(3) by (simp add: word_less_nat_alt)
  then have inc: "unat (u_flood r + 1) = unat (u_flood r) + 1"
    using unsigned_less [of "nc_msgthreshold C", where ?'a = nat] by (simp add: unat_word_ariths word_less_nat_alt)
  obtain n1 where n1: "upd_user a (\<lambda>r. r\<lparr>u_flood := u_flood r + 1\<rparr>) n = Some n1" "limited n1 a (r\<lparr>u_flood := u_flood r + 1\<rparr>)"
      "trace n1 = trace n" "map_option c_name (clients n1 a) = map_option c_name (clients n a)"
    using limited_upd [OF Cons.prems(1), of "\<lambda>r. r\<lparr>u_flood := u_flood r + 1\<rparr>"] by auto
  have "is_flood C E a n = Some (False, n1)"
    using is_flood_limited [OF Cons.prems(1), of C E] below Cons.prems(2) n1(1) by simp
  moreover from Cons.IH [OF n1(2)] Cons.prems(2,3) inc n1(3,4) obtain n' r' where
    "floods C Es a n1 = Some (replicate (length Es) False, n')" "limited n' a r'" "trace n' = trace n"
    "map_option c_name (clients n' a) = map_option c_name (clients n a)"
    "u_tslastmsg r' = u_tslastmsg r" "unat (u_flood r') = unat (u_flood r) + length (E # Es)" by auto
  ultimately show ?case by auto
qed auto

text \<open>C14. The flood limit: a user whose level is known and below that of an operator (local operators are limited too, which the
  comment in the code denies) gets, after a pause longer than the sample time, one message and then exactly as many as
  the threshold through while the sample time lasts; the next one within it is dropped. On an IRC server that has
  the line SVSKILL it then sends exactly one line, which kills this user by the nick of the client.\<close>

theorem flood_limit:
  assumes "clients n a = Some cl" "c_user cl = Some r" "u_ulevel r \<noteq> -1" "u_ulevel r < NS_ULEVEL_OPER" "can_svskill C"
    and "me_now E0 - u_tslastmsg r > nc_msgsampletime C" "length Es = unat (nc_msgthreshold C)"
    and "\<forall>E\<in>set (Es @ [E1]). me_now E - me_now E0 \<le> nc_msgsampletime C"
  shows "\<exists>n'. floods C (E0 # Es @ [E1]) a n = Some (replicate (length Es + 1) False @ [True], n') \<and>
    trace n' = trace n @ [Send ''SVSKILL'' [me_name E1, c_name cl,
      strlcpy_str BUFSIZE (me_name E1 @ ''!'' @ ns_bot_name C @ '' (Flooding Services)'')]]"
proof -
  let ?f = "\<lambda>r. r\<lparr>u_tslastmsg := me_now E0, u_flood := 0\<rparr>"
  have r: "limited n a r" using assms(1-4) by (simp add: limited_def user_of_def)
  obtain n1 where n1: "upd_user a ?f n = Some n1" "limited n1 a (?f r)" "trace n1 = trace n"
      "map_option c_name (clients n1 a) = map_option c_name (clients n a)"
    using limited_upd [OF r, of ?f] by auto
  have first: "is_flood C E0 a n = Some (False, n1)" using is_flood_limited [OF r, of C E0] assms(6) n1(1) by simp
  obtain n2 r2 where n2: "floods C Es a n1 = Some (replicate (length Es) False, n2)" "limited n2 a r2" "trace n2 = trace n"
      "map_option c_name (clients n2 a) = map_option c_name (clients n a)" "u_tslastmsg r2 = me_now E0" "unat (u_flood r2) = length Es"
    using floods_pass [OF n1(2), of Es C] assms(7,8) n1(3,4) by auto
  obtain c where c: "clients n2 a = Some c" "c_name c = c_name cl" using n2(2,4) assms(1) by (auto simp: limited_def user_of_def)
  have full: "nc_msgthreshold C \<le> u_flood r2" using n2(6) assms(7) by (simp add: word_le_nat_alt)
  show ?thesis
    using first n2 c full assms(5,8) is_flood_limited [OF n2(2), of C E1]
    by (auto simp: floods_append irc_svskill_def emit_def replicate_append_same)
qed

section \<open>The guards of commands\<close>

lemma split_call_who [simp]: "split_call p = Some q \<Longrightarrow> ca_source q = ca_source p \<and> ca_bot q = ca_bot p \<and> ca_channel q = ca_channel p"
proof -
  assume "split_call p = Some q"
  then obtain av where "q = (case av of [] \<Rightarrow> p\<lparr>ca_cmd := None, ca_av := []\<rparr> | cmd # rest \<Rightarrow> p\<lparr>ca_cmd := Some cmd, ca_av := rest\<rparr>)"
    by (auto simp: split_call_def)
  then show ?thesis by (cases av) simp_all
qed

lemma getuserlevel_cong:
  assumes "ca_source q = ca_source p" "ca_bot q = ca_bot p"
  shows "getuserlevel C q s = getuserlevel C p s"
  unfolding getuserlevel_def assms ..

text \<open>Asking for the level may store it in the user record, and nothing else; asking again gives the same.\<close>

lemma bots_upd_user: "upd_user a f n = Some n' \<Longrightarrow> bots n' = bots n"
  by (auto simp: upd_user_def upd_client_def)

lemma UserLevel_frame: "UserLevel C a n = Some (l, n') \<Longrightarrow> core n' = core n \<and> bots n' = bots n"
  by (frule UserLevel_core, erule UserLevelE) (auto dest: bots_upd_user)

lemma getuserlevelE:
  assumes "getuserlevel C p s = Some (l, s1)"
  obtains n1 where "s1 = s\<lparr>s_net := n1\<rparr>" "core n1 = core (s_net s)" "bots n1 = bots (s_net s)"
proof -
  obtain k n1 where "UserLevel C (ca_source p) (s_net s) = Some (k, n1)" "s1 = s\<lparr>s_net := n1\<rparr>"
    using assms by (auto simp: getuserlevel_def on_core_def split: if_splits)
  then show thesis using that UserLevel_frame by blast
qed

lemma getuserlevel_again:
  assumes "getuserlevel C p s = Some (l, s1)" "ca_source q = ca_source p" "ca_bot q = ca_bot p"
  shows "getuserlevel C q s1 = Some (l, s1)"
proof -
  obtain k n1 where k: "UserLevel C (ca_source p) (s_net s) = Some (k, n1)" "s1 = s\<lparr>s_net := n1\<rparr>"
    using assms(1) by (auto simp: getuserlevel_def on_core_def split: if_splits)
  have "UserLevel C (ca_source p) n1 = Some (k, n1)" using k(1) by (rule UserLevel_again)
  then show ?thesis using assms k by (auto simp: getuserlevel_def on_core_def split: if_splits)
qed

lemma hnode_find_obj: "table_ok b h \<Longrightarrow> hnode_find h k = Some (obj h k)"
  using obj_lookup [of b h k] by (auto simp: hnode_find_def hnode_get_def map_option_case split: option.split)

text \<open>Everything a bot offers asks for a higher level than \<open>l\<close>.\<close>

definition out_of_reach :: "hooks \<Rightarrow> services \<Rightarrow> bot_services \<Rightarrow> int \<Rightarrow> bool" where
  "out_of_reach H s x l \<longleftrightarrow> l < NS_ULEVEL_ROOT \<and> l < bs_set_ulevel x \<and>
     (\<forall>h. bs_botcmds x = Some h \<longrightarrow> (\<exists>k. table_ok k h) \<and>
       (\<forall>cmd a. obj h cmd = Some a \<longrightarrow> (\<exists>c m. s_cmd s a = Some c \<and> calc_cmd_ulevel H c = Some m \<and> l < m)))"

lemma run_listed_denied:
  assumes "s_cmd s a = Some c" "calc_cmd_ulevel H c = Some m" "l < m"
  shows "\<exists>ret. run_listed_cmd H ischancmd l a p s = Some (ret, s)"
  using assms by (auto simp: run_listed_cmd_def)

lemma bot_cmd_set_denied:
  assumes "getuserlevel C p s = Some (l, s)" "s_bot s (ca_bot p) = Some x" "l < bs_set_ulevel x"
  shows "\<exists>ret. bot_cmd_set C H m p s = Some (ret, s)"
  using assms by (auto simp: bot_cmd_set_def split: list.split)

lemma bot_cmd_levels_denied:
  assumes "getuserlevel C p s = Some (l, s)" "s_bot s (ca_bot p) = Some x" "l < NS_ULEVEL_ROOT"
  shows "\<exists>ret. bot_cmd_levels C m p s = Some (ret, s)"
  using assms by (auto simp: bot_cmd_levels_def split: list.split option.split)

lemma run_intrinsic_denied:
  assumes "getuserlevel C p s = Some (l, s)" "s_bot s (ca_bot p) = Some x" "bots (s_net s) (ca_bot p) = Some b"
    and "l < NS_ULEVEL_ROOT" "l < bs_set_ulevel x"
  shows "\<exists>ret. run_intrinsic_cmds C H cmd p s = Some (ret, s)"
  using bot_cmd_set_denied [OF assms(1,2,5), of H "b_module b"] bot_cmd_levels_denied [OF assms(1,2,4), of "b_module b"] assms(2,3)
  by (auto simp: run_intrinsic_cmds_def)

text \<open>C11. Authority: when every command of the table, SET and LEVELS ask for a higher level than the caller has, a message to the bot
  returns and changes nothing, whatever it says and whatever the functions of the modules do: only the caller's level
  may be noted in the caller's record.\<close>

theorem run_bot_cmd_powerless:
  assumes "split_call p = Some q" "getuserlevel C p s = Some (l, s1)"
    and "bots (s_net s) (ca_bot p) = Some b" "s_bot s (ca_bot p) = Some x" "out_of_reach H s x l"
  shows "\<exists>ret. run_bot_cmd C H ischancmd p s = Some (ret, s1) \<and> s1 = s\<lparr>s_net := s_net s1\<rparr> \<and> core (s_net s1) = core (s_net s)"
proof -
  obtain n1 where n1: "s1 = s\<lparr>s_net := n1\<rparr>" "core n1 = core (s_net s)" "bots n1 = bots (s_net s)"
    using assms(2) by (rule getuserlevelE)
  note q = split_call_who [OF assms(1)]
  have level: "getuserlevel C q s = Some (l, s1)" using assms(2) getuserlevel_cong [of q p] q by simp
  have again: "getuserlevel C q s1 = Some (l, s1)" using getuserlevel_again [OF assms(2)] q by simp
  have low: "l < NS_ULEVEL_ROOT" "l < bs_set_ulevel x" using assms(5) by (simp_all add: out_of_reach_def)
  have intrinsic: "\<exists>ret. run_intrinsic_cmds C H cmd q s1 = Some (ret, s1)" for cmd
    using run_intrinsic_denied [OF again _ _ low, of b] assms(3,4) n1 q by simp
  have "\<exists>ret. run_bot_cmd C H ischancmd p s = Some (ret, s1)"
  proof (cases "ca_cmd q = None \<or> only_opers C b l \<or> bs_botcmds x = None")
    case True
    then show ?thesis using assms(1,3,4) level n1 q by (auto simp: run_bot_cmd_def split: option.split)
  next
    case False
    then obtain cmd h where f: "ca_cmd q = Some cmd" "\<not> only_opers C b l" "bs_botcmds x = Some h" by auto
    obtain k where h: "table_ok k h" using assms(5) f(3) by (auto simp: out_of_reach_def)
    have "\<exists>ret. run_listed_cmd H ischancmd l a q s1 = Some (ret, s1)" if "obj h cmd = Some a" for a
      using run_listed_denied assms(5) f(3) that n1(1) by (fastforce simp: out_of_reach_def)
    then show ?thesis using assms(1,3,4) level n1 q f hnode_find_obj [OF h, of cmd] intrinsic [of cmd]
      by (cases "obj h cmd") (auto simp: run_bot_cmd_def)
  qed
  then show ?thesis using n1 by auto
qed

section \<open>Adding commands\<close>

text \<open>The name of a command that can be added: one with a function and a help text.\<close>

definition cmd_name :: "services \<Rightarrow> addr \<Rightarrow> string option" where
  "cmd_name s a = do {
     c \<leftarrow> s_cmd s a;
     name \<leftarrow> bc_cmd c;
     if bc_handler c \<noteq> None \<and> bc_helptext c then Some name else None }"

definition level_text :: "services \<Rightarrow> addr \<Rightarrow> bool" where
  "level_text s m \<longleftrightarrow> (\<exists>name t. s_conf s (m, confcmd name) = Some (StrVal t))"

lemma irc_key_refl [simp]: "irc_key k k"
  by (simp add: irc_key_def irc_eq_iff)

text \<open>The record of a command that has just been added: the level comes from the configuration if it has one.\<close>

definition added_cmd :: "services \<Rightarrow> addr \<Rightarrow> string \<Rightarrow> bot_cmd \<Rightarrow> bot_cmd" where
  "added_cmd s m name c =
     c\<lparr>bc_modptr := m, bc_ulevel := (case s_conf s (m, confcmd name) of Some (IntVal l) \<Rightarrow> l | _ \<Rightarrow> bc_ulevel c)\<rparr>"

lemma add_bot_cmd_adds:
  assumes "s_cmd s a = Some c" "cmd_name s a = Some name" "obj h name = None" "\<not> level_text s m"
    and "table_ok (next_addr (s_net s)) h" "0 < next_addr (s_net s)" "next_addr (s_net s) < 2 ^ 61"
  obtains h' where
    "add_bot_cmd m h a s = Some (NS_SUCCESS, h',
       s\<lparr>s_net := (s_net s)\<lparr>next_addr := next_addr (s_net s) + 1\<rparr>, s_cmd := (s_cmd s)(a \<mapsto> added_cmd s m name c)\<rparr>)"
    "table_ok (next_addr (s_net s) + 1) h'" "obj h' = (\<lambda>j. if irc_key name j then Some a else obj h j)"
proof -
  let ?n = "next_addr (s_net s)"
  obtain f where c: "bc_cmd c = Some name" "bc_handler c = Some f" "bc_helptext c"
    using assms(1,2) by (auto simp: cmd_name_def split: if_splits)
  obtain h' where h': "hnode_create_insert ?n h a name = Some h'" "table_ok (?n + 1) h'"
      "obj h' = (\<lambda>j. if irc_key name j then Some a else obj h j)"
    using obj_put [OF assms(5,3), of ?n a] assms(6,7) by auto
  have none: "hash_lookup h name = Some None" using obj_lookup [OF assms(5), of name] assms(3) by auto
  have found: "hnode_find h' name = Some (Some a)" using hnode_find_obj [OF h'(2)] h'(3) by simp
  show thesis
  proof (rule that [OF _ h'(2,3)])
    show "add_bot_cmd m h a s = Some (NS_SUCCESS, h',
        s\<lparr>s_net := (s_net s)\<lparr>next_addr := ?n + 1\<rparr>, s_cmd := (s_cmd s)(a \<mapsto> added_cmd s m name c)\<rparr>)"
    proof (cases "s_conf s (m, confcmd name)")
      case None
      then show ?thesis using assms(1) c none h'(1)
        by (simp add: add_bot_cmd_def put_entry_def alloc_def upd_cmd_def stored_level_def added_cmd_def)
    next
      case (Some v)
      then obtain l where "v = IntVal l" using assms(4) by (cases v) (auto simp: level_text_def)
      then show ?thesis using assms(1) c none h'(1) found Some
        by (simp add: add_bot_cmd_def put_entry_def alloc_def upd_cmd_def stored_level_def added_cmd_def)
    qed
  qed
qed

lemma add_bot_cmd_skips:
  assumes "s_cmd s a \<noteq> None" "table_ok k h" "\<And>name. cmd_name s a = Some name \<Longrightarrow> obj h name \<noteq> None"
  shows "add_bot_cmd m h a s = Some (NS_FAILURE, h, s)"
proof -
  obtain c where c: "s_cmd s a = Some c" using assms(1) by blast
  show ?thesis
  proof (cases "bc_cmd c")
    case None
    then show ?thesis using c by (simp add: add_bot_cmd_def)
  next
    case (Some name)
    then have "obj h name \<noteq> None \<or> bc_handler c = None \<or> \<not> bc_helptext c" using assms(3) c by (auto simp: cmd_name_def)
    then show ?thesis using c Some obj_lookup [OF assms(2), of name] by (auto simp: add_bot_cmd_def)
  qed
qed

lemma cmd_name_added: "cmd_name (s\<lparr>s_net := n, s_cmd := (s_cmd s)(a \<mapsto> added_cmd s m name c)\<rparr>) x =
    (if x = a \<and> s_cmd s a = Some c then cmd_name s a else if x = a then cmd_name (s\<lparr>s_cmd := (s_cmd s)(a \<mapsto> c)\<rparr>) a else cmd_name s x)"
  by (simp add: cmd_name_def added_cmd_def)

text \<open>Every name leads to what it led to before, else to the first command of the list with that name that can be added.\<close>

abbreviation first_named :: "services \<Rightarrow> string \<Rightarrow> addr list \<Rightarrow> addr option" where
  "first_named s j as \<equiv> List.find (\<lambda>a. case cmd_name s a of None \<Rightarrow> False | Some name \<Rightarrow> irc_key name j) as"

text \<open>What adding does to the records of the commands and to the network.\<close>

definition only_added :: "addr \<Rightarrow> services \<Rightarrow> services \<Rightarrow> bool" where
  "only_added m s s' \<longleftrightarrow> s_net s' = (s_net s)\<lparr>next_addr := next_addr (s_net s')\<rparr> \<and>
     (\<forall>a. s_cmd s' a = s_cmd s a \<or>
       (\<exists>c name. s_cmd s a = Some c \<and> cmd_name s a = Some name \<and> s_cmd s' a = Some (added_cmd s m name c)))"

lemma only_added_net:
  assumes "only_added m s s'"
  shows "clients (s_net s') = clients (s_net s)" "bots (s_net s') = bots (s_net s)"
proof -
  have "s_net s' = (s_net s)\<lparr>next_addr := next_addr (s_net s')\<rparr>" using assms by (simp add: only_added_def)
  from arg_cong [OF this, of clients] arg_cong [OF this, of bots]
  show "clients (s_net s') = clients (s_net s)" "bots (s_net s') = bots (s_net s)" by simp_all
qed

lemma only_added_cmd:
  assumes "only_added m s s'" "s_cmd s a = Some c" "cmd_name s a = Some name"
  shows "s_cmd s' a = Some c \<or> s_cmd s' a = Some (added_cmd s m name c)"
proof -
  have "s_cmd s' a = s_cmd s a \<or> (\<exists>c name. s_cmd s a = Some c \<and> cmd_name s a = Some name \<and> s_cmd s' a = Some (added_cmd s m name c))"
    using assms(1) unfolding only_added_def by blast
  then show ?thesis using assms(2,3) by auto
qed

lemma added_twice: "added_cmd s m name (added_cmd s m name c) = added_cmd s m name c"
  by (simp add: added_cmd_def split: option.split setting_value.split)

lemma only_added_step:
  assumes "only_added m s1 s'" "s_cmd s a = Some c" "cmd_name s a = Some name" "cmd_name s1 = cmd_name s"
    and "s1 = s\<lparr>s_net := (s_net s)\<lparr>next_addr := k\<rparr>, s_cmd := (s_cmd s)(a \<mapsto> added_cmd s m name c)\<rparr>"
  shows "only_added m s s'"
proof -
  have added: "added_cmd s1 m = added_cmd s m" by (simp add: fun_eq_iff added_cmd_def assms(5))
  have "s_cmd s' x = s_cmd s x \<or> (\<exists>c name. s_cmd s x = Some c \<and> cmd_name s x = Some name \<and> s_cmd s' x = Some (added_cmd s m name c))" for x
    using assms(1-4) added added_twice [of s m name c]
    by (cases "x = a") (auto simp: only_added_def assms(5) dest!: spec [of _ x])
  then show ?thesis using assms(1,5) by (simp add: only_added_def)
qed

lemma add_cmds_adds:
  assumes "table_ok (next_addr (s_net s)) h" "0 < next_addr (s_net s)" "next_addr (s_net s) + length as < 2 ^ 61"
    and "\<forall>a\<in>set as. s_cmd s a \<noteq> None" "\<not> level_text s m"
  shows "\<exists>h' s'. add_cmds m h as s = Some (h', s') \<and> table_ok (next_addr (s_net s')) h' \<and> s_bot s' = s_bot s \<and> only_added m s s' \<and>
    (\<forall>j. obj h' j = (case obj h j of Some a \<Rightarrow> Some a
      | None \<Rightarrow> first_named s j as))"
  using assms
proof (induction as arbitrary: h s)
  case Nil
  then show ?case by (auto simp: only_added_def split: option.split)
next
  case (Cons a as)
  obtain c where c: "s_cmd s a = Some c" using Cons.prems(4) by auto
  show ?case
  proof (cases "\<exists>name. cmd_name s a = Some name \<and> obj h name = None")
    case True
    then obtain name where name: "cmd_name s a = Some name" "obj h name = None" by blast
    define s1 where
      "s1 = s\<lparr>s_net := (s_net s)\<lparr>next_addr := next_addr (s_net s) + 1\<rparr>, s_cmd := (s_cmd s)(a \<mapsto> added_cmd s m name c)\<rparr>"
    obtain h1 where h1: "add_bot_cmd m h a s = Some (NS_SUCCESS, h1, s1)" "table_ok (next_addr (s_net s) + 1) h1"
        "obj h1 = (\<lambda>j. if irc_key name j then Some a else obj h j)"
      using add_bot_cmd_adds [OF c name Cons.prems(5,1,2)] Cons.prems(3) by (auto simp: s1_def)
    have names: "cmd_name s1 = cmd_name s" using c by (simp add: fun_eq_iff s1_def cmd_name_added)
    have free: "obj h j = None" if "irc_key name j" for j using obj_same [OF Cons.prems(1) that] name(2) by simp
    have s1: "next_addr (s_net s1) = next_addr (s_net s) + 1" "\<not> level_text s1 m" "\<forall>x\<in>set as. s_cmd s1 x \<noteq> None"
      using Cons.prems(4,5) by (auto simp: level_text_def s1_def)
    have "table_ok (next_addr (s_net s1)) h1" "0 < next_addr (s_net s1)" "next_addr (s_net s1) + length as < 2 ^ 61"
      using h1(2) s1(1) Cons.prems(3) by simp_all
    from Cons.IH [OF this s1(3,2), unfolded names] obtain h' s' where
      s': "add_cmds m h1 as s1 = Some (h', s')" "table_ok (next_addr (s_net s')) h'" "s_bot s' = s_bot s1" "only_added m s1 s'"
        "\<forall>j. obj h' j = (case obj h1 j of Some a \<Rightarrow> Some a | None \<Rightarrow> first_named s j as)"
      by blast
    moreover from s'(4) have "only_added m s s'" by (rule only_added_step [OF _ c name(1) names s1_def])
    moreover have "s_bot s1 = s_bot s" by (simp add: s1_def)
    ultimately show ?thesis using h1(1,3) name(1) free by (auto split: option.split)
  next
    case False
    then have "add_bot_cmd m h a s = Some (NS_FAILURE, h, s)" using add_bot_cmd_skips Cons.prems(1,4) by auto
    moreover have "\<not> irc_key name j" if "cmd_name s a = Some name" "obj h j = None" for name j
      using False that obj_same [OF Cons.prems(1), of name j] by auto
    ultimately show ?thesis using Cons.IH [OF Cons.prems(1,2)] Cons.prems by (fastforce split: option.split)
  qed
qed

lemma run_listed_runs:
  assumes "s_cmd s a = Some c" "calc_cmd_ulevel H c = Some k" "k \<le> l" "bc_minparams c \<le> int (length (ca_av p))" "bc_handler c = Some f"
    and "\<not> has (bc_flags c) (if ischancmd then CMD_FLAG_PRIVMSGONLY else CMD_FLAG_CHANONLY)" "hk_cmd H f p s = Some (ret, s')"
  shows "run_listed_cmd H ischancmd l a p s = Some (NS_SUCCESS, s')"
  using assms by (cases ischancmd) (auto simp: run_listed_cmd_def)

lemma add_bot_cmd_list_adds:
  assumes "s_bot s b = Some x" "bs_botcmds x = None" "0 < next_addr (s_net s)" "next_addr (s_net s) + length as < 2 ^ 61"
    and "\<forall>a\<in>set as. s_cmd s a \<noteq> None" "\<not> level_text s m"
  obtains s1 h k where "add_bot_cmd_list m b (Some as) s = Some (NS_SUCCESS, s1)" "only_added m s s1"
    "s_bot s1 b = Some (x\<lparr>bs_botcmds := Some h\<rparr>)" "table_ok k h" "\<forall>j. obj h j = first_named s j as"
proof -
  obtain h0 where h0: "new_table s = Some h0" "table_ok (next_addr (s_net s)) h0" "obj h0 = (\<lambda>k. None)"
    using table_ok_create unfolding new_table_def by blast
  obtain h s' where h: "add_cmds m h0 as s = Some (h, s')" "table_ok (next_addr (s_net s')) h" "s_bot s' = s_bot s"
      "\<forall>j. obj h j = first_named s j as" "only_added m s s'"
    using add_cmds_adds [OF h0(2) assms(3-6)] by (auto simp: h0(3))
  define s1 where "s1 = s'\<lparr>s_bot := (s_bot s')(b \<mapsto> x\<lparr>bs_botcmds := Some h\<rparr>)\<rparr>"
  show thesis
  proof (rule that [OF _ _ _ h(2,4)])
    show "add_bot_cmd_list m b (Some as) s = Some (NS_SUCCESS, s1)"
      using assms(1,2) h0(1) h(1,3) by (simp add: add_bot_cmd_list_def upd_bot_def s1_def)
    show "only_added m s s1" using h(5) by (simp add: only_added_def s1_def)
  qed (simp add: s1_def)
qed

text \<open>C12. What a bot offers is what runs: a bot without commands takes any list of commands, and then a message runs the function of the first
  command of the list whose name its first word matches and that has a function and a help text, on the words that follow,
  whenever the caller has the level, the parameters are enough and the way the message came is allowed; what the
  function does is all that happens besides.\<close>

theorem added_commands_run:
  assumes "s_bot s (ca_bot p) = Some x" "bs_botcmds x = None" "0 < next_addr (s_net s)" "next_addr (s_net s) + length as < 2 ^ 61"
    and "\<forall>a\<in>set as. s_cmd s a \<noteq> None" "\<not> level_text s m" and "add_bot_cmd_list m (ca_bot p) (Some as) s = Some (r, s1)"
    and "split_call p = Some q" "ca_cmd q = Some cmd" "getuserlevel C p s1 = Some (l, s2)"
    and "bots (s_net s1) (ca_bot p) = Some bt" "\<not> only_opers C bt l"
    and "first_named s cmd as = Some a" "s_cmd s1 a = Some c" "calc_cmd_ulevel H c = Some k" "k \<le> l"
    and "bc_minparams c \<le> int (length (ca_av q))" "bc_handler c = Some f"
    and "\<not> has (bc_flags c) (if ischancmd then CMD_FLAG_PRIVMSGONLY else CMD_FLAG_CHANONLY)" "hk_cmd H f q s2 = Some (ret, s3)"
  shows "r = NS_SUCCESS \<and> run_bot_cmd C H ischancmd p s1 = Some (NS_SUCCESS, s3)"
proof -
  obtain h j where h: "r = NS_SUCCESS" "s_bot s1 (ca_bot p) = Some (x\<lparr>bs_botcmds := Some h\<rparr>)" "table_ok j h" "\<forall>j. obj h j = first_named s j as"
    using add_bot_cmd_list_adds [OF assms(1-6)] assms(7) by (metis Pair_inject option.inject)
  obtain n where n: "s2 = s1\<lparr>s_net := n\<rparr>" "bots n = bots (s_net s1)" using assms(10) by (rule getuserlevelE)
  note q = split_call_who [OF assms(8)]
  have level: "getuserlevel C q s1 = Some (l, s2)" using getuserlevel_cong [of q p] q assms(10) by simp
  have "run_listed_cmd H ischancmd l a q s2 = Some (NS_SUCCESS, s3)"
    by (rule run_listed_runs [OF _ assms(15-20)]) (simp add: n assms(14))
  then show ?thesis
    using assms(8,9,11-13) q level n h hnode_find_obj [OF h(3), of cmd] by (simp add: run_bot_cmd_def)
qed

section \<open>LEVELS and SET\<close>

text \<open>C16. LEVELS lasts: after the level of a command was changed through a bot, adding a fresh record of that command for the same
  module (as after a restart, with the configuration the change left) gives the record the new level, which is between 0
  and the level of a service root.\<close>

theorem levels_survive_restart:
  assumes "bot_cmd_levels C m p s = Some (NS_SUCCESS, s1)" "ca_av p = cmd # level # rest" "\<not> irc_eq cmd ''LIST''"
    and "s_bot s (ca_bot p) = Some x" "bs_botcmds x = Some h" "table_ok k h" "obj h cmd = Some a" "s_cmd s a = Some c" "bc_cmd c = Some name"
    and "s_conf s2 = s_conf s1" "s_cmd s2 a2 = Some c2" "cmd_name s2 a2 = Some name" "\<not> level_text s2 m"
    and "obj h2 name = None" "table_ok (next_addr (s_net s2)) h2" "0 < next_addr (s_net s2)" "next_addr (s_net s2) < 2 ^ 61"
  shows "\<exists>h3 s3 c3. add_bot_cmd m h2 a2 s2 = Some (NS_SUCCESS, h3, s3) \<and> s_cmd s3 a2 = Some c3 \<and>
    bc_ulevel c3 = atoi level \<and> 0 \<le> atoi level \<and> atoi level \<le> NS_ULEVEL_ROOT"
proof -
  have frame: "s_conf sl = s_conf s \<and> s_cmd sl = s_cmd s" if "getuserlevel C p s = Some (l, sl)" for l sl
    using that by (rule getuserlevelE) simp
  have sl: "0 \<le> atoi level" "atoi level \<le> NS_ULEVEL_ROOT"
    and s1: "s_conf s1 = (s_conf s)((m, confcmd name) \<mapsto> IntVal (atoi level))"
    using assms(1-5,7-9) hnode_find_obj [OF assms(6), of cmd]
    by (auto simp: bot_cmd_levels_def upd_cmd_def ns_codes NS_ERR_NO_PERMISSION_def NS_ERR_SYNTAX_ERROR_def
      split: if_splits dest!: frame)
  obtain h3 where "add_bot_cmd m h2 a2 s2 = Some (NS_SUCCESS, h3, s2\<lparr>s_net := (s_net s2)\<lparr>next_addr := next_addr (s_net s2) + 1\<rparr>,
      s_cmd := (s_cmd s2)(a2 \<mapsto> added_cmd s2 m name c2)\<rparr>)"
    using add_bot_cmd_adds [OF assms(11,12,14,13,15-17)] by blast
  then show ?thesis using sl s1 assms(10) by (simp add: added_cmd_def)
qed

text \<open>A value the variable of a setting may have: within the limits of the type.\<close>

fun within :: "bot_setting \<Rightarrow> setting_value \<Rightarrow> bool" where
  "within st (IntVal i) \<longleftrightarrow> (st_type st = SET_TYPE_BOOLEAN \<longrightarrow> i = 0 \<or> i = 1) \<and>
     (st_type st = SET_TYPE_INT \<longrightarrow> (st_min st = -1 \<or> st_min st \<le> i) \<and> (st_max st = -1 \<or> i \<le> st_max st))"
| "within st (StrVal t) \<longleftrightarrow> st_type st \<notin> {SET_TYPE_BOOLEAN, SET_TYPE_INT} \<and> (0 < st_max st \<longrightarrow> int (length t) < st_max st)"

definition sets_within :: "addr \<Rightarrow> bot_setting \<Rightarrow> services \<Rightarrow> services \<Rightarrow> bool" where
  "sets_within m st s s' \<longleftrightarrow> s' = s \<or> (\<exists>v w. s' = store_setting m st v w s \<and> (within st v \<or> s_var s (st_varptr st) = Some v))"

lemma store_text_within:
  assumes "store_text m st t s = Some (r, s')" "st_type st \<notin> {SET_TYPE_BOOLEAN, SET_TYPE_INT}"
  shows "sets_within m st s s'"
proof -
  have "within st (StrVal (strlcpy_str (nat (st_max st)) t))" if "0 < st_max st"
    using that assms(2) by (auto simp: strlcpy_str_def)
  then show ?thesis using assms(1) by (auto simp: store_text_def sets_within_def split: if_splits)
qed

lemma handlers_within:
  assumes "bot_cmd_set_handlers H m p st (st_type st) s = Some (r, s')" "st_handler st = None"
  shows "sets_within m st s s'"
  using assms store_text_within [of m st _ s r s']
  by (cases "st_type st")
    (auto simp: bot_cmd_set_boolean_def bot_cmd_set_int_def bot_cmd_set_string_def bot_cmd_set_channel_def bot_cmd_set_msg_def
      bot_cmd_set_nick_def bot_cmd_set_user_def bot_cmd_set_host_def bot_cmd_set_realname_def bot_cmd_set_ipv4_def bot_cmd_set_custom_def
      validated_def sets_within_def Let_def split: if_splits)

text \<open>Asking for the level of a caller may note it in the caller's record; the rest of the state stays.\<close>

lemma getuserlevel_notes:
  assumes "getuserlevel C p s = Some (l, s1)"
  obtains n1 where "s1 = s\<lparr>s_net := n1\<rparr>" "n1 = s_net s \<or> (\<exists>k. upd_user (ca_source p) (\<lambda>r. r\<lparr>u_ulevel := k\<rparr>) (s_net s) = Some n1)"
proof -
  obtain k n1 where k: "UserLevel C (ca_source p) (s_net s) = Some (k, n1)" "s1 = s\<lparr>s_net := n1\<rparr>"
    using assms by (auto simp: getuserlevel_def on_core_def split: if_splits)
  from k(1) have "n1 = s_net s \<or> (\<exists>k. upd_user (ca_source p) (\<lambda>r. r\<lparr>u_ulevel := k\<rparr>) (s_net s) = Some n1)"
    by (rule UserLevelE) (simp, metis)
  with k(2) show thesis by (rule that)
qed

text \<open>C15. SET on a setting without a function of the module, whose variable is within the limits of the setting (0 or 1, the range of
  the numbers, the size of the text): the variable stays within them, and no other variable and no other entry of a configuration
  changes. A change of either takes a caller with the level of SET and of the setting. Besides the variable and the entry, the
  only thing SET may change is the level noted in the caller's own record.\<close>

theorem SET_stays_within:
  assumes "bot_cmd_set C H m p s = Some (ret, s')" "ca_av p = opt # rest" "\<not> irc_eq opt ''LIST''"
    and "s_bot s (ca_bot p) = Some x" "bs_botsettings x = Some h" "table_ok k h" "obj h opt = Some a" "s_setting s a = Some st"
    and "st_handler st = None" "s_var s (st_varptr st) = Some v" "within st v"
  shows "\<exists>v' l sl. s_var s' (st_varptr st) = Some v' \<and> within st v' \<and> (\<forall>y. y \<noteq> st_varptr st \<longrightarrow> s_var s' y = s_var s y) \<and>
    (\<forall>e. e \<noteq> (m, st_option st) \<longrightarrow> s_conf s' e = s_conf s e) \<and>
    s' = s\<lparr>s_net := s_net s', s_var := s_var s', s_conf := s_conf s'\<rparr> \<and>
    (s_net s' = s_net s \<or> (\<exists>k. upd_user (ca_source p) (\<lambda>r. r\<lparr>u_ulevel := k\<rparr>) (s_net s) = Some (s_net s'))) \<and>
    getuserlevel C p s = Some (l, sl) \<and> (s_var s' \<noteq> s_var s \<or> s_conf s' \<noteq> s_conf s \<longrightarrow> bs_set_ulevel x \<le> l \<and> st_ulevel st \<le> l)"
proof -
  obtain l sl where l: "getuserlevel C p s = Some (l, sl)" using assms(1,2) by (auto simp: bot_cmd_set_def)
  then obtain n1 where n1: "sl = s\<lparr>s_net := n1\<rparr>"
      "n1 = s_net s \<or> (\<exists>k. upd_user (ca_source p) (\<lambda>r. r\<lparr>u_ulevel := k\<rparr>) (s_net s) = Some n1)" by (rule getuserlevel_notes)
  have "s' = sl \<or> bs_set_ulevel x \<le> l \<and> st_ulevel st \<le> l \<and> (\<exists>r. bot_cmd_set_handlers H m p st (st_type st) sl = Some (r, s'))"
    using assms(1-5,8,9) l n1(1) hnode_find_obj [OF assms(6), of opt] assms(7)
    by (auto simp: bot_cmd_set_def change_setting_def split: if_splits)
  then have "s' = sl \<or> bs_set_ulevel x \<le> l \<and> st_ulevel st \<le> l \<and> sets_within m st sl s'" using handlers_within [OF _ assms(9)] by blast
  then have "s' = s\<lparr>s_net := n1, s_var := s_var s', s_conf := s_conf s'\<rparr>"
    "\<exists>v'. s_var s' (st_varptr st) = Some v' \<and> within st v'" "\<forall>y. y \<noteq> st_varptr st \<longrightarrow> s_var s' y = s_var s y"
    "\<forall>e. e \<noteq> (m, st_option st) \<longrightarrow> s_conf s' e = s_conf s e"
    "s_var s' \<noteq> s_var s \<or> s_conf s' \<noteq> s_conf s \<longrightarrow> bs_set_ulevel x \<le> l \<and> st_ulevel st \<le> l" "s_net s' = n1"
    using assms(10,11) unfolding n1(1) by (auto simp: sets_within_def store_setting_def)
  then show ?thesis using l n1(2) by auto
qed

text \<open>SET takes a malformed address: \<^verbatim>\<open>inet_addr\<close> answers -1 for a text that is no address, the check of SET refuses only
  the answer 0, and the text goes into the variable and into the configuration.\<close>

theorem SET_takes_malformed_address:
  assumes "ca_av p = [opt, t]" "c_inet_addr H t = -1" "0 < st_max st"
  shows "\<exists>s'. bot_cmd_set_ipv4 H m p st s = Some (NS_SUCCESS, s') \<and>
    s_var s' (st_varptr st) = Some (StrVal (strlcpy_str (nat (st_max st)) t)) \<and> s_conf s' (m, st_option st) \<noteq> None"
  using assms by (simp add: bot_cmd_set_ipv4_def param1_def store_text_def store_setting_def)

section \<open>Messages to bots\<close>

text \<open>C19. A server may send a message to a bot, but the core then asks for the level of the sender and follows the user record a
  server does not have: every private message of a server to a bot that is no CTCP message is a crash.\<close>

theorem private_from_server_crashes:
  assumes "FindUser (s_net s) origin = Some 0" "FindServer (s_net s) origin = Some sv" "sv \<noteq> 0"
    and "clients (s_net s) sv = Some c" "c_user c = None"
    and "FindUser (s_net s) target = Some u" "u \<noteq> 0" "user_of (s_net s) u = Some r" "u_bot r \<noteq> 0" "\<not> IS_CTCP_MSG text"
  shows "bot_private C H E origin [target, text] s = None"
proof -
  have "getuserlevel C q s = None" if "ca_source q = sv" for q
    using that assms(4,5) by (simp add: getuserlevel_def on_core_def UserLevel_def)
  then have "run_bot_cmd C H False (call_of sv (u_bot r) text) s = None"
    by (cases "split_call (call_of sv (u_bot r) text)") (auto simp: run_bot_cmd_def call_of_def dest: split_call_who)
  then show ?thesis using assms
    by (simp add: bot_private_def to_bot_def is_valid_origin_def is_valid_target_def) (simp add: call_of_def)
qed

section \<open>A free nick\<close>

lemma add_chars_length: "length buf < MAXNICK \<Longrightarrow> length (fst (add_chars rnd m base i k buf)) < MAXNICK"
  by (induction rnd m base i k buf rule: add_chars.induct) auto

lemma GenerateBotNick_free:
  assumes "GenerateBotNick rnd n stub i j k = Some (r, buf, k')" "length stub < MAXNICK"
  shows "length buf < MAXNICK \<and> (r = NS_SUCCESS \<longleftrightarrow> FindUser n buf = Some 0)"
proof -
  obtain b1 k1 where 1: "add_chars rnd 26 97 i k stub = (b1, k1)" by fastforce
  obtain b2 k2 where 2: "add_chars rnd 10 48 j k1 b1 = (b2, k2)" by fastforce
  have "length b2 < MAXNICK"
    using add_chars_length [OF assms(2), of rnd 26 97 i k] add_chars_length [of b1 rnd 10 48 j k1] 1 2 by simp
  then show ?thesis using assms(1) 1 2 by (auto simp: GenerateBotNick_def ns_codes split: if_splits)
qed

lemma nick_rounds_free:
  assumes "nick_rounds rnd n stub is k = Some (Some nick, k')" "length stub < MAXNICK"
  shows "length nick < MAXNICK \<and> FindUser n nick = Some 0"
  using assms GenerateBotNick_free [of rnd n stub]
  by (induction "is" arbitrary: k) (fastforce split: if_splits)+

text \<open>C18. The nick of a bot: in a state that satisfies the
  invariant of the network the search always comes to an end, and a nick it gives
  fits into the buffer and nobody uses it.\<close>

theorem GetBotNick_free:
  assumes "net_ok N n"
  shows "\<exists>r. GetBotNick rnd n nick altnick k = Some r \<and>
    (\<forall>found. r = Some found \<longrightarrow> length found < MAXNICK \<and> FindUser n found = Some 0)"
proof -
  have find: "\<exists>u. FindUser n x = Some u" for x using FindUser_obj [OF assms] by simp
  have short: "length (strlcpy_str MAXNICK x) < MAXNICK" for x by (rule length_strlcpy_str) (simp add: MAXNICK_def)
  have gen: "\<exists>r buf k'. GenerateBotNick rnd n stub i j k = Some (r, buf, k')" for stub i j k
    using find by (auto simp: GenerateBotNick_def split: prod.split)
  have rounds: "\<exists>r k'. nick_rounds rnd n stub is k = Some (r, k')" for stub "is" k
  proof (induction "is" arbitrary: k)
    case (Cons i "is")
    obtain r buf k' where "GenerateBotNick rnd n stub (i + 1) (i + 1) k = Some (r, buf, k')" using gen by blast
    then show ?case using Cons [of k'] by auto
  qed simp
  obtain u v where uv: "FindUser n (strlcpy_str MAXNICK nick) = Some u" "FindUser n (strlcpy_str MAXNICK altnick) = Some v"
    using find by blast
  obtain r1 k1 where r1: "nick_rounds rnd n (strlcpy_str MAXNICK nick) [0..<NICK_TRIES] k = Some (r1, k1)" using rounds by blast
  obtain r2 k2 where r2: "nick_rounds rnd n (strlcpy_str MAXNICK altnick) [0..<NICK_TRIES] k1 = Some (r2, k2)" using rounds by blast
  show ?thesis
    using uv r1 r2 short nick_rounds_free [OF _ short] by (auto simp: GetBotNick_def)
qed

section \<open>CTCP and DCC\<close>

lemma ircstrncasecmp_self: "ircstrncasecmp (Some a) (Some a) k = 0"
proof -
  have "ircstrncasecmp_loop a a k = 0" by (induction k arbitrary: a) simp_all
  then show ?thesis by (simp add: ircstrncasecmp_def)
qed

lemma ircstrncasecmp_first:
  "IRCTOLOWER x \<noteq> IRCTOLOWER y \<Longrightarrow> (ircstrncasecmp (Some (x # a)) (Some (y # b)) (Suc k) = 0) = False"
  by (simp add: ircstrncasecmp_def)

lemma ctcp_letters: "map IRCTOLOWER ''VFADTP'' = [118, 102, 97, 100, 116, 112]"
  by (simp add: IRCTOLOWER_eq)

lemmas ctcp_search = ctcp_cmds_def ctcp_find.simps if_False if_True simp_thms list.size ircstrncasecmp_self add_Suc_right add_0_right
  ircstrncasecmp_first ctcp_letters [unfolded list.map list.inject] num.simps numeral_eq_iff

lemma strip_word:
  assumes "CHR 0x01 \<notin> set name"
  shows "strip_ctcp_codes (CHR 0x01 # name @ [CHR 0x01]) = name @ [NUL, CHR 0x01, NUL]"
proof -
  have "filter (\<lambda>c. c \<noteq> CHR 0x01) name = name" using assms by (induction name) auto
  then show ?thesis by (simp add: strip_ctcp_codes_def)
qed

lemma ctcp_find_word:
  assumes "(name, k) \<in> set ctcp_cmds"
  shows "ctcp_find ctcp_cmds (name @ [NUL, CHR 0x01, NUL]) = Some (name, k)" "CHR 0x01 \<notin> set name"
proof -
  have word: "c_str (''VERSION'' @ [NUL, CHR 0x01, NUL]) = ''VERSION''" "c_str (''FINGER'' @ [NUL, CHR 0x01, NUL]) = ''FINGER''"
      "c_str (''ACTION'' @ [NUL, CHR 0x01, NUL]) = ''ACTION''" "c_str (''DCC'' @ [NUL, CHR 0x01, NUL]) = ''DCC''"
      "c_str (''TIME'' @ [NUL, CHR 0x01, NUL]) = ''TIME''" "c_str (''PING'' @ [NUL, CHR 0x01, NUL]) = ''PING''"
    by simp_all
  have 1: "ctcp_find ctcp_cmds (''VERSION'' @ [NUL, CHR 0x01, NUL]) = Some (''VERSION'', CTCP_VERSION)"
    by (simp only: word ctcp_search)
  have 2: "ctcp_find ctcp_cmds (''FINGER'' @ [NUL, CHR 0x01, NUL]) = Some (''FINGER'', CTCP_FINGER)"
    by (simp only: word ctcp_search)
  have 3: "ctcp_find ctcp_cmds (''ACTION'' @ [NUL, CHR 0x01, NUL]) = Some (''ACTION'', CTCP_ACTION)"
    by (simp only: word ctcp_search)
  have 4: "ctcp_find ctcp_cmds (''DCC'' @ [NUL, CHR 0x01, NUL]) = Some (''DCC'', CTCP_DCC)"
    by (simp only: word ctcp_search)
  have 5: "ctcp_find ctcp_cmds (''TIME'' @ [NUL, CHR 0x01, NUL]) = Some (''TIME'', CTCP_TIME)"
    by (simp only: word ctcp_search)
  have 6: "ctcp_find ctcp_cmds (''PING'' @ [NUL, CHR 0x01, NUL]) = Some (''PING'', CTCP_PING)"
    by (simp only: word ctcp_search)
  have "(name = ''VERSION'' \<and> k = CTCP_VERSION) \<or> (name = ''FINGER'' \<and> k = CTCP_FINGER) \<or> (name = ''ACTION'' \<and> k = CTCP_ACTION) \<or>
      (name = ''DCC'' \<and> k = CTCP_DCC) \<or> (name = ''TIME'' \<and> k = CTCP_TIME) \<or> (name = ''PING'' \<and> k = CTCP_PING)"
    using assms by (simp add: ctcp_cmds_def)
  then show "ctcp_find ctcp_cmds (name @ [NUL, CHR 0x01, NUL]) = Some (name, k)" "CHR 0x01 \<notin> set name"
    using 1 2 3 4 5 6 by (elim disjE conjE; simp)+
qed

text \<open>A CTCP request without parameters, the command alone between two control characters: the step over the command and one more byte
  leaves the stripped text and lands on the closing control character the stripping has left behind, so the function of
  the command gets that character as its parameter instead of an empty one.\<close>

theorem ctcp_request_leftover:
  assumes "(name, k) \<in> set ctcp_cmds"
  shows "ctcp_private C H p target (CHR 0x01 # name @ [CHR 0x01]) s = req_handler C H k p target [CHR 0x01, NUL] s"
  using ctcp_find_word [OF assms] strip_word [of name]
  by (simp add: ctcp_private_def ctcp_dispatch_def at_def after_word_def)

text \<open>A DCC client is never forgotten: \<open>DelDCCClient\<close> compares the name with the bytes of pointers, so unless the bytes of a
  pointer happen to spell the name, a client whose connection failed stays in the list, without a connection, where
  messages to all DCC clients go.\<close>

theorem failed_chat_client_stays:
  assumes "AddDCCClient p s = Some (a, s1)" "clients (s_net s) (ca_source p) = Some c"
    and "\<forall>x\<in>set (s_dcclist s). x \<noteq> a \<and> (\<exists>d. s_dcc_client s x = Some d \<and> \<not> irc_eq (hk_pointer_text H (dc_user d)) (c_name c))"
    and "\<not> irc_eq (hk_pointer_text H (ca_source p)) (c_name c)" "0 < c_ip c" "\<not> hk_connect H (c_ip c) port"
  shows "\<exists>s2 d. DCCChatStart H a port s1 = Some (NS_FAILURE, s2) \<and> DelDCCClient H a s2 = Some s2 \<and>
    s_dcclist s2 = s_dcclist s @ [a] \<and> s_dcc_client s2 a = Some d \<and> \<not> dc_connected d"
proof -
  have kept: "dcc_find H t name as = Some None"
    if "\<forall>x\<in>set as. \<exists>d. s_dcc_client t x = Some d \<and> \<not> irc_eq (hk_pointer_text H (dc_user d)) name" for t name as
    using that by (induction as) auto
  define d where "d = \<lparr>dc_user = ca_source p, dc_name = c_name c, dc_ip = c_ip c, dc_port = port, dc_connected = False\<rparr>"
  obtain n1 where s1: "s1 = s\<lparr>s_net := n1, s_dcclist := s_dcclist s @ [a], s_dcc_client := (s_dcc_client s)(a \<mapsto> d\<lparr>dc_port := 0\<rparr>)\<rparr>"
    using assms(1,2) by (auto simp: AddDCCClient_def d_def split: prod.splits)
  define s2 where "s2 = s1\<lparr>s_dcc_client := (s_dcc_client s1)(a \<mapsto> d)\<rparr>"
  have start: "upd_dcc a (\<lambda>d. d\<lparr>dc_port := port\<rparr>) s1 = Some s2" by (simp add: upd_dcc_def s2_def s1 d_def)
  have "dcc_find H s2 (c_name c) (s_dcclist s2) = Some None"
    by (rule kept) (use assms(3,4) in \<open>auto simp: s2_def s1 d_def\<close>)
  then have del: "DelDCCClient H a s2 = Some s2" by (simp add: DelDCCClient_def s2_def d_def)
  have "s_dcc_client s2 a = Some d" "dc_ip d = c_ip c" by (simp_all add: s2_def d_def)
  then have "DCCChatStart H a port s1 = Some (NS_FAILURE, s2)"
    using start del assms(5,6) by (simp add: DCCChatStart_def DCCChatConnect_def)
  with del show ?thesis by (auto simp: s2_def s1 d_def)
qed

section \<open>Concrete runs\<close>

definition sample_config :: config where
  "sample_config = \<lparr>root_nick = ''Root'', root_user = ''fish'', root_host = ''a.net'', nc_onlyopers = False, nc_msgsampletime = 10,
     nc_msgthreshold = 2, nc_cmdchar = CHR ''!'', nc_modules = [\<lparr>am_auth = True, am_userauth = Some (\<lambda>c. 40)\<rparr>],
     ns_bot_name = ''NeoStats'', can_svskill = True, can_kill = True\<rparr>"

definition sample_fish :: "int \<Rightarrow> client" where
  "sample_fish level = sample_client ''Fish'' (Some ((sample_user ''a.net'' [])\<lparr>u_ulevel := level\<rparr>)) 1"

definition sample_hooks :: hooks where
  "sample_hooks = \<lparr>hk_cmd = (\<lambda>k p s. Some (NS_SUCCESS, s)), hk_set = (\<lambda>k r p s. Some (NS_SUCCESS, s)), hk_level = (\<lambda>l. None),
     c_inet_addr = (\<lambda>t. -1), hk_connect = (\<lambda>ip port. False), hk_pointer_text = (\<lambda>a. [])\<rparr>"

text \<open>A command at address 7, and again at address 8.\<close>

definition sample_cmd :: bot_cmd where
  "sample_cmd = \<lparr>bc_cmd = Some ''ADD'', bc_handler = Some 1, bc_minparams = 0, bc_ulevel = 50, bc_helptext = True, bc_flags = 0, bc_modptr = 0\<rparr>"

definition sample_setting :: bot_setting where
  "sample_setting = \<lparr>st_option = ''LIMIT'', st_varptr = 20, st_type = SET_TYPE_INT, st_min = 1, st_max = 9, st_ulevel = 50, st_handler = None\<rparr>"

definition sample_services :: "net \<Rightarrow> (string, addr) hash_t option \<Rightarrow> (string, addr) hash_t option \<Rightarrow> services" where
  "sample_services n cmds sets =
     \<lparr>s_net = n, s_bot = [5 \<mapsto> \<lparr>bs_botcmds = cmds, bs_botsettings = sets, bs_set_ulevel = 50, bs_authcb = None\<rparr>],
      s_cmd = [7 \<mapsto> sample_cmd, 8 \<mapsto> sample_cmd], s_setting = [9 \<mapsto> sample_setting], s_var = [20 \<mapsto> IntVal 3], s_conf = (\<lambda>e. None),
      s_dcc_client = (\<lambda>a. None), s_dcclist = []\<rparr>"

definition sample_call :: "string \<Rightarrow> string list \<Rightarrow> call" where
  "sample_call text av = \<lparr>ca_source = 3, ca_bot = 5, ca_channel = 0, ca_param = text, ca_cmd = None, ca_av = av\<rparr>"

text \<open>The network of these runs: one user, whose level is given, one bot, and no table.\<close>

definition small_net :: "int \<Rightarrow> net" where
  "small_net level = blank_net\<lparr>clients := [3 \<mapsto> sample_fish level], next_addr := 50,
     bots := [5 \<mapsto> \<lparr>b_name = ''NeoStats'', b_flags = BOT_FLAG_ROOT, b_u = 4, b_module = 6\<rparr>]\<rparr>"

lemma small_user: "user_of (small_net level) 3 = Some ((sample_user ''a.net'' [])\<lparr>u_ulevel := level\<rparr>)"
  by (simp add: small_net_def user_of_def sample_fish_def sample_client_def)

lemma small_client: "clients (small_net level) 3 = Some (sample_fish level)"
  "c_user (sample_fish level) = Some ((sample_user ''a.net'' [])\<lparr>u_ulevel := level\<rparr>)"
  by (simp_all add: small_net_def sample_fish_def sample_client_def)

lemma small_level: "level \<noteq> -1 \<Longrightarrow> UserLevel C 3 (small_net level) = Some (level, small_net level)"
  using UserLevel_cached [OF small_user] by simp

text \<open>The level of the caller of a sample call.\<close>

lemma sample_level:
  assumes "level \<noteq> -1"
  shows "getuserlevel C (sample_call text av) (sample_services (small_net level) h t) = Some (level, sample_services (small_net level) h t)"
  using small_level [OF assms, of C]
  by (simp add: getuserlevel_def on_core_def sample_call_def sample_services_def small_net_def)

text \<open>A table with one entry.\<close>

lemma one_entry:
  obtains h where "table_ok 50 h" "obj h = (\<lambda>j. if irc_key name j then Some a else None)"
proof -
  obtain h0 where h0: "table_ok 40 h0" "obj h0 = (\<lambda>k. None)" using table_ok_create by blast
  then obtain h where "table_ok 41 h" "obj h = (\<lambda>j. if irc_key name j then Some a else obj h0 j)"
    using obj_put [of 40 h0 name 40 a] by auto
  moreover from this have "obj h = (\<lambda>j. if irc_key name j then Some a else None)" by (simp add: h0(2) cong: if_cong)
  ultimately show thesis using that table_ok_mono [of 41 h 50] by simp
qed

lemma no_level_text: "\<not> level_text (sample_services n h t) m"
  by (simp add: level_text_def sample_services_def)

theorem level_needs_a_grant_witness: "\<exists>l n'. UserLevel sample_config 3 (small_net (-1)) = Some (l, n') \<and> l < 50"
proof -
  let ?n = "small_net (-1)" and ?r = "sample_user ''a.net'' []"
  have r: "clients ?n 3 = Some (sample_fish (-1))" "c_user (sample_fish (-1)) = Some ?r" "u_ulevel ?r = -1"
    by (simp_all add: small_net_def sample_fish_def sample_client_def sample_user_def)
  have "match ''Root'' ''Fish'' = Some 0" by code_simp
  then have root: "IsServiceRoot sample_config (sample_fish (-1)) ?r = Some False"
    by (simp add: IsServiceRoot_def also_matches_def sample_config_def sample_fish_def sample_client_def)
  have "AuthUser sample_config (sample_fish (-1)) ?r = Some 40"
    using root by (simp add: AuthUser_def) (simp add: sample_config_def ModuleAuthHandler_def)
  then obtain n' where n': "UserLevel sample_config 3 ?n = Some (40, n')"
    using r by (auto simp: UserLevel_def upd_user_def upd_client_def user_of_def)
  have "\<forall>m\<in>set (nc_modules sample_config). \<forall>f. am_auth m \<longrightarrow> am_userauth m = Some f \<longrightarrow> f (sample_fish (-1)) < 50"
    by (simp add: sample_config_def)
  from level_needs_a_grant [OF n' r root _ this] n' show ?thesis by auto
qed

theorem nick_change_keeps_level_witness:
  "\<exists>n1 n2. UserLevel sample_config 3 n1 = Some (200, n1) \<and> UserNickChange sample_env ''Fish'' ''Cat'' None n1 = Some n2 \<and>
    UserLevel sample_config 3 n2 = Some (200, n2)"
proof -
  obtain n c r where n: "reachable plain_names n" "room n" "uview n = [3 \<mapsto> (''Fish'', [], False)]" "exclude_list n = []"
    "clients n 3 = Some c" "c_user c = Some r" "c_uplink c = 1" "server_of n 1 \<noteq> None"
    "map_option part_flags (flags_of n 3) = Some (False, False)" "nul_free (u_hostname r)" "nul_free (c_hostip c)"
    using sample_user_on by blast
  define n1 where "n1 = n\<lparr>clients := (clients n)(3 \<mapsto> c\<lparr>c_user := Some (r\<lparr>u_ulevel := 200\<rparr>)\<rparr>)\<rparr>"
  have up: "upd_user 3 (\<lambda>r. r\<lparr>u_ulevel := 200\<rparr>) n = Some n1"
    using n(5,6) by (simp add: upd_user_def upd_client_def user_of_def n1_def)
  have core: "core n1 = core n" using core_upd_user [OF up] by simp
  then have g: "good plain_names n1" using good_core reachable_good [OF n(1) coherent_plain] by blast
  note ok = good_ok [OF g]
  have view: "uview n1 = [3 \<mapsto> (''Fish'', [], False)]" using core n(3) by (simp add: core_eq_iff)
  have u: "FindUser n1 (strlcpy_str MAXNICK ''Fish'') = Some 3"
    using FindUser_iff [OF ok] view by (auto simp: irc_key_def strlcpy_str_def MAXNICK_def)
  have "\<not> irc_eq ''Fish'' ''Cat''" by code_simp
  then have free: "FindUser n1 ''Cat'' = Some 0" unfolding FindUser_none [OF ok] using view by (simp add: irc_key_def)
  have c1: "clients n1 3 = Some (c\<lparr>c_user := Some (r\<lparr>u_ulevel := 200\<rparr>)\<rparr>)" "clients n1 1 \<noteq> None"
    using n(8) by (auto simp: n1_def server_of_def)
  then obtain upc where upc: "clients n1 (c_uplink c) = Some upc" using n(7) by auto
  have me: "\<not> has (c_flags c) CLIENT_FLAG_ME" using n(5,9) by (simp add: flags_of_def part_flags_def)
  have "uview n1 = uview n" "next_addr n1 = next_addr n" using core by (simp_all add: core_eq_iff)
  then have rm: "room n1" using n(2) by (simp add: room_def)
  have ex: "exclude_list n1 = []" using n(4) by (simp add: n1_def)
  have free': "\<forall>b. FindUser n1 ''Cat'' = Some b \<longrightarrow> b = 0 \<or> b = 3" using free by simp
  have at: "uview n1 3 = Some (''Fish'', [], False)" using view by simp
  have c2: "c_user (c\<lparr>c_user := Some (r\<lparr>u_ulevel := 200\<rparr>)\<rparr>) = Some (r\<lparr>u_ulevel := 200\<rparr>)" by simp
  from UserNickChange_renames [OF g rm _ _ _ u at free' _ c1(1) c2, of upc sample_env None] upc me n(10,11) ex
  obtain n2 where n2: "UserNickChange sample_env ''Fish'' ''Cat'' None n1 = Some n2" by (auto simp: MAXNICK_def)
  have level: "UserLevel sample_config 3 n1 = Some (200, n1)"
    using UserLevel_cached [of n1 3 "r\<lparr>u_ulevel := 200\<rparr>"] c1(1) by (simp add: user_of_def)
  from nick_change_keeps_level [OF level n2] level n2 show ?thesis by blast
qed

theorem flood_limit_witness:
  "\<exists>n'. floods sample_config [sample_env, sample_env, sample_env, sample_env] 3 (small_net 0) = Some ([False, False, False, True], n')"
proof -
  let ?r = "(sample_user ''a.net'' [])\<lparr>u_ulevel := 0\<rparr>"
  have r: "u_ulevel ?r \<noteq> -1" "u_ulevel ?r < NS_ULEVEL_OPER" "me_now sample_env - u_tslastmsg ?r > nc_msgsampletime sample_config"
    by (simp_all add: NS_ULEVEL_OPER_def sample_env_def sample_user_def sample_config_def)
  have "can_svskill sample_config" "length [sample_env, sample_env] = unat (nc_msgthreshold sample_config)"
    "\<forall>E\<in>set ([sample_env, sample_env] @ [sample_env]). me_now E - me_now sample_env \<le> nc_msgsampletime sample_config"
    by (simp_all add: sample_config_def)
  from flood_limit [OF small_client r(1,2) this(1) r(3) this(2,3)] show ?thesis by (auto simp del: floods.simps simp: numeral_eq_Suc)
qed

theorem run_bot_cmd_powerless_witness:
  "\<exists>h ret s. obj h ''ADD'' = Some 7 \<and> run_bot_cmd sample_config sample_hooks False (sample_call ''ADD'' [])
    (sample_services (small_net 10) (Some h) None) = Some (ret, s) \<and> core (s_net s) = core (small_net 10)"
proof -
  obtain h where h: "table_ok 50 h" "obj h = (\<lambda>j. if irc_key ''ADD'' j then Some 7 else None)" by (rule one_entry)
  let ?s = "sample_services (small_net 10) (Some h) None" and ?p = "sample_call ''ADD'' []"
  have "split_buf (Some ''ADD'') = [Some ''ADD'']"
    using split_buf_join [of "[''ADD'']"] by (simp add: word_ok_def c_isspace_def BUFSIZE_def)
  then have q: "split_call ?p = Some (?p\<lparr>ca_cmd := Some ''ADD'', ca_av := []\<rparr>)"
    by (simp add: split_call_def sample_call_def strlcpy_str_def BUFSIZE_def)
  have level: "getuserlevel sample_config ?p ?s = Some (10, ?s)" by (rule sample_level) simp
  let ?x = "\<lparr>bs_botcmds = Some h, bs_botsettings = None, bs_set_ulevel = 50, bs_authcb = None\<rparr>"
  have "a = 7" if "obj h cmd = Some a" for cmd a using that by (simp add: h(2) split: if_splits)
  moreover have "s_cmd ?s 7 = Some sample_cmd" "calc_cmd_ulevel sample_hooks sample_cmd = Some 50"
    by (simp_all add: sample_services_def sample_cmd_def calc_cmd_ulevel_def NS_ULEVEL_ROOT_def)
  ultimately have low: "out_of_reach sample_hooks ?s ?x 10"
    unfolding out_of_reach_def using h(1) by (fastforce simp: NS_ULEVEL_ROOT_def)
  have bot: "bots (s_net ?s) (ca_bot ?p) = Some \<lparr>b_name = ''NeoStats'', b_flags = BOT_FLAG_ROOT, b_u = 4, b_module = 6\<rparr>"
    "s_bot ?s (ca_bot ?p) = Some ?x" by (simp_all add: sample_services_def sample_call_def small_net_def)
  have net: "core (s_net ?s) = core (small_net 10)" by (simp add: sample_services_def)
  obtain ret where "run_bot_cmd sample_config sample_hooks False ?p ?s = Some (ret, ?s)"
    using run_bot_cmd_powerless [OF q level bot low, of False] by blast
  moreover have "obj h ''ADD'' = Some 7" by (simp add: h(2))
  ultimately show ?thesis using net by blast
qed

theorem added_commands_run_witness:
  "\<exists>s1 s2. add_bot_cmd_list 6 5 (Some [7, 8]) (sample_services (small_net 60) None None) = Some (NS_SUCCESS, s1) \<and>
    run_bot_cmd sample_config sample_hooks False (sample_call ''ADD'' []) s1 = Some (NS_SUCCESS, s2)"
proof -
  let ?s = "sample_services (small_net 60) None None" and ?p = "sample_call ''ADD'' []"
  have s: "s_bot ?s 5 = Some \<lparr>bs_botcmds = None, bs_botsettings = None, bs_set_ulevel = 50, bs_authcb = None\<rparr>" "next_addr (s_net ?s) = 50"
    "s_cmd ?s = [7 \<mapsto> sample_cmd, 8 \<mapsto> sample_cmd]" by (simp_all add: sample_services_def small_net_def)
  have "0 < next_addr (s_net ?s)" "next_addr (s_net ?s) + length [7::nat, 8] < 2 ^ 61" "\<forall>a\<in>set [7, 8]. s_cmd ?s a \<noteq> None"
    by (simp_all add: s)
  note room = this
  from add_bot_cmd_list_adds [OF s(1) _ room no_level_text, of 6]
  obtain s1 where s1: "add_bot_cmd_list 6 5 (Some [7, 8]) ?s = Some (NS_SUCCESS, s1)" "only_added 6 ?s s1" by auto
  have "split_buf (Some ''ADD'') = [Some ''ADD'']"
    using split_buf_join [of "[''ADD'']"] by (simp add: word_ok_def c_isspace_def BUFSIZE_def)
  then have q: "split_call ?p = Some (?p\<lparr>ca_cmd := Some ''ADD'', ca_av := []\<rparr>)"
    by (simp add: split_call_def sample_call_def strlcpy_str_def BUFSIZE_def)
  have net: "clients (s_net s1) = clients (small_net 60)" "bots (s_net s1) = bots (small_net 60)"
    using only_added_net [OF s1(2)] by (simp_all add: sample_services_def)
  then have "user_of (s_net s1) 3 = Some ((sample_user ''a.net'' [])\<lparr>u_ulevel := 60\<rparr>)" using small_user by (simp add: user_of_def)
  from UserLevel_cached [OF this, of sample_config] have level: "getuserlevel sample_config ?p s1 = Some (60, s1)"
    by (simp add: getuserlevel_def on_core_def sample_call_def NS_ULEVEL_LOCOPER_def)
  have name: "cmd_name ?s 7 = Some ''ADD''" by (simp add: cmd_name_def s(3) sample_cmd_def)
  obtain c where c: "s_cmd s1 7 = Some c" "bc_ulevel c = 50" "bc_minparams c = 0" "bc_handler c = Some 1" "bc_flags c = 0"
    using only_added_cmd [OF s1(2) _ name] by (auto simp: s(3) added_cmd_def) (auto simp: sample_services_def sample_cmd_def)
  have p: "ca_bot ?p = 5" by (simp add: sample_call_def)
  note facts = added_commands_run [where p = ?p and s = ?s and as = "[7, 8]" and m = 6 and cmd = "''ADD''" and a = 7 and c = c and
      k = 50 and H = sample_hooks and f = 1 and ischancmd = False, unfolded p, OF s(1) _ room no_level_text s1(1) q _ level]
  have "run_bot_cmd sample_config sample_hooks False ?p s1 = Some (NS_SUCCESS, s1)"
    by (rule facts [THEN conjunct2])
      (simp_all add: net(2) c name, simp_all add: small_net_def only_opers_def NS_ULEVEL_OPER_def calc_cmd_ulevel_def c
        NS_ULEVEL_ROOT_def has_def sample_hooks_def)
  with s1(1) show ?thesis by blast
qed

theorem levels_survive_restart_witness:
  "\<exists>h s1 h2 h3 s3 c3. bot_cmd_levels sample_config 6 (sample_call [] [''ADD'', ''60'']) (sample_services (small_net 200) (Some h) None) = Some (NS_SUCCESS, s1) \<and>
    add_bot_cmd 6 h2 7 ((sample_services (small_net 0) None None)\<lparr>s_conf := s_conf s1\<rparr>) = Some (NS_SUCCESS, h3, s3) \<and>
    s_cmd s3 7 = Some c3 \<and> bc_ulevel c3 = 60"
proof -
  obtain h where h: "table_ok 50 h" "obj h = (\<lambda>j. if irc_key ''ADD'' j then Some 7 else None)" by (rule one_entry)
  obtain h2 where h2: "table_ok 50 h2" "obj h2 = (\<lambda>k. None)" using table_ok_create by blast
  let ?s = "sample_services (small_net 200) (Some h) None" and ?p = "sample_call [] [''ADD'', ''60'']"
  have sixty: "atoi ''60'' = 60" by code_simp
  have list: "\<not> irc_eq ''ADD'' ''LIST''" by code_simp
  have found: "obj h ''ADD'' = Some 7" "hnode_find h ''ADD'' = Some (Some 7)" using h hnode_find_obj [OF h(1)] by simp_all
  have level: "getuserlevel sample_config ?p ?s = Some (200, ?s)" by (rule sample_level) simp
  define s1 where "s1 = ?s\<lparr>s_cmd := (s_cmd ?s)(7 \<mapsto> sample_cmd\<lparr>bc_ulevel := 60\<rparr>), s_conf := (s_conf ?s)((6, confcmd ''ADD'') \<mapsto> IntVal 60)\<rparr>"
  have s: "ca_av ?p = [''ADD'', ''60'']" "s_bot ?s (ca_bot ?p) = Some \<lparr>bs_botcmds = Some h, bs_botsettings = None, bs_set_ulevel = 50, bs_authcb = None\<rparr>"
    "s_cmd ?s 7 = Some sample_cmd" by (simp_all add: sample_services_def sample_call_def)
  have run: "bot_cmd_levels sample_config 6 ?p ?s = Some (NS_SUCCESS, s1)"
    using level s list found(2) sixty
    by (simp add: bot_cmd_levels_def upd_cmd_def NS_ULEVEL_ROOT_def s1_def) (simp add: sample_cmd_def)
  let ?s2 = "(sample_services (small_net 0) None None)\<lparr>s_conf := s_conf s1\<rparr>"
  have s2: "s_conf ?s2 = s_conf s1" "s_cmd ?s2 7 = Some sample_cmd" "cmd_name ?s2 7 = Some ''ADD''" "next_addr (s_net ?s2) = 50"
    by (simp_all add: sample_services_def cmd_name_def sample_cmd_def small_net_def)
  have fresh: "\<not> level_text ?s2 6" by (simp add: level_text_def s1_def sample_services_def)
  have name: "bc_cmd sample_cmd = Some ''ADD''" by (simp add: sample_cmd_def)
  have x: "bs_botcmds \<lparr>bs_botcmds = Some h, bs_botsettings = None, bs_set_ulevel = 50, bs_authcb = None\<rparr> = Some h" by simp
  have room: "obj h2 ''ADD'' = None" "table_ok (next_addr (s_net ?s2)) h2" "0 < next_addr (s_net ?s2)" "next_addr (s_net ?s2) < 2 ^ 61"
    using h2 s2(4) by simp_all
  from levels_survive_restart [OF run s(1) list s(2) x h(1) found(1) s(3) name s2(1-3) fresh room] obtain h3 s3 c3 where
    "add_bot_cmd 6 h2 7 ?s2 = Some (NS_SUCCESS, h3, s3)" "s_cmd s3 7 = Some c3" "bc_ulevel c3 = 60" unfolding sixty by blast
  with run show ?thesis by blast
qed

theorem SET_stays_within_witness:
  "\<exists>h ret s' v. bot_cmd_set sample_config sample_hooks 6 (sample_call [] [''LIMIT'', ''5'']) (sample_services (small_net 60) None (Some h)) = Some (ret, s') \<and>
    s_var s' 20 = Some v \<and> within sample_setting v"
proof -
  obtain h where h: "table_ok 50 h" "obj h = (\<lambda>j. if irc_key ''LIMIT'' j then Some 9 else None)" by (rule one_entry)
  let ?s = "sample_services (small_net 60) None (Some h)" and ?p = "sample_call [] [''LIMIT'', ''5'']"
  let ?x = "\<lparr>bs_botcmds = None, bs_botsettings = Some h, bs_set_ulevel = 50, bs_authcb = None\<rparr>"
  have list: "\<not> irc_eq ''LIMIT'' ''LIST''" by code_simp
  have five: "atoi ''5'' = 5" by code_simp
  have found: "obj h ''LIMIT'' = Some 9" "hnode_find h ''LIMIT'' = Some (Some 9)" using h hnode_find_obj [OF h(1)] by simp_all
  have level: "getuserlevel sample_config ?p ?s = Some (60, ?s)" by (rule sample_level) simp
  have s: "ca_av ?p = [''LIMIT'', ''5'']" "s_bot ?s (ca_bot ?p) = Some ?x" "s_setting ?s 9 = Some sample_setting"
    by (simp_all add: sample_services_def sample_call_def)
  have st: "st_handler sample_setting = None" "st_varptr sample_setting = 20" "st_type sample_setting = SET_TYPE_INT" "st_ulevel sample_setting = 50"
    "st_min sample_setting = 1" "st_max sample_setting = 9"
    by (simp_all add: sample_setting_def)
  have handler: "bot_cmd_set_handlers sample_hooks 6 ?p sample_setting SET_TYPE_INT ?s =
      Some (NS_SUCCESS, store_setting 6 sample_setting (IntVal 5) (IntVal 5) ?s)"
    using five st s(1) by (simp add: bot_cmd_set_int_def param1_def validated_def del: bind_eq_Some_conv)
  have run: "bot_cmd_set sample_config sample_hooks 6 ?p ?s = Some (NS_SUCCESS, store_setting 6 sample_setting (IntVal 5) (IntVal 5) ?s)"
    using level s list found(2) st handler by (simp add: bot_cmd_set_def change_setting_def del: bind_eq_Some_conv)
  have old: "s_var ?s (st_varptr sample_setting) = Some (IntVal 3)" "within sample_setting (IntVal 3)"
    by (simp_all add: sample_services_def sample_setting_def)
  have x: "bs_botsettings ?x = Some h" by simp
  from SET_stays_within [OF run s(1) list s(2) x h(1) found(1) s(3) st(1) old] obtain v where
    "s_var (store_setting 6 sample_setting (IntVal 5) (IntVal 5) ?s) 20 = Some v" "within sample_setting v"
    unfolding st(2) by (elim exE conjE)
  with run show ?thesis by (intro exI conjI)
qed

theorem SET_takes_malformed_address_witness:
  "\<exists>s'. bot_cmd_set_ipv4 sample_hooks 6 (sample_call [] [''ADDR'', ''no address'']) (sample_setting\<lparr>st_max := 16\<rparr>)
      (sample_services (small_net 0) None None) = Some (NS_SUCCESS, s') \<and> s_var s' 20 = Some (StrVal ''no address'')"
proof -
  have "ca_av (sample_call [] [''ADDR'', ''no address'']) = [''ADDR'', ''no address'']" "c_inet_addr sample_hooks ''no address'' = -1"
      "0 < st_max (sample_setting\<lparr>st_max := 16\<rparr>)"
    by (simp_all add: sample_call_def sample_hooks_def)
  from SET_takes_malformed_address [OF this, of 6 "sample_services (small_net 0) None None"] show ?thesis
    by (auto simp: sample_setting_def strlcpy_str_def)
qed

text \<open>A server, and a user who is a bot.\<close>

theorem private_from_server_crashes_witness:
  "\<exists>n. FindServer n ''hub.net'' = Some 1 \<and> FindUser n ''Fish'' = Some 3 \<and>
    bot_private sample_config sample_hooks sample_env ''hub.net'' [''Fish'', ''HELP''] (sample_services n None None) = None"
proof -
  obtain n c r where n: "reachable plain_names n" "uview n = [3 \<mapsto> (''Fish'', [], False)]" "sview n = [1 \<mapsto> ''hub.net'']"
    "clients n 3 = Some c" "c_user c = Some r" "server_of n 1 \<noteq> None"
    using sample_user_on by blast
  define n1 where "n1 = n\<lparr>clients := (clients n)(3 \<mapsto> c\<lparr>c_user := Some (r\<lparr>u_bot := 5\<rparr>)\<rparr>)\<rparr>"
  have up: "upd_user 3 (\<lambda>r. r\<lparr>u_bot := 5\<rparr>) n = Some n1"
    using n(4,5) by (simp add: upd_user_def upd_client_def user_of_def n1_def)
  have core: "core n1 = core n" using core_upd_user [OF up] by simp
  have g: "good plain_names n1" using good_core [OF reachable_good [OF n(1) coherent_plain] core] .
  note ok = good_ok [OF g]
  have view: "uview n1 = [3 \<mapsto> (''Fish'', [], False)]" "sview n1 = [1 \<mapsto> ''hub.net'']" using core n(2,3) by (simp_all add: core_eq_iff)
  have u: "FindUser n1 ''Fish'' = Some 3" using FindUser_iff [OF ok] view(1) by (auto simp: irc_key_def)
  have sv: "FindServer n1 ''hub.net'' = Some 1" using FindServer_iff [OF ok] view(2) by (simp add: irc_key_def)
  have "\<not> irc_eq ''Fish'' ''hub.net''" by code_simp
  then have none: "FindUser n1 ''hub.net'' = Some 0" unfolding FindUser_none [OF ok] using view(1) by (simp add: irc_key_def)
  obtain c1 where c1: "clients n1 1 = Some c1" using n(6) by (auto simp: n1_def server_of_def)
  have nouser: "c_user c1 = None" using fun_cong [OF view(1), of 1] c1 by (cases "c_user c1") (auto simp: uview_def)
  have r: "user_of n1 3 = Some (r\<lparr>u_bot := 5\<rparr>)" by (simp add: n1_def user_of_def)
  have "\<not> IS_CTCP_MSG ''HELP''" by (simp add: IS_CTCP_MSG_def at_def)
  with private_from_server_crashes [of "sample_services n1 None None" "''hub.net''" 1 c1 "''Fish''" 3 "r\<lparr>u_bot := 5\<rparr>"] u sv none c1 nouser r
  show ?thesis by (auto simp: sample_services_def)
qed

theorem GetBotNick_free_witness:
  "\<exists>n r. FindUser n ''Fish'' = Some 3 \<and> GetBotNick (\<lambda>i. i) n ''Fish'' ''Cat'' 0 = Some r"
proof -
  obtain n where n: "reachable plain_names n" "uview n = [3 \<mapsto> (''Fish'', [], False)]" using sample_user_on by blast
  note ok = good_ok [OF reachable_good [OF n(1) coherent_plain]]
  have "FindUser n ''Fish'' = Some 3" using FindUser_iff [OF ok] n(2) by (auto simp: irc_key_def)
  then show ?thesis using GetBotNick_free [OF ok, of "\<lambda>i. i" "''Fish''" "''Cat''" 0] by blast
qed

theorem ctcp_request_leftover_witness:
  "ctcp_private sample_config sample_hooks (sample_call [] []) 4 (CHR 0x01 # ''PING'' @ [CHR 0x01]) (sample_services (small_net 0) None None) =
    req_handler sample_config sample_hooks CTCP_PING (sample_call [] []) 4 [CHR 0x01, NUL] (sample_services (small_net 0) None None)"
  by (rule ctcp_request_leftover) (simp add: ctcp_cmds_def)

theorem failed_chat_client_stays_witness:
  "\<exists>a s1 s2. AddDCCClient (sample_call [] []) ((sample_services (small_net 0) None None)\<lparr>s_net := (small_net 0)\<lparr>clients := [3 \<mapsto> (sample_fish 0)\<lparr>c_ip := 1\<rparr>]\<rparr>\<rparr>) = Some (a, s1) \<and>
    DCCChatStart sample_hooks a 1028 s1 = Some (NS_FAILURE, s2) \<and> s_dcclist s2 = [a]"
proof -
  let ?s = "(sample_services (small_net 0) None None)\<lparr>s_net := (small_net 0)\<lparr>clients := [3 \<mapsto> (sample_fish 0)\<lparr>c_ip := 1\<rparr>]\<rparr>\<rparr>"
  let ?c = "(sample_fish 0)\<lparr>c_ip := 1\<rparr>"
  have c: "clients (s_net ?s) (ca_source (sample_call [] [])) = Some ?c" "s_dcclist ?s = []" by (simp_all add: sample_call_def sample_services_def)
  obtain a s1 where add: "AddDCCClient (sample_call [] []) ?s = Some (a, s1)"
    using c(1) by (auto simp: AddDCCClient_def alloc_def)
  have "\<not> irc_eq [] ''Fish''" by code_simp
  then have "\<not> irc_eq (hk_pointer_text sample_hooks (ca_source (sample_call [] []))) (c_name ?c)" "0 < c_ip ?c" "\<not> hk_connect sample_hooks (c_ip ?c) 1028"
    by (simp_all add: sample_hooks_def sample_fish_def sample_client_def)
  from failed_chat_client_stays [OF add c(1) _ this] c(2) add show ?thesis by auto
qed

end
