(* ===== verification/BotChanProps.thy ===== *)
theory BotChanProps
  imports BotChan ServicesProps
begin

text \<open>
  Who hears a message to a channel: every bot on the channel that is not deaf, each once.
\<close>

section \<open>Events to modules\<close>

text \<open>The same state with more told to the modules.\<close>

definition told :: "outgoing list \<Rightarrow> services \<Rightarrow> services" where
  "told t s = s\<lparr>s_net := (s_net s)\<lparr>trace := trace (s_net s) @ t\<rparr>\<rparr>"

lemma told_simps [simp]:
  "told [] s = s" "told u (told t s) = told (t @ u) s" "bots (s_net (told t s)) = bots (s_net s)"
  "channels (s_net (told t s)) = channels (s_net s)" "user_of (s_net (told t s)) a = user_of (s_net s) a"
  "bothash (s_net (told t s)) = bothash (s_net s)" "bot_user b (told t s) = bot_user b s"
  by (simp_all add: told_def user_of_def bot_user_def)

lemma to_module_told:
  "bots (s_net s) (ca_bot p) = Some b \<Longrightarrow> to_module e p target param s = Some (told [ToModule e (call_params p target param) (b_module b)] s)"
  by (simp add: to_module_def told_def SendModuleEvent_def emit_def)

section \<open>The walks\<close>

lemma next_chan_at: "chan \<notin> set pre \<Longrightarrow> next_chan (pre @ chan # rest) chan = Some (case rest of [] \<Rightarrow> None | x # _ \<Rightarrow> Some x)"
  by (subst next_chan_def, subst dropWhile_append2) (auto split: list.split)

text \<open>What the bot of the call hears on the channels \<open>cs\<close>, when the message is for a channel named \<open>name\<close>.\<close>

definition heard :: "event_kind \<Rightarrow> call \<Rightarrow> addr \<Rightarrow> string \<Rightarrow> string list \<Rightarrow> outgoing list" where
  "heard e p m name cs = concat (map (\<lambda>x. if irc_eq name x then [ToModule e (call_params p 0 (ca_param p)) m] else []) cs)"

lemma heard_simps [simp]:
  "heard e p m name [] = []"
  "heard e p m name (x # cs) = (if irc_eq name x then [ToModule e (call_params p 0 (ca_param p)) m] else []) @ heard e p m name cs"
  by (simp_all add: heard_def)

lemma chan_walk_told:
  assumes "bots (s_net s) (ca_bot p) = Some bt" "channels (s_net s) (ca_channel p) = Some ch" "bot_user (ca_bot p) s = Some u"
    and "distinct (u_chans u)"
  shows "u_chans u = pre @ chan # rest \<Longrightarrow>
    chan_walk C H e False p chan (told t s) = Some (told (t @ heard e p (b_module bt) (ch_name ch) (chan # rest)) s)"
proof (induction rest arbitrary: pre chan t)
  case Nil
  have "next_chan (u_chans u) chan = Some None" using next_chan_at [of chan pre "[]"] assms(4) Nil by simp
  then show ?case using assms(1-3) by (subst chan_walk.simps) (simp add: hear_def to_module_told [of _ p bt])
next
  case (Cons x rest)
  have "next_chan (u_chans u) chan = Some (Some x)" using next_chan_at [of chan pre "x # rest"] assms(4) Cons.prems by simp
  moreover have "u_chans u = (pre @ [chan]) @ x # rest" using Cons.prems by simp
  note Cons.IH [OF this]
  ultimately show ?case using assms(1-3) by (subst chan_walk.simps) (simp add: hear_def to_module_told [of _ p bt])
qed

lemma each_bot_told:
  assumes "\<And>nd t. nd \<in> set ns \<Longrightarrow> step (hnode_get nd) (told t s) = Some (told (t @ f (hnode_get nd)) s)"
  shows "scan_loop (bothash (s_net s)) scan = Some ns \<Longrightarrow> each_bot step scan (told t s) = Some (told (t @ concat (map (f \<circ> hnode_get) ns)) s)"
  using assms
proof (induction ns arbitrary: scan t)
  case Nil
  from Nil(1) obtain sc where "hash_scan_next (bothash (s_net s)) scan = Some (None, sc)"
    by (subst (asm) scan_loop.simps) (auto split: option.splits)
  then show ?case by (subst each_bot.simps) simp
next
  case (Cons nd ns)
  from Cons.prems(1) obtain sc where next_node: "hash_scan_next (bothash (s_net s)) scan = Some (Some nd, sc)"
    "scan_loop (bothash (s_net s)) sc = Some ns"
    by (subst (asm) scan_loop.simps) (auto split: option.splits)
  have step: "step (hnode_get nd) (told t s) = Some (told (t @ f (hnode_get nd)) s)" using Cons.prems(2) [of nd t] by simp
  have "each_bot step sc (told (t @ f (hnode_get nd)) s) = Some (told (t @ f (hnode_get nd) @ concat (map (f \<circ> hnode_get) ns)) s)"
    using Cons.IH [OF next_node(2), of "t @ f (hnode_get nd)"] Cons.prems(2) by (simp add: comp_def)
  then show ?case using next_node step by (subst each_bot.simps) (simp add: comp_def)
qed

section \<open>Who hears\<close>

text \<open>The bots that can hear a message to the channel \<open>c\<close>: the members that are not deaf.\<close>

definition listens :: "net \<Rightarrow> addr \<Rightarrow> addr \<Rightarrow> bool" where
  "listens n c b \<longleftrightarrow> (\<exists>bt ch. bots n b = Some bt \<and> channels n c = Some ch \<and> \<not> has (b_flags bt) BOT_FLAG_DEAF \<and>
     b_u bt \<in> set (map cm_u (ch_members ch)))"

text \<open>Every bot of the table has its record and its user.\<close>

definition connected :: "net \<Rightarrow> bool" where
  "connected n \<longleftrightarrow> hash_inv (bothash n) \<and>
     (\<forall>nd\<in>set (h_nodes (bothash n)). \<exists>bt u. bots n (hnode_get nd) = Some bt \<and> user_of n (b_u bt) = Some u)"

lemma connected_inv: "connected n \<Longrightarrow> hash_inv (bothash n)"
  by (simp add: connected_def)

lemma connectedE:
  assumes "connected n" "nd \<in> set (h_nodes (bothash n))"
  obtains bt u where "bots n (hnode_get nd) = Some bt" "user_of n (b_u bt) = Some u"
proof -
  have "\<exists>bt u. bots n (hnode_get nd) = Some bt \<and> user_of n (b_u bt) = Some u" using assms unfolding connected_def by (elim conjE) (erule (1) bspec)
  then show thesis using that by (elim exE conjE)
qed

text \<open>On the list of a user the name of a channel stands at most once, also up to case.\<close>

lemma heard_once:
  assumes N: "coherent N" and ok: "good N n" and u: "user_of n a = Some u" and ch: "channels n c = Some ch"
  shows "heard e p m (ch_name ch) (u_chans u) =
    (if a \<in> set (map cm_u (ch_members ch)) then [ToModule e (call_params p 0 (ca_param p)) m] else [])"
proof -
  have dist: "distinct (u_chans u)" and mem: "ch_name ch \<in> set (u_chans u) \<longleftrightarrow> a \<in> set (map cm_u (ch_members ch))"
    using good_memberships [OF ok u ch] by auto
  have view: "cview n c = Some (ch_name ch, map cm_u (ch_members ch), ch_users ch)" using ch by (simp add: cview_def)
  have same: "irc_eq (ch_name ch) x \<longleftrightarrow> x = ch_name ch" if x: "x \<in> set (u_chans u)" for x
  proof -
    obtain d chd where d: "channels n d = Some chd" "ch_name chd = x" using good_no_dangling [OF ok] u x by blast
    have "cview n d = Some (x, map cm_u (ch_members chd), ch_users chd)" using d by (simp add: cview_def)
    then show ?thesis
      using named_unique_eq [OF net_okD(2) [OF good_ok [OF ok]] N, of c "ch_name ch" d x] view d ch irc_eq_refl by auto
  qed
  have "heard e p m (ch_name ch) cs =
      (if ch_name ch \<in> set cs then [ToModule e (call_params p 0 (ca_param p)) m] else [])" if "set cs \<subseteq> set (u_chans u)" "distinct cs" for cs
    using that by (induction cs) (auto simp: same)
  then show ?thesis using dist mem by simp
qed

lemma bot_hears_told:
  assumes N: "coherent N" and ok: "good N (s_net s)" and ch: "channels (s_net s) (ca_channel p) = Some ch" "\<not> IsServicesChannel ch"
    and b: "bots (s_net s) (ca_bot p) = Some bt" "user_of (s_net s) (b_u bt) = Some u"
  shows "bot_hears C H e False p (told t s) = Some (told (t @
    (if listens (s_net s) (ca_channel p) (ca_bot p) then [ToModule e (call_params p 0 (ca_param p)) (b_module bt)] else [])) s)"
proof -
  note once = heard_once [OF N ok b(2) ch(1), of e p "b_module bt"]
  have u: "bot_user (ca_bot p) s = Some u" using b by (simp add: bot_user_def)
  have dist: "distinct (u_chans u)" using good_memberships [OF ok b(2) ch(1)] by blast
  show ?thesis
  proof (cases "u_chans u")
    case Nil
    then show ?thesis using once b ch u by (auto simp: bot_hears_def listens_def split: if_splits)
  next
    case (Cons x xs)
    then have "chan_walk C H e False p x (told t s) = Some (told (t @ heard e p (b_module bt) (ch_name ch) (u_chans u)) s)"
      using chan_walk_told [OF b(1) ch(1) u dist, of "[]" x xs C H e t] by simp
    then show ?thesis using once b ch u Cons by (auto simp: bot_hears_def listens_def)
  qed
qed

text \<open>C20. Who hears: in a consistent network over names of which no two compare equal and hash apart, with a user for every bot of the table,
  a message to a channel that is not the services channel and that does not start with the command character reaches the module of
  every bot on the channel that is not deaf, once for each bot in the order of the table of bots, and no other module;
  nothing else changes.\<close>

theorem chan_message_heard:
  assumes "coherent N" "good N n" "connected n" "s_net s = n" "channels n c = Some ch" "\<not> IsServicesChannel ch"
    and "ca_channel p = c" "at (ca_param p @ [NUL]) 0 \<noteq> nc_cmdchar C"
  shows "bot_chan_event C H e p s = Some (s\<lparr>s_net := n\<lparr>trace := trace n @
    map (\<lambda>b. ToModule e (call_params (p\<lparr>ca_bot := b\<rparr>) 0 (ca_param p)) (b_module (the (bots n b))))
      (filter (listens n c) (map hnode_get (h_nodes (bothash n))))\<rparr>\<rparr>)"
proof -
  define f where "f b = (if listens n c b then [ToModule e (call_params (p\<lparr>ca_bot := b\<rparr>) 0 (ca_param p)) (b_module (the (bots n b)))] else [])" for b
  let ?step = "\<lambda>b. bot_hears C H e False (p\<lparr>ca_bot := b\<rparr>)" and ?bs = "map hnode_get (h_nodes (bothash n))"
  have step: "?step (hnode_get nd) (told t s) = Some (told (t @ f (hnode_get nd)) s)" if nd: "nd \<in> set (h_nodes (bothash n))" for nd t
  proof -
    obtain bt u where b: "bots n (hnode_get nd) = Some bt" "user_of n (b_u bt) = Some u" using assms(3) nd by (rule connectedE)
    have "?step (hnode_get nd) (told t s) = Some (told (t @
        (if listens (s_net s) (ca_channel p) (hnode_get nd) then [ToModule e (call_params (p\<lparr>ca_bot := hnode_get nd\<rparr>) 0 (ca_param p)) (b_module bt)] else [])) s)"
      using bot_hears_told [of N s "p\<lparr>ca_bot := hnode_get nd\<rparr>" ch bt u C H e t] assms(1,2,4-7) b by simp
    then show ?thesis using assms(4,7) b(1) by (simp only: f_def option.sel)
  qed
  have "scan_loop (bothash (s_net s)) (hash_scan_begin 0 (bothash n)) = Some (h_nodes (bothash n))"
    using hash_scan_all [of "bothash n"] connected_inv [OF assms(3)] assms(4) by (simp add: hash_scan_def)
  with step have "each_bot ?step (hash_scan_begin 0 (bothash n)) (told [] s) = Some (told ([] @ concat (map (f \<circ> hnode_get) (h_nodes (bothash n)))) s)"
    by (intro each_bot_told) auto
  moreover have "concat (map f bs) = map (\<lambda>b. ToModule e (call_params (p\<lparr>ca_bot := b\<rparr>) 0 (ca_param p)) (b_module (the (bots n b))))
      (filter (listens n c) bs)" for bs by (induction bs) (auto simp: f_def)
  note this [of ?bs]
  ultimately show ?thesis using assms(4,8) by (simp add: bot_chan_event_def comp_def) (simp add: told_def)
qed

section \<open>A message to a channel with a bot on it\<close>

lemma one_entry_table:
  "\<exists>h :: (string, addr) hash_t. hash_inv h \<and> h_nodes h \<noteq> [] \<and> (\<forall>nd\<in>set (h_nodes h). hnode_get nd = (v :: addr))"
proof -
  obtain h0 :: "(string, addr) hash_t" where h0: "hash_create COUNT_MAX hash_comp_default hash_fun_default = Some h0"
    "table_ok 1 h0" "obj h0 = (\<lambda>k. None)"
    using table_ok_create by blast
  have "\<exists>h. hnode_create_insert 1 h0 v ''Neo'' = Some h \<and> table_ok (Suc 1) h \<and> obj h = (\<lambda>j. if irc_key ''Neo'' j then Some v else obj h0 j)"
    by (rule obj_put [OF h0(2)]) (simp_all add: h0(3))
  then obtain h where h: "table_ok (Suc 1) h" "obj h = (\<lambda>j. if irc_key ''Neo'' j then Some v else None)"
    unfolding h0(3) by (elim exE conjE)
  have inv: "hash_inv h" using h(1) by (simp add: table_ok_def keyed_by_def)
  have "hnode_get nd = v" if "nd \<in> set (h_nodes h)" for nd
  proof -
    have "obj h (hn_key nd) = Some (hn_data nd)" using lookup_own_node [OF inv that] obj_lookup [OF h(1), of "hn_key nd"] by auto
    then show ?thesis using h(2) by (auto simp: hnode_get_def split: if_splits)
  qed
  moreover obtain nd where "hash_lookup h ''Neo'' = Some (Some nd)" using obj_node [OF h(1), of "''Neo''" v] h(2) by (auto simp: irc_key_def)
  then have "nd \<in> set (h_nodes h)" using hash_lookup_iff(1) [OF inv] by (simp add: holds_def)
  ultimately show ?thesis using inv by (intro exI [of _ h]) auto
qed

theorem chan_message_heard_witness:
  "\<exists>n c s s'. channels n c \<noteq> None \<and> s_net s = n \<and>
    bot_chan_event sample_config sample_hooks EVENT_CPRIVATE ((sample_call ''hello'' [])\<lparr>ca_channel := c\<rparr>) s = Some s' \<and> trace (s_net s') \<noteq> trace n"
proof -
  obtain n d r ch where n: "reachable plain_names n" "user_of n 3 = Some r" "channels n d = Some ch" "map cm_u (ch_members ch) = [3]"
    using sample_objects by (elim exE conjE)
  obtain h :: "(string, addr) hash_t" where h: "hash_inv h" "h_nodes h \<noteq> []" "\<forall>nd\<in>set (h_nodes h). hnode_get nd = (9 :: addr)" using one_entry_table [of 9] by (elim exE conjE)
  let ?ch = "ch\<lparr>ch_flags := 0\<rparr>" and ?bt = "\<lparr>b_name = ''Neo'', b_flags = 0, b_u = 3, b_module = 6\<rparr>"
  let ?n = "n\<lparr>bothash := h, bots := [9 \<mapsto> ?bt], channels := (channels n)(d \<mapsto> ?ch)\<rparr>"
  let ?p = "(sample_call ''hello'' [])\<lparr>ca_channel := d\<rparr>" and ?s = "sample_services ?n None None"
  have user: "user_of ?n 3 = Some r" using n(2) by (simp add: user_of_def)
  have "core ?n = core n" using n(3) by (simp add: core_def uview_def [abs_def] cview_def [abs_def] sview_def [abs_def] fun_eq_iff)
  then have ok: "good plain_names ?n" using good_core reachable_good [OF n(1) coherent_plain] by blast
  have con: "connected ?n" using h user by (auto simp: connected_def)
  have chan: "channels ?n d = Some ?ch" "\<not> IsServicesChannel ?ch" by (simp_all add: IsServicesChannel_def has_def)
  have hear: "listens ?n d 9" using arg_cong [OF n(4), of set] by (simp add: listens_def has_def)
  have cmd: "at (ca_param ?p @ [NUL]) 0 \<noteq> nc_cmdchar sample_config" by (simp add: sample_call_def sample_config_def at_def)
  have net: "s_net ?s = ?n" by (simp add: sample_services_def)
  have at_chan: "ca_channel ?p = d" by simp
  note res = chan_message_heard [OF coherent_plain ok con net chan at_chan cmd, of sample_hooks EVENT_CPRIVATE]
  have "h_nodes (bothash ?n) = h_nodes h" by simp
  moreover obtain nd nds where "h_nodes h = nd # nds" using h(2) by (cases "h_nodes h") simp_all
  moreover from this h(3) have "hnode_get nd = 9" by simp
  ultimately have "filter (listens ?n d) (map hnode_get (h_nodes (bothash ?n))) \<noteq> []" using hear by (simp only: list.map filter.simps if_True list.distinct not_False_eq_True)
  then have new: "trace (s_net (?s\<lparr>s_net := ?n\<lparr>trace := trace ?n @ map f (filter (listens ?n d) (map hnode_get (h_nodes (bothash ?n))))\<rparr>\<rparr>)) \<noteq> trace ?n" for f
    by simp
  have "channels ?n d \<noteq> None" by simp
  with net res new show ?thesis by (intro exI conjI)
qed

end
