(* ===== verification/Events.thy ===== *)
theory Events
  imports Users
begin

text \<open>
  \<^verbatim>\<open>src/nsevents.c\<close>: which of the events the core sends reach the functions of the modules. A module has an array
  of pointers to its event descriptions; their flags hold back an event from a module. What the functions do is
  not under the model: a description has the number of its function. Events for Perl scripts are left out.
\<close>

section \<open>Modules and their events\<close>

definition EVENT_FLAG_DISABLED :: uint where "EVENT_FLAG_DISABLED = 0x00000001"
definition EVENT_FLAG_IGNORE_SYNCH :: uint where "EVENT_FLAG_IGNORE_SYNCH = 0x00000002"
definition EVENT_FLAG_USE_EXCLUDE :: uint where "EVENT_FLAG_USE_EXCLUDE = 0x00000004"
definition EVENT_FLAG_EXCLUDE_ME :: uint where "EVENT_FLAG_EXCLUDE_ME = 0x00000008"
definition EVENT_FLAG_EXCLUDE_MODME :: uint where "EVENT_FLAG_EXCLUDE_MODME = 0x00000010"

lemmas event_flags = EVENT_FLAG_DISABLED_def EVENT_FLAG_IGNORE_SYNCH_def EVENT_FLAG_USE_EXCLUDE_def
  EVENT_FLAG_EXCLUDE_ME_def EVENT_FLAG_EXCLUDE_MODME_def

text \<open>The handler is \<open>None\<close> when the description has none.\<close>

record module_event =
  ev_event :: event_kind
  ev_handler :: "nat option"
  ev_flags :: uint

text \<open>The array of a module, if it has one: 0 for an event it does not listen to.\<close>

record event_module =
  em_synched :: bool
  em_list :: "(event_kind \<Rightarrow> addr) option"

record events =
  e_modules :: "addr \<Rightarrow> event_module option"
  e_objects :: "addr \<Rightarrow> module_event option"
  e_want_nickip :: bool

text \<open>The indices of the array, in their order.\<close>

definition all_events :: "event_kind list" where
  "all_events =
    [EVENT_MODULELOAD, EVENT_MODULEUNLOAD, EVENT_SERVER, EVENT_SQUIT, EVENT_PING, EVENT_PONG, EVENT_SIGNON,
     EVENT_QUIT, EVENT_NICKIP, EVENT_KILL, EVENT_LOCALKILL, EVENT_GLOBALKILL, EVENT_SERVERKILL, EVENT_BOTKILL,
     EVENT_NICK, EVENT_AWAY, EVENT_UMODE, EVENT_SMODE, EVENT_NEWCHAN, EVENT_DELCHAN, EVENT_JOIN, EVENT_PART,
     EVENT_PARTBOT, EVENT_EMPTYCHAN, EVENT_KICK, EVENT_KICKBOT, EVENT_TOPIC, EVENT_CMODE, EVENT_PRIVATE,
     EVENT_NOTICE, EVENT_CPRIVATE, EVENT_CNOTICE, EVENT_GLOBOPS, EVENT_CHATOPS, EVENT_WALLOPS,
     EVENT_CTCPVERSIONRPL, EVENT_CTCPVERSIONRPLBC, EVENT_CTCPVERSIONREQ, EVENT_CTCPVERSIONREQBC,
     EVENT_CTCPFINGERRPL, EVENT_CTCPFINGERRPLBC, EVENT_CTCPFINGERREQ, EVENT_CTCPFINGERREQBC,
     EVENT_CTCPACTIONREQ, EVENT_CTCPACTIONREQBC, EVENT_CTCPTIMERPL, EVENT_CTCPTIMERPLBC, EVENT_CTCPTIMEREQ,
     EVENT_CTCPTIMEREQBC, EVENT_CTCPPINGRPL, EVENT_CTCPPINGRPLBC, EVENT_CTCPPINGREQ, EVENT_CTCPPINGREQBC,
     EVENT_CTCPUNHANDLEDRPL, EVENT_CTCPUNHANDLEDRPLBC, EVENT_CTCPUNHANDLEDREQ, EVENT_CTCPUNHANDLEDREQBC,
     EVENT_DCCSEND, EVENT_DCCCHAT, EVENT_DCCCHATMSG, EVENT_ADDBAN, EVENT_DELBAN]"

lemma all_events [simp]: "e \<in> set all_events"
  by (cases e) (simp_all add: all_events_def)

definition upd_module :: "addr \<Rightarrow> (event_module \<Rightarrow> event_module) \<Rightarrow> events \<Rightarrow> events option" where
  "upd_module m f s = do { x \<leftarrow> e_modules s m; Some (s\<lparr>e_modules := (e_modules s)(m \<mapsto> f x)\<rparr>) }"

section \<open>Sending\<close>

text \<open>Is the user behind the source a bot of this module?\<close>

definition from_module :: "net \<Rightarrow> addr \<Rightarrow> addr \<Rightarrow> bool option" where
  "from_module n m source =
     (if source = 0 then Some False
      else do {
        c \<leftarrow> clients n source;
        case c_user c of
          None \<Rightarrow> Some False
        | Some r \<Rightarrow> if u_bot r = 0 then Some False else do { b \<leftarrow> bots n (u_bot r); Some (b_module b = m) } })"

text \<open>The function that runs, with the module to run it for, or none. The flags are tested in this order.\<close>

definition SendEvent :: "net \<Rightarrow> events \<Rightarrow> addr \<Rightarrow> cmdparams \<Rightarrow> addr \<Rightarrow> nat option option" where
  "SendEvent n s eventptr p m =
     (if eventptr = 0 then Some None
      else do {
        ev \<leftarrow> e_objects s eventptr;
        x \<leftarrow> e_modules s m;
        if \<not> em_synched x \<and> \<not> has (ev_flags ev) EVENT_FLAG_IGNORE_SYNCH then Some None
        else if has (ev_flags ev) EVENT_FLAG_DISABLED then Some None
        else do {
          me \<leftarrow> (if has (ev_flags ev) EVENT_FLAG_EXCLUDE_ME then IsMe n (cp_source p) else Some False);
          if me then Some None
          else do {
            own \<leftarrow> (if has (ev_flags ev) EVENT_FLAG_EXCLUDE_MODME then from_module n m (cp_source p) else Some False);
            if own then Some None
            else do {
              ex \<leftarrow> (if has (ev_flags ev) EVENT_FLAG_USE_EXCLUDE then IsExcluded n (cp_source p) else Some False);
              if ex then Some None
              else do { h \<leftarrow> ev_handler ev; Some (Some h) } } } } })"

text \<open>What an event of the core's trace makes run: the functions, each with its module, in the order they run.\<close>

definition module_event_runs :: "net \<Rightarrow> events \<Rightarrow> event_kind \<Rightarrow> cmdparams \<Rightarrow> addr \<Rightarrow> (addr \<times> nat) list option" where
  "module_event_runs n s e p m = do {
     x \<leftarrow> e_modules s m;
     case em_list x of
       None \<Rightarrow> Some []
     | Some evs \<Rightarrow> map_option (\<lambda>r. case r of None \<Rightarrow> [] | Some h \<Rightarrow> [(m, h)]) (SendEvent n s (evs e) p m)
   }"

fun all_module_runs :: "net \<Rightarrow> events \<Rightarrow> event_kind \<Rightarrow> cmdparams \<Rightarrow> addr list \<Rightarrow> (addr \<times> nat) list option" where
  "all_module_runs n s e p [] = Some []"
| "all_module_runs n s e p (m # ms) = do {
     xs \<leftarrow> module_event_runs n s e p m;
     ys \<leftarrow> all_module_runs n s e p ms;
     Some (xs @ ys) }"

section \<open>The arrays\<close>

text \<open>\<open>m\<close> is the module that runs. A new array is all null pointers. A description without a function is refused.\<close>

definition AddEvent :: "addr \<Rightarrow> addr \<Rightarrow> events \<Rightarrow> events option" where
  "AddEvent m eventptr s =
     (if eventptr = 0 then Some s
      else do {
        ev \<leftarrow> e_objects s eventptr;
        if ev_handler ev = None then Some s
        else do {
          s \<leftarrow> upd_module m (\<lambda>x. x\<lparr>em_list := Some ((case em_list x of Some evs \<Rightarrow> evs | None \<Rightarrow> (\<lambda>_. 0))(ev_event ev := eventptr))\<rparr>) s;
          Some (if ev_event ev = EVENT_NICKIP then s\<lparr>e_want_nickip := True\<rparr> else s) } })"

text \<open>\<open>None\<close> for a null pointer; else the descriptions of the array before the closing one.\<close>

fun add_events :: "addr \<Rightarrow> addr list \<Rightarrow> events \<Rightarrow> events option" where
  "add_events m [] s = Some s"
| "add_events m (a # as) s = do { s \<leftarrow> AddEvent m a s; add_events m as s }"

definition AddEventList :: "addr \<Rightarrow> addr list option \<Rightarrow> events \<Rightarrow> events option" where
  "AddEventList m evs s = (case evs of None \<Rightarrow> Some s | Some as \<Rightarrow> add_events m as s)"

definition DeleteEvent :: "addr \<Rightarrow> event_kind \<Rightarrow> events \<Rightarrow> events option" where
  "DeleteEvent m e s = upd_module m (\<lambda>x. x\<lparr>em_list := map_option (\<lambda>evs. evs(e := 0)) (em_list x)\<rparr>) s"

fun delete_events :: "addr \<Rightarrow> addr list \<Rightarrow> events \<Rightarrow> events option" where
  "delete_events m [] s = Some s"
| "delete_events m (a # as) s = do { ev \<leftarrow> e_objects s a; s \<leftarrow> DeleteEvent m (ev_event ev) s; delete_events m as s }"

definition DeleteEventList :: "addr \<Rightarrow> addr list option \<Rightarrow> events \<Rightarrow> events option" where
  "DeleteEventList m evs s = (case evs of None \<Rightarrow> Some s | Some as \<Rightarrow> delete_events m as s)"

definition FreeEventList :: "addr \<Rightarrow> events \<Rightarrow> events option" where
  "FreeEventList m s = upd_module m (\<lambda>x. x\<lparr>em_list := None\<rparr>) s"

section \<open>The flags\<close>

definition flag_event :: "uint \<Rightarrow> bool \<Rightarrow> addr \<Rightarrow> events \<Rightarrow> events option" where
  "flag_event flag enable a s = do {
     ev \<leftarrow> e_objects s a;
     Some (s\<lparr>e_objects := (e_objects s)(a \<mapsto>
       ev\<lparr>ev_flags := (if enable then set_flag (ev_flags ev) flag else clear_flag (ev_flags ev) flag)\<rparr>)\<rparr>)
   }"

fun flag_events :: "uint \<Rightarrow> bool \<Rightarrow> (event_kind \<Rightarrow> addr) \<Rightarrow> event_kind list \<Rightarrow> events \<Rightarrow> events option" where
  "flag_events flag enable evs [] s = Some s"
| "flag_events flag enable evs (e # es) s = do {
     s \<leftarrow> (if evs e \<noteq> 0 then flag_event flag enable (evs e) s else Some s);
     flag_events flag enable evs es s }"

definition SetAllEventFlags :: "addr \<Rightarrow> uint \<Rightarrow> bool \<Rightarrow> events \<Rightarrow> events option" where
  "SetAllEventFlags m flag enable s = do {
     x \<leftarrow> e_modules s m;
     case em_list x of None \<Rightarrow> Some s | Some evs \<Rightarrow> flag_events flag enable evs all_events s
   }"

definition SetEventFlags :: "addr \<Rightarrow> event_kind \<Rightarrow> uint \<Rightarrow> bool \<Rightarrow> events \<Rightarrow> events option" where
  "SetEventFlags m e flag enable s = do {
     x \<leftarrow> e_modules s m;
     case em_list x of
       None \<Rightarrow> Some s
     | Some evs \<Rightarrow> if evs e = 0 then Some s else flag_event flag enable (evs e) s
   }"

definition EnableEvent :: "addr \<Rightarrow> event_kind \<Rightarrow> events \<Rightarrow> events option" where
  "EnableEvent m e s = SetEventFlags m e EVENT_FLAG_DISABLED False s"

definition DisableEvent :: "addr \<Rightarrow> event_kind \<Rightarrow> events \<Rightarrow> events option" where
  "DisableEvent m e s = SetEventFlags m e EVENT_FLAG_DISABLED True s"

section \<open>What the flags do\<close>

text \<open>The object at an address after its flags were set.\<close>

definition flagged :: "uint \<Rightarrow> bool \<Rightarrow> module_event \<Rightarrow> module_event" where
  "flagged flag enable ev = ev\<lparr>ev_flags := (if enable then set_flag (ev_flags ev) flag else clear_flag (ev_flags ev) flag)\<rparr>"

lemma flagged_twice [simp]: "flagged flag enable (flagged flag enable ev) = flagged flag enable ev"
  by (simp add: flagged_def set_flag_def clear_flag_def or.assoc and.assoc)

lemma flag_events_objects:
  assumes "\<forall>e\<in>set es. evs e \<noteq> 0 \<longrightarrow> e_objects s (evs e) \<noteq> None"
  shows "\<exists>s'. flag_events flag enable evs es s = Some s' \<and> e_modules s' = e_modules s \<and>
    e_objects s' = (\<lambda>a. if a \<noteq> 0 \<and> a \<in> evs ` set es then map_option (flagged flag enable) (e_objects s a) else e_objects s a)"
  using assms
proof (induction es arbitrary: s)
  case (Cons e es)
  show ?case
  proof (cases "evs e = 0")
    case True
    then have "(a \<noteq> 0 \<and> a \<in> evs ` set (e # es)) = (a \<noteq> 0 \<and> a \<in> evs ` set es)" for a by auto
    with True show ?thesis using Cons.IH [of s] Cons.prems by simp
  next
    case False
    then obtain ev where ev: "e_objects s (evs e) = Some ev" using Cons.prems by auto
    define s1 where "s1 = s\<lparr>e_objects := (e_objects s)(evs e \<mapsto> flagged flag enable ev)\<rparr>"
    have one: "flag_event flag enable (evs e) s = Some s1" using ev by (simp add: flag_event_def s1_def flagged_def)
    have "\<forall>e\<in>set es. evs e \<noteq> 0 \<longrightarrow> e_objects s1 (evs e) \<noteq> None" using Cons.prems by (auto simp: s1_def)
    from Cons.IH [OF this] obtain s' where s': "flag_events flag enable evs es s1 = Some s'" "e_modules s' = e_modules s1"
        "e_objects s' = (\<lambda>a. if a \<noteq> 0 \<and> a \<in> evs ` set es then map_option (flagged flag enable) (e_objects s1 a) else e_objects s1 a)"
      by blast
    have "e_objects s' = (\<lambda>a. if a \<noteq> 0 \<and> a \<in> evs ` set (e # es) then map_option (flagged flag enable) (e_objects s a) else e_objects s a)"
      using s'(3) ev False by (auto simp: s1_def fun_eq_iff)
    then show ?thesis using False one s'(1,2) by (simp add: s1_def)
  qed
qed auto

text \<open>C21. Switching off: after a module has set the disabled flag for all its events, no event at all reaches one of its functions,
  whatever the state of the network; the descriptions that are not the module's are as they were.\<close>

theorem disabled_module_is_silent:
  assumes "e_modules s m = Some x" "em_list x = Some evs" "\<forall>e. evs e \<noteq> 0 \<longrightarrow> e_objects s (evs e) \<noteq> None"
  shows "\<exists>s'. SetAllEventFlags m EVENT_FLAG_DISABLED True s = Some s' \<and> (\<forall>n e p. module_event_runs n s' e p m = Some []) \<and>
    (\<forall>a. a \<notin> range evs \<longrightarrow> e_objects s' a = e_objects s a)"
proof -
  obtain s' where s': "flag_events EVENT_FLAG_DISABLED True evs all_events s = Some s'" "e_modules s' = e_modules s"
      "e_objects s' = (\<lambda>a. if a \<noteq> 0 \<and> a \<in> evs ` set all_events then map_option (flagged EVENT_FLAG_DISABLED True) (e_objects s a) else e_objects s a)"
    using flag_events_objects [of all_events evs s EVENT_FLAG_DISABLED True] assms(3) by blast
  have off: "has (ev_flags (flagged EVENT_FLAG_DISABLED True ev)) EVENT_FLAG_DISABLED" for ev
  proof -
    have "bit ((ev_flags ev OR 1) AND 1) 0" by (simp add: bit_simps)
    then have "(ev_flags ev OR 1) AND 1 \<noteq> 0" by force
    then show ?thesis by (simp add: flagged_def has_def set_flag_def EVENT_FLAG_DISABLED_def)
  qed
  have "module_event_runs n s' e p m = Some []" for n e p
  proof (cases "evs e = 0")
    case True
    then show ?thesis using assms(1,2) s'(2) by (simp add: module_event_runs_def SendEvent_def)
  next
    case False
    then obtain ev where "e_objects s (evs e) = Some ev" using assms(3) by blast
    then have "e_objects s' (evs e) = Some (flagged EVENT_FLAG_DISABLED True ev)" using s'(3) False by simp
    then show ?thesis using assms(1,2) s'(2) off by (simp add: module_event_runs_def SendEvent_def)
  qed
  moreover have "e_objects s' a = e_objects s a" if "a \<notin> range evs" for a using that s'(3) by auto
  ultimately show ?thesis using assms(1,2) s'(1) by (auto simp: SetAllEventFlags_def)
qed

text \<open>A module that listens to one event.\<close>

definition sample_events :: events where
  "sample_events =
     \<lparr>e_modules = [6 \<mapsto> \<lparr>em_synched = True, em_list = Some (\<lambda>e. if e = EVENT_JOIN then 9 else 0)\<rparr>],
      e_objects = [9 \<mapsto> \<lparr>ev_event = EVENT_JOIN, ev_handler = Some 1, ev_flags = EVENT_FLAG_EXCLUDE_ME\<rparr>], e_want_nickip = False\<rparr>"

theorem disabled_module_is_silent_witness:
  "\<exists>s'. module_event_runs blank_net sample_events EVENT_JOIN no_params 6 = Some [(6, 1)] \<and>
    SetAllEventFlags 6 EVENT_FLAG_DISABLED True sample_events = Some s' \<and>
    module_event_runs blank_net s' EVENT_JOIN no_params 6 = Some []"
proof -
  let ?x = "\<lparr>em_synched = True, em_list = Some (\<lambda>e. if e = EVENT_JOIN then 9 else 0 :: nat)\<rparr>"
  let ?evs = "\<lambda>e. if e = EVENT_JOIN then 9 else 0 :: nat"
  have runs: "module_event_runs blank_net sample_events EVENT_JOIN no_params 6 = Some [(6, 1)]"
    by (simp add: module_event_runs_def SendEvent_def sample_events_def has_def event_flags IsMe_def client_flag_def no_params_def)
  have "e_modules sample_events 6 = Some ?x" "em_list ?x = Some ?evs" "\<forall>e. ?evs e \<noteq> 0 \<longrightarrow> e_objects sample_events (?evs e) \<noteq> None"
    by (simp_all add: sample_events_def)
  from disabled_module_is_silent [OF this] runs show ?thesis by blast
qed

end
