(* ===== verification/Spec2Isabelle.thy ===== *)
theory Spec2Isabelle
  imports Validate KListSort Timer ModeProps Sessions BotChanProps Events
begin

text \<open>
  NeoStats is a framework for IRC services written in C: one process that links to an IRC network as if it were
  a server, keeps a copy of the network in memory, and carries bots whose commands and settings modules provide.
  The development models its core, the files of \<^verbatim>\<open>src/\<close> and the protocol module for Unreal 3.2, from the character
  tables up to sessions of lines.

  \<^bold>\<open>How the program works.\<close> A line from the server is cut into origin, command and arguments (\<^verbatim>\<open>ircprotocol.c\<close>), the
  command is looked up in the tables of the protocol module and of the core (\<^verbatim>\<open>unreal32.c\<close>, \<^verbatim>\<open>ircrecv.c\<close>), and its
  handler changes the copy of the network (\<^verbatim>\<open>users.c\<close>, \<^verbatim>\<open>channels.c\<close>, \<^verbatim>\<open>servers.c\<close>, \<^verbatim>\<open>modes.c\<close>, \<^verbatim>\<open>bans.c\<close>,
  \<^verbatim>\<open>exclude.c\<close>), which stands in hash tables and linked lists (\<^verbatim>\<open>hash.c\<close>, \<^verbatim>\<open>list.c\<close>). Every change is told to the
  modules as an event (\<^verbatim>\<open>nsevents.c\<close>). A message to a bot goes to a command of the bot, or as a CTCP request to its
  module (\<^verbatim>\<open>bots.c\<close>, \<^verbatim>\<open>commands.c\<close>, \<^verbatim>\<open>ctcp.c\<close>, \<^verbatim>\<open>dcc.c\<close>); commands ask for the level of the user (\<^verbatim>\<open>auth.c\<close>) and may
  change the settings of the bot (\<^verbatim>\<open>settings.c\<close>). Modules are also called by timers (\<^verbatim>\<open>timer.c\<close>).

  \<^bold>\<open>Strings and libraries of the program.\<close>
  \<^item> \<open>Prelude\<close>: C characters and strings (a string is its text before the NUL), return codes, buffer sizes, the
    collections \<open>irc_simps\<close>, \<open>list_ops\<close> and \<open>state_frame\<close> and the general lemmas.
  \<^item> \<open>CharTables\<close>: the tables \<open>ToLowerTab\<close>, \<open>ToUpperTab\<close>, \<open>CharAttrs\<close> of \<^verbatim>\<open>match.c\<close>. \<open>IrcString\<close> and
    \<open>IrcPrintf\<close>: \<^verbatim>\<open>ircstring.c\<close>, the comparison without case and the replacement of \<^verbatim>\<open>snprintf\<close>, which writes the
    reference rendering cut to its buffer.
  \<^item> \<open>Support\<close>: \<^verbatim>\<open>support.c\<close>. \<open>Misc\<close> and \<open>Validate\<close>: \<^verbatim>\<open>misc.c\<close>, splitting and joining lines, cleaning,
    validators.
  \<^item> \<open>Match\<close>: \<^verbatim>\<open>match.c\<close>. The matcher walks two pointers; it is sound for every mask, and it decides the wildcard
    relation \<open>wild\<close> when its limit of 512 rounds is enough. Collapsing a mask keeps its meaning.
  \<^item> \<open>KList\<close>, \<open>KListRefine\<close>, \<open>KListSort\<close>: \<^verbatim>\<open>list.c\<close>. \<open>KList\<close> is the code on an explicit heap of nodes, \<open>KListRefine\<close>
    shows that each operation does to the sequence of nodes what its name says (\<open>is_list h l ns\<close>), \<open>KListSort\<close> that
    sorting sorts. The parts above use sequences in place of lists; these theorems are the reason they may.
  \<^item> \<open>HashTable\<close>, \<open>HashRefine\<close>, \<open>KeyedTable\<close>: \<^verbatim>\<open>hash.c\<close>. The table with its growing and shrinking, its invariant, and
    what a client relies on: the locale \<open>keyed_table\<close> states the contract of a table under a relation between keys,
    its lemmas are what users, servers, channels and bans need, and the interpretation \<open>irc_table\<close> discharges the
    contract for the code with the comparison the core uses. The hash function folds other letters than the
    comparison, so the contract holds for keys that the two treat alike (\<open>coherent\<close>), and one theorem shows what
    happens otherwise.
  \<^item> \<open>Timer\<close>: \<^verbatim>\<open>timer.c\<close>. The locale \<open>timed_queue\<close> states what a list in the order of the next run keeps; the
    interpretation \<open>tq\<close> discharges it for the code. \<open>timer_run\<close> is the step relation of modules that add, delete and
    change timers, and of handlers that do so while they run.

  \<^bold>\<open>The network.\<close>
  \<^item> \<open>Network\<close>: the records of \<^verbatim>\<open>include/neostats.h\<close>. Clients (users and servers), channels, bans and bots live at
    addresses, 0 is the null pointer, and the record \<open>net\<close> holds the maps from addresses to objects, the four hash
    tables (real tables of \<open>HashTable\<close>, not maps), the counters and \<open>trace\<close>, what was told to modules and the server.
  \<^item> \<open>Exclude\<close>, \<open>Channels\<close>, \<open>Users\<close>, \<open>Servers\<close>, \<open>Bans\<close>, \<open>Modes\<close>: the files of the same names, \<^verbatim>\<open>base64.c\<close> with
    the servers, and the parts of \<^verbatim>\<open>bots.c\<close> and \<^verbatim>\<open>ircsend.c\<close> these call. \<open>ModeProps\<close>: letters and masks of modes
    are translated into each other without loss.
  \<^item> \<open>NetState\<close>, \<open>NetOps\<close>, \<open>NetTotal\<close>, \<open>NetProps\<close>: the invariant \<open>good N n\<close> (member lists and channel lists
    agree, no dangling reference, the tables find what is there, the counters are exact, for names of the set
    \<open>N\<close>), its preservation by every handler, the steps \<open>net_step\<close> and the states \<open>reachable\<close> from the start of the
    core, then the theorems that handlers return and what they do.
  \<^item> \<open>IrcProtocol\<close>, \<open>IrcRecv\<close>, \<open>Unreal32\<close>: \<^verbatim>\<open>ircprotocol.c\<close>, \<^verbatim>\<open>ircrecv.c\<close>,
    \<^verbatim>\<open>modules/protocol/unreal32.c\<close>: lines, the handlers and the dispatch. \<open>LineParse\<close>: what a line is cut
    into, and that a line written by the rules is read back. \<open>LineProps\<close>, \<open>Sessions\<close>: every line keeps the invariant;
    the relation \<open>session\<close> starts with the core and adds a line a step.

  \<^bold>\<open>The services.\<close>
  \<^item> \<open>Events\<close>: \<^verbatim>\<open>nsevents.c\<close>, which events reach a module.
  \<^item> \<open>Auth\<close>: \<^verbatim>\<open>auth.c\<close> and the flood check of \<^verbatim>\<open>bots.c\<close>. \<open>Services\<close>: the state of the services, \<open>services\<close>, around
    the network: commands, settings, the variables behind settings, the configuration database, DCC clients.
  \<^item> \<open>Settings\<close>, \<open>Commands\<close>, \<open>Ctcp\<close>, \<open>BotMsg\<close>, \<open>BotChan\<close>: \<^verbatim>\<open>settings.c\<close>, \<^verbatim>\<open>commands.c\<close>, \<^verbatim>\<open>ctcp.c\<close> with
    \<^verbatim>\<open>dcc.c\<close>, and the part of \<^verbatim>\<open>bots.c\<close> that takes messages to a bot or to a channel, looks for a nick and makes the
    record of a bot.
  \<^item> \<open>ServicesProps\<close>: who gets a level and how long it lasts, the flood limit, what a caller without the level can
    do (nothing), what SET stores, that levels survive a restart, that the search for a nick is right. \<open>BotChanProps\<close>: a
    message to a channel is heard by the bots on it, each once.

  \<^bold>\<open>Conventions.\<close> A definition has the name of the C function. An operation that the C code can leave by a failed
  assertion, a null or dangling pointer or an index outside its array has an \<open>option\<close> type, and \<open>None\<close> is that crash;
  an address that the code compares with NULL is 0 when it is NULL. Errors the code reports are its own return codes.
  Integers are words of their width where the code depends on it, and \<open>int\<close> or \<open>nat\<close> where a range is shown. Functions
  that modules hang into the core (handlers of commands and settings) are held by number, and \<open>hooks\<close> says what a
  number does; the C library, the resolver, the clock and random numbers are the fields of \<open>env\<close> or arguments. No
  theorem assumes more of them than its statement says. The set \<open>N\<close> of names, the bound on addresses (\<open>room\<close>) and the
  range of bytes (\<open>plain\<close>) in the theorems on the network are the limits inside which the tables and the comparison
  agree. Outside them the program does go wrong: of two nicks that compare equal and hash apart, one can be taken for the
  other in a list of members. The theorems that show such failures are kept beside the others.

  \<^bold>\<open>Fuel.\<close> Loops over sequences recurse on the sequence, and loops that count recurse with a measure. The walks of \<open>BotChan\<close>
  over lists that a command may change, and the scans of a table alone, are partial functions: a walk that never ends is \<open>None\<close>. Fuel stands in few
  places. The 512 rounds of \<open>match\<close> are the limit of the code itself. Elsewhere running out is \<open>None\<close>: \<open>part_fuel\<close> for
  leaving a channel, which may make the last bots leave, each of them once; \<open>DelServer\<close> with the square of the number
  of servers and one, because each server below the one that splits is split in turn; the scans of tables
  (\<open>scan_table\<close>, \<open>TransverseMap\<close>, \<open>sync_server_leaf\<close>) with the number of entries and one or two, because each step
  passes an entry. The theorems on scans and \<open>NetTotal\<close> show that what is given is enough.

  \<^bold>\<open>Not modelled.\<close> Sockets, the resolver, the start of the process, logging and the configuration file are input and
  output of the operating system. The senders of \<^verbatim>\<open>ircsend.c\<close> and of the protocol module, replies to users, help texts
  and listings format text for a socket; that a line was sent is an entry of \<open>trace\<close>. Modules other than the protocol
  module are clients of the core and enter as functions in \<open>hooks\<close>; the other protocol modules are tables of the same
  form for other servers, and their parser \<open>parsep10\<close> is left out with them. Adding a bot (which
  connects it), lines on a DCC connection, private data of modules and the counters of how often a command was used are
  left out, and so is the recovery of the timer loop (and other callers of modules) from a crash inside a module by
  \<^verbatim>\<open>setjmp\<close>. A ban reaches a module as \<^verbatim>\<open>param\<close> of the event's record, and stands in \<open>cp_target\<close> in the model. The
  vendored libraries (pcre, curl, libevent, adns, confuse, nxml) are third-party code.
\<close>

end
